(* ===== verification/Inv_Prelude.thy ===== *)
theory Inv_Prelude
  imports Main "HOL-Library.Word" "HOL-Library.Sublist"
begin

text \<open>
  Shared vocabulary of the development: C characters and C strings.

  A C string is a \<^typ>\<open>string\<close> holding the bytes before the terminating NUL, so
  \<open>*ptr == '\0'\<close> is \<open>[]\<close>.  A \<open>const char *\<close> that walks through a string
  is the suffix of the string that starts where the pointer points; advancing a pointer is
  dropping characters, the distance of two pointers is the difference of the lengths, and two
  pointers into one string are equal iff the suffixes are.  A pointer that may be \<open>NULL\<close>
  is a \<open>string option\<close>.

  The theory fixes the character classes of \<open>ctype.h\<close> in the C locale, the comparison
  functions of \<open>string.h\<close>, the decimal reading of \<open>strtol\<close>/\<open>atoi\<close>, and the
  named collections the other theories extend.
\<close>

named_theorems suffix_intros \<open>results of pointer-moving operations are suffixes of the argument\<close>
named_theorems ptr_shorter \<open>pointer-moving operations that make progress\<close>

section \<open>Characters\<close>

abbreviation NUL :: char where "NUL \<equiv> CHR 0x00"
abbreviation TAB :: char where "TAB \<equiv> CHR 0x09"
abbreviation LF :: char where "LF \<equiv> CHR 0x0A"
abbreviation CR :: char where "CR \<equiv> CHR 0x0D"
abbreviation DQ :: char where "DQ \<equiv> CHR 0x22"
abbreviation SQ :: char where "SQ \<equiv> CHR 0x27"
abbreviation BSL :: char where "BSL \<equiv> CHR 0x5C"

definition isspace :: "char \<Rightarrow> bool" where
  "isspace c \<longleftrightarrow> c = CHR '' '' \<or> c = TAB \<or> c = LF \<or> c = CHR 0x0B \<or> c = CHR 0x0C \<or> c = CR"

definition isdigit :: "char \<Rightarrow> bool" where
  "isdigit c \<longleftrightarrow> 48 \<le> (of_char c :: nat) \<and> (of_char c :: nat) \<le> 57"

definition isupper :: "char \<Rightarrow> bool" where
  "isupper c \<longleftrightarrow> 65 \<le> (of_char c :: nat) \<and> (of_char c :: nat) \<le> 90"

definition islower :: "char \<Rightarrow> bool" where
  "islower c \<longleftrightarrow> 97 \<le> (of_char c :: nat) \<and> (of_char c :: nat) \<le> 122"

definition isalpha :: "char \<Rightarrow> bool" where
  "isalpha c \<longleftrightarrow> isupper c \<or> islower c"

definition tolower :: "char \<Rightarrow> char" where
  "tolower c = (if isupper c then char_of ((of_char c :: nat) + 32) else c)"

definition toupper :: "char \<Rightarrow> char" where
  "toupper c = (if islower c then char_of ((of_char c :: nat) - 32) else c)"

lemma isspace_simps [simp]:
  "isspace (CHR '' '')" "isspace TAB" "isspace LF" "isspace CR"
  "\<not> isspace BSL" "\<not> isspace DQ" "\<not> isspace SQ" "\<not> isspace (CHR '','')" "\<not> isspace (CHR ''='')"
  by (simp_all add: isspace_def)

lemma tolower_idem [simp]: "tolower (tolower c) = tolower c"
proof (cases "isupper c")
  case True
  then have "of_char (tolower c) = (of_char c :: nat) + 32"
    by (simp add: tolower_def isupper_def)
  then have "\<not> isupper (tolower c)"
    using True by (simp add: isupper_def)
  then show ?thesis by (simp add: tolower_def [of "tolower c"])
qed (simp add: tolower_def)

section \<open>Reading through a pointer\<close>

text \<open>\<open>*ptr\<close>: the first character, or the terminating NUL.\<close>

definition deref :: "string \<Rightarrow> char" where
  "deref s = (case s of [] \<Rightarrow> NUL | c # _ \<Rightarrow> c)"

lemma deref_simps [simp]: "deref [] = NUL" "deref (c # cs) = c"
  by (simp_all add: deref_def)

text \<open>The flag tests \<open>Flags & MASK\<close> on an \<open>int\<close> used as a bit set.\<close>

definition hasflag :: "nat \<Rightarrow> nat \<Rightarrow> bool" where
  "hasflag f m \<longleftrightarrow> and f m \<noteq> 0"

lemma hasflag_0 [simp]: "\<not> hasflag 0 m"
  by (simp add: hasflag_def)

lemma hasflag_or [simp]: "hasflag (or a b) m \<longleftrightarrow> hasflag a m \<or> hasflag b m"
proof -
  have "and (or a b) m = or (and a m) (and b m)"
    by (rule bit_eqI) (auto simp: bit_and_iff bit_or_iff)
  then show ?thesis by (simp add: hasflag_def or_eq_0_iff)
qed

lemma hasflag_or_mask: "hasflag f (or a b) \<longleftrightarrow> hasflag f a \<or> hasflag f b"
proof -
  have "and f (or a b) = or (and f a) (and f b)"
    by (rule bit_eqI) (auto simp: bit_and_iff bit_or_iff)
  then show ?thesis by (simp add: hasflag_def or_eq_0_iff)
qed

section \<open>Comparisons\<close>

text \<open>
  \<open>strcmp\<close> compares unsigned characters; only the sign of its result is specified, and only the
  sign is used, so the model returns \<open>-1\<close>, \<open>0\<close> or \<open>1\<close>.
\<close>

fun strcmp :: "string \<Rightarrow> string \<Rightarrow> int" where
  "strcmp [] [] = 0"
| "strcmp [] (d # ds) = -1"
| "strcmp (c # cs) [] = 1"
| "strcmp (c # cs) (d # ds) =
     (if c = d then strcmp cs ds else if (of_char c :: nat) < of_char d then -1 else 1)"

definition strcasecmp :: "string \<Rightarrow> string \<Rightarrow> int" where
  "strcasecmp a b = strcmp (map tolower a) (map tolower b)"

lemma strcmp_0_iff [simp]: "strcmp a b = 0 \<longleftrightarrow> a = b"
  by (induction a b rule: strcmp.induct) auto

lemma strcasecmp_0_iff: "strcasecmp a b = 0 \<longleftrightarrow> map tolower a = map tolower b"
  by (simp add: strcasecmp_def)

section \<open>Suffixes as pointers\<close>

lemma suffix_length: "suffix r s \<Longrightarrow> length r \<le> length s"
  by (rule suffix_length_le)

lemma suffix_tl_intro [suffix_intros]: "suffix (c # r) s \<Longrightarrow> suffix r s"
  by (meson suffix_ConsI suffix_order.trans suffix_order.refl)

lemma suffix_drop_intro [suffix_intros, simp]: "suffix (drop n s) s"
  by (rule suffix_drop)

lemma suffix_dropWhile_intro [suffix_intros, simp]: "suffix (dropWhile P s) s"
  by (rule suffix_dropWhile)

lemma length_dropWhile_Suc [simp]: "length (dropWhile P s) < Suc (length s)"
  by (simp add: le_imp_less_Suc length_dropWhile_le)

lemma suffix_dropWhile_Cons [simp]: "suffix (dropWhile P s) (c # s)"
  by (intro suffix_ConsI suffix_dropWhile)

lemma suffix_Cons_self [simp]: "suffix s (c # s)"
  by (simp add: suffix_ConsI)

lemma suffix_split: "suffix r s \<Longrightarrow> s = take (length s - length r) s @ r"
  by (auto simp: suffix_def)

lemma takeWhile_dropWhile_neq: "takeWhile (\<lambda>c. c \<noteq> x) s @ dropWhile (\<lambda>c. c \<noteq> x) s = s"
  by simp

section \<open>Reading numbers\<close>

text \<open>
  \<open>strtol\<close>/\<open>strtoll\<close> in base 10: skip white space, an optional sign, then digits; the
  value saturates at the bounds of a 64 bit \<open>long\<close>.  \<open>atoi\<close> is \<open>(int) strtol\<close>, the
  low 32 bits read as a signed number.
\<close>

definition digit_val :: "char \<Rightarrow> int" where
  "digit_val c = int (of_char c) - 48"

fun digits_val :: "int \<Rightarrow> string \<Rightarrow> int" where
  "digits_val acc [] = acc"
| "digits_val acc (c # cs) = (if isdigit c then digits_val (10 * acc + digit_val c) cs else acc)"

definition strtoll10 :: "string \<Rightarrow> int" where
  "strtoll10 s =
     (let t = dropWhile isspace s;
          v = (case t of
                 [] \<Rightarrow> 0
               | c # cs \<Rightarrow> if c = CHR ''-'' then - digits_val 0 cs
                           else if c = CHR ''+'' then digits_val 0 cs
                           else digits_val 0 t)
      in max (- (2 ^ 63)) (min (2 ^ 63 - 1) v))"

lemma res_case_iff: "(case x of Inr e \<Rightarrow> P e | Inl _ \<Rightarrow> False) \<longleftrightarrow> (\<exists>e. x = Inr e \<and> P e)"
  by (cases x) auto

definition int32_of :: "int \<Rightarrow> int" where
  "int32_of v = (v + 2 ^ 31) mod 2 ^ 32 - 2 ^ 31"

lemma int32_of_range: "- (2 ^ 31) \<le> int32_of v" "int32_of v < 2 ^ 31"
  by (simp_all add: int32_of_def)

text \<open>\<open>(long) n\<close> of an unsigned long, and an int compared with a \<open>size_t\<close>, which makes it unsigned.\<close>

definition int64_of :: "int \<Rightarrow> int" where
  "int64_of v = (v + 2 ^ 63) mod 2 ^ 64 - 2 ^ 63"

definition size_of_int :: "int \<Rightarrow> nat" where
  "size_of_int v = nat (v mod 2 ^ 64)"

lemma int64_of_id: "- (2 ^ 63) \<le> v \<Longrightarrow> v < 2 ^ 63 \<Longrightarrow> int64_of v = v"
  by (simp add: int64_of_def)

lemma int64_of_negative: "2 ^ 63 \<le> v \<Longrightarrow> v < 2 ^ 64 \<Longrightarrow> int64_of v = v - 2 ^ 64"
  using mod_pos_pos_trivial [of "v + 2 ^ 63 - 2 ^ 64" "2 ^ 64"] minus_mod_self2 [of "v + 2 ^ 63" "2 ^ 64"]
  by (simp add: int64_of_def)

lemma size_of_int_id: "0 \<le> v \<Longrightarrow> v < 2 ^ 64 \<Longrightarrow> int (size_of_int v) = v"
  by (simp add: size_of_int_def)

definition atoi :: "string \<Rightarrow> int" where
  "atoi s = int32_of (strtoll10 s)"

text \<open>\<open>printf("%d")\<close> and \<open>printf("%llu")\<close>.\<close>

fun nat_digits :: "nat \<Rightarrow> string" where
  "nat_digits n =
     (if n < 10 then [char_of (48 + n)]
      else nat_digits (n div 10) @ [char_of (48 + n mod 10)])"

declare nat_digits.simps [simp del]

definition fmt_d :: "int \<Rightarrow> string" where
  "fmt_d i = (if i < 0 then CHR ''-'' # nat_digits (nat (- i)) else nat_digits (nat i))"

definition fmt_u :: "nat \<Rightarrow> string" where
  "fmt_u n = nat_digits n"

lemma digit_char: "n < 10 \<Longrightarrow> isdigit (char_of (48 + n)) \<and> digit_val (char_of (48 + n)) = int n"
  by (simp add: isdigit_def digit_val_def)

lemma isdigit_not_space: "isdigit c \<Longrightarrow> \<not> isspace c"
  by (auto simp: isdigit_def isspace_def)

lemma digits_val_append:
  "\<forall>c \<in> set a. isdigit c \<Longrightarrow> digits_val acc (a @ b) = digits_val (digits_val acc a) b"
  by (induction a arbitrary: acc) auto

lemma nat_digits_isdigit: "\<forall>c \<in> set (nat_digits n). isdigit c"
proof (induction n rule: nat_digits.induct)
  case (1 n)
  then show ?case
    by (subst nat_digits.simps) (auto simp: digit_char)
qed

lemma digits_val_nat_digits: "digits_val 0 (nat_digits n) = int n"
proof (induction n rule: nat_digits.induct)
  case (1 n)
  show ?case
  proof (cases "n < 10")
    case True
    then show ?thesis by (simp add: nat_digits.simps [of n] digit_char)
  next
    case False
    then have "digits_val 0 (nat_digits n) =
        digits_val (digits_val 0 (nat_digits (n div 10))) [char_of (48 + n mod 10)]"
      by (simp add: nat_digits.simps [of n] digits_val_append nat_digits_isdigit)
    also have "\<dots> = 10 * int (n div 10) + int (n mod 10)"
      using 1 False by (simp add: digit_char)
    also have "\<dots> = int n" by presburger
    finally show ?thesis .
  qed
qed

lemma nat_digits_nonempty [simp]: "nat_digits n \<noteq> []"
  by (subst nat_digits.simps) simp

lemma strtoll10_nat_digits:
  assumes "n < 2 ^ 63"
  shows "strtoll10 (nat_digits n) = int n"
proof -
  obtain c cs where nd: "nat_digits n = c # cs" by (cases "nat_digits n") auto
  have dc: "isdigit c" using nat_digits_isdigit [of n] nd by simp
  then have ns: "\<not> isspace c" and nm: "c \<noteq> CHR ''-''" and np: "c \<noteq> CHR ''+''"
    by (auto simp: isdigit_def isspace_def)
  have "digits_val 0 (c # cs) = int n" using digits_val_nat_digits [of n] nd by simp
  moreover have "int n < 2 ^ 63" using assms by simp
  ultimately show ?thesis
    using ns nm np by (simp add: strtoll10_def nd Let_def)
qed

section \<open>Faults\<close>

text \<open>
  Where the C code reads past a terminator, follows a null pointer, or takes a string for a
  list, the model says so instead of inventing a value.  \<open>OutOfFuel\<close> is the result of a
  recursion whose fuel was too small; each fuelled definition has a lemma that the fuel it
  is given is enough.  \<open>EmbeddedNul\<close>: a NUL has been written inside a string under
  construction, which the string model does not follow further.  \<open>BadPointer\<close>: an uninitialised
  pointer, a freed object or a string literal is used as a live heap object.  \<open>DivideByZero\<close>: the
  remainder by zero traps.  \<open>Exited\<close> is not a
  fault of the program: \<open>exit(1)\<close> has been called.
\<close>

datatype fault =
  OutOfBounds | NullDeref | TypeConfusion | EmbeddedNul | BadPointer | DivideByZero | Exited | OutOfFuel

type_synonym 'a res = "fault + 'a"

definition bindr :: "'a res \<Rightarrow> ('a \<Rightarrow> 'b res) \<Rightarrow> 'b res" where
  "bindr m f = (case m of Inl e \<Rightarrow> Inl e | Inr x \<Rightarrow> f x)"

lemma bindr_simps [simp]: "bindr (Inl e) f = Inl e" "bindr (Inr x) f = f x"
  by (simp_all add: bindr_def)

lemma bindr_Inr_iff: "bindr m f = Inr y \<longleftrightarrow> (\<exists>x. m = Inr x \<and> f x = Inr y)"
  by (cases m) auto

lemma bindr_Inl_iff: "bindr m f = Inl e \<longleftrightarrow> m = Inl e \<or> (\<exists>x. m = Inr x \<and> f x = Inl e)"
  by (cases m) auto

lemma bindr_cong [fundef_cong]:
  "m = m' \<Longrightarrow> (\<And>x. m' = Inr x \<Longrightarrow> f x = g x) \<Longrightarrow> bindr m f = bindr m' g"
  by (cases m') auto

lemma bindr_assoc: "bindr (bindr m f) g = bindr m (\<lambda>x. bindr (f x) g)"
  by (cases m) auto

end
