(* ===== verification/CString.thy ===== *)
theory CString
  imports Inv_Prelude
begin

text \<open>
  The pure string operations of \<open>libUseful-4/String.c\<close> and \<open>GeneralFunctions.c\<close> that
  the program uses: stripping, quoting, case conversion, list matching, pointer traversal
  and the shell-safety filter.  A function that edits its argument in place returns the new
  contents of the buffer.  \<open>AddCharToBuffer\<close> writes at an explicit offset; the string length
  cache behind \<open>CatStr\<close> is the subject of theory \<open>StrLenCache\<close>.
\<close>

section \<open>NULL pointers\<close>

text \<open>The macros \<open>StrLen\<close>, \<open>StrValid\<close> and \<open>StrEnd\<close> accept \<open>NULL\<close>.\<close>

definition StrLen :: "string option \<Rightarrow> nat" where
  "StrLen s = (case s of None \<Rightarrow> 0 | Some t \<Rightarrow> length t)"

definition StrValid :: "string option \<Rightarrow> bool" where
  "StrValid s \<longleftrightarrow> (case s of None \<Rightarrow> False | Some t \<Rightarrow> t \<noteq> [])"

definition StrEnd :: "string option \<Rightarrow> bool" where
  "StrEnd s \<longleftrightarrow> (case s of None \<Rightarrow> True | Some t \<Rightarrow> t = [])"

lemma StrValid_simps [simp]:
  "\<not> StrValid None" "StrValid (Some t) \<longleftrightarrow> t \<noteq> []"
  "StrEnd None" "StrEnd (Some t) \<longleftrightarrow> t = []"
  "StrLen None = 0" "StrLen (Some t) = length t"
  by (simp_all add: StrValid_def StrEnd_def StrLen_def)

text \<open>\<open>CopyStr(dest, src)\<close>: a fresh copy; a \<open>NULL\<close> source gives the empty string.\<close>

definition CopyStr :: "string option \<Rightarrow> string" where
  "CopyStr s = (case s of None \<Rightarrow> [] | Some t \<Rightarrow> t)"

lemma CopyStr_simps [simp]: "CopyStr None = []" "CopyStr (Some t) = t"
  by (simp_all add: CopyStr_def)

definition CompareStr :: "string option \<Rightarrow> string option \<Rightarrow> int" where
  "CompareStr s1 s2 =
     (if StrEnd s1 \<and> StrEnd s2 then 0
      else if StrEnd s1 then -1
      else if StrEnd s2 then 1
      else strcmp (the s1) (the s2))"

section \<open>Case conversion, replacing characters\<close>

definition strlwr :: "string \<Rightarrow> string" where
  "strlwr s = map tolower s"

definition strupr :: "string \<Rightarrow> string" where
  "strupr s = map toupper s"

text \<open>
  \<open>strrep\<close> and \<open>strmrep\<close> overwrite in place; writing a NUL ends the string there, although
  the loop goes on over the rest of the old contents.
\<close>

definition cut_at_NUL :: "string \<Rightarrow> string" where
  "cut_at_NUL s = takeWhile (\<lambda>c. c \<noteq> NUL) s"

definition strrep :: "string \<Rightarrow> char \<Rightarrow> char \<Rightarrow> string" where
  "strrep s oldc newc = cut_at_NUL (map (\<lambda>c. if c = oldc then newc else c) s)"

definition strmrep :: "string \<Rightarrow> string \<Rightarrow> char \<Rightarrow> string" where
  "strmrep s oldchars newc = cut_at_NUL (map (\<lambda>c. if c \<in> set oldchars then newc else c) s)"

section \<open>Truncation and stripping\<close>

definition StrTrunc :: "string \<Rightarrow> nat \<Rightarrow> string" where
  "StrTrunc s n = (if length s > n then take n s else s)"

text \<open>
  \<open>StrTruncChar\<close>/\<open>StrRTruncChar\<close>: cut at the first/last occurrence, and say whether there is
  one.  Searching for NUL finds the terminator, where there is nothing to cut.
\<close>

definition StrTruncChar :: "string \<Rightarrow> char \<Rightarrow> bool \<times> string" where
  "StrTruncChar s t =
     (if t \<in> set s then (True, StrTrunc s (length (takeWhile (\<lambda>c. c \<noteq> t) s))) else (t = NUL, s))"

definition StrRTruncChar :: "string \<Rightarrow> char \<Rightarrow> bool \<times> string" where
  "StrRTruncChar s t =
     (if t \<in> set s
      then (True, StrTrunc s (length s - 1 - length (takeWhile (\<lambda>c. c \<noteq> t) (rev s))))
      else (t = NUL, s))"

definition StripTrailingWhitespace :: "string \<Rightarrow> string" where
  "StripTrailingWhitespace s = rev (dropWhile isspace (rev s))"

definition StripLeadingWhitespace :: "string \<Rightarrow> string" where
  "StripLeadingWhitespace s = dropWhile isspace s"

definition StripCRLF :: "string \<Rightarrow> string" where
  "StripCRLF s = rev (dropWhile (\<lambda>c. c = LF \<or> c = CR) (rev s))"

text \<open>
  \<open>StripQuotes\<close>: when the first non-space character is a quote and the last character of the
  string is the same quote, the text between them is moved to the start of the buffer.  For a
  string whose only non-space character is one quote, opening and closing quote coincide: the
  quote becomes the terminator and leading white space stays.
\<close>

definition StripQuotes :: "string \<Rightarrow> string" where
  "StripQuotes s =
     (let p = dropWhile isspace s in
      if (deref p = DQ \<or> deref p = SQ) \<and> last p = deref p
      then (if length p = 1 then takeWhile isspace s else butlast (tl p))
      else s)"

section \<open>Quoting\<close>

definition quote_char :: "string \<Rightarrow> char \<Rightarrow> string" where
  "quote_char qs c =
     (if c \<in> set qs
      then [BSL, if c = LF then CHR ''n'' else if c = CR then CHR ''r'' else c]
      else [c])"

definition QuoteCharsInStr :: "string \<Rightarrow> string \<Rightarrow> string" where
  "QuoteCharsInStr s qs = concat (map (quote_char qs) s)"

definition EnquoteStr :: "string \<Rightarrow> string" where
  "EnquoteStr s = QuoteCharsInStr s [SQ, DQ, CR, LF]"

text \<open>\<open>AddCharToBuffer(dest, len, c)\<close> writes \<open>c\<close> and a terminator at offset \<open>len\<close>; beyond the
  terminator of \<open>dest\<close> the write is not visible in the string.\<close>

definition AddCharToBuffer :: "string \<Rightarrow> nat \<Rightarrow> char \<Rightarrow> string" where
  "AddCharToBuffer dest n c = (if n \<le> length dest then take n dest @ [c] else dest)"

section \<open>Matching against a list of words\<close>

definition MATCH_TOKEN_PART :: nat where "MATCH_TOKEN_PART = 1"
definition MATCH_TOKEN_CASE :: nat where "MATCH_TOKEN_CASE = 2"

definition token_item_match :: "string \<Rightarrow> nat \<Rightarrow> string \<Rightarrow> bool" where
  "token_item_match token flags item \<longleftrightarrow>
     (deref item = tolower (deref token) \<or> deref item = toupper (deref token)) \<and>
     (if hasflag flags MATCH_TOKEN_PART
      then length item \<le> length token \<and>
           (if hasflag flags MATCH_TOKEN_CASE
            then strcmp (take (length item) token) item = 0
            else strcasecmp (take (length item) token) item = 0)
      else length token = length item \<and>
           (if hasflag flags MATCH_TOKEN_CASE
            then strcmp token item = 0
            else strcasecmp token item = 0))"

fun match_token_from :: "string \<Rightarrow> nat \<Rightarrow> int \<Rightarrow> string list \<Rightarrow> int" where
  "match_token_from token flags count [] = -1"
| "match_token_from token flags count (item # items) =
     (if token_item_match token flags item then count
      else match_token_from token flags (count + 1) items)"

definition MatchTokenFromList :: "string option \<Rightarrow> string list \<Rightarrow> nat \<Rightarrow> int" where
  "MatchTokenFromList token items flags =
     (case token of
        None \<Rightarrow> -1
      | Some t \<Rightarrow> if t = [] then -1 else match_token_from t flags 0 items)"

definition strtobool :: "string option \<Rightarrow> int" where
  "strtobool s =
     (if \<not> StrValid s then 0
      else if deref (the s) = CHR ''n'' \<or> deref (the s) = CHR ''N'' then 0
      else if deref (the s) = CHR ''y'' \<or> deref (the s) = CHR ''Y'' then 1
      else if strcasecmp (the s) ''true'' = 0 then 1
      else atoi (the s))"

definition istext :: "string \<Rightarrow> bool" where
  "istext s \<longleftrightarrow> list_all isalpha s"

definition isnum :: "string \<Rightarrow> bool" where
  "isnum s \<longleftrightarrow> list_all isdigit s"

section \<open>Pointer traversal (\<open>GeneralFunctions.c\<close>)\<close>

text \<open>\<open>ptr_incr\<close> never passes the terminator; it says whether it went the whole way.\<close>

definition ptr_incr :: "string \<Rightarrow> nat \<Rightarrow> bool \<times> string" where
  "ptr_incr p n = (n \<le> length p, drop n p)"

fun traverse_until :: "string \<Rightarrow> char \<Rightarrow> string" where
  "traverse_until [] t = []"
| "traverse_until [c] t = (if c = t then [c] else [])"
| "traverse_until (c # d # cs) t =
     (if c = t then c # d # cs
      else if c = BSL then traverse_until cs t
      else traverse_until (d # cs) t)"

definition traverse_quoted :: "string \<Rightarrow> string" where
  "traverse_quoted p = (case p of [] \<Rightarrow> [] | q # rest \<Rightarrow> traverse_until rest q)"

definition CommaList :: "string option \<Rightarrow> string \<Rightarrow> string" where
  "CommaList ret add = (if StrValid ret then the ret @ '', '' @ add else add)"

definition SHELLSAFE_BLANK :: nat where "SHELLSAFE_BLANK = 1"

definition shell_bad_chars :: string where
  "shell_bad_chars = '';|&`''"

definition MakeShellSafeString :: "string \<Rightarrow> nat \<Rightarrow> string" where
  "MakeShellSafeString s level =
     (if level = SHELLSAFE_BLANK then strmrep s shell_bad_chars (CHR '' '')
      else QuoteCharsInStr s shell_bad_chars)"

text \<open>\<open>GetBasename\<close> of \<open>FileSystem.c\<close>: the text after the last slash that is not the last character.\<close>

fun after_last_slash :: "string \<Rightarrow> string \<Rightarrow> string" where
  "after_last_slash best [] = best"
| "after_last_slash best (c # cs) =
     after_last_slash (if c = CHR ''/'' \<and> cs \<noteq> [] then cs else best) cs"

definition GetBasename :: "string \<Rightarrow> string" where
  "GetBasename path =
     (if length path = 0 then []
      else if length path = 1 then path
      else after_last_slash path path)"

section \<open>Facts about traversal\<close>

lemma suffix_Cons_intro: "suffix r cs \<Longrightarrow> suffix r (c # cs)"
  by (rule suffix_ConsI)

lemma traverse_until_suffix [suffix_intros, simp]: "suffix (traverse_until s t) s"
  by (induction s t rule: traverse_until.induct) (auto intro: suffix_ConsI)

lemma traverse_quoted_suffix [suffix_intros, simp]: "suffix (traverse_quoted s) s"
  by (cases s) (auto simp: traverse_quoted_def intro: suffix_ConsI)

lemma traverse_until_stops:
  "traverse_until s t = c # cs \<Longrightarrow> c = t"
  by (induction s t rule: traverse_until.induct) (auto split: if_splits)

lemma traverse_until_plain:
  "t \<notin> set a \<Longrightarrow> BSL \<notin> set a \<Longrightarrow> t \<noteq> BSL \<Longrightarrow> traverse_until (a @ t # r) t = t # r"
proof (induction a)
  case Nil
  then show ?case by (cases r) auto
next
  case (Cons c cs)
  then show ?case by (cases "cs @ t # r") auto
qed

lemma traverse_quoted_plain:
  "q \<notin> set a \<Longrightarrow> BSL \<notin> set a \<Longrightarrow> q \<noteq> BSL \<Longrightarrow> traverse_quoted (q # a @ q # r) = q # r"
  by (simp add: traverse_quoted_def traverse_until_plain)

lemma StripTrailingWhitespace_prefix: "prefix (StripTrailingWhitespace s) s"
  by (metis StripTrailingWhitespace_def suffix_dropWhile suffix_to_prefix rev_rev_ident)

lemma StripTrailingWhitespace_id:
  "s = [] \<or> \<not> isspace (last s) \<Longrightarrow> StripTrailingWhitespace s = s"
  by (cases s rule: rev_cases) (auto simp: StripTrailingWhitespace_def)

lemma StripTrailingWhitespace_snoc_space:
  "isspace c \<Longrightarrow> StripTrailingWhitespace (s @ [c]) = StripTrailingWhitespace s"
  by (simp add: StripTrailingWhitespace_def)

lemma StripTrailingWhitespace_last:
  "StripTrailingWhitespace s \<noteq> [] \<Longrightarrow> \<not> isspace (last (StripTrailingWhitespace s))"
  by (simp add: StripTrailingWhitespace_def last_rev hd_dropWhile)

lemma StripLeadingWhitespace_id:
  "\<not> isspace (deref s) \<Longrightarrow> StripLeadingWhitespace s = s"
  by (cases s) (auto simp: StripLeadingWhitespace_def)

lemma StripQuotes_quoted:
  assumes "q = DQ \<or> q = SQ"
  shows "StripQuotes (q # s @ [q]) = s"
proof -
  have "dropWhile isspace (q # s @ [q]) = q # s @ [q]"
    using assms by auto
  then show ?thesis
    using assms by (simp add: StripQuotes_def Let_def)
qed

lemma StripQuotes_id:
  "\<not> isspace (deref s) \<Longrightarrow> deref s \<noteq> DQ \<Longrightarrow> deref s \<noteq> SQ \<Longrightarrow> StripQuotes s = s"
  by (cases s) (auto simp: StripQuotes_def Let_def)

lemma AddCharToBuffer_snoc [simp]: "AddCharToBuffer s (length s) c = s @ [c]"
  by (simp add: AddCharToBuffer_def)

end
