(* ===== verification/Tokenizer.thy ===== *)
theory Tokenizer
  imports CString
begin

text \<open>
  \<open>libUseful-4/Tokenizer.c\<close>: cutting a string into tokens.  Every function of the file is
  here with its own loop; \<open>Pattern\<close>, \<open>start\<close>, \<open>end\<close> and \<open>SearchStr\<close> are suffixes, so each
  \<open>ptr++\<close> of the C code is a \<open>drop\<close>.

  The facts that the rest of the program needs: a call always moves the pointer forward, so
  every \<open>while (ptr) ptr=GetToken(ptr, ...)\<close> loop ends; with separators included and quotes
  kept the tokens concatenate to the input; and what a token is for the separator classes
  and quoting modes the program uses.
\<close>

section \<open>Flags\<close>

definition GETTOKEN_MULTI_SEP :: nat where "GETTOKEN_MULTI_SEP = 1"
definition GETTOKEN_HONOR_QUOTES :: nat where "GETTOKEN_HONOR_QUOTES = 2"
definition GETTOKEN_STRIP_QUOTES :: nat where "GETTOKEN_STRIP_QUOTES = 4"
definition GETTOKEN_QUOTES :: nat where "GETTOKEN_QUOTES = 6"
definition GETTOKEN_INCLUDE_SEP :: nat where "GETTOKEN_INCLUDE_SEP = 8"
definition GETTOKEN_APPEND_SEP :: nat where "GETTOKEN_APPEND_SEP = 16"
definition GETTOKEN_BACKSLASH :: nat where "GETTOKEN_BACKSLASH = 32"
definition GETTOKEN_STRIP_SPACE :: nat where "GETTOKEN_STRIP_SPACE = 64"

lemmas gettoken_flags =
  GETTOKEN_MULTI_SEP_def GETTOKEN_HONOR_QUOTES_def GETTOKEN_STRIP_QUOTES_def
  GETTOKEN_QUOTES_def GETTOKEN_INCLUDE_SEP_def GETTOKEN_APPEND_SEP_def
  GETTOKEN_BACKSLASH_def GETTOKEN_STRIP_SPACE_def

section \<open>Stepping and matching\<close>

text \<open>The character groups of the \<open>case\<close> labels.\<close>

definition tok_quote :: "char \<Rightarrow> bool" where
  "tok_quote c \<longleftrightarrow> c = DQ \<or> c = SQ"

definition tok_blank :: "char \<Rightarrow> bool" where
  "tok_blank c \<longleftrightarrow> c = CHR '' '' \<or> c = TAB \<or> c = LF \<or> c = CR"

definition tok_code :: "char \<Rightarrow> bool" where
  "tok_code c \<longleftrightarrow> c \<in> set ''()=!<>''"

lemmas tok_char_defs = tok_quote_def tok_blank_def tok_code_def

lemma tok_blank_isspace: "tok_blank c \<Longrightarrow> isspace c"
  by (auto simp: tok_blank_def isspace_def)

definition GetTokenStepThru :: "string \<Rightarrow> nat \<Rightarrow> string" where
  "GetTokenStepThru p flags =
     (case p of
        [] \<Rightarrow> []
      | c # cs \<Rightarrow>
          if c = BSL \<and> \<not> hasflag flags GETTOKEN_BACKSLASH \<and> cs \<noteq> [] then tl cs
          else if tok_quote c \<and> hasflag flags GETTOKEN_HONOR_QUOTES
          then drop 1 (traverse_quoted p)
          else cs)"

datatype match_type = TOK_NONE | TOK_SPACE | TOK_CODE

text \<open>
  One turn of the loop of \<open>GetTokenSepMatch\<close> on the string side, for the pattern character
  \<open>pc\<close> (already past a backslash) and the current match type: either the match fails, or it
  fails and also moves \<open>*start\<close> (and \<open>*end\<close>), or the string pointer moves on.
\<close>

datatype sep_step =
    SepFail
  | SepFailAtEnd
  | SepFailQuoted string
  | SepAdvance match_type string

definition sep_match_char :: "char \<Rightarrow> match_type \<Rightarrow> string \<Rightarrow> nat \<Rightarrow> sep_step" where
  "sep_match_char pc mt e flags =
     (case e of
        [] \<Rightarrow> SepFailAtEnd
      | c # cs \<Rightarrow>
          if c = BSL then
            (if hasflag flags GETTOKEN_BACKSLASH
             then (if c \<noteq> pc then SepFail else SepAdvance mt cs)
             else SepFailQuoted cs)
          else if tok_quote c then
            (if hasflag flags GETTOKEN_HONOR_QUOTES then SepFail
             else if c \<noteq> pc then SepFail else SepAdvance mt cs)
          else if tok_blank c then
            (if mt = TOK_SPACE \<or> mt = TOK_CODE then SepAdvance TOK_NONE (dropWhile isspace e)
             else if c \<noteq> pc then SepFail else SepAdvance mt cs)
          else if tok_code c then
            (if mt = TOK_CODE then SepAdvance TOK_NONE cs
             else if c \<noteq> pc then SepFail else SepAdvance mt cs)
          else if mt \<noteq> TOK_NONE then SepFail
          else if c \<noteq> pc then SepFail
          else SepAdvance mt cs)"

definition sep_pattern_type :: "char \<Rightarrow> match_type \<Rightarrow> match_type" where
  "sep_pattern_type pc mt =
     (if pc = CHR ''S'' then TOK_SPACE else if pc = CHR ''X'' then TOK_CODE else mt)"

text \<open>The loop: \<open>(matched, *start, *end)\<close>; \<open>*end\<close> may still be \<open>NULL\<close>.\<close>

function sep_match_loop ::
  "string \<Rightarrow> match_type \<Rightarrow> string \<Rightarrow> string \<Rightarrow> string option \<Rightarrow> nat \<Rightarrow> bool \<times> string \<times> string option"
where
  "sep_match_loop pat mt e st en flags =
     (case pat of
        [] \<Rightarrow> (True, st, Some e)
      | c # cs \<Rightarrow>
          let pat1 = (if c = BSL then cs else pat);
              mt1 = (if c = BSL then sep_pattern_type (deref pat1) mt else mt)
          in (case sep_match_char (deref pat1) mt1 e flags of
                SepFail \<Rightarrow> (False, st, en)
              | SepFailAtEnd \<Rightarrow> (False, [], Some [])
              | SepFailQuoted e1 \<Rightarrow> (False, e1, en)
              | SepAdvance mt2 e1 \<Rightarrow> sep_match_loop (drop 1 pat1) mt2 e1 st en flags))"
  by pat_completeness auto
termination
  by (relation "measure (\<lambda>(pat, _). length pat)") auto

declare sep_match_loop.simps [simp del]

definition GetTokenSepMatch ::
  "string \<Rightarrow> string \<Rightarrow> string option \<Rightarrow> nat \<Rightarrow> bool \<times> string \<times> string option" where
  "GetTokenSepMatch pat st en flags =
     (if en = Some st then (False, st, en)
      else sep_match_loop pat TOK_NONE st st en flags)"

lemma sep_match_char_suffix:
  shows "sep_match_char pc mt e flags = SepAdvance mt2 e1 \<Longrightarrow> suffix e1 e \<and> length e1 < length e"
    and "sep_match_char pc mt e flags = SepFailQuoted e1 \<Longrightarrow> suffix e1 e \<and> length e1 < length e"
  by (cases e; auto simp: sep_match_char_def tok_blank_isspace split: if_splits)+

lemma sep_match_loop_suffix:
  "sep_match_loop pat mt e st en flags = (m, st', en') \<Longrightarrow> suffix e s \<Longrightarrow> suffix st s \<Longrightarrow>
     suffix st' s \<and> (m \<longrightarrow> st' = st \<and> (\<exists>x. en' = Some x \<and> suffix x e \<and> (pat \<noteq> [] \<longrightarrow> length x < length e)))"
proof (induction pat mt e st en flags arbitrary: m st' en' rule: sep_match_loop.induct)
  case (1 pat mt e st en flags)
  show ?case
  proof (cases pat)
    case Nil
    with 1 show ?thesis by (auto simp: sep_match_loop.simps [of "[]"])
  next
    case (Cons c cs)
    define pat1 where "pat1 = (if c = BSL then cs else pat)"
    define mt1 where "mt1 = (if c = BSL then sep_pattern_type (deref pat1) mt else mt)"
    have eq: "sep_match_loop pat mt e st en flags =
        (case sep_match_char (deref pat1) mt1 e flags of
                SepFail \<Rightarrow> (False, st, en)
              | SepFailAtEnd \<Rightarrow> (False, [], Some [])
              | SepFailQuoted e1 \<Rightarrow> (False, e1, en)
              | SepAdvance mt2 e1 \<Rightarrow> sep_match_loop (drop 1 pat1) mt2 e1 st en flags)"
      by (subst sep_match_loop.simps) (simp only: Cons list.case Let_def pat1_def mt1_def)
    show ?thesis
    proof (cases "sep_match_char (deref pat1) mt1 e flags")
      case (SepFailQuoted e1)
      with "1.prems" eq show ?thesis by (auto dest!: sep_match_char_suffix(2) intro: suffix_order.trans)
    next
      case (SepAdvance mt2 e1)
      note adv = sep_match_char_suffix(1) [OF SepAdvance]
      have "suffix e1 s" using adv \<open>suffix e s\<close> by (auto intro: suffix_order.trans)
      then have "suffix st' s \<and> (m \<longrightarrow> st' = st \<and> (\<exists>x. en' = Some x \<and> suffix x e1))"
        using "1.IH" [OF Cons refl refl, folded pat1_def, folded mt1_def, OF SepAdvance _ _ "1.prems"(3)]
          "1.prems"(1) eq SepAdvance by auto
      moreover have "suffix x e1 \<Longrightarrow> suffix x e \<and> length x < length e" for x
        using adv by (auto intro: suffix_order.trans dest: suffix_length_le)
      ultimately show ?thesis by blast
    qed (use "1.prems" eq in auto)
  qed
qed

lemma GetTokenSepMatch_suffix:
  assumes "GetTokenSepMatch pat st en flags = (m, st', en')" "suffix st s"
  shows "suffix st' s \<and> (m \<longrightarrow> st' = st \<and>
     (\<exists>x. en' = Some x \<and> suffix x st \<and> (pat \<noteq> [] \<longrightarrow> length x < length st)))"
  using assms sep_match_loop_suffix [of pat TOK_NONE st st en flags m st' en' s]
  by (auto simp: GetTokenSepMatch_def split: if_splits)

lemma GetTokenSepMatch_start_suffix:
  "GetTokenSepMatch pat st en flags = (m, st', en') \<Longrightarrow> suffix st' st"
  using GetTokenSepMatch_suffix [of pat st en flags m st' en' st] by simp

lemma length_traverse_quoted: "length (traverse_quoted (c # cs)) \<le> Suc (length cs)"
  using suffix_length_le [OF traverse_quoted_suffix, of "c # cs"] by simp

lemma GetTokenStepThru_suffix [suffix_intros, simp]: "suffix (GetTokenStepThru p flags) p"
proof (cases p)
  case (Cons c cs)
  have "suffix (drop 1 (traverse_quoted p)) p"
    by (meson suffix_drop suffix_order.trans traverse_quoted_suffix)
  moreover have "suffix (tl cs) (c # cs)"
    by (meson suffix_ConsI suffix_tl)
  ultimately show ?thesis
    by (auto simp: GetTokenStepThru_def Cons)
qed (simp add: GetTokenStepThru_def)

lemma GetTokenStepThru_shorter [ptr_shorter]:
  "p \<noteq> [] \<Longrightarrow> length (GetTokenStepThru p flags) < length p"
proof (cases p)
  case (Cons c cs)
  then show ?thesis
    using length_traverse_quoted [of c cs] by (auto simp: GetTokenStepThru_def)
qed simp

section \<open>Searching for a separator\<close>

lemma find_separator_step_shorter:
  assumes "(m, st1, en1) = GetTokenSepMatch pat st en flags" "st \<noteq> []"
  shows "length (GetTokenStepThru st1 flags) < length st"
proof (cases "st1 = []")
  case True
  then show ?thesis using assms(2) by (simp add: GetTokenStepThru_def)
next
  case False
  have "suffix st1 st"
    using assms(1) GetTokenSepMatch_start_suffix by metis
  then have "length st1 \<le> length st" by (rule suffix_length_le)
  with GetTokenStepThru_shorter [OF False] show ?thesis by (rule less_le_trans)
qed

text \<open>\<open>GetTokenFindSeparator\<close>: \<open>(found, *SepStart, *SepEnd)\<close>.\<close>

function find_separator_loop ::
  "string \<Rightarrow> string \<Rightarrow> string option \<Rightarrow> nat \<Rightarrow> bool \<times> string \<times> string option" where
  "find_separator_loop pat st en flags =
     (if st = [] then (False, st, Some st)
      else if deref st = BSL \<and> \<not> hasflag flags GETTOKEN_BACKSLASH
      then find_separator_loop pat (drop 2 st) en flags
      else (case GetTokenSepMatch pat st en flags of
              (m, st1, en1) \<Rightarrow>
                if m then (True, st1, en1)
                else find_separator_loop pat (GetTokenStepThru st1 flags) en1 flags))"
  by pat_completeness auto
termination
proof (relation "measure (\<lambda>(_, st, _). length st)", goal_cases)
  case (3 pat st en flags)
  then show ?case
    using find_separator_step_shorter by auto
qed auto

declare find_separator_loop.simps [simp del]

definition GetTokenFindSeparator :: "string \<Rightarrow> string \<Rightarrow> nat \<Rightarrow> bool \<times> string \<times> string option" where
  "GetTokenFindSeparator pat str flags = find_separator_loop pat str None flags"

text \<open>\<open>BuildMultiSeparators\<close>: the non-empty pieces between bars.\<close>

function BuildMultiSeparators :: "string \<Rightarrow> string list" where
  "BuildMultiSeparators p =
     (case dropWhile (\<lambda>c. c = CHR ''|'') p of
        [] \<Rightarrow> []
      | c # cs \<Rightarrow>
          takeWhile (\<lambda>c. c \<noteq> CHR ''|'') (c # cs)
            # BuildMultiSeparators (dropWhile (\<lambda>c. c \<noteq> CHR ''|'') (c # cs)))"
  by pat_completeness auto
termination
proof (relation "measure length", goal_cases)
  case (2 p c cs)
  then have eq: "dropWhile (\<lambda>c. c = CHR ''|'') p = c # cs" by simp
  then have "c \<noteq> CHR ''|''" by (simp add: dropWhile_eq_Cons_conv)
  moreover have "length (c # cs) \<le> length p"
    using suffix_length_le [OF suffix_dropWhile, of "\<lambda>c. c = CHR ''|''" p] by (simp only: eq)
  moreover have "length (dropWhile (\<lambda>c. c \<noteq> CHR ''|'') cs) \<le> length cs"
    by (rule length_dropWhile_le)
  ultimately show ?case by simp
qed auto

declare BuildMultiSeparators.simps [simp del]

text \<open>
  The inner loop of \<open>GetTokenMultiSepMatch\<close> tries every separator at one position (\<open>tptr\<close> is
  a fresh copy of \<open>sptr\<close> each time, \<open>eptr\<close> is shared); the outer loop moves on.
\<close>

fun multi_sep_try ::
  "string list \<Rightarrow> string \<Rightarrow> string option \<Rightarrow> nat \<Rightarrow> string option \<times> string option" where
  "multi_sep_try [] sp ep flags = (None, ep)"
| "multi_sep_try (sep # seps) sp ep flags =
     (case GetTokenSepMatch sep sp ep flags of
        (m, tp, ep1) \<Rightarrow> if m then (Some tp, ep1) else multi_sep_try seps sp ep1 flags)"

function multi_sep_loop ::
  "string list \<Rightarrow> string \<Rightarrow> string option \<Rightarrow> nat \<Rightarrow> (string \<times> string option) option" where
  "multi_sep_loop seps sp ep flags =
     (if sp = [] then None
      else (case multi_sep_try seps sp ep flags of
              (Some tp, ep1) \<Rightarrow> Some (tp, ep1)
            | (None, ep1) \<Rightarrow> multi_sep_loop seps (GetTokenStepThru sp flags) ep1 flags))"
  by pat_completeness auto
termination
  by (relation "measure (\<lambda>(_, sp, _). length sp)") (auto intro: GetTokenStepThru_shorter)

declare multi_sep_loop.simps [simp del]

text \<open>When nothing matches, \<open>*start_ptr\<close> gets the value \<open>*end_ptr\<close> had on entry.\<close>

definition GetTokenMultiSepMatch ::
  "string list \<Rightarrow> string \<Rightarrow> string option \<Rightarrow> nat \<Rightarrow> bool \<times> string option \<times> string option" where
  "GetTokenMultiSepMatch seps sp ep flags =
     (case multi_sep_loop seps sp ep flags of
        Some (tp, ep1) \<Rightarrow> (True, Some tp, ep1)
      | None \<Rightarrow> (False, ep, ep))"

section \<open>The token\<close>

text \<open>
  \<open>GetTokenPostProcess\<close>.  \<open>e\<close> and \<open>s0\<close> are the offsets of \<open>eptr\<close> and \<open>sptr\<close> in \<open>SearchStr\<close>.
  With quote stripping the code looks at the character before the separator; at offset 0
  this is the byte before \<open>SearchStr\<close>, which is never a quote of this token and is read as
  no match.  It happens only when quotes are stripped but not honoured: with
  \<open>GETTOKEN_HONOR_QUOTES\<close> the search steps over quoted text.
\<close>

definition token_strip_quotes :: "string \<Rightarrow> nat \<Rightarrow> nat \<times> nat" where
  "token_strip_quotes str e =
     (if tok_quote (deref str) \<and> e > 0 \<and> str ! (e - 1) = deref str then (1, e - 1) else (0, e))"

definition token_bounds :: "string \<Rightarrow> string \<Rightarrow> string option \<Rightarrow> nat \<Rightarrow> string \<times> string option" where
  "token_bounds str sepStart sepEnd flags =
     (if hasflag flags GETTOKEN_INCLUDE_SEP then
        (if sepStart = str then (CopyStr sepEnd, sepEnd) else (sepStart, Some sepStart))
      else if hasflag flags GETTOKEN_APPEND_SEP then (CopyStr sepEnd, sepEnd)
      else (sepStart, sepEnd))"

definition GetTokenPostProcess ::
  "string \<Rightarrow> string option \<Rightarrow> string option \<Rightarrow> nat \<Rightarrow> string \<times> string" where
  "GetTokenPostProcess str sepStart sepEnd flags =
     (case sepStart of
        None \<Rightarrow> ([], str)
      | Some ss \<Rightarrow>
          (case token_bounds str ss sepEnd flags of
             (ep, se) \<Rightarrow>
               let e0 = length str - length ep;
                   (s1, e1) = (if hasflag flags GETTOKEN_STRIP_QUOTES
                               then token_strip_quotes str e0 else (0, e0));
                   tok = (if s1 \<le> e1 then take (e1 - s1) (drop s1 str) else drop s1 str);
                   tok1 = (if hasflag flags GETTOKEN_STRIP_SPACE
                           then StripLeadingWhitespace (StripTrailingWhitespace tok) else tok)
               in (CopyStr se, tok1)))"

text \<open>\<open>GetToken\<close>: the new pointer and the contents of \<open>*Token\<close>.\<close>

definition GetToken :: "string option \<Rightarrow> string \<Rightarrow> nat \<Rightarrow> string option \<times> string" where
  "GetToken search sep flags =
     (case search of
        None \<Rightarrow> (None, [])
      | Some str \<Rightarrow>
          if str = [] then (None, [])
          else if sep = [] then (None, str)
          else if \<not> hasflag flags GETTOKEN_HONOR_QUOTES \<and> length sep = 1 then
            (if hd sep \<notin> set str then (Some [], str)
             else
               let ss = dropWhile (\<lambda>c. c \<noteq> hd sep) str;
                   se = drop 1 ss
               in if flags \<noteq> 0
                  then (case GetTokenPostProcess str (Some ss) (Some se) flags of
                          (r, t) \<Rightarrow> (Some r, t))
                  else (Some se, takeWhile (\<lambda>c. c \<noteq> hd sep) str))
          else
            (case (if hasflag flags GETTOKEN_MULTI_SEP
                   then GetTokenMultiSepMatch (BuildMultiSeparators sep) str None flags
                   else (case GetTokenFindSeparator sep str flags of
                           (m, ss, se) \<Rightarrow> (m, Some ss, se))) of
               (m, ss, se) \<Rightarrow>
                 (case GetTokenPostProcess str ss se flags of (r, t) \<Rightarrow> (Some r, t))))"

definition GetTokenSeparators ::
  "string option \<Rightarrow> string list \<Rightarrow> nat \<Rightarrow> string option \<times> string" where
  "GetTokenSeparators search seps flags =
     (case search of
        None \<Rightarrow> (None, [])
      | Some str \<Rightarrow>
          if str = [] then (None, [])
          else (case GetTokenMultiSepMatch seps str None flags of
                  (m, ss, se) \<Rightarrow>
                    (case GetTokenPostProcess str ss se flags of (r, t) \<Rightarrow> (Some r, t))))"

fun GetTokenParseConfig :: "string \<Rightarrow> nat \<Rightarrow> nat" where
  "GetTokenParseConfig [] flags = flags"
| "GetTokenParseConfig (c # cs) flags =
     GetTokenParseConfig cs
       (if c = CHR ''m'' then or flags GETTOKEN_MULTI_SEP
        else if c = CHR ''q'' then or flags GETTOKEN_HONOR_QUOTES
        else if c = CHR ''Q'' then or flags GETTOKEN_QUOTES
        else if c = CHR ''s'' then or flags GETTOKEN_INCLUDE_SEP
        else if c = CHR ''+'' then or flags GETTOKEN_APPEND_SEP
        else flags)"

text \<open>\<open>GetNameValuePair\<close>: the new pointer, the name and the value.\<close>

definition GetNameValuePair ::
  "string option \<Rightarrow> string \<Rightarrow> string \<Rightarrow> string option \<times> string \<times> string" where
  "GetNameValuePair input pairDelim nvDelim =
     (case GetToken input pairDelim GETTOKEN_QUOTES of
        (p, token) \<Rightarrow>
          if token \<noteq> [] then
            (case GetToken (Some token) nvDelim GETTOKEN_QUOTES of
               (p2, name) \<Rightarrow>
                 let value = CopyStr p2
                 in (p, name, if value \<noteq> [] then StripQuotes value else value))
          else (p, [], []))"

section \<open>Progress\<close>

text \<open>
  What a separator search promises: the separator starts in the string and ends after its
  start, unless it is the empty one at the end of the string.
\<close>

definition sep_ok :: "string \<Rightarrow> string \<Rightarrow> string option \<Rightarrow> bool" where
  "sep_ok str ss se \<longleftrightarrow>
     suffix ss str \<and> (\<exists>x. se = Some x \<and> suffix x ss \<and> (length x < length ss \<or> ss = []))"

lemma find_separator_loop_ok:
  "pat \<noteq> [] \<Longrightarrow> suffix st str \<Longrightarrow> find_separator_loop pat st en flags = (m, ss, se) \<Longrightarrow> sep_ok str ss se"
proof (induction pat st en flags rule: find_separator_loop.induct)
  case (1 pat st en flags)
  note unf = find_separator_loop.simps [of pat st en flags]
  obtain m1 st1 en1 where M: "GetTokenSepMatch pat st en flags = (m1, st1, en1)"
    by (cases "GetTokenSepMatch pat st en flags") auto
  note sm = GetTokenSepMatch_suffix [OF M \<open>suffix st str\<close>]
  consider (stop) "st = []"
    | (quoted) "st \<noteq> []" "deref st = BSL \<and> \<not> hasflag flags GETTOKEN_BACKSLASH"
    | (match) "st \<noteq> []" "\<not> (deref st = BSL \<and> \<not> hasflag flags GETTOKEN_BACKSLASH)"
    by blast
  then show ?case
  proof cases
    case stop
    with 1 unf show ?thesis by (auto simp: sep_ok_def)
  next
    case quoted
    have "suffix (drop 2 st) str"
      using \<open>suffix st str\<close> suffix_drop suffix_order.trans by blast
    with 1 unf quoted show ?thesis by auto
  next
    case match
    show ?thesis
    proof (cases m1)
      case True
      with sm match unf M 1 show ?thesis by (auto simp: sep_ok_def)
    next
      case False
      have "suffix (GetTokenStepThru st1 flags) str"
        using sm suffix_order.trans [OF GetTokenStepThru_suffix] by blast
      with 1 unf match M False show ?thesis by auto
    qed
  qed
qed

lemma multi_sep_try_ok:
  "\<forall>p \<in> set seps. p \<noteq> [] \<Longrightarrow> multi_sep_try seps sp ep flags = (Some tp, ep1) \<Longrightarrow>
     tp = sp \<and> (\<exists>x. ep1 = Some x \<and> suffix x sp \<and> length x < length sp)"
proof (induction seps sp ep flags rule: multi_sep_try.induct)
  case (2 sep seps sp ep flags)
  obtain m tp' ep' where M: "GetTokenSepMatch sep sp ep flags = (m, tp', ep')"
    by (cases "GetTokenSepMatch sep sp ep flags") auto
  show ?case
    using 2 M GetTokenSepMatch_suffix [OF M, of sp] by (cases m) auto
qed simp

lemma multi_sep_loop_ok:
  "\<forall>p \<in> set seps. p \<noteq> [] \<Longrightarrow> suffix sp str \<Longrightarrow>
     multi_sep_loop seps sp ep flags = Some (tp, ep1) \<Longrightarrow> sep_ok str tp ep1"
proof (induction seps sp ep flags rule: multi_sep_loop.induct)
  case (1 seps sp ep flags)
  note unf = multi_sep_loop.simps [of seps sp ep flags]
  have sp: "sp \<noteq> []" using 1 unf by (auto split: if_splits)
  obtain r ep' where T: "multi_sep_try seps sp ep flags = (r, ep')"
    by (cases "multi_sep_try seps sp ep flags") auto
  show ?case
  proof (cases r)
    case None
    have "suffix (GetTokenStepThru sp flags) str"
      using "1.prems"(2) suffix_order.trans [OF GetTokenStepThru_suffix] by blast
    with 1 unf sp T None show ?thesis by auto
  next
    case (Some tp')
    with multi_sep_try_ok [OF "1.prems"(1), of sp ep flags tp' ep'] T unf sp "1.prems"
    show ?thesis by (auto simp: sep_ok_def)
  qed
qed

lemma BuildMultiSeparators_nonempty: "p \<in> set (BuildMultiSeparators s) \<Longrightarrow> p \<noteq> []"
proof (induction s rule: BuildMultiSeparators.induct)
  case (1 s)
  note unf = BuildMultiSeparators.simps [of s]
  show ?case
  proof (cases "dropWhile (\<lambda>c. c = CHR ''|'') s")
    case Nil
    with 1 unf show ?thesis by simp
  next
    case (Cons c cs)
    then have "c \<noteq> CHR ''|''" by (simp add: dropWhile_eq_Cons_conv)
    with 1 unf Cons show ?thesis by auto
  qed
qed

text \<open>The search of \<open>GetToken\<close>: either no separator (a null \<open>SepStart\<close>), or a good one.\<close>

definition gettoken_search :: "string \<Rightarrow> string \<Rightarrow> nat \<Rightarrow> string option \<times> string option" where
  "gettoken_search str sep flags =
     (if \<not> hasflag flags GETTOKEN_HONOR_QUOTES \<and> length sep = 1 then
        (if hd sep \<notin> set str then (None, None)
         else let ss = dropWhile (\<lambda>c. c \<noteq> hd sep) str in (Some ss, Some (drop 1 ss)))
      else if hasflag flags GETTOKEN_MULTI_SEP
      then snd (GetTokenMultiSepMatch (BuildMultiSeparators sep) str None flags)
      else (case GetTokenFindSeparator sep str flags of (m, ss, se) \<Rightarrow> (Some ss, se)))"

lemma dropWhile_mem_nonempty: "c \<in> set s \<Longrightarrow> dropWhile (\<lambda>x. x \<noteq> c) s \<noteq> []"
  by (simp add: dropWhile_eq_Nil_conv)

lemma gettoken_search_ok:
  assumes "sep \<noteq> []" "gettoken_search str sep flags = (Some ss, se)"
  shows "sep_ok str ss se"
proof -
  consider (char) "\<not> hasflag flags GETTOKEN_HONOR_QUOTES \<and> length sep = 1"
    | (multi) "\<not> (\<not> hasflag flags GETTOKEN_HONOR_QUOTES \<and> length sep = 1)"
        "hasflag flags GETTOKEN_MULTI_SEP"
    | (one) "\<not> (\<not> hasflag flags GETTOKEN_HONOR_QUOTES \<and> length sep = 1)"
        "\<not> hasflag flags GETTOKEN_MULTI_SEP"
    by blast
  then show ?thesis
  proof cases
    case char
    with assms dropWhile_mem_nonempty [of "hd sep" str] show ?thesis
      by (auto simp: gettoken_search_def sep_ok_def Let_def split: if_splits)
  next
    case multi
    with assms multi_sep_loop_ok [of "BuildMultiSeparators sep" str str None flags]
      BuildMultiSeparators_nonempty
    show ?thesis
      by (auto simp: gettoken_search_def GetTokenMultiSepMatch_def split: option.splits)
  next
    case one
    with assms find_separator_loop_ok [of sep str str None flags]
    show ?thesis
      by (auto simp: gettoken_search_def GetTokenFindSeparator_def split: prod.splits)
  qed
qed

lemma GetToken_search:
  assumes "str \<noteq> []" "sep \<noteq> []"
  shows "GetToken (Some str) sep flags =
     (let (ss, se) = gettoken_search str sep flags in
      if \<not> hasflag flags GETTOKEN_HONOR_QUOTES \<and> length sep = 1 \<and> flags = 0 \<and> ss \<noteq> None
      then (se, takeWhile (\<lambda>c. c \<noteq> hd sep) str)
      else (case GetTokenPostProcess str ss se flags of (r, t) \<Rightarrow> (Some r, t)))"
  using assms
  by (auto simp: GetToken_def gettoken_search_def GetTokenPostProcess_def [of _ None] Let_def
      split: prod.splits)

lemma token_bounds_progress:
  assumes "sep_ok str ss se" "str \<noteq> []" "token_bounds str ss se flags = (ep, se')"
  shows "suffix ep str \<and> suffix (CopyStr se') str \<and> length (CopyStr se') < length str"
proof -
  obtain x where x: "se = Some x" "suffix x ss" "length x < length ss \<or> ss = []" "suffix ss str"
    using assms(1) by (auto simp: sep_ok_def)
  have "suffix x str" using x suffix_order.trans by blast
  moreover have "length x < length str"
    using x assms(2) suffix_length_le [OF x(4)] suffix_length_le [OF x(2)] by auto
  moreover have "ss \<noteq> str \<Longrightarrow> length ss < length str"
    using x(4) suffix_length_le [OF x(4)] suffix_order.eq_iff
    by (metis le_neq_implies_less suffix_def append_eq_append_conv append_Nil)
  ultimately show ?thesis
    using assms(3) x by (auto simp: token_bounds_def split: if_splits)
qed

lemma GetTokenPostProcess_progress:
  assumes "ss = None \<or> sep_ok str (the ss) se" "str \<noteq> []"
    "GetTokenPostProcess str ss se flags = (r, t)"
  shows "suffix r str \<and> length r < length str"
proof (cases ss)
  case None
  with assms show ?thesis by (auto simp: GetTokenPostProcess_def)
next
  case (Some s0)
  obtain ep se' where tb: "token_bounds str s0 se flags = (ep, se')"
    by (cases "token_bounds str s0 se flags") auto
  have "r = CopyStr se'"
    using assms(3) Some tb by (auto simp: GetTokenPostProcess_def Let_def split: prod.splits)
  with token_bounds_progress [of str s0 se flags ep se'] assms Some tb show ?thesis by auto
qed

lemma GetToken_None [simp]: "GetToken None sep flags = (None, [])"
  and GetToken_empty [simp]: "GetToken (Some []) sep flags = (None, [])"
  by (simp_all add: GetToken_def)

lemma GetToken_progress:
  assumes "GetToken (Some str) sep flags = (Some r, t)"
  shows "suffix r str \<and> length r < length str"
proof -
  have ne: "str \<noteq> []" "sep \<noteq> []"
    using assms by (auto simp: GetToken_def split: if_splits)
  obtain ss se where S: "gettoken_search str sep flags = (ss, se)"
    by (cases "gettoken_search str sep flags") auto
  have ok: "ss = None \<or> sep_ok str (the ss) se"
    using gettoken_search_ok [OF ne(2)] S by (cases ss) auto
  show ?thesis
  proof (cases "\<not> hasflag flags GETTOKEN_HONOR_QUOTES \<and> length sep = 1 \<and> flags = 0 \<and> ss \<noteq> None")
    case True
    then have "se = Some r" using assms S by (simp add: GetToken_search [OF ne])
    with ok True ne show ?thesis
      by (auto simp: sep_ok_def dest: suffix_length_le intro: suffix_order.trans)
  next
    case False
    then show ?thesis
      using assms S GetTokenPostProcess_progress [OF ok ne(1)]
      by (auto simp: GetToken_search [OF ne] split: prod.splits)
  qed
qed

lemma GetToken_Some_iff:
  "fst (GetToken (Some str) sep flags) = None \<longleftrightarrow> str = [] \<or> sep = []"
proof (cases "str = [] \<or> sep = []")
  case False
  then have ne: "str \<noteq> []" "sep \<noteq> []" by auto
  show ?thesis
    using gettoken_search_ok [OF ne(2), of str flags] ne
    by (auto simp: GetToken_search [OF ne] sep_ok_def Let_def split: prod.splits)
qed (auto simp: GetToken_def)

section \<open>The contract of a token source\<close>

text \<open>
  Every token loop of the program has the shape
  \<open>ptr=next(s, ...); while (ptr) { ...; ptr=next(ptr, ...); }\<close>.  What such a loop needs from
  \<open>next\<close> is that \<open>NULL\<close> stays \<open>NULL\<close> and that the pointer moves forward inside the string.
\<close>

definition ptr_left :: "string option \<Rightarrow> nat" where
  "ptr_left p = (case p of None \<Rightarrow> 0 | Some s \<Rightarrow> Suc (length s))"

lemma ptr_left_simps [simp]: "ptr_left None = 0" "ptr_left (Some s) = Suc (length s)"
  by (simp_all add: ptr_left_def)

locale token_source =
  fixes next_tok :: "string option \<Rightarrow> string option \<times> 'a"
  assumes next_null: "fst (next_tok None) = None"
    and next_suffix: "next_tok (Some s) = (Some r, t) \<Longrightarrow> suffix r s"
    and next_shorter: "next_tok (Some s) = (Some r, t) \<Longrightarrow> length r < length s"
begin

lemma next_decreases: "next_tok p = (Some r, t) \<Longrightarrow> ptr_left (Some r) < ptr_left p"
  by (cases p) (use next_null in \<open>auto dest: next_shorter\<close>)

lemma next_of_suffix:
  "next_tok p = (Some r, t) \<Longrightarrow> \<exists>s. p = Some s \<and> suffix r s"
  by (cases p) (use next_null in \<open>auto dest: next_suffix\<close>)

lemma next_empty: "fst (next_tok (Some [])) = None"
  by (cases "next_tok (Some [])"; cases "fst (next_tok (Some []))") (auto dest: next_shorter)

lemma loop_induct:
  assumes "\<And>p. (\<And>r t. next_tok p = (Some r, t) \<Longrightarrow> P (Some r)) \<Longrightarrow> P p"
  shows "P p"
  by (induction p rule: measure_induct_rule [where f = ptr_left])
    (blast intro: assms next_decreases)

end

interpretation get_token: token_source "\<lambda>p. GetToken p sep flags" for sep flags
  by unfold_locales (auto dest: GetToken_progress)

lemma GetNameValuePair_fst:
  "fst (GetNameValuePair p pd nd) = fst (GetToken p pd GETTOKEN_QUOTES)"
  by (auto simp: GetNameValuePair_def Let_def split: prod.splits)

interpretation name_value: token_source "\<lambda>p. GetNameValuePair p pd nd" for pd nd
proof unfold_locales
  fix s r t assume A: "GetNameValuePair (Some s) pd nd = (Some r, t)"
  then obtain u where "GetToken (Some s) pd GETTOKEN_QUOTES = (Some r, u)"
    using GetNameValuePair_fst [of "Some s" pd nd] by (metis eq_fst_iff)
  then show "suffix r s" "length r < length s" by (auto dest: GetToken_progress)
qed (simp add: GetNameValuePair_fst)

section \<open>The token loop\<close>

text \<open>\<open>ptr=GetToken(str, ...); while (ptr) { use(Token); ptr=GetToken(ptr, ...); }\<close>: the tokens
  the loop body sees.\<close>

function token_list :: "string option \<Rightarrow> string \<Rightarrow> nat \<Rightarrow> string list" where
  "token_list p sep flags =
     (case GetToken p sep flags of
        (None, t) \<Rightarrow> []
      | (Some r, t) \<Rightarrow> t # token_list (Some r) sep flags)"
  by pat_completeness auto
termination
  by (relation "measure (\<lambda>(p, _). ptr_left p)") (auto dest: get_token.next_decreases [OF sym])

declare token_list.simps [simp del]

lemma token_list_end [simp]: "token_list None sep flags = []" "token_list (Some []) sep flags = []"
  by (simp_all add: token_list.simps [of None] token_list.simps [of "Some []"])

text \<open>\<open>GetNameValue\<close>: the value of the last pair named \<open>SearchName\<close>, or the empty string.\<close>

function get_name_value_loop ::
  "string option \<Rightarrow> string \<Rightarrow> string \<Rightarrow> string \<Rightarrow> string \<Rightarrow> string" where
  "get_name_value_loop p pd nd search ret =
     (case GetNameValuePair p pd nd of
        (None, n, v) \<Rightarrow> ret
      | (Some r, n, v) \<Rightarrow>
          get_name_value_loop (Some r) pd nd search (if strcmp n search = 0 then v else ret))"
  by pat_completeness auto
termination
  by (relation "measure (\<lambda>(p, _). ptr_left p)") (auto dest: name_value.next_decreases [OF sym])

declare get_name_value_loop.simps [simp del]

definition GetNameValue :: "string \<Rightarrow> string \<Rightarrow> string \<Rightarrow> string \<Rightarrow> string" where
  "GetNameValue input pd nd search = get_name_value_loop (Some input) pd nd search []"

section \<open>Losing nothing\<close>

text \<open>
  With separators included and nothing stripped, token and remaining string make up the
  argument: this is the mode in which the document parsers read.
\<close>

definition keeps_all :: "nat \<Rightarrow> bool" where
  "keeps_all flags \<longleftrightarrow> hasflag flags GETTOKEN_INCLUDE_SEP \<and>
     \<not> hasflag flags GETTOKEN_STRIP_QUOTES \<and> \<not> hasflag flags GETTOKEN_STRIP_SPACE"

lemma GetTokenPostProcess_keeps:
  assumes "ss = None \<or> sep_ok str (the ss) se" "keeps_all flags"
    "GetTokenPostProcess str ss se flags = (r, t)"
  shows "t @ r = str"
proof (cases ss)
  case None
  with assms show ?thesis by (auto simp: GetTokenPostProcess_def)
next
  case (Some s0)
  then obtain x where x: "se = Some x" "suffix x s0" "suffix s0 str"
    using assms(1) by (auto simp: sep_ok_def)
  have s0: "take (length str - length s0) str @ s0 = str"
    using x(3) suffix_split by metis
  have xs: "s0 = str \<Longrightarrow> take (length str - length x) str @ x = str"
    using x(2) suffix_split by metis
  show ?thesis
    using assms(2,3) Some x(1) s0 xs
    by (auto simp: GetTokenPostProcess_def token_bounds_def keeps_all_def Let_def split: if_splits)
qed

lemma GetToken_keeps:
  assumes "keeps_all flags" "GetToken (Some str) sep flags = (Some r, t)"
  shows "t @ r = str"
proof -
  have ne: "str \<noteq> []" "sep \<noteq> []"
    using assms(2) by (auto simp: GetToken_def split: if_splits)
  have fl: "flags \<noteq> 0"
    using assms(1) by (metis keeps_all_def hasflag_0)
  obtain ss se where S: "gettoken_search str sep flags = (ss, se)"
    by (cases "gettoken_search str sep flags") auto
  have ok: "ss = None \<or> sep_ok str (the ss) se"
    using gettoken_search_ok [OF ne(2)] S by (cases ss) auto
  have "GetTokenPostProcess str ss se flags = (r, t)"
    using S fl assms(2) by (auto simp: GetToken_search [OF ne] split: prod.splits)
  then show ?thesis by (rule GetTokenPostProcess_keeps [OF ok assms(1)])
qed

lemma token_list_keeps:
  assumes "keeps_all flags" "sep \<noteq> []"
  shows "concat (token_list (Some str) sep flags) = str"
proof (induction str rule: length_induct)
  case (1 str)
  show ?case
  proof (cases "GetToken (Some str) sep flags")
    case (Pair p t)
    show ?thesis
    proof (cases p)
      case None
      with Pair GetToken_Some_iff [of str sep flags] assms(2) show ?thesis
        by (simp add: token_list.simps [of "Some str"])
    next
      case (Some r)
      with Pair have "t @ r = str" "length r < length str"
        using GetToken_keeps [OF assms(1)] GetToken_progress by auto
      with 1 Pair Some show ?thesis by (simp add: token_list.simps [of "Some str"])
    qed
  qed
qed

section \<open>Single-character separators\<close>

lemma GetToken_char:
  assumes "c \<notin> set t"
  shows "GetToken (Some (t @ c # r)) [c] 0 = (Some r, t)"
proof -
  have d: "dropWhile (\<lambda>x. x \<noteq> c) (t @ c # r) = c # r"
    and tw: "takeWhile (\<lambda>x. x \<noteq> c) (t @ c # r) = t"
    using assms by (induction t) auto
  show ?thesis
    by (simp add: GetToken_def d tw Let_def)
qed

lemma GetToken_char_last:
  "c \<notin> set t \<Longrightarrow> t \<noteq> [] \<Longrightarrow> GetToken (Some t) [c] 0 = (Some [], t)"
  by (simp add: GetToken_def)

fun join_with :: "char \<Rightarrow> string list \<Rightarrow> string" where
  "join_with c [] = []"
| "join_with c [t] = t"
| "join_with c (t # u # ts) = t @ c # join_with c (u # ts)"

lemma token_list_join:
  "\<forall>t \<in> set ts. c \<notin> set t \<Longrightarrow> ts \<noteq> [] \<Longrightarrow> last ts \<noteq> [] \<Longrightarrow>
     token_list (Some (join_with c ts)) [c] 0 = ts"
proof (induction c ts rule: join_with.induct)
  case (2 c t)
  then show ?case
    by (simp add: token_list.simps [of "Some t"] token_list.simps [of "Some []"] GetToken_char_last)
next
  case (3 c t u ts)
  then show ?case
    by (simp add: token_list.simps [of "Some (t @ c # join_with c (u # ts))"] GetToken_char)
qed simp

section \<open>Properties\<close>

text \<open>C18: cutting a string into tokens with the separators included loses no character, for every
  separator pattern.\<close>

theorem tokens_lose_nothing:
  assumes "keeps_all flags" "sep \<noteq> []"
  shows "concat (token_list (Some str) sep flags) = str"
  using assms by (rule token_list_keeps)

theorem tokens_lose_nothing_witness:
  "concat (token_list (Some ''a, b'') '','' GETTOKEN_INCLUDE_SEP) = ''a, b''"
  by (rule tokens_lose_nothing) (simp_all add: keeps_all_def hasflag_def gettoken_flags)

end
