(* ===== verification/TokenizerModes.thy ===== *)
theory TokenizerModes
  imports Tokenizer
begin

text \<open>
  What \<open>GetToken\<close> returns in the two modes the server reads its lists and command lines in:
  \<open>"\\S|,"\<close> with \<open>GETTOKEN_MULTI_SEP\<close> (user, group and program lists) and \<open>"\\S"\<close> with
  \<open>GETTOKEN_QUOTES\<close> (command lines).
\<close>

section \<open>Patterns\<close>

definition WS_PATTERN :: string where "WS_PATTERN = BSL # ''S''"
definition LIST_PATTERN :: string where "LIST_PATTERN = BSL # ''S|,''"

lemma LIST_PATTERN_separators: "BuildMultiSeparators LIST_PATTERN = [WS_PATTERN, '','']"
  by (simp add: LIST_PATTERN_def WS_PATTERN_def BuildMultiSeparators.simps)

lemma pattern_simps [simp]:
  "WS_PATTERN \<noteq> []" "length WS_PATTERN = 2" "LIST_PATTERN \<noteq> []" "length LIST_PATTERN = 4"
  by (simp_all add: WS_PATTERN_def LIST_PATTERN_def)

lemma hasflag_modes [simp]:
  "hasflag GETTOKEN_MULTI_SEP GETTOKEN_MULTI_SEP"
  "\<not> hasflag GETTOKEN_MULTI_SEP GETTOKEN_HONOR_QUOTES"
  "\<not> hasflag GETTOKEN_MULTI_SEP GETTOKEN_BACKSLASH"
  "\<not> hasflag GETTOKEN_MULTI_SEP GETTOKEN_INCLUDE_SEP"
  "\<not> hasflag GETTOKEN_MULTI_SEP GETTOKEN_APPEND_SEP"
  "\<not> hasflag GETTOKEN_MULTI_SEP GETTOKEN_STRIP_QUOTES"
  "\<not> hasflag GETTOKEN_MULTI_SEP GETTOKEN_STRIP_SPACE"
  "\<not> hasflag GETTOKEN_QUOTES GETTOKEN_MULTI_SEP"
  "hasflag GETTOKEN_QUOTES GETTOKEN_HONOR_QUOTES"
  "hasflag GETTOKEN_QUOTES GETTOKEN_STRIP_QUOTES"
  "\<not> hasflag GETTOKEN_QUOTES GETTOKEN_BACKSLASH"
  "\<not> hasflag GETTOKEN_QUOTES GETTOKEN_INCLUDE_SEP"
  "\<not> hasflag GETTOKEN_QUOTES GETTOKEN_APPEND_SEP"
  "\<not> hasflag GETTOKEN_QUOTES GETTOKEN_STRIP_SPACE"
  by (simp_all add: hasflag_def gettoken_flags)

lemma sep_match_loop_Nil: "sep_match_loop [] mt e st en flags = (True, st, Some e)"
  by (simp add: sep_match_loop.simps)

lemma tok_class_simps [simp]:
  "\<not> tok_quote BSL" "\<not> tok_blank BSL" "\<not> tok_blank (CHR '','')" "\<not> tok_quote (CHR '','')"
  "\<not> tok_code (CHR '','')" "tok_blank (CHR '' '')" "\<not> tok_quote (CHR '' '')"
  by (simp_all add: tok_char_defs)

lemma tok_blank_classes: "tok_blank c \<Longrightarrow> c \<noteq> BSL \<and> \<not> tok_quote c \<and> \<not> tok_code c \<and> isspace c"
  by (auto simp: tok_char_defs isspace_def)

lemma ws_match_blank:
  assumes "tok_blank c" "en \<noteq> Some (c # cs)"
  shows "GetTokenSepMatch WS_PATTERN (c # cs) en flags = (True, c # cs, Some (dropWhile isspace cs))"
  using assms tok_blank_classes [OF assms(1)]
  by (simp add: GetTokenSepMatch_def WS_PATTERN_def sep_match_loop.simps [of "[BSL, CHR ''S'']"]
      sep_pattern_type_def sep_match_char_def sep_match_loop_Nil)

lemma ws_match_other:
  assumes "\<not> tok_blank c" "c \<noteq> BSL" "en \<noteq> Some (c # cs)" "c \<noteq> CHR ''S''"
  shows "GetTokenSepMatch WS_PATTERN (c # cs) en flags = (False, c # cs, en)"
  using assms
  by (simp add: GetTokenSepMatch_def WS_PATTERN_def sep_match_loop.simps [of "[BSL, CHR ''S'']"]
      sep_pattern_type_def sep_match_char_def tok_char_defs)

lemma ws_match_S:
  assumes "en \<noteq> Some (CHR ''S'' # cs)"
  shows "GetTokenSepMatch WS_PATTERN (CHR ''S'' # cs) en flags = (False, CHR ''S'' # cs, en)"
  using assms
  by (simp add: GetTokenSepMatch_def WS_PATTERN_def sep_match_loop.simps [of "[BSL, CHR ''S'']"]
      sep_pattern_type_def sep_match_char_def tok_char_defs)

lemma ws_match_plain:
  "\<not> tok_blank c \<Longrightarrow> c \<noteq> BSL \<Longrightarrow> en \<noteq> Some (c # cs) \<Longrightarrow>
     GetTokenSepMatch WS_PATTERN (c # cs) en flags = (False, c # cs, en)"
  using ws_match_other ws_match_S by (cases "c = CHR ''S''") auto

lemma comma_match:
  assumes "c \<noteq> BSL" "en \<noteq> Some (c # cs)"
  shows "GetTokenSepMatch '','' (c # cs) en GETTOKEN_MULTI_SEP =
     (if c = CHR '','' then (True, c # cs, Some cs) else (False, c # cs, en))"
  using assms
  by (simp add: GetTokenSepMatch_def sep_match_loop.simps [of "'',''"] sep_match_char_def
      sep_match_loop_Nil Let_def)

section \<open>Lists of names\<close>

text \<open>The characters that end a name, and the names that contain none of them.\<close>

definition list_sep :: "char \<Rightarrow> bool" where
  "list_sep c \<longleftrightarrow> tok_blank c \<or> c = CHR '',''"

definition plain_name :: "string \<Rightarrow> bool" where
  "plain_name t \<longleftrightarrow> (\<forall>c \<in> set t. \<not> isspace c \<and> c \<noteq> CHR '','' \<and> c \<noteq> BSL)"

lemma plain_name_Cons:
  "plain_name (c # cs) \<longleftrightarrow> \<not> isspace c \<and> c \<noteq> CHR '','' \<and> c \<noteq> BSL \<and> plain_name cs"
  by (auto simp: plain_name_def)

lemma list_loop_skip:
  "plain_name t \<Longrightarrow>
     multi_sep_loop [WS_PATTERN, '',''] (t @ r) None GETTOKEN_MULTI_SEP =
     multi_sep_loop [WS_PATTERN, '',''] r None GETTOKEN_MULTI_SEP"
proof (induction t)
  case (Cons c cs)
  then have c: "\<not> tok_blank c" "c \<noteq> BSL" "c \<noteq> CHR '',''"
    by (auto simp: plain_name_Cons dest: tok_blank_isspace)
  have "GetTokenStepThru (c # cs @ r) GETTOKEN_MULTI_SEP = cs @ r"
    using c by (simp add: GetTokenStepThru_def)
  with Cons c show ?case
    by (simp add: multi_sep_loop.simps [of _ "c # cs @ r"] ws_match_plain comma_match plain_name_Cons)
qed simp

lemma list_loop_at_sep:
  "tok_blank c \<Longrightarrow> multi_sep_loop [WS_PATTERN, '',''] (c # r) None GETTOKEN_MULTI_SEP =
     Some (c # r, Some (dropWhile isspace r))"
  "multi_sep_loop [WS_PATTERN, '',''] (CHR '','' # r) None GETTOKEN_MULTI_SEP =
     Some (CHR '','' # r, Some r)"
  by (simp_all add: multi_sep_loop.simps ws_match_blank ws_match_plain comma_match)

lemma GetToken_list_sep:
  assumes "plain_name t"
  shows "tok_blank c \<Longrightarrow>
      GetToken (Some (t @ c # r)) LIST_PATTERN GETTOKEN_MULTI_SEP = (Some (dropWhile isspace r), t)"
    and "GetToken (Some (t @ CHR '','' # r)) LIST_PATTERN GETTOKEN_MULTI_SEP = (Some r, t)"
  using assms
  by (simp_all add: GetToken_def LIST_PATTERN_separators GetTokenMultiSepMatch_def list_loop_skip
      list_loop_at_sep GetTokenPostProcess_def token_bounds_def)

lemma GetToken_list_last:
  assumes "plain_name t" "t \<noteq> []"
  shows "GetToken (Some t) LIST_PATTERN GETTOKEN_MULTI_SEP = (Some [], t)"
proof -
  have "multi_sep_loop [WS_PATTERN, '',''] t None GETTOKEN_MULTI_SEP = None"
    using list_loop_skip [OF assms(1), of "[]"] by (simp add: multi_sep_loop.simps)
  with assms show ?thesis
    by (simp add: GetToken_def LIST_PATTERN_separators GetTokenMultiSepMatch_def
        GetTokenPostProcess_def)
qed

lemma token_list_names:
  "\<forall>t \<in> set ts. plain_name t \<Longrightarrow> ts \<noteq> [] \<Longrightarrow> last ts \<noteq> [] \<Longrightarrow>
     token_list (Some (join_with (CHR '','') ts)) LIST_PATTERN GETTOKEN_MULTI_SEP = ts"
proof (induction "CHR '',''" ts rule: join_with.induct)
  case (2 t)
  then show ?case
    by (simp add: token_list.simps [of "Some t"] GetToken_list_last)
next
  case (3 t u ts)
  then show ?case
    by (simp add: token_list.simps [of "Some (t @ CHR '','' # join_with (CHR '','') (u # ts))"]
        GetToken_list_sep)
qed simp

section \<open>Command lines\<close>

text \<open>A word that needs no quotes, and a word in double quotes.\<close>

definition plain_word :: "string \<Rightarrow> bool" where
  "plain_word t \<longleftrightarrow> (\<forall>c \<in> set t. \<not> isspace c \<and> \<not> tok_quote c \<and> c \<noteq> BSL)"

lemma plain_word_Cons:
  "plain_word (c # cs) \<longleftrightarrow> \<not> isspace c \<and> \<not> tok_quote c \<and> c \<noteq> BSL \<and> plain_word cs"
  by (auto simp: plain_word_def)

definition dquote :: "string \<Rightarrow> string" where
  "dquote t = DQ # t @ [DQ]"

lemma ws_loop_skip:
  "plain_word t \<Longrightarrow>
     find_separator_loop WS_PATTERN (t @ r) None GETTOKEN_QUOTES =
     find_separator_loop WS_PATTERN r None GETTOKEN_QUOTES"
proof (induction t)
  case (Cons c cs)
  then have c: "\<not> tok_blank c" "c \<noteq> BSL" "\<not> tok_quote c"
    by (auto simp: plain_word_Cons dest: tok_blank_isspace)
  have "GetTokenStepThru (c # cs @ r) GETTOKEN_QUOTES = cs @ r"
    using c by (simp add: GetTokenStepThru_def)
  with Cons c show ?case
    by (simp add: find_separator_loop.simps [of _ "c # cs @ r"] ws_match_plain plain_word_Cons)
qed simp

lemma ws_loop_quoted:
  assumes "DQ \<notin> set t" "BSL \<notin> set t"
  shows "find_separator_loop WS_PATTERN (dquote t @ r) None GETTOKEN_QUOTES =
     find_separator_loop WS_PATTERN r None GETTOKEN_QUOTES"
proof -
  have "GetTokenStepThru (DQ # t @ DQ # r) GETTOKEN_QUOTES = r"
    using assms by (simp add: GetTokenStepThru_def tok_char_defs traverse_quoted_plain)
  moreover have "GetTokenSepMatch WS_PATTERN (DQ # t @ DQ # r) None GETTOKEN_QUOTES =
      (False, DQ # t @ DQ # r, None)"
    by (rule ws_match_plain) (simp_all add: tok_char_defs)
  ultimately show ?thesis
    by (simp add: dquote_def find_separator_loop.simps [of _ "DQ # t @ DQ # r"])
qed

lemma ws_loop_at_blank:
  "tok_blank c \<Longrightarrow> find_separator_loop WS_PATTERN (c # r) None GETTOKEN_QUOTES =
     (True, c # r, Some (dropWhile isspace r))"
  using tok_blank_classes [of c]
  by (simp add: find_separator_loop.simps ws_match_blank)

lemma ws_loop_end: "find_separator_loop WS_PATTERN [] None GETTOKEN_QUOTES = (False, [], Some [])"
  by (simp add: find_separator_loop.simps)

lemma strip_quotes_plain:
  assumes "t \<noteq> [] \<longrightarrow> \<not> tok_quote (hd t)" "\<not> tok_quote (deref r)"
  shows "token_strip_quotes (t @ r) (length t) = (0, length t)"
  using assms by (cases t) (auto simp: token_strip_quotes_def)

lemma strip_quotes_dquote:
  "token_strip_quotes (dquote t @ r) (length (dquote t)) = (1, Suc (length t))"
proof -
  have "(DQ # t @ DQ # r) ! Suc (length t) = DQ" by simp
  then show ?thesis by (simp add: token_strip_quotes_def dquote_def tok_char_defs)
qed

text \<open>The next word of a command line: plain, or in double quotes, which are removed.\<close>

lemma GetToken_word:
  assumes "plain_word t" "tok_blank c"
  shows "GetToken (Some (t @ c # r)) WS_PATTERN GETTOKEN_QUOTES = (Some (dropWhile isspace r), t)"
proof -
  have "token_strip_quotes (t @ c # r) (length t) = (0, length t)"
    using assms tok_blank_classes [of c] strip_quotes_plain [of t "c # r"]
    by (cases t) (auto simp: plain_word_Cons)
  then show ?thesis
    using assms
    by (simp add: GetToken_def GetTokenFindSeparator_def ws_loop_skip ws_loop_at_blank
        GetTokenPostProcess_def token_bounds_def)
qed

lemma GetToken_word_last:
  assumes "plain_word t" "t \<noteq> []"
  shows "GetToken (Some t) WS_PATTERN GETTOKEN_QUOTES = (Some [], t)"
proof -
  have "token_strip_quotes t (length t) = (0, length t)"
    using assms strip_quotes_plain [of t "[]"] by (cases t) (auto simp: plain_word_Cons tok_char_defs)
  moreover have "find_separator_loop WS_PATTERN t None GETTOKEN_QUOTES = (False, [], Some [])"
    using ws_loop_skip [OF assms(1), of "[]"] ws_loop_end by simp
  ultimately show ?thesis
    using assms
    by (simp add: GetToken_def GetTokenFindSeparator_def GetTokenPostProcess_def token_bounds_def)
qed

lemma GetToken_quoted:
  assumes "DQ \<notin> set t" "BSL \<notin> set t" "tok_blank c"
  shows "GetToken (Some (dquote t @ c # r)) WS_PATTERN GETTOKEN_QUOTES =
     (Some (dropWhile isspace r), t)"
proof -
  have "find_separator_loop WS_PATTERN (dquote t @ c # r) None GETTOKEN_QUOTES =
      (True, c # r, Some (dropWhile isspace r))"
    using assms by (simp add: ws_loop_quoted ws_loop_at_blank)
  moreover have "take (length t) (drop (Suc 0) (dquote t @ c # r)) = t"
    by (simp add: dquote_def)
  moreover have "dquote t @ c # r \<noteq> []" "length (dquote t @ c # r) - length (c # r) = length (dquote t)"
    by (simp_all add: dquote_def)
  ultimately show ?thesis
    using strip_quotes_dquote [of t "c # r"]
    by (simp add: GetToken_def GetTokenFindSeparator_def GetTokenPostProcess_def token_bounds_def)
qed

lemma GetToken_quoted_last:
  assumes "DQ \<notin> set t" "BSL \<notin> set t"
  shows "GetToken (Some (dquote t)) WS_PATTERN GETTOKEN_QUOTES = (Some [], t)"
proof -
  have "find_separator_loop WS_PATTERN (dquote t) None GETTOKEN_QUOTES = (False, [], Some [])"
    using assms ws_loop_quoted [of t "[]"] ws_loop_end by simp
  moreover have "take (length t) (drop (Suc 0) (dquote t)) = t"
    by (simp add: dquote_def)
  moreover have "dquote t \<noteq> []" by (simp add: dquote_def)
  ultimately show ?thesis
    using strip_quotes_dquote [of t "[]"]
    by (simp add: GetToken_def GetTokenFindSeparator_def GetTokenPostProcess_def token_bounds_def)
qed

lemma isspace_dquote: "dropWhile isspace (dquote t @ r) = dquote t @ r"
  by (simp add: dquote_def)

lemma isspace_join_dquote:
  "dropWhile isspace (join_with c (dquote t # map dquote ts)) = join_with c (dquote t # map dquote ts)"
  by (cases ts) (simp_all add: dquote_def)

lemma token_list_quoted_words:
  "\<forall>t \<in> set ts. DQ \<notin> set t \<and> BSL \<notin> set t \<Longrightarrow>
     token_list (Some (join_with (CHR '' '') (map dquote ts))) WS_PATTERN GETTOKEN_QUOTES = ts"
proof (induction ts rule: induct_list012)
  case (2 t)
  then show ?case
    by (simp add: token_list.simps [of "Some (dquote t)"] GetToken_quoted_last)
next
  case (3 t u ts)
  then have "GetToken (Some (dquote t @ CHR '' '' # join_with (CHR '' '') (dquote u # map dquote ts)))
      WS_PATTERN GETTOKEN_QUOTES = (Some (join_with (CHR '' '') (dquote u # map dquote ts)), t)"
    by (simp add: GetToken_quoted isspace_join_dquote)
  with 3 show ?case
    by (simp add: token_list.simps
        [of "Some (dquote t @ CHR '' '' # join_with (CHR '' '') (dquote u # map dquote ts))"])
qed simp

section \<open>Properties\<close>

text \<open>C19: words without double quotes and backslashes, written in double quotes and joined by
  spaces, are read back as they were, empty words and words with spaces included.\<close>

theorem quoted_words_round_trip:
  assumes "\<forall>t \<in> set ts. DQ \<notin> set t \<and> BSL \<notin> set t"
  shows "token_list (Some (join_with (CHR '' '') (map dquote ts))) WS_PATTERN GETTOKEN_QUOTES = ts"
  using assms by (rule token_list_quoted_words)

theorem quoted_words_round_trip_witness:
  "token_list (Some (join_with (CHR '' '') (map dquote [''a b'', [], ''c'']))) WS_PATTERN GETTOKEN_QUOTES =
     [''a b'', [], ''c'']"
  by (rule quoted_words_round_trip) simp

end
