(* ===== verification/DocTokens.thy ===== *)
theory DocTokens
  imports TokenizerModes
begin

text \<open>
  The mode the document parsers of \<open>DataParser.c\<close> read in: one-character separators,
  \<open>GETTOKEN_MULTI_SEP | GETTOKEN_INCLUDE_SEP | GETTOKEN_HONOR_QUOTES\<close>.  A token is then either a
  single separator character or the text up to the next separator outside quotes.
\<close>

definition DOC_FLAGS :: nat where
  "DOC_FLAGS = or GETTOKEN_MULTI_SEP (or GETTOKEN_INCLUDE_SEP GETTOKEN_HONOR_QUOTES)"

lemma DOC_FLAGS_simps [simp]:
  "hasflag DOC_FLAGS GETTOKEN_MULTI_SEP" "hasflag DOC_FLAGS GETTOKEN_INCLUDE_SEP"
  "hasflag DOC_FLAGS GETTOKEN_HONOR_QUOTES" "\<not> hasflag DOC_FLAGS GETTOKEN_STRIP_QUOTES"
  "\<not> hasflag DOC_FLAGS GETTOKEN_STRIP_SPACE" "\<not> hasflag DOC_FLAGS GETTOKEN_BACKSLASH"
  by (simp_all add: hasflag_def DOC_FLAGS_def gettoken_flags)

lemma DOC_FLAGS_keeps [simp]: "keeps_all DOC_FLAGS"
  by (simp add: keeps_all_def)

text \<open>The separators of a pattern like \<open>" |#|="\<close>.\<close>

definition char_seps :: "string \<Rightarrow> string \<Rightarrow> bool" where
  "char_seps seps cs \<longleftrightarrow> length seps > 1 \<and> BuildMultiSeparators seps = map (\<lambda>c. [c]) cs \<and>
     (\<forall>c \<in> set cs. c \<noteq> BSL \<and> \<not> tok_quote c)"

lemma char_sep_match:
  assumes "c \<noteq> BSL" "\<not> tok_quote c" "d \<noteq> BSL"
  shows "GetTokenSepMatch [c] (d # r) None flags =
     (if d = c then (True, d # r, Some r) else (False, d # r, None))"
  using assms
  by (auto simp: GetTokenSepMatch_def sep_match_loop.simps [of "[c]"] sep_match_char_def
      sep_match_loop_Nil Let_def)

lemma char_sep_try:
  assumes "\<forall>c \<in> set cs. c \<noteq> BSL \<and> \<not> tok_quote c" "d \<noteq> BSL"
  shows "multi_sep_try (map (\<lambda>c. [c]) cs) (d # r) None flags =
     (if d \<in> set cs then (Some (d # r), Some r) else (None, None))"
  using assms by (induction cs) (auto simp: char_sep_match)

section \<open>Words\<close>

text \<open>A word is a sequence of plain pieces and pieces in double quotes.\<close>

datatype chunk = Plain string | Quoted string

fun chunk_text :: "chunk \<Rightarrow> string" where
  "chunk_text (Plain t) = t"
| "chunk_text (Quoted t) = dquote t"

fun chunk_ok :: "string \<Rightarrow> chunk \<Rightarrow> bool" where
  "chunk_ok cs (Plain t) \<longleftrightarrow> (\<forall>c \<in> set t. c \<notin> set cs \<and> \<not> tok_quote c \<and> c \<noteq> BSL \<and> \<not> isspace c)"
| "chunk_ok cs (Quoted t) \<longleftrightarrow> DQ \<notin> set t \<and> BSL \<notin> set t"

type_synonym word_chunks = "chunk list"

definition word_text :: "chunk list \<Rightarrow> string" where
  "word_text w = concat (map chunk_text w)"

definition word_ok :: "string \<Rightarrow> chunk list \<Rightarrow> bool" where
  "word_ok cs w \<longleftrightarrow> (\<forall>c \<in> set w. chunk_ok cs c) \<and> word_text w \<noteq> []"

lemma char_seps_facts:
  assumes "char_seps seps cs"
  shows "BuildMultiSeparators seps = map (\<lambda>c. [c]) cs" "\<forall>c \<in> set cs. c \<noteq> BSL \<and> \<not> tok_quote c"
    "seps \<noteq> []" "length seps \<noteq> Suc 0"
  using assms unfolding char_seps_def by (blast, blast, fastforce, linarith)

text \<open>The separator search over plain characters, quoted pieces and words.\<close>

definition sep_chars :: "string \<Rightarrow> bool" where
  "sep_chars cs \<longleftrightarrow> (\<forall>c \<in> set cs. c \<noteq> BSL \<and> \<not> tok_quote c)"

definition doc_search :: "string \<Rightarrow> string \<Rightarrow> (string \<times> string option) option" where
  "doc_search cs s = multi_sep_loop (map (\<lambda>c. [c]) cs) s None DOC_FLAGS"

lemma doc_search_Nil: "doc_search cs [] = None"
  by (simp add: doc_search_def multi_sep_loop.simps)

lemma doc_search_Cons:
  assumes "sep_chars cs" "d \<noteq> BSL"
  shows "doc_search cs (d # r) =
     (if d \<in> set cs then Some (d # r, Some r) else doc_search cs (GetTokenStepThru (d # r) DOC_FLAGS))"
  using assms char_sep_try [of cs d r DOC_FLAGS]
  by (simp add: doc_search_def sep_chars_def multi_sep_loop.simps [of _ "d # r"])

lemma doc_search_plain:
  "sep_chars cs \<Longrightarrow> \<forall>c \<in> set t. c \<notin> set cs \<and> \<not> tok_quote c \<and> c \<noteq> BSL \<Longrightarrow>
     doc_search cs (t @ r) = doc_search cs r"
proof (induction t)
  case (Cons c t)
  have "GetTokenStepThru (c # t @ r) DOC_FLAGS = t @ r"
    using Cons.prems by (simp add: GetTokenStepThru_def)
  with Cons show ?case by (simp add: doc_search_Cons)
qed simp

lemma doc_search_quoted:
  assumes "sep_chars cs" "DQ \<notin> set t" "BSL \<notin> set t"
  shows "doc_search cs (dquote t @ r) = doc_search cs r"
proof -
  have "GetTokenStepThru (DQ # t @ DQ # r) DOC_FLAGS = r"
    using assms by (simp add: GetTokenStepThru_def tok_char_defs traverse_quoted_plain)
  moreover have "DQ \<notin> set cs" using assms(1) by (auto simp: sep_chars_def tok_quote_def)
  ultimately show ?thesis using assms(1) by (simp add: dquote_def doc_search_Cons)
qed

lemma doc_search_chunk:
  "sep_chars cs \<Longrightarrow> chunk_ok cs c \<Longrightarrow> doc_search cs (chunk_text c @ r) = doc_search cs r"
  by (cases c) (simp_all add: doc_search_plain doc_search_quoted)

lemma doc_search_word:
  "sep_chars cs \<Longrightarrow> \<forall>c \<in> set w. chunk_ok cs c \<Longrightarrow> doc_search cs (word_text w @ r) = doc_search cs r"
  by (induction w) (simp_all add: word_text_def doc_search_chunk)

text \<open>What \<open>GetToken\<close> makes of the search.\<close>

lemma GetToken_doc:
  assumes "char_seps seps cs" "s \<noteq> []"
  shows "GetToken (Some s) seps DOC_FLAGS =
     (case doc_search cs s of
        None \<Rightarrow> (Some [], s)
      | Some (ss, se) \<Rightarrow> (case GetTokenPostProcess s (Some ss) se DOC_FLAGS of (r, t) \<Rightarrow> (Some r, t)))"
  using char_seps_facts [OF assms(1)] assms(2)
  by (simp add: GetToken_def GetTokenMultiSepMatch_def doc_search_def GetTokenPostProcess_def [of _ None]
      split: option.split prod.split)

lemma sep_charsI: "char_seps seps cs \<Longrightarrow> sep_chars cs"
  by (simp add: char_seps_def sep_chars_def)

lemma GetToken_doc_sep:
  assumes "char_seps seps cs" "d \<in> set cs"
  shows "GetToken (Some (d # r)) seps DOC_FLAGS = (Some r, [d])"
proof -
  have "d \<noteq> BSL" using assms by (auto simp: char_seps_def)
  then have "doc_search cs (d # r) = Some (d # r, Some r)"
    using assms sep_charsI by (simp add: doc_search_Cons)
  then show ?thesis
    by (simp add: GetToken_doc [OF assms(1)] GetTokenPostProcess_def token_bounds_def)
qed

lemma GetToken_doc_word:
  assumes "char_seps seps cs" "word_ok cs w" "d \<in> set cs"
  shows "GetToken (Some (word_text w @ d # r)) seps DOC_FLAGS = (Some (d # r), word_text w)"
proof -
  have "d \<noteq> BSL" using assms by (auto simp: char_seps_def)
  then have "doc_search cs (word_text w @ d # r) = Some (d # r, Some r)"
    using assms sep_charsI by (simp add: doc_search_word doc_search_Cons word_ok_def)
  moreover have "d # r \<noteq> word_text w @ d # r"
    using assms by (auto simp: word_ok_def)
  ultimately show ?thesis
    by (simp add: GetToken_doc [OF assms(1)] GetTokenPostProcess_def token_bounds_def)
qed

lemma GetToken_doc_word_end:
  assumes "char_seps seps cs" "word_ok cs w"
  shows "GetToken (Some (word_text w)) seps DOC_FLAGS = (Some [], word_text w)"
proof -
  have "doc_search cs (word_text w) = None"
    using assms sep_charsI doc_search_word [of cs w "[]"] by (simp add: word_ok_def doc_search_Nil)
  then show ?thesis using assms(2) by (simp add: GetToken_doc [OF assms(1)] word_ok_def)
qed

text \<open>A word starts with no white space and with no separator.\<close>

lemma word_first:
  assumes "word_ok cs w" "\<not> isspace DQ" "DQ \<notin> set cs"
  shows "\<not> isspace (deref (word_text w @ r)) \<and> deref (word_text w @ r) \<notin> set cs"
  using assms
proof (induction w)
  case (Cons c w)
  show ?case
  proof (cases "chunk_text c = []")
    case True
    with Cons show ?thesis by (auto simp: word_ok_def word_text_def)
  next
    case False
    with Cons show ?thesis
      by (cases c; cases "chunk_text c") (auto simp: word_ok_def word_text_def dquote_def)
  qed
qed (simp add: word_ok_def word_text_def)

end
