(* ===== verification/ListNodes.thy ===== *)
theory ListNodes
  imports CString
begin

text \<open>
  Lists of \<open>libUseful-4/List.c\<close> as sequences of nodes: the view in which the rest of the
  program uses them.  A list made by \<open>ListCreate()\<close> has no flags set, so lookups ignore case,
  nothing is sorted, cached or expired.  A node is its tag (which may be \<open>NULL\<close>), its item
  type and its item; a pointer to a node is its position, the list head is \<open>None\<close>.
\<close>

record 'a lnode =
  ln_tag :: "string option"
  ln_type :: nat
  ln_item :: 'a

text \<open>\<open>ANYTYPE\<close> is \<open>-1\<close>, which no \<open>uint16_t\<close> item type equals.\<close>

datatype want_type = ANYTYPE | OfType nat

fun type_matches :: "want_type \<Rightarrow> nat \<Rightarrow> bool" where
  "type_matches ANYTYPE t = True"
| "type_matches (OfType w) t = (w = t)"

definition tag_is :: "string option \<Rightarrow> string \<Rightarrow> bool" where
  "tag_is tag name \<longleftrightarrow> (case tag of None \<Rightarrow> False | Some t \<Rightarrow> strcasecmp t name = 0)"

fun find_tag :: "'a lnode list \<Rightarrow> string \<Rightarrow> nat option" where
  "find_tag [] name = None"
| "find_tag (x # xs) name =
     (if tag_is (ln_tag x) name then Some 0 else map_option Suc (find_tag xs name))"

text \<open>
  \<open>ListFindNamedItemInsert\<close> without flags: the last node first, then the first node with the
  name, else the last node.
\<close>

definition seq_find_insert :: "'a lnode list \<Rightarrow> string \<Rightarrow> nat option" where
  "seq_find_insert xs name =
     (if name = [] \<or> xs = [] then None
      else if tag_is (ln_tag (last xs)) name then Some (length xs - 1)
      else (case find_tag xs name of
              Some i \<Rightarrow> Some i
            | None \<Rightarrow> Some (length xs - 1)))"

text \<open>The loop of \<open>ListFindTypedItem\<close> from a node on; it compares with a \<open>NULL\<close> tag if it meets one.\<close>

fun typed_scan :: "'a lnode list \<Rightarrow> nat \<Rightarrow> want_type \<Rightarrow> string \<Rightarrow> nat option res" where
  "typed_scan [] i ty name = Inr None"
| "typed_scan (x # xs) i ty name =
     (case ln_tag x of
        None \<Rightarrow> Inl NullDeref
      | Some t \<Rightarrow>
          if strcasecmp t name = 0 \<and> type_matches ty (ln_type x) then Inr (Some i)
          else typed_scan xs (Suc i) ty name)"

definition seq_find_typed :: "'a lnode list \<Rightarrow> want_type \<Rightarrow> string \<Rightarrow> nat option res" where
  "seq_find_typed xs ty name =
     (case seq_find_insert xs name of
        None \<Rightarrow> Inr None
      | Some i \<Rightarrow>
          if ln_tag (xs ! i) = None then Inr None
          else typed_scan (drop i xs) i ty name)"

definition seq_find :: "'a lnode list \<Rightarrow> string \<Rightarrow> nat option res" where
  "seq_find xs name = seq_find_typed xs ANYTYPE name"

text \<open>\<open>ListAddTypedItem\<close>/\<open>ListInsertTypedItem\<close> at the end; an empty name leaves the tag \<open>NULL\<close>.\<close>

definition new_node :: "nat \<Rightarrow> string option \<Rightarrow> 'a \<Rightarrow> 'a lnode" where
  "new_node ty name itm =
     \<lparr>ln_tag = (if StrValid name then name else None), ln_type = ty, ln_item = itm\<rparr>"

definition seq_add_typed :: "'a lnode list \<Rightarrow> nat \<Rightarrow> string option \<Rightarrow> 'a \<Rightarrow> 'a lnode list" where
  "seq_add_typed xs ty name itm = xs @ [new_node ty name itm]"

definition ListAddNamedItem :: "'a lnode list \<Rightarrow> string option \<Rightarrow> 'a \<Rightarrow> 'a lnode list" where
  "ListAddNamedItem xs name itm = seq_add_typed xs 0 name itm"

definition delete_at :: "nat \<Rightarrow> 'a list \<Rightarrow> 'a list" where
  "delete_at i xs = take i xs @ drop (Suc i) xs"

section \<open>Lookup\<close>

lemma find_tag_Some:
  "find_tag xs name = Some i \<Longrightarrow> i < length xs \<and> tag_is (ln_tag (xs ! i)) name"
  by (induction xs arbitrary: i) (auto split: if_splits)

lemma find_tag_None: "find_tag xs name = None \<longleftrightarrow> (\<forall>x \<in> set xs. \<not> tag_is (ln_tag x) name)"
  by (induction xs) auto

lemma seq_find_insert_less:
  "seq_find_insert xs name = Some i \<Longrightarrow> i < length xs"
  by (auto simp: seq_find_insert_def dest: find_tag_Some split: if_splits option.splits)

text \<open>Without a name, or with a name no node carries, the lookup fails.\<close>

lemma seq_find_typed_absent:
  assumes "name = [] \<or> (\<forall>x \<in> set xs. \<not> tag_is (ln_tag x) name)"
  shows "seq_find_typed xs ty name = Inr None"
proof (cases "name = [] \<or> xs = []")
  case False
  then have ft: "find_tag xs name = None" and nl: "\<not> tag_is (ln_tag (last xs)) name"
    using assms by (auto simp: find_tag_None)
  obtain ys x where xs: "xs = ys @ [x]" using False by (cases xs rule: rev_cases) auto
  with ft nl False show ?thesis
    by (auto simp: seq_find_typed_def seq_find_insert_def tag_is_def split: option.splits)
qed (auto simp: seq_find_typed_def seq_find_insert_def)

lemma typed_scan_hit:
  assumes "i < length xs" "tag_is (ln_tag (xs ! i)) name" "type_matches ty (ln_type (xs ! i))"
  shows "typed_scan (drop i xs) j ty name = Inr (Some j)"
proof -
  have "drop i xs = xs ! i # drop (Suc i) xs" using assms(1) by (simp add: Cons_nth_drop_Suc)
  with assms show ?thesis by (auto simp: tag_is_def split: option.splits)
qed

text \<open>In a list whose nodes all have a wanted type, the node found is one with the name.\<close>

lemma seq_find_typed_present:
  assumes "name \<noteq> []" "\<exists>x \<in> set xs. tag_is (ln_tag x) name"
    and "\<forall>x \<in> set xs. type_matches ty (ln_type x)"
  shows "\<exists>i. seq_find_typed xs ty name = Inr (Some i) \<and> i < length xs \<and> tag_is (ln_tag (xs ! i)) name"
proof -
  have ne: "xs \<noteq> []" using assms(2) by auto
  obtain i where i: "seq_find_insert xs name = Some i" "i < length xs"
    "tag_is (ln_tag (xs ! i)) name"
  proof (cases "tag_is (ln_tag (last xs)) name")
    case True
    with ne assms(1) that [of "length xs - 1"] show ?thesis
      by (simp add: seq_find_insert_def last_conv_nth)
  next
    case False
    obtain j where "find_tag xs name = Some j"
      using assms(2) find_tag_None [of xs name] by (cases "find_tag xs name") auto
    with False ne assms(1) that [of j] find_tag_Some [of xs name j] show ?thesis
      by (simp add: seq_find_insert_def)
  qed
  then have "ln_tag (xs ! i) \<noteq> None" by (cases "ln_tag (xs ! i)") (auto simp: tag_is_def)
  moreover have "type_matches ty (ln_type (xs ! i))" using assms(3) i(2) by simp
  ultimately show ?thesis
    using i typed_scan_hit [OF i(2,3)] by (auto simp: seq_find_typed_def)
qed

lemma typed_scan_range: "typed_scan xs j ty name = Inr (Some i) \<Longrightarrow> j \<le> i \<and> i < j + length xs"
  by (induction xs j ty name rule: typed_scan.induct) (fastforce split: option.splits if_splits)+

lemma seq_find_typed_less:
  assumes "seq_find_typed xs ty name = Inr (Some i)"
  shows "i < length xs"
proof -
  obtain k where "seq_find_insert xs name = Some k" "typed_scan (drop k xs) k ty name = Inr (Some i)"
    using assms by (auto simp: seq_find_typed_def split: option.splits if_splits)
  with seq_find_insert_less [of xs name k] typed_scan_range [of "drop k xs" k ty name i]
  show ?thesis by simp
qed

lemma seq_find_typed_no_fault:
  "\<forall>x \<in> set xs. type_matches ty (ln_type x) \<Longrightarrow> \<exists>r. seq_find_typed xs ty name = Inr r"
  using seq_find_typed_present [of name xs ty] seq_find_typed_absent [of name xs ty] by blast

lemma seq_find_present:
  "name \<noteq> [] \<Longrightarrow> \<exists>x \<in> set xs. tag_is (ln_tag x) name \<Longrightarrow>
     \<exists>i. seq_find xs name = Inr (Some i) \<and> i < length xs \<and> tag_is (ln_tag (xs ! i)) name"
  using seq_find_typed_present [of name xs ANYTYPE] by (simp add: seq_find_def)

text \<open>
  A node that has the wanted name and type can be missed: when the last node has the name with
  another type, the search starts (and ends) there.
\<close>

lemma seq_find_typed_misses:
  assumes "name \<noteq> []" "tag_is (ln_tag y) name" "\<not> type_matches ty (ln_type y)"
  shows "seq_find_typed (xs @ [y]) ty name = Inr None"
proof -
  obtain t where "ln_tag y = Some t" using assms(2) by (cases "ln_tag y") (auto simp: tag_is_def)
  with assms show ?thesis
    by (simp add: seq_find_typed_def seq_find_insert_def)
qed

end
