(* ===== verification/Vars.thy ===== *)
theory Vars
  imports ListNodes
begin

text \<open>
  Named variables (\<open>libUseful-4/Vars.c\<close>) and the substitution of \<open>$(name)\<close> in command
  templates, through which every value a client sends reaches a command line.

  A variable list is a node list whose items are strings.  \<open>ParseVar\<close> and its two name loops
  call each other on shorter and shorter rests of the template; they carry fuel, and
  \<open>SubstituteVarsInString\<close> starts them with the length of the template, which is enough
  (\<open>SubstituteVarsInString_fuel\<close>).  Reading past the end of the template is the fault
  \<open>OutOfBounds\<close>.
\<close>

type_synonym vars = "string lnode list"

section \<open>Setting and getting\<close>

text \<open>\<open>SetDetailVar\<close> with no time: overwrite the variable of that name and type, or add one.\<close>

definition SetTypedVar :: "vars \<Rightarrow> string \<Rightarrow> string \<Rightarrow> nat \<Rightarrow> vars res" where
  "SetTypedVar vs name data ty =
     bindr (seq_find_typed vs (OfType ty) name)
       (\<lambda>r. case r of
          Some i \<Rightarrow> Inr (vs[i := (vs ! i)\<lparr>ln_item := data\<rparr>])
        | None \<Rightarrow> Inr (seq_add_typed vs ty (Some name) data))"

definition SetVar :: "vars \<Rightarrow> string \<Rightarrow> string \<Rightarrow> vars res" where
  "SetVar vs name data = SetTypedVar vs name data 0"

definition GetTypedVar :: "vars \<Rightarrow> string \<Rightarrow> want_type \<Rightarrow> string res" where
  "GetTypedVar vs name ty =
     bindr (seq_find_typed vs ty name)
       (\<lambda>r. case r of Some i \<Rightarrow> Inr (ln_item (vs ! i)) | None \<Rightarrow> Inr [])"

definition GetVar :: "vars \<Rightarrow> string \<Rightarrow> string res" where
  "GetVar vs name = GetTypedVar vs name ANYTYPE"

definition UnsetTypedVar :: "vars \<Rightarrow> string \<Rightarrow> want_type \<Rightarrow> vars res" where
  "UnsetTypedVar vs name ty =
     bindr (seq_find_typed vs ty name)
       (\<lambda>r. case r of Some i \<Rightarrow> Inr (delete_at i vs) | None \<Rightarrow> Inr vs)"

fun CopyVars :: "vars \<Rightarrow> vars \<Rightarrow> vars res" where
  "CopyVars dest [] = Inr dest"
| "CopyVars dest (x # xs) =
     bindr (SetTypedVar dest (CopyStr (ln_tag x)) (ln_item x) (ln_type x)) (\<lambda>d. CopyVars d xs)"

text \<open>A sequence of \<open>SetVar\<close> calls.\<close>

fun set_vars :: "vars \<Rightarrow> (string \<times> string) list \<Rightarrow> vars res" where
  "set_vars vs [] = Inr vs"
| "set_vars vs ((n, d) # nds) = bindr (SetVar vs n d) (\<lambda>vs'. set_vars vs' nds)"

section \<open>The contract of a variable store\<close>

text \<open>
  What the users of variables rely on: setting never faults, a name reads back the value it was
  last given, whatever the case of its letters, and no other name is touched.
\<close>

locale var_store =
  fixes get_var :: "'v \<Rightarrow> string \<Rightarrow> string res"
    and set_var :: "'v \<Rightarrow> string \<Rightarrow> string \<Rightarrow> 'v res"
    and store_ok :: "'v \<Rightarrow> bool"
  assumes set_total: "store_ok v \<Longrightarrow> \<exists>v'. set_var v n d = Inr v' \<and> store_ok v'"
    and get_set: "store_ok v \<Longrightarrow> set_var v n d = Inr v' \<Longrightarrow> n \<noteq> [] \<Longrightarrow>
      get_var v' m = (if strlwr m = strlwr n then Inr d else get_var v m)"
    and get_set_unnamed: "store_ok v \<Longrightarrow> set_var v [] d = Inr v' \<Longrightarrow> get_var v' m = get_var v m"
begin

fun run_sets :: "'v \<Rightarrow> (string \<times> string) list \<Rightarrow> 'v res" where
  "run_sets v [] = Inr v"
| "run_sets v ((n, d) # nds) = bindr (set_var v n d) (\<lambda>v'. run_sets v' nds)"

lemma run_sets_total: "store_ok v \<Longrightarrow> \<exists>v'. run_sets v nds = Inr v' \<and> store_ok v'"
proof (induction nds arbitrary: v)
  case (Cons nd nds)
  obtain n d where nd: "nd = (n, d)" by (cases nd)
  obtain v1 where "set_var v n d = Inr v1" "store_ok v1" using set_total [OF Cons.prems] by blast
  with Cons.IH [of v1] nd show ?case by simp
qed simp

lemma run_sets_append: "run_sets v (xs @ ys) = bindr (run_sets v xs) (\<lambda>v'. run_sets v' ys)"
  by (induction xs arbitrary: v) (auto simp: bindr_assoc)

lemma set_keeps:
  "store_ok v \<Longrightarrow> set_var v n d = Inr v' \<Longrightarrow> strlwr m \<noteq> strlwr n \<Longrightarrow> get_var v' m = get_var v m"
  using get_set [of v n d v' m] get_set_unnamed [of v d v' m] by (cases "n = []") auto

lemma set_ok: "store_ok v \<Longrightarrow> set_var v n d = Inr v' \<Longrightarrow> store_ok v'"
  using set_total [of v n d] by auto

lemma run_sets_keeps:
  "store_ok v \<Longrightarrow> run_sets v nds = Inr v' \<Longrightarrow> \<forall>(n, d) \<in> set nds. strlwr m \<noteq> strlwr n \<Longrightarrow>
     get_var v' m = get_var v m"
proof (induction nds arbitrary: v)
  case (Cons nd nds)
  obtain n d where nd: "nd = (n, d)" by (cases nd)
  then obtain v1 where v1: "set_var v n d = Inr v1" "run_sets v1 nds = Inr v'"
    using Cons.prems(2) by (auto simp: bindr_Inr_iff)
  have "get_var v' m = get_var v1 m"
    using Cons.IH [of v1] Cons.prems v1 set_ok by auto
  also have "\<dots> = get_var v m"
    using set_keeps [OF Cons.prems(1) v1(1), of m] Cons.prems(3) nd by auto
  finally show ?case .
qed simp

lemma last_set_wins:
  assumes "store_ok v" "run_sets v (xs @ (n, d) # ys) = Inr v'"
    and "n \<noteq> []" "strlwr m = strlwr n" "\<forall>(k, _) \<in> set ys. strlwr m \<noteq> strlwr k"
  shows "get_var v' m = Inr d"
proof -
  obtain v1 v2 where v: "run_sets v xs = Inr v1" "set_var v1 n d = Inr v2" "run_sets v2 ys = Inr v'"
    using assms(2) by (auto simp: run_sets_append bindr_Inr_iff)
  have ok1: "store_ok v1" using run_sets_total [OF assms(1), of xs] v(1) by auto
  have "get_var v' m = get_var v2 m"
    using run_sets_keeps [OF set_ok [OF ok1 v(2)] v(3)] assms(5) by auto
  also have "\<dots> = Inr d" using get_set [OF ok1 v(2) assms(3)] assms(4) by simp
  finally show ?thesis .
qed

end

section \<open>Variable lists satisfy it\<close>

text \<open>All variables set by \<open>SetVar\<close> have item type 0, and no two of them the same name.\<close>

definition vars_ok :: "vars \<Rightarrow> bool" where
  "vars_ok vs \<longleftrightarrow>
     (\<forall>x \<in> set vs. ln_type x = 0) \<and>
     (\<forall>i < length vs. \<forall>j < length vs. \<forall>name.
        tag_is (ln_tag (vs ! i)) name \<and> tag_is (ln_tag (vs ! j)) name \<longrightarrow> i = j)"

lemma vars_ok_unique:
  "vars_ok vs \<Longrightarrow> i < length vs \<Longrightarrow> j < length vs \<Longrightarrow>
     tag_is (ln_tag (vs ! i)) m \<Longrightarrow> tag_is (ln_tag (vs ! j)) m \<Longrightarrow> i = j"
  by (auto simp: vars_ok_def)

lemma tag_is_strlwr: "strlwr m = strlwr n \<Longrightarrow> tag_is t m = tag_is t n"
  by (auto simp: tag_is_def strcasecmp_0_iff strlwr_def split: option.splits)

lemma tag_is_unique: "tag_is t m \<Longrightarrow> tag_is t n \<Longrightarrow> strlwr m = strlwr n"
  by (auto simp: tag_is_def strcasecmp_0_iff strlwr_def split: option.splits)

lemma tag_is_None [simp]: "\<not> tag_is None n"
  by (simp add: tag_is_def)

lemma tag_is_Some: "tag_is (Some t) n \<longleftrightarrow> strlwr t = strlwr n"
  by (auto simp: tag_is_def strcasecmp_0_iff strlwr_def)

lemma strlwr_Nil [simp]: "strlwr n = [] \<longleftrightarrow> n = []" "[] = strlwr n \<longleftrightarrow> n = []" "strlwr [] = []"
  by (auto simp: strlwr_def)

lemma find_tag_strlwr: "strlwr m = strlwr n \<Longrightarrow> find_tag xs m = find_tag xs n"
  by (induction xs) (auto simp: tag_is_strlwr [of m n])

lemma find_tag_unique:
  assumes "vars_ok vs" "i < length vs" "tag_is (ln_tag (vs ! i)) name"
  shows "find_tag vs name = Some i"
proof -
  obtain j where "find_tag vs name = Some j"
    using assms(2,3) find_tag_None [of vs name] by (cases "find_tag vs name") auto
  with find_tag_Some [of vs name j] assms show ?thesis by (auto simp: vars_ok_def)
qed

text \<open>In such a list every lookup is the search for the name.\<close>

lemma vars_ok_find:
  assumes "vars_ok vs" "type_matches ty 0"
  shows "seq_find_typed vs ty name = Inr (if name = [] then None else find_tag vs name)"
proof (cases "name \<noteq> [] \<and> (\<exists>x \<in> set vs. tag_is (ln_tag x) name)")
  case True
  have "\<forall>x \<in> set vs. type_matches ty (ln_type x)"
    using assms by (cases ty) (auto simp: vars_ok_def)
  with True seq_find_typed_present [of name vs ty] obtain i where
    "seq_find_typed vs ty name = Inr (Some i)" "i < length vs" "tag_is (ln_tag (vs ! i)) name"
    by blast
  with True find_tag_unique [OF assms(1)] show ?thesis by simp
next
  case False
  then show ?thesis
    using seq_find_typed_absent [of name vs ty] find_tag_None [of vs name] by auto
qed

lemma GetVar_find:
  "vars_ok vs \<Longrightarrow> GetVar vs name =
     Inr (if name = [] then [] else
            (case find_tag vs name of Some i \<Rightarrow> ln_item (vs ! i) | None \<Rightarrow> []))"
  by (simp add: GetVar_def GetTypedVar_def vars_ok_find split: option.splits)

lemma SetVar_find:
  "vars_ok vs \<Longrightarrow> SetVar vs name d =
     Inr (case (if name = [] then None else find_tag vs name) of
            Some i \<Rightarrow> vs[i := (vs ! i)\<lparr>ln_item := d\<rparr>]
          | None \<Rightarrow> seq_add_typed vs 0 (Some name) d)"
  by (simp add: SetVar_def SetTypedVar_def vars_ok_find split: option.splits)

lemma find_tag_upd: "i < length vs \<Longrightarrow> find_tag (vs[i := (vs ! i)\<lparr>ln_item := d\<rparr>]) m = find_tag vs m"
  by (induction vs arbitrary: i) (auto split: nat.splits)

lemma find_tag_append:
  "find_tag (xs @ ys) m =
     (case find_tag xs m of Some i \<Rightarrow> Some i | None \<Rightarrow> map_option (\<lambda>j. length xs + j) (find_tag ys m))"
  by (cases "find_tag ys m"; induction xs) (auto split: option.splits)

lemma vars_ok_upd:
  assumes "vars_ok vs" "i < length vs"
  shows "vars_ok (vs[i := (vs ! i)\<lparr>ln_item := d\<rparr>])"
proof -
  have tags: "ln_tag (vs[i := (vs ! i)\<lparr>ln_item := d\<rparr>] ! j) = ln_tag (vs ! j)" if "j < length vs" for j
    using that assms(2) by (auto simp: nth_list_update)
  have "\<forall>x \<in> set (vs[i := (vs ! i)\<lparr>ln_item := d\<rparr>]). ln_type x = 0"
    using assms by (auto simp: vars_ok_def dest!: subsetD [OF set_update_subset_insert])
  then show ?thesis
    using assms(1) by (auto simp: vars_ok_def tags)
qed

lemma vars_ok_add:
  assumes "vars_ok vs" "name = [] \<or> find_tag vs name = None"
  shows "vars_ok (seq_add_typed vs 0 (Some name) d)"
proof -
  let ?new = "new_node 0 (Some name) d"
  have new: "\<not> tag_is (ln_tag x) m" if "x \<in> set vs" "tag_is (ln_tag ?new) m" for x m
  proof -
    have "name \<noteq> []" "strlwr name = strlwr m"
      using that(2) by (auto simp: new_node_def tag_is_Some split: if_splits)
    with assms(2) that(1) show ?thesis by (auto simp: find_tag_None tag_is_strlwr [of m name])
  qed
  have "i = j" if "i < Suc (length vs)" "j < Suc (length vs)"
    "tag_is (ln_tag ((vs @ [?new]) ! i)) m" "tag_is (ln_tag ((vs @ [?new]) ! j)) m" for i j m
    using that new vars_ok_unique [OF assms(1), of i j m]
    by (cases "i < length vs"; cases "j < length vs")
      (auto simp: nth_append less_Suc_eq dest: nth_mem)
  then show ?thesis
    using assms(1) by (auto simp: seq_add_typed_def vars_ok_def new_node_def)
qed

lemma vars_ok_Nil [simp]: "vars_ok []"
  by (simp add: vars_ok_def)

lemma SetVar_ok: "vars_ok vs \<Longrightarrow> \<exists>vs'. SetVar vs n d = Inr vs' \<and> vars_ok vs'"
  by (auto simp: SetVar_find vars_ok_upd vars_ok_add dest: find_tag_Some split: option.splits)

lemma GetVar_SetVar:
  assumes "vars_ok vs" "SetVar vs n d = Inr vs'" "n \<noteq> []"
  shows "GetVar vs' m = (if strlwr m = strlwr n then Inr d else GetVar vs m)"
proof -
  have ok': "vars_ok vs'" using SetVar_ok [OF assms(1), of n d] assms(2) by auto
  show ?thesis
  proof (cases "find_tag vs n")
    case None
    then have vs': "vs' = vs @ [new_node 0 (Some n) d]"
      using assms by (simp add: SetVar_find seq_add_typed_def)
    have "find_tag vs m = None" if "strlwr m = strlwr n"
      using None find_tag_strlwr [OF that, of vs] by simp
    then show ?thesis
      using ok' assms(1,3) vs' find_tag_Some [of vs m]
      by (auto simp: GetVar_find find_tag_append new_node_def tag_is_Some nth_append split: option.splits)
  next
    case (Some i)
    note i = find_tag_Some [OF Some]
    have vs': "vs' = vs[i := (vs ! i)\<lparr>ln_item := d\<rparr>]"
      using assms Some by (simp add: SetVar_find)
    have "strlwr m = strlwr n" if "find_tag vs m = Some i"
      using find_tag_Some [OF that] i tag_is_unique by blast
    moreover have "find_tag vs m = Some i" if "strlwr m = strlwr n"
      using Some find_tag_strlwr [OF that, of vs] by simp
    ultimately show ?thesis
      using ok' assms(1,3) i vs'
      by (auto simp: GetVar_find find_tag_upd nth_list_update split: option.splits)
  qed
qed

lemma GetVar_SetVar_unnamed:
  assumes "vars_ok vs" "SetVar vs [] d = Inr vs'"
  shows "GetVar vs' m = GetVar vs m"
proof -
  have "vs' = vs @ [new_node 0 (Some []) d]" "vars_ok vs'"
    using assms SetVar_ok [OF assms(1), of "[]" d] by (auto simp: SetVar_find seq_add_typed_def)
  with assms(1) find_tag_Some [of vs m] show ?thesis
    by (auto simp: GetVar_find find_tag_append new_node_def tag_is_def nth_append split: option.splits)
qed

interpretation var_list: var_store GetVar SetVar vars_ok
  by unfold_locales (blast intro: SetVar_ok GetVar_SetVar GetVar_SetVar_unnamed)+

lemma set_vars_run: "set_vars vs nds = var_list.run_sets vs nds"
  by (induction vs nds rule: set_vars.induct) (auto intro: bindr_cong)

text \<open>
  What a list holds after a sequence of settings: of the settings of one name the last, whatever the case of the
  letters, and every setting without a name.
\<close>

fun latest :: "(string \<times> 'a) list \<Rightarrow> 'a list" where
  "latest [] = []"
| "latest ((n, d) # nds) =
     (if n \<noteq> [] \<and> (\<exists>(k, _) \<in> set nds. strlwr k = strlwr n) then latest nds else d # latest nds)"

lemma latest_map: "latest (map (\<lambda>x. (f x, g x)) xs) = map g (latest (map (\<lambda>x. (f x, x)) xs))"
  by (induction xs) auto

lemma latest_snoc:
  "latest (nds @ [(n, d)]) = latest (filter (\<lambda>(k, _). n = [] \<or> strlwr k \<noteq> strlwr n) nds) @ [d]"
proof (induction nds)
  case (Cons p nds)
  obtain k e where p: "p = (k, e)" by (cases p)
  have "(\<exists>(j, _) \<in> set (filter (\<lambda>(k, _). n = [] \<or> strlwr k \<noteq> strlwr n) nds). strlwr j = strlwr k) \<longleftrightarrow>
      (\<exists>(j, _) \<in> set nds. strlwr j = strlwr k)" if "n = [] \<or> strlwr k \<noteq> strlwr n"
    using that by auto
  then show ?case using Cons p by (cases "n = []"; cases "strlwr k = strlwr n") auto
qed simp

lemma set_latest: "set (latest nds) \<subseteq> snd ` set nds"
  by (induction nds rule: latest.induct) auto

lemma SetVar_nodes:
  assumes "vars_ok vs" "SetVar vs n d = Inr vs'"
  shows "\<exists>x. ln_item x = d \<and> (\<forall>m. m \<noteq> [] \<longrightarrow> tag_is (ln_tag x) m \<longleftrightarrow> n \<noteq> [] \<and> strlwr m = strlwr n) \<and>
    set vs' = insert x {y \<in> set vs. n = [] \<or> \<not> tag_is (ln_tag y) n}"
proof (cases "if n = [] then None else find_tag vs n")
  case None
  have "vs' = vs @ [new_node 0 (Some n) d]" using assms None by (simp add: SetVar_find seq_add_typed_def)
  moreover have "n = [] \<or> \<not> tag_is (ln_tag y) n" if "y \<in> set vs" for y
    using None that find_tag_None [of vs n] by (auto split: if_splits)
  ultimately show ?thesis
    by (intro exI [of _ "new_node 0 (Some n) d"]) (auto simp: new_node_def tag_is_Some)
next
  case (Some i)
  then have n: "n \<noteq> []" "find_tag vs n = Some i" by (auto split: if_splits)
  note i = find_tag_Some [OF n(2)]
  define x where "x = (vs ! i)\<lparr>ln_item := d\<rparr>"
  have vs': "vs' = vs[i := x]" using assms n by (simp add: SetVar_find x_def)
  have "y = x \<or> y \<in> set vs \<and> \<not> tag_is (ln_tag y) n" if "y \<in> set vs'" for y
  proof -
    obtain j where j: "j < length vs" "y = vs[i := x] ! j" using \<open>y \<in> set vs'\<close> by (auto simp: vs' in_set_conv_nth)
    show ?thesis
    proof (cases "j = i")
      case True
      with j show ?thesis by simp
    next
      case False
      then have "\<not> tag_is (ln_tag (vs ! j)) n" using vars_ok_unique [OF assms(1) j(1)] i by blast
      with False j show ?thesis by simp
    qed
  qed
  moreover have "y \<in> set vs'" if y: "y \<in> set vs" "\<not> tag_is (ln_tag y) n" for y
  proof -
    obtain j where j: "j < length vs" "y = vs ! j" using y(1) by (auto simp: in_set_conv_nth)
    then have "j \<noteq> i" using y(2) i by blast
    with j show ?thesis by (metis vs' length_list_update nth_list_update_neq nth_mem)
  qed
  moreover have "x \<in> set vs'" using i by (simp add: vs' set_update_memI)
  ultimately have "(y \<in> set vs') = (y = x \<or> y \<in> set vs \<and> \<not> tag_is (ln_tag y) n)" for y by blast
  moreover have "tag_is (ln_tag x) m \<longleftrightarrow> strlwr m = strlwr n" for m
  proof -
    have "tag_is (ln_tag x) n" using i by (simp add: x_def)
    then show ?thesis using tag_is_unique [of "ln_tag x" m n] tag_is_strlwr [of m n "ln_tag x"] by blast
  qed
  moreover have "ln_item x = d" by (simp add: x_def)
  ultimately show ?thesis using n(1) by blast
qed

lemma set_vars_items:
  "vars_ok vs \<Longrightarrow> set_vars vs nds = Inr vs' \<Longrightarrow>
     ln_item ` set vs' = ln_item ` {x \<in> set vs. \<forall>(k, _) \<in> set nds. k = [] \<or> \<not> tag_is (ln_tag x) k} \<union> set (latest nds)"
proof (induction nds arbitrary: vs)
  case (Cons p nds)
  obtain n d where p: "p = (n, d)" by (cases p)
  then obtain vs1 where vs1: "SetVar vs n d = Inr vs1" "set_vars vs1 nds = Inr vs'"
    using Cons.prems(2) by (auto simp: bindr_Inr_iff)
  have ok: "vars_ok vs1" using SetVar_ok [OF Cons.prems(1), of n d] vs1(1) by auto
  obtain x where x: "ln_item x = d" "\<forall>m. m \<noteq> [] \<longrightarrow> tag_is (ln_tag x) m \<longleftrightarrow> n \<noteq> [] \<and> strlwr m = strlwr n"
    "set vs1 = insert x {y \<in> set vs. n = [] \<or> \<not> tag_is (ln_tag y) n}"
    using SetVar_nodes [OF Cons.prems(1) vs1(1)] by blast
  let ?Q = "\<lambda>y. \<forall>(k, _) \<in> set nds. k = [] \<or> \<not> tag_is (ln_tag y) k"
  have "?Q x \<longleftrightarrow> \<not> (n \<noteq> [] \<and> (\<exists>(k, _) \<in> set nds. strlwr k = strlwr n))"
  proof -
    have "k = [] \<or> \<not> tag_is (ln_tag x) k \<longleftrightarrow> \<not> (n \<noteq> [] \<and> strlwr k = strlwr n)" for k
      using x(2) by (cases "k = []"; cases "n = []") simp_all
    then show ?thesis by (simp add: split_beta)
  qed
  then have "ln_item ` {y \<in> set vs1. ?Q y} \<union> set (latest nds) =
      ln_item ` {y \<in> set vs. (n = [] \<or> \<not> tag_is (ln_tag y) n) \<and> ?Q y} \<union> set (latest (p # nds))"
    using x(1) unfolding x(3) p latest.simps by auto
  then show ?case using Cons.IH [OF ok vs1(2)] p by simp
qed simp

section \<open>Properties\<close>

text \<open>After any sequence of settings a variable has the value it was last given, in whatever
  case its name was written.\<close>

theorem last_setting_wins:
  assumes "set_vars [] (xs @ (n, d) # ys) = Inr vs" "n \<noteq> []" "\<forall>(k, _) \<in> set ys. strlwr n \<noteq> strlwr k"
  shows "GetVar vs n = Inr d"
  using assms var_list.last_set_wins [of "[]" xs n d ys vs n] by (simp add: set_vars_run)

theorem last_setting_wins_witness:
  "\<exists>vs. set_vars [] [(''a'', ''1''), (''A'', ''2''), (''b'', ''3'')] = Inr vs \<and> GetVar vs ''A'' = Inr ''2''"
proof -
  obtain vs where vs: "set_vars [] [(''a'', ''1''), (''A'', ''2''), (''b'', ''3'')] = Inr vs"
    using var_list.run_sets_total [of "[]" "[(''a'', ''1''), (''A'', ''2''), (''b'', ''3'')]"]
    by (auto simp: set_vars_run)
  moreover have "strlwr ''A'' \<noteq> strlwr ''b''" by code_simp
  ultimately show ?thesis
    using last_setting_wins [of "[(''a'', ''1'')]" "''A''" "''2''" "[(''b'', ''3'')]" vs] by simp
qed

end
