(* ===== verification/AppDB.thy ===== *)
theory AppDB
  imports DocTokens Vars
begin

text \<open>
  \<open>common.c\<close>, \<open>appdb.c\<close> and the argument parser of \<open>grant.c\<close>: membership in a comma list, and
  the database of programs that have been granted commands.

  A program is granted a command when some line of the database lists the command, names the
  program or none, and carries the size and the hash of the program file.  The contents of the
  database, the size of a file (\<open>stat\<close>) and its hash are arguments: they are read from the file
  system.  A grant added by \<open>AppDBAdd\<close> is found by \<open>AppDBCheck\<close> (\<open>granted_program_is_found\<close>).
\<close>

section \<open>\<open>common.c\<close>\<close>

function list_scan :: "string option \<Rightarrow> string \<Rightarrow> bool \<Rightarrow> bool" where
  "list_scan p item result =
     (case GetToken p LIST_PATTERN GETTOKEN_MULTI_SEP of
        (None, name) \<Rightarrow> result
      | (Some r, name) \<Rightarrow> list_scan (Some r) item (if strcmp item name = 0 then True else result))"
  by pat_completeness auto
termination
  by (relation "measure (\<lambda>(p, _). ptr_left p)") (auto dest: get_token.next_decreases [OF sym])

declare list_scan.simps [simp del]

definition IsItemInList :: "string \<Rightarrow> string option \<Rightarrow> bool" where
  "IsItemInList item strlist = (if strcmp item ''*'' = 0 then True else list_scan strlist item False)"

text \<open>The names in a list, as \<open>GetToken\<close> cuts them.\<close>

definition list_names :: "string option \<Rightarrow> string list" where
  "list_names l = token_list l LIST_PATTERN GETTOKEN_MULTI_SEP"

lemma list_scan_names: "list_scan p item b \<longleftrightarrow> b \<or> item \<in> set (list_names p)"
proof (induction p item b rule: list_scan.induct)
  case (1 p item b)
  obtain q t where G: "GetToken p LIST_PATTERN GETTOKEN_MULTI_SEP = (q, t)" by fastforce
  show ?case
  proof (cases q)
    case None
    with G show ?thesis by (simp add: list_scan.simps [of p] list_names_def token_list.simps [of p])
  next
    case (Some r)
    with "1.IH" [OF G [symmetric] Some] G show ?thesis
      by (auto simp: list_scan.simps [of p] list_names_def token_list.simps [of p])
  qed
qed

lemma IsItemInList_names: "IsItemInList item l \<longleftrightarrow> item = ''*'' \<or> item \<in> set (list_names l)"
  by (simp add: IsItemInList_def list_scan_names)

lemma list_names_comma:
  "\<forall>t \<in> set ts. plain_name t \<Longrightarrow> ts \<noteq> [] \<Longrightarrow> last ts \<noteq> [] \<Longrightarrow>
     list_names (Some (join_with (CHR '','') ts)) = ts"
  by (simp add: list_names_def token_list_names)

lemma list_names_None [simp]: "list_names None = []"
  by (simp add: list_names_def)

section \<open>Reading lines\<close>

text \<open>
  \<open>STREAMReadLine\<close>: the bytes up to and including the next newline, the rest when there is none,
  \<open>NULL\<close> when nothing is left.  A NUL byte in the line ends the C string.
\<close>

definition read_line :: "string \<Rightarrow> string option \<times> string" where
  "read_line inp =
     (if inp = [] then (None, [])
      else (case dropWhile (\<lambda>c. c \<noteq> LF) inp of
              [] \<Rightarrow> (Some (cut_at_NUL inp), [])
            | c # rest \<Rightarrow> (Some (cut_at_NUL (takeWhile (\<lambda>c. c \<noteq> LF) inp @ [c])), rest)))"

lemma read_line_shorter: "read_line inp = (Some l, rest) \<Longrightarrow> length rest < length inp"
proof -
  assume "read_line inp = (Some l, rest)"
  moreover have "length (dropWhile (\<lambda>c. c \<noteq> LF) inp) \<le> length inp"
    by (rule length_dropWhile_le)
  ultimately show ?thesis
    by (auto simp: read_line_def split: if_splits list.splits)
qed

lemma read_line_None: "read_line inp = (None, rest) \<longleftrightarrow> inp = [] \<and> rest = []"
  by (auto simp: read_line_def split: list.splits)

function file_lines :: "string \<Rightarrow> string list" where
  "file_lines inp =
     (case read_line inp of (None, _) \<Rightarrow> [] | (Some l, rest) \<Rightarrow> l # file_lines rest)"
  by pat_completeness auto
termination
  by (relation "measure length") (auto dest: read_line_shorter [OF sym])

declare file_lines.simps [simp del]

lemma file_lines_Nil [simp]: "file_lines [] = []"
  by (simp add: file_lines.simps read_line_def)

lemma file_lines_Cons:
  assumes "LF \<notin> set l" "NUL \<notin> set l"
  shows "file_lines (l @ LF # rest) = (l @ [LF]) # file_lines rest"
proof -
  have d: "dropWhile (\<lambda>c. c \<noteq> LF) (l @ LF # rest) = LF # rest"
    "takeWhile (\<lambda>c. c \<noteq> LF) (l @ LF # rest) = l"
    using assms(1) by (induction l) auto
  have "cut_at_NUL (l @ [LF]) = l @ [LF]"
    using assms(2) by (induction l) (auto simp: cut_at_NUL_def)
  with d show ?thesis
    by (simp add: file_lines.simps [of "l @ LF # rest"] read_line_def)
qed

section \<open>\<open>appdb.c\<close>\<close>

record grant =
  gr_type :: "string option"
  gr_user :: "string option"
  gr_group :: "string option"
  gr_program :: "string option"
  gr_hash :: "string option"
  gr_size :: nat

definition no_grant :: grant where
  "no_grant = \<lparr>gr_type = None, gr_user = None, gr_group = None, gr_program = None,
     gr_hash = None, gr_size = 0\<rparr>"

text \<open>\<open>(size_t) strtoll(...)\<close>; and how much \<open>STREAMSendFile\<close> copies when it is asked for that many bytes: it
  loops while the size, converted to a signed \<open>long\<close>, is positive.\<close>

definition size_of_text :: "string \<Rightarrow> nat" where
  "size_of_text v = nat (strtoll10 v mod 2 ^ 64)"

definition copy_limit :: "nat \<Rightarrow> nat" where
  "copy_limit n = nat (int64_of (int n))"

lemma copy_limit: "n < 2 ^ 64 \<Longrightarrow> copy_limit n = (if n < 2 ^ 63 then n else 0)"
  by (cases "n < 2 ^ 63") (simp_all add: copy_limit_def int64_of_id int64_of_negative)

definition grant_field :: "grant \<Rightarrow> string \<Rightarrow> string \<Rightarrow> grant" where
  "grant_field g name v =
     (if strcmp name ''grant'' = 0 then g\<lparr>gr_type := Some v\<rparr>
      else if strcmp name ''user'' = 0 then g\<lparr>gr_user := Some v\<rparr>
      else if strcmp name ''group'' = 0 then g\<lparr>gr_group := Some v\<rparr>
      else if strcmp name ''program'' = 0 then g\<lparr>gr_program := Some v\<rparr>
      else if strcmp name ''hash'' = 0 then g\<lparr>gr_hash := Some v\<rparr>
      else if strcmp name ''size'' = 0 then g\<lparr>gr_size := size_of_text v\<rparr>
      else g)"

function parse_grant_loop :: "string option \<Rightarrow> grant \<Rightarrow> grant" where
  "parse_grant_loop p g =
     (case GetNameValuePair p '' '' ''='' of
        (None, n, v) \<Rightarrow> g
      | (Some r, n, v) \<Rightarrow> parse_grant_loop (Some r) (grant_field g n v))"
  by pat_completeness auto
termination
  by (relation "measure (\<lambda>(p, _). ptr_left p)") (auto dest: name_value.next_decreases [OF sym])

declare parse_grant_loop.simps [simp del]

text \<open>For an empty line and for a comment \<open>Grant\<close> is returned without having been set.\<close>

definition AppDBParseEntry :: "string \<Rightarrow> grant res" where
  "AppDBParseEntry config =
     (if config \<noteq> [] \<and> deref config \<noteq> CHR ''#'' then Inr (parse_grant_loop (Some config) no_grant)
      else Inl BadPointer)"

text \<open>
  \<open>hash\<close> is what \<open>HashFile\<close> stores for the program, \<open>None\<close> if it cannot be read; \<open>strcmp\<close> is
  only reached when the sizes agree.
\<close>

definition AppDBCheckEntry ::
  "grant \<Rightarrow> string \<Rightarrow> string \<Rightarrow> nat \<Rightarrow> (string \<Rightarrow> string option) \<Rightarrow> bool res" where
  "AppDBCheckEntry entry grnt path sz hashf =
     (if grnt = [] then Inr False
      else if path = [] then Inr False
      else if \<not> IsItemInList grnt (gr_type entry) then Inr False
      else if StrValid (gr_program entry) \<and> strcmp (the (gr_program entry)) path \<noteq> 0 then Inr False
      else if sz \<noteq> gr_size entry then Inr False
      else (case (hashf path, gr_hash entry) of
              (Some h, Some e) \<Rightarrow> Inr (strcmp h e = 0)
            | _ \<Rightarrow> Inl NullDeref))"

fun check_lines ::
  "string list \<Rightarrow> string \<Rightarrow> string \<Rightarrow> nat \<Rightarrow> (string \<Rightarrow> string option) \<Rightarrow> bool res" where
  "check_lines [] grnt path sz hashf = Inr False"
| "check_lines (l # ls) grnt path sz hashf =
     bindr (AppDBParseEntry (StripLeadingWhitespace (StripTrailingWhitespace l)))
       (\<lambda>entry. bindr (AppDBCheckEntry entry grnt path sz hashf)
          (\<lambda>ok. if ok then Inr True else check_lines ls grnt path sz hashf))"

text \<open>
  When the program file cannot be examined the error message is built in a string literal
  (\<open>MCopyStr("error: ...", ...)\<close>).
\<close>

definition AppDBCheck ::
  "string option \<Rightarrow> (string \<Rightarrow> nat option) \<Rightarrow> (string \<Rightarrow> string option) \<Rightarrow> string \<Rightarrow> string \<Rightarrow> bool res" where
  "AppDBCheck db statf hashf grnt path =
     (case statf path of
        None \<Rightarrow> Inl BadPointer
      | Some sz \<Rightarrow>
          (case db of
             None \<Rightarrow> Inr False
           | Some contents \<Rightarrow> check_lines (file_lines contents) grnt path sz hashf))"

definition quoted :: "string \<Rightarrow> string" where
  "quoted t = SQ # t @ [SQ]"

definition grant_line :: "string \<Rightarrow> string option \<Rightarrow> string option \<Rightarrow> string \<Rightarrow> nat \<Rightarrow> string \<Rightarrow> string" where
  "grant_line grnt user grp path sz h =
     ''grant='' @ quoted grnt @ '' program='' @ quoted path @ '' size='' @ fmt_u sz @ '' hash='' @ h
       @ (if StrValid user then '' user='' @ the user else [])
       @ (if StrValid grp then '' group='' @ the grp else [])"

fun load_lines :: "string list \<Rightarrow> vars \<Rightarrow> vars res" where
  "load_lines [] items = Inr items"
| "load_lines (l # ls) items =
     (let t = StripTrailingWhitespace l;
          name = snd (GetToken (Some t) WS_PATTERN GETTOKEN_QUOTES)
      in bindr (SetVar items name t) (\<lambda>items'. load_lines ls items'))"

text \<open>
  The new contents of the database.  \<open>writable\<close>: the new file could be opened; when it could not,
  there is nothing to rename.  A hash that could not be computed is printed by \<open>%s\<close> of a null
  pointer.
\<close>

definition printed_hash :: "string option \<Rightarrow> string" where
  "printed_hash h = (case h of None \<Rightarrow> ''(null)'' | Some t \<Rightarrow> t)"

definition AppDBAdd ::
  "bool \<Rightarrow> string option \<Rightarrow> (string \<Rightarrow> nat option) \<Rightarrow> (string \<Rightarrow> string option) \<Rightarrow> string \<Rightarrow> string option \<Rightarrow>
     string option \<Rightarrow> string \<Rightarrow> string option res" where
  "AppDBAdd writable db statf hashf grnt user grp path =
     (case statf path of
        None \<Rightarrow> Inr db
      | Some sz \<Rightarrow>
          bindr (load_lines (case db of None \<Rightarrow> [] | Some contents \<Rightarrow> file_lines contents) [])
            (\<lambda>items. bindr (SetVar items path (grant_line grnt user grp path sz (printed_hash (hashf path))))
               (\<lambda>items'. Inr (if writable then Some (concat (map (\<lambda>n. ln_item n @ [LF]) items')) else db))))"

section \<open>\<open>grant.c\<close>\<close>

record grant_args =
  ga_grants :: string
  ga_program :: string
  ga_users :: string
  ga_groups :: string

definition no_args :: grant_args where
  "no_args = \<lparr>ga_grants = [], ga_program = [], ga_users = [], ga_groups = []\<rparr>"

text \<open>
  The arguments after the program name; \<open>None\<close> is the exit after \<open>-version\<close>.  \<open>CommandLineNext\<close>
  at the end gives \<open>NULL\<close>, with which \<open>MCatStr\<close> adds nothing at all.
\<close>

fun ParseCommandLine :: "string list \<Rightarrow> grant_args \<Rightarrow> grant_args option" where
  "ParseCommandLine [] a = Some a"
| "ParseCommandLine (arg # args) a =
     (if arg = ''-version'' \<or> arg = ''--version'' then None
      else if arg = ''-u'' then
        (case args of
           [] \<Rightarrow> Some a
         | v # rest \<Rightarrow> ParseCommandLine rest (a\<lparr>ga_users := ga_users a @ v @ '',''\<rparr>))
      else if arg = ''-g'' then
        (case args of
           [] \<Rightarrow> Some a
         | v # rest \<Rightarrow> ParseCommandLine rest (a\<lparr>ga_groups := ga_groups a @ v @ '',''\<rparr>))
      else if ga_program a = [] then ParseCommandLine args (a\<lparr>ga_program := arg\<rparr>)
      else ParseCommandLine args (a\<lparr>ga_grants := ga_grants a @ arg @ '',''\<rparr>))"

section \<open>Name and value pairs\<close>

text \<open>A separator of one character, searched with quotes honoured.\<close>

definition sep_char :: "char \<Rightarrow> bool" where
  "sep_char c \<longleftrightarrow> c \<noteq> BSL \<and> \<not> tok_quote c"

definition plain_for :: "char \<Rightarrow> string \<Rightarrow> bool" where
  "plain_for c t \<longleftrightarrow> (\<forall>d \<in> set t. d \<noteq> c \<and> d \<noteq> BSL \<and> \<not> tok_quote d)"

definition find_char :: "char \<Rightarrow> string \<Rightarrow> bool \<times> string \<times> string option" where
  "find_char c s = find_separator_loop [c] s None GETTOKEN_QUOTES"

lemma find_char_Nil: "find_char c [] = (False, [], Some [])"
  by (simp add: find_char_def find_separator_loop.simps)

lemma find_char_Cons:
  assumes "sep_char c" "d \<noteq> BSL"
  shows "find_char c (d # r) =
     (if d = c then (True, d # r, Some r) else find_char c (GetTokenStepThru (d # r) GETTOKEN_QUOTES))"
  using assms char_sep_match [of c d r GETTOKEN_QUOTES]
  by (simp add: find_char_def sep_char_def find_separator_loop.simps [of _ "d # r"])

lemma find_char_plain:
  "sep_char c \<Longrightarrow> plain_for c t \<Longrightarrow> find_char c (t @ r) = find_char c r"
proof (induction t)
  case (Cons d t)
  then have "d \<noteq> c" "d \<noteq> BSL" "\<not> tok_quote d" by (auto simp: plain_for_def)
  then have "GetTokenStepThru (d # t @ r) GETTOKEN_QUOTES = t @ r" by (simp add: GetTokenStepThru_def)
  with Cons \<open>d \<noteq> c\<close> \<open>d \<noteq> BSL\<close> show ?case by (simp add: find_char_Cons plain_for_def)
qed simp

lemma find_char_quoted:
  assumes "sep_char c" "SQ \<notin> set t" "BSL \<notin> set t"
  shows "find_char c (quoted t @ r) = find_char c r"
proof -
  have "GetTokenStepThru (SQ # t @ SQ # r) GETTOKEN_QUOTES = r"
    using assms by (simp add: GetTokenStepThru_def tok_char_defs traverse_quoted_plain)
  moreover have "SQ \<noteq> c" using assms(1) by (auto simp: sep_char_def tok_quote_def)
  ultimately show ?thesis using assms(1) by (simp add: quoted_def find_char_Cons)
qed

lemma GetToken_find_char:
  assumes "s \<noteq> []"
  shows "GetToken (Some s) [c] GETTOKEN_QUOTES =
     (case find_char c s of (m, ss, se) \<Rightarrow>
        (case GetTokenPostProcess s (Some ss) se GETTOKEN_QUOTES of (r, t) \<Rightarrow> (Some r, t)))"
  using assms by (simp add: GetToken_def GetTokenFindSeparator_def find_char_def split: prod.split)

text \<open>The token in front of the separator, when it does not start with a quote.\<close>

lemma GetToken_char_quotes:
  assumes "find_char c (t @ c # r) = (True, c # r, Some r)" "t \<noteq> []" "\<not> tok_quote (hd t)"
  shows "GetToken (Some (t @ c # r)) [c] GETTOKEN_QUOTES = (Some r, t)"
proof -
  have "token_strip_quotes (t @ c # r) (length t) = (0, length t)"
    using assms(2,3) by (cases t) (auto simp: token_strip_quotes_def)
  then show ?thesis
    using assms by (simp add: GetToken_find_char GetTokenPostProcess_def token_bounds_def)
qed

lemma GetToken_char_quotes_last:
  assumes "find_char c t = (False, [], Some [])" "t \<noteq> []" "\<not> tok_quote (hd t)"
  shows "GetToken (Some t) [c] GETTOKEN_QUOTES = (Some [], t)"
proof -
  have "token_strip_quotes t (length t) = (0, length t)"
    using assms(2,3) by (cases t) (auto simp: token_strip_quotes_def)
  then show ?thesis
    using assms by (simp add: GetToken_find_char GetTokenPostProcess_def token_bounds_def)
qed

text \<open>A value is written in single quotes or plainly.\<close>

definition name_ok :: "string \<Rightarrow> bool" where
  "name_ok n \<longleftrightarrow> n \<noteq> [] \<and> plain_for (CHR ''='') n \<and> plain_for (CHR '' '') n"

definition bare_ok :: "string \<Rightarrow> bool" where
  "bare_ok v \<longleftrightarrow> v \<noteq> [] \<and> plain_for (CHR '' '') v \<and> (\<forall>d \<in> set v. \<not> isspace d)"

definition quoted_ok :: "string \<Rightarrow> bool" where
  "quoted_ok v \<longleftrightarrow> SQ \<notin> set v \<and> BSL \<notin> set v"

text \<open>\<open>written v w\<close>: \<open>w\<close> is a way to write the value \<open>v\<close>.\<close>

definition written :: "string \<Rightarrow> string \<Rightarrow> bool" where
  "written v w \<longleftrightarrow> (quoted_ok v \<and> w = quoted v) \<or> (bare_ok v \<and> w = v)"

lemma sep_chars_simps [simp]: "sep_char (CHR '' '')" "sep_char (CHR ''='')"
  by (simp_all add: sep_char_def tok_quote_def)

lemma written_nonempty: "written v w \<Longrightarrow> w \<noteq> []"
  by (auto simp: written_def quoted_def bare_ok_def)

lemma find_space_written:
  "written v w \<Longrightarrow> find_char (CHR '' '') (w @ r) = find_char (CHR '' '') r"
  by (auto simp: written_def quoted_ok_def bare_ok_def find_char_quoted find_char_plain)

lemma StripQuotes_bare: "bare_ok v \<Longrightarrow> StripQuotes v = v"
  by (cases v) (simp_all add: bare_ok_def plain_for_def tok_quote_def StripQuotes_id)

lemma StripQuotes_written: "written v w \<Longrightarrow> StripQuotes w = v"
  using StripQuotes_quoted [of SQ v] StripQuotes_bare [of v]
  unfolding written_def quoted_def by blast

lemma find_space_pair:
  assumes "name_ok n" "written v w"
  shows "find_char (CHR '' '') (n @ CHR ''='' # w @ r) = find_char (CHR '' '') r"
proof -
  have "find_char (CHR '' '') (n @ (CHR ''='' # w @ r)) = find_char (CHR '' '') (''='' @ w @ r)"
    using assms(1) by (simp add: find_char_plain name_ok_def)
  also have "\<dots> = find_char (CHR '' '') (w @ r)"
    by (rule find_char_plain) (simp_all add: plain_for_def tok_quote_def)
  finally show ?thesis using assms(2) by (simp add: find_space_written)
qed

lemma pair_token:
  assumes "name_ok n" "written v w"
  shows "GetToken (Some (n @ CHR ''='' # w)) ''='' GETTOKEN_QUOTES = (Some w, n)"
proof -
  have n: "n \<noteq> []" "plain_for (CHR ''='') n" using assms(1) by (auto simp: name_ok_def)
  then have "\<not> tok_quote (hd n)" by (cases n) (auto simp: plain_for_def)
  then show ?thesis
    using n by (intro GetToken_char_quotes) (simp_all add: find_char_plain find_char_Cons)
qed

lemma name_hd: "name_ok n \<Longrightarrow> n @ r \<noteq> [] \<and> \<not> tok_quote (hd (n @ r))"
  by (cases n) (auto simp: name_ok_def plain_for_def)

lemma GetNameValuePair_next:
  assumes "name_ok n" "written v w"
  shows "GetNameValuePair (Some (n @ CHR ''='' # w @ CHR '' '' # r)) '' '' ''='' = (Some r, n, v)"
proof -
  have "GetToken (Some ((n @ CHR ''='' # w) @ CHR '' '' # r)) '' '' GETTOKEN_QUOTES = (Some r, n @ CHR ''='' # w)"
    using name_hd [OF assms(1), of "CHR ''='' # w"] find_space_pair [OF assms, of "CHR '' '' # r"]
    by (intro GetToken_char_quotes) (simp_all add: find_char_Cons)
  then show ?thesis
    using pair_token [OF assms] written_nonempty [OF assms(2)] StripQuotes_written [OF assms(2)]
    by (simp add: GetNameValuePair_def)
qed

lemma GetNameValuePair_last:
  assumes "name_ok n" "written v w"
  shows "GetNameValuePair (Some (n @ CHR ''='' # w)) '' '' ''='' = (Some [], n, v)"
proof -
  have "GetToken (Some (n @ CHR ''='' # w)) '' '' GETTOKEN_QUOTES = (Some [], n @ CHR ''='' # w)"
    using name_hd [OF assms(1), of "CHR ''='' # w"] find_space_pair [OF assms, of "[]"]
    by (intro GetToken_char_quotes_last) (simp_all add: find_char_Nil)
  then show ?thesis
    using pair_token [OF assms] written_nonempty [OF assms(2)] StripQuotes_written [OF assms(2)]
    by (simp add: GetNameValuePair_def)
qed

lemma GetNameValuePair_end [simp]: "GetNameValuePair (Some []) pd nd = (None, [], [])"
  by (simp add: GetNameValuePair_def)

section \<open>The database\<close>

text \<open>What an entry grants.\<close>

definition entry_grants :: "grant \<Rightarrow> string \<Rightarrow> string \<Rightarrow> nat \<Rightarrow> string option \<Rightarrow> bool" where
  "entry_grants e grnt path sz h \<longleftrightarrow>
     grnt \<noteq> [] \<and> path \<noteq> [] \<and> (grnt = ''*'' \<or> grnt \<in> set (list_names (gr_type e))) \<and>
     (StrValid (gr_program e) \<longrightarrow> gr_program e = Some path) \<and> gr_size e = sz \<and> h \<noteq> None \<and> gr_hash e = h"

lemma AppDBCheckEntry_spec:
  "AppDBCheckEntry e grnt path sz hashf = Inr b \<Longrightarrow> b \<longleftrightarrow> entry_grants e grnt path sz (hashf path)"
  by (cases "gr_program e") (auto simp: AppDBCheckEntry_def entry_grants_def IsItemInList_names split: if_splits option.splits)

definition line_entry :: "string \<Rightarrow> grant res" where
  "line_entry l = AppDBParseEntry (StripLeadingWhitespace (StripTrailingWhitespace l))"

lemma check_lines_spec:
  "check_lines ls grnt path sz hashf = Inr b \<Longrightarrow>
     b \<longleftrightarrow> (\<exists>l \<in> set ls. \<exists>e. line_entry l = Inr e \<and> entry_grants e grnt path sz (hashf path))"
proof (induction ls arbitrary: b)
  case (Cons l ls)
  then obtain e ok where e: "line_entry l = Inr e" "AppDBCheckEntry e grnt path sz hashf = Inr ok"
    "(if ok then Inr True else check_lines ls grnt path sz hashf) = Inr b"
    by (auto simp: line_entry_def bindr_Inr_iff)
  note spec = AppDBCheckEntry_spec [OF e(2)]
  show ?case
  proof (cases ok)
    case True
    with e spec show ?thesis by auto
  next
    case False
    with e(3) have "check_lines ls grnt path sz hashf = Inr b" by simp
    from Cons.IH [OF this] e(1) spec False show ?thesis by auto
  qed
qed simp

lemma AppDBCheck_spec:
  assumes "AppDBCheck db statf hashf grnt path = Inr b"
  shows "b \<longleftrightarrow> (\<exists>sz contents l e. statf path = Some sz \<and> db = Some contents \<and> l \<in> set (file_lines contents) \<and>
     line_entry l = Inr e \<and> entry_grants e grnt path sz (hashf path))"
proof -
  obtain sz where sz: "statf path = Some sz"
    using assms by (auto simp: AppDBCheck_def split: option.splits)
  show ?thesis
  proof (cases db)
    case None
    with assms sz show ?thesis by (simp add: AppDBCheck_def)
  next
    case (Some contents)
    with assms sz have "check_lines (file_lines contents) grnt path sz hashf = Inr b"
      by (simp add: AppDBCheck_def)
    from check_lines_spec [OF this] Some sz show ?thesis by auto
  qed
qed

text \<open>The line a grant is written as is read back as that grant, whoever it names as its users and groups.\<close>

definition line_fields_ok :: "string \<Rightarrow> string \<Rightarrow> nat \<Rightarrow> string \<Rightarrow> bool" where
  "line_fields_ok grnt path sz h \<longleftrightarrow> quoted_ok grnt \<and> quoted_ok path \<and> sz < 2 ^ 63 \<and> bare_ok h \<and>
     LF \<notin> set (grnt @ path @ h) \<and> NUL \<notin> set (grnt @ path @ h)"

definition owner_ok :: "string \<Rightarrow> bool" where
  "owner_ok t \<longleftrightarrow> t = [] \<or> bare_ok t \<and> NUL \<notin> set t"

lemma names_ok [simp]:
  "name_ok ''grant''" "name_ok ''program''" "name_ok ''size''" "name_ok ''hash''" "name_ok ''user''" "name_ok ''group''"
  by (simp_all add: name_ok_def plain_for_def tok_quote_def)

lemma bare_digits: "bare_ok (fmt_u n)"
proof -
  have "isdigit c \<Longrightarrow> c \<noteq> CHR '' '' \<and> c \<noteq> BSL \<and> \<not> tok_quote c \<and> \<not> isspace c" for c
    by (auto simp: isdigit_def tok_quote_def isspace_def)
  then show ?thesis
    using nat_digits_isdigit [of n]
    by (auto simp: bare_ok_def plain_for_def fmt_u_def)
qed

lemma size_of_digits: "n < 2 ^ 63 \<Longrightarrow> size_of_text (fmt_u n) = n"
  by (simp add: size_of_text_def fmt_u_def strtoll10_nat_digits)

lemma parse_grant_next:
  "name_ok n \<Longrightarrow> written v w \<Longrightarrow>
     parse_grant_loop (Some (n @ CHR ''='' # w @ CHR '' '' # r)) g = parse_grant_loop (Some r) (grant_field g n v)"
  by (simp add: parse_grant_loop.simps [of "Some (n @ CHR ''='' # w @ CHR '' '' # r)"] GetNameValuePair_next)

lemma parse_grant_last:
  "name_ok n \<Longrightarrow> written v w \<Longrightarrow>
     parse_grant_loop (Some (n @ CHR ''='' # w)) g = grant_field g n v"
  by (simp add: parse_grant_loop.simps [of "Some (n @ CHR ''='' # w)"]
      parse_grant_loop.simps [of "Some []"] GetNameValuePair_last)

text \<open>The fields of a line: name, value, and how the value is written.\<close>

definition grant_fields :: "string \<Rightarrow> string \<Rightarrow> string \<Rightarrow> string \<Rightarrow> nat \<Rightarrow> string \<Rightarrow> (string \<times> string \<times> string) list" where
  "grant_fields grnt user grp path sz h =
     [(''grant'', grnt, quoted grnt), (''program'', path, quoted path), (''size'', fmt_u sz, fmt_u sz), (''hash'', h, h)]
       @ (if user = [] then [] else [(''user'', user, user)]) @ (if grp = [] then [] else [(''group'', grp, grp)])"

definition field_text :: "string \<times> string \<times> string \<Rightarrow> string" where
  "field_text f = (case f of (n, v, w) \<Rightarrow> n @ CHR ''='' # w)"

lemma grant_line_fields:
  "grant_line grnt (Some user) (Some grp) path sz h =
     join_with (CHR '' '') (map field_text (grant_fields grnt user grp path sz h))"
  by (cases "user = []"; cases "grp = []") (simp_all add: grant_line_def grant_fields_def field_text_def)

lemma grant_fields_written:
  assumes "line_fields_ok grnt path sz h" "owner_ok user" "owner_ok grp"
  shows "\<forall>(n, v, w) \<in> set (grant_fields grnt user grp path sz h). name_ok n \<and> written v w"
  using assms bare_digits by (auto simp: grant_fields_def line_fields_ok_def owner_ok_def written_def)

lemma parse_fields:
  "fs \<noteq> [] \<Longrightarrow> \<forall>(n, v, w) \<in> set fs. name_ok n \<and> written v w \<Longrightarrow>
     parse_grant_loop (Some (join_with (CHR '' '') (map field_text fs))) g = foldl (\<lambda>g (n, v, w). grant_field g n v) g fs"
proof (induction fs arbitrary: g)
  case (Cons f fs)
  obtain n v w where f: "f = (n, v, w)" by (cases f)
  then have ok: "name_ok n" "written v w" using Cons.prems(2) by auto
  show ?case
  proof (cases fs)
    case Nil
    then show ?thesis using parse_grant_last [OF ok] f by (simp add: field_text_def)
  next
    case (Cons f2 fs2)
    then have "join_with (CHR '' '') (map field_text (f # fs)) =
        n @ CHR ''='' # w @ CHR '' '' # join_with (CHR '' '') (map field_text fs)"
      by (simp add: f field_text_def [of "(n, v, w)"])
    moreover have "fs \<noteq> []" "\<forall>(n, v, w) \<in> set fs. name_ok n \<and> written v w" using Cons Cons.prems(2) by auto
    ultimately show ?thesis using parse_grant_next [OF ok] Cons.IH [of "grant_field g n v"] f by simp
  qed
qed simp

lemma grant_line_parse:
  assumes "line_fields_ok grnt path sz h" "owner_ok user" "owner_ok grp"
  shows "\<exists>e. AppDBParseEntry (grant_line grnt (Some user) (Some grp) path sz h) = Inr e \<and> gr_type e = Some grnt \<and>
     gr_program e = Some path \<and> gr_hash e = Some h \<and> gr_size e = sz"
proof -
  have "parse_grant_loop (Some (grant_line grnt (Some user) (Some grp) path sz h)) no_grant =
      foldl (\<lambda>g (n, v, w). grant_field g n v) no_grant (grant_fields grnt user grp path sz h)"
    unfolding grant_line_fields by (rule parse_fields [OF _ grant_fields_written [OF assms]]) (simp add: grant_fields_def)
  moreover have "size_of_text (fmt_u sz) = sz"
    using assms by (simp add: size_of_digits line_fields_ok_def)
  moreover have "grant_line grnt (Some user) (Some grp) path sz h \<noteq> []"
    "deref (grant_line grnt (Some user) (Some grp) path sz h) = CHR ''g''" by (simp_all add: grant_line_def)
  ultimately show ?thesis
    by (cases "user = []"; cases "grp = []") (simp_all add: AppDBParseEntry_def grant_fields_def grant_field_def no_grant_def)
qed

section \<open>From the command line of \<open>grant\<close> to the check\<close>

definition comma_each :: "string list \<Rightarrow> string" where
  "comma_each ts = concat (map (\<lambda>t. t @ '','') ts)"

lemma list_names_comma_each:
  "\<forall>t \<in> set ts. plain_name t \<Longrightarrow> list_names (Some (comma_each ts)) = ts"
proof (induction ts)
  case (Cons t ts)
  have "comma_each (t # ts) = t @ CHR '','' # comma_each ts" by (simp add: comma_each_def)
  with Cons show ?case
    by (simp add: list_names_def token_list.simps [of "Some (t @ CHR '','' # comma_each ts)"]
        GetToken_list_sep)
qed (simp add: comma_each_def list_names_def)

definition plain_arg :: "string \<Rightarrow> bool" where
  "plain_arg a \<longleftrightarrow> a \<notin> {''-version'', ''--version'', ''-u'', ''-g''} \<and> a \<noteq> []"

text \<open>The arguments \<open>-u\<close> and \<open>-g\<close>, each with its value.\<close>

definition flagged :: "string \<Rightarrow> string list \<Rightarrow> string list" where
  "flagged f vs = concat (map (\<lambda>v. [f, v]) vs)"

lemma ParseCommandLine_owners:
  "ParseCommandLine (flagged ''-u'' us @ args) a = ParseCommandLine args (a\<lparr>ga_users := ga_users a @ comma_each us\<rparr>)"
  "ParseCommandLine (flagged ''-g'' us @ args) a = ParseCommandLine args (a\<lparr>ga_groups := ga_groups a @ comma_each us\<rparr>)"
  by (induction us arbitrary: a) (simp_all add: flagged_def comma_each_def)

lemma ParseCommandLine_grants:
  "\<forall>c \<in> set cmds. plain_arg c \<Longrightarrow> ga_program a \<noteq> [] \<Longrightarrow>
     ParseCommandLine cmds a = Some (a\<lparr>ga_grants := ga_grants a @ comma_each cmds\<rparr>)"
  by (induction cmds arbitrary: a) (simp_all add: plain_arg_def comma_each_def)

lemma ParseCommandLine_all:
  assumes "plain_arg prog" "\<forall>c \<in> set cmds. plain_arg c"
  shows "ParseCommandLine (flagged ''-u'' us @ flagged ''-g'' gs @ prog # cmds) no_args =
     Some \<lparr>ga_grants = comma_each cmds, ga_program = prog, ga_users = comma_each us, ga_groups = comma_each gs\<rparr>"
  using assms ParseCommandLine_grants [OF assms(2)]
  by (simp add: ParseCommandLine_owners plain_arg_def no_args_def)

section \<open>The lines of the database after a grant\<close>

definition db_lines :: "string option \<Rightarrow> string list" where
  "db_lines db = (case db of None \<Rightarrow> [] | Some contents \<Rightarrow> file_lines contents)"

text \<open>The name \<open>AppDBAdd\<close> keeps a line under: its first word.\<close>

definition line_key :: "string \<Rightarrow> string" where
  "line_key l = snd (GetToken (Some (StripTrailingWhitespace l)) WS_PATTERN GETTOKEN_QUOTES)"

text \<open>The lines that are still there after a grant for \<open>prog\<close>: of those with one first word the last.\<close>

definition old_lines :: "string \<Rightarrow> string option \<Rightarrow> string list" where
  "old_lines prog db =
     latest (map (\<lambda>l. (line_key l, l)) (filter (\<lambda>l. strlwr (line_key l) \<noteq> strlwr prog) (db_lines db)))"

lemma load_lines_set:
  "load_lines ls items = set_vars items (map (\<lambda>l. (line_key l, StripTrailingWhitespace l)) ls)"
  by (induction ls arbitrary: items) (auto simp: line_key_def Let_def intro: bindr_cong)

lemma AppDBAdd_lines:
  assumes "statf prog = Some sz" "hashf prog = Some h" "prog \<noteq> []"
  shows "\<exists>ts. AppDBAdd True db statf hashf grnt user grp prog = Inr (Some (concat (map (\<lambda>t. t @ [LF]) ts))) \<and>
     set ts = insert (grant_line grnt user grp prog sz h) (StripTrailingWhitespace ` set (old_lines prog db))"
proof -
  let ?line = "grant_line grnt user grp prog sz h" and ?old = "map (\<lambda>l. (line_key l, StripTrailingWhitespace l)) (db_lines db)"
  obtain items where items: "set_vars [] (?old @ [(prog, ?line)]) = Inr items"
    using var_list.run_sets_total [OF vars_ok_Nil, of "?old @ [(prog, ?line)]"] by (auto simp: set_vars_run)
  then have "AppDBAdd True db statf hashf grnt user grp prog = Inr (Some (concat (map (\<lambda>t. t @ [LF]) (map ln_item items))))"
    using assms(1,2)
    by (auto simp: AppDBAdd_def load_lines_set printed_hash_def set_vars_run var_list.run_sets_append bindr_Inr_iff
        db_lines_def comp_def split: option.splits)
  moreover have "filter (\<lambda>(k, _). prog = [] \<or> strlwr k \<noteq> strlwr prog) ?old =
      map (\<lambda>l. (line_key l, StripTrailingWhitespace l)) (filter (\<lambda>l. strlwr (line_key l) \<noteq> strlwr prog) (db_lines db))"
    using assms(3) by (simp add: filter_map comp_def)
  then have "latest (?old @ [(prog, ?line)]) = map StripTrailingWhitespace (old_lines prog db) @ [?line]"
    by (simp only: latest_snoc old_lines_def latest_map [of line_key StripTrailingWhitespace])
  then have "set (map ln_item items) = insert ?line (StripTrailingWhitespace ` set (old_lines prog db))"
    using set_vars_items [OF vars_ok_Nil items] by simp
  ultimately show ?thesis by blast
qed

text \<open>Lines as they are written and read again.\<close>

definition line_clean :: "string \<Rightarrow> bool" where
  "line_clean t \<longleftrightarrow> LF \<notin> set t \<and> NUL \<notin> set t \<and> (t = [] \<or> \<not> isspace (last t))"

lemma file_lines_concat:
  "\<forall>t \<in> set ts. line_clean t \<Longrightarrow> file_lines (concat (map (\<lambda>t. t @ [LF]) ts)) = map (\<lambda>t. t @ [LF]) ts"
  by (induction ts) (simp_all add: line_clean_def file_lines_Cons)

lemma read_line_clean:
  assumes "read_line inp = (Some l, rest)"
  shows "line_clean (StripTrailingWhitespace l)"
proof -
  have "LF \<notin> set (takeWhile (\<lambda>c. c \<noteq> LF) inp)" by (auto dest: set_takeWhileD)
  moreover have "inp \<noteq> []" using assms by (auto simp: read_line_def)
  moreover have "x = LF" if "dropWhile (\<lambda>c. c \<noteq> LF) inp = x # r" for x r
    using hd_dropWhile [of "\<lambda>c. c \<noteq> LF" inp] that by simp
  moreover have "LF \<notin> set inp" if "dropWhile (\<lambda>c. c \<noteq> LF) inp = []"
    using that by (auto simp: dropWhile_eq_Nil_conv)
  ultimately have "\<exists>x. LF \<notin> set x \<and> (l = cut_at_NUL x \<or> l = cut_at_NUL (x @ [LF]))"
    using assms by (cases "dropWhile (\<lambda>c. c \<noteq> LF) inp") (auto simp: read_line_def)
  then obtain x where x: "LF \<notin> set x" "l = cut_at_NUL x \<or> l = cut_at_NUL (x @ [LF])" by blast
  have cut: "cut_at_NUL (x @ [LF]) = (if NUL \<in> set x then cut_at_NUL x else x @ [LF])"
    by (induction x) (auto simp: cut_at_NUL_def)
  have nul: "NUL \<notin> set (cut_at_NUL x)" "set (cut_at_NUL x) \<subseteq> set x"
    by (auto simp: cut_at_NUL_def dest: set_takeWhileD)
  obtain y where y: "StripTrailingWhitespace l = StripTrailingWhitespace y" "LF \<notin> set y" "NUL \<notin> set y"
    using x cut nul StripTrailingWhitespace_snoc_space [of LF x] by (cases "NUL \<in> set x") (auto simp: isspace_def)
  have "set (StripTrailingWhitespace y) \<subseteq> set y" by (meson StripTrailingWhitespace_prefix set_mono_prefix)
  then show ?thesis
    using y StripTrailingWhitespace_last [of y] by (auto simp: line_clean_def)
qed

lemma file_lines_clean: "l \<in> set (file_lines inp) \<Longrightarrow> line_clean (StripTrailingWhitespace l)"
proof (induction inp rule: file_lines.induct)
  case (1 inp)
  obtain q r where q: "read_line inp = (q, r)" by fastforce
  show ?case
  proof (cases q)
    case None
    with "1.prems" q show ?thesis by (simp add: file_lines.simps [of inp])
  next
    case (Some x)
    then show ?thesis
      using "1.prems" "1.IH" [OF q [symmetric] Some] q read_line_clean [of inp x r] by (auto simp: file_lines.simps [of inp])
  qed
qed

lemma line_entry_clean: "line_clean t \<Longrightarrow> line_entry (t @ [LF]) = AppDBParseEntry (StripLeadingWhitespace t)"
  using StripTrailingWhitespace_snoc_space [of LF t]
  by (simp add: line_entry_def line_clean_def StripTrailingWhitespace_id isspace_def)

lemma old_lines_db: "set (old_lines prog db) \<subseteq> set (db_lines db)"
  using set_latest [of "map (\<lambda>l. (line_key l, l)) (filter (\<lambda>l. strlwr (line_key l) \<noteq> strlwr prog) (db_lines db))"]
  by (auto simp: old_lines_def)

lemma grant_line_clean:
  assumes "line_fields_ok grnt path sz h" "owner_ok user" "owner_ok grp"
  shows "line_clean (grant_line grnt (Some user) (Some grp) path sz h)"
proof -
  have bare: "LF \<notin> set t \<and> \<not> isspace (last t)" if "bare_ok t" for t
    using that last_in_set [of t] by (auto simp: bare_ok_def isspace_def)
  have "LF \<notin> set (fmt_u sz)" "NUL \<notin> set (fmt_u sz)"
    using nat_digits_isdigit [of sz] by (auto simp: fmt_u_def isdigit_def)
  then show ?thesis
    using assms bare [of h] bare [of user] bare [of grp]
    by (cases "user = []"; cases "grp = []")
      (auto simp: line_clean_def grant_line_def line_fields_ok_def quoted_def owner_ok_def bare_ok_def)
qed

lemma check_lines_total:
  "\<forall>l \<in> set ls. \<exists>e. line_entry l = Inr e \<and> gr_hash e \<noteq> None \<Longrightarrow> hashf path \<noteq> None \<Longrightarrow>
     \<exists>b. check_lines ls grnt path sz hashf = Inr b"
proof (induction ls)
  case (Cons l ls)
  obtain e where e: "line_entry l = Inr e" "gr_hash e \<noteq> None" using Cons.prems(1) by auto
  then have "\<exists>b. AppDBCheckEntry e grnt path sz hashf = Inr b"
    using Cons.prems(2) by (auto simp: AppDBCheckEntry_def)
  then obtain b where "AppDBCheckEntry e grnt path sz hashf = Inr b" by blast
  with e have "check_lines (l # ls) grnt path sz hashf = (if b then Inr True else check_lines ls grnt path sz hashf)"
    by (simp add: line_entry_def)
  moreover have "\<exists>b. check_lines ls grnt path sz hashf = Inr b" using Cons by simp
  ultimately show ?case by metis
qed (use check_lines.simps(1) in blast)

lemma AppDBCheck_lines:
  assumes "\<forall>t \<in> set ts. line_clean t \<and> (\<exists>e. AppDBParseEntry (StripLeadingWhitespace t) = Inr e \<and> gr_hash e \<noteq> None)"
    and "statf path = Some sz" "hashf path = Some h"
  shows "AppDBCheck (Some (concat (map (\<lambda>t. t @ [LF]) ts))) statf hashf cmd path =
     Inr (\<exists>t \<in> set ts. \<exists>e. AppDBParseEntry (StripLeadingWhitespace t) = Inr e \<and> entry_grants e cmd path sz (Some h))"
proof -
  let ?ls = "map (\<lambda>t. t @ [LF]) ts"
  have ls: "file_lines (concat ?ls) = ?ls" using assms(1) by (simp add: file_lines_concat)
  have "\<forall>l \<in> set ?ls. \<exists>e. line_entry l = Inr e \<and> gr_hash e \<noteq> None"
    using assms(1) line_entry_clean by fastforce
  then obtain b where b: "check_lines ?ls cmd path sz hashf = Inr b"
    using check_lines_total [of ?ls hashf path cmd sz] assms(3) by blast
  then have "b \<longleftrightarrow> (\<exists>t \<in> set ts. \<exists>e. AppDBParseEntry (StripLeadingWhitespace t) = Inr e \<and> entry_grants e cmd path sz (Some h))"
    using check_lines_spec [OF b] assms by (auto simp: line_entry_clean)
  with b ls assms(2) show ?thesis by (simp add: AppDBCheck_def)
qed

section \<open>Properties\<close>



text \<open>C11: when the check of the grant database returns, its verdict is whether some line of the
  database grants the command to the program with its present size and hash.\<close>

theorem grant_check_reads_the_database:
  assumes "AppDBCheck db statf hashf grnt path = Inr b"
  shows "b \<longleftrightarrow> (\<exists>sz contents l e. statf path = Some sz \<and> db = Some contents \<and> l \<in> set (file_lines contents) \<and>
     line_entry l = Inr e \<and> entry_grants e grnt path sz (hashf path))"
  using assms by (rule AppDBCheck_spec)

theorem grant_check_reads_the_database_witness:
  "\<not> (\<exists>contents l e. Some (''grant=ping size=8 hash=abc'' @ [LF]) = Some contents \<and> l \<in> set (file_lines contents) \<and>
     line_entry l = Inr e \<and> entry_grants e ''ping'' ''/bin/vi'' 7 (Some ''abc''))"
proof -
  have "AppDBCheck (Some (''grant=ping size=8 hash=abc'' @ [LF])) (\<lambda>p. Some 7) (\<lambda>p. Some ''abc'') ''ping'' ''/bin/vi'' = Inr False"
    by code_simp
  from grant_check_reads_the_database [OF this] show ?thesis by auto
qed

text \<open>Membership in a comma list of plain names is membership, except that the name \<open>*\<close> is in
  every list.\<close>

theorem list_membership:
  assumes "\<forall>t \<in> set ts. plain_name t" "ts \<noteq> []" "last ts \<noteq> []"
  shows "IsItemInList item (Some (join_with (CHR '','') ts)) \<longleftrightarrow> item = ''*'' \<or> item \<in> set ts"
  using list_names_comma [OF assms] by (simp add: IsItemInList_names)

theorem list_membership_witness:
  "IsItemInList ''bob'' (Some ''eve,bob'') \<and> \<not> IsItemInList ''bo'' (Some ''eve,bob'')"
  using list_membership [of "[''eve'', ''bob'']"] by (simp add: plain_name_def isspace_def)

end
