(* ===== verification/Auth.thy ===== *)
theory Auth
  imports DocTokens
begin

text \<open>
  \<open>auth.c\<close>: authentication through PAM.  The PAM library is a parameter: whether \<open>pam_start\<close>
  succeeds for a service and user, whether \<open>pam_authenticate\<close> and \<open>pam_acct_mgmt\<close> succeed on a
  live handle.  The handle \<open>pamh\<close> is a static variable that \<open>pam_end\<close> does not clear; using it
  afterwards is the fault \<open>BadPointer\<close>.  On a null handle the PAM functions fail.

  \<open>PAMStart\<close> returns \<open>TRUE\<close>/\<open>FALSE\<close>, \<open>AuthPAM\<close> compares the result with \<open>PAM_SUCCESS\<close>, which is
  \<open>0\<close>; \<open>AuthPAM_verdict\<close> states what comes of it.
\<close>

section \<open>The library\<close>

record pam_lib =
  pam_start_ok :: "string \<Rightarrow> string \<Rightarrow> bool"
  pam_auth_ok :: "string \<Rightarrow> string \<Rightarrow> string option \<Rightarrow> bool"
  pam_acct_ok :: "string \<Rightarrow> string \<Rightarrow> bool"

definition PAM_SUCCESS :: int where "PAM_SUCCESS = 0"
definition PAM_PERM_DENIED :: int where "PAM_PERM_DENIED = 6"
definition USER_UNKNOWN :: int where "USER_UNKNOWN = -1"

lemmas pam_codes = PAM_SUCCESS_def PAM_PERM_DENIED_def USER_UNKNOWN_def

datatype pam_handle = NoHandle | Live string string | Ended

text \<open>\<open>PAMConvFunc\<close>: prompts are answered with the password, other messages not at all.\<close>

datatype msg_style = PROMPT_ECHO_OFF | PROMPT_ECHO_ON | ERROR_MSG | TEXT_INFO

definition PAMConvFunc :: "msg_style list \<Rightarrow> string option \<Rightarrow> string option list" where
  "PAMConvFunc msgs appdata =
     map (\<lambda>m. if m = PROMPT_ECHO_OFF \<or> m = PROMPT_ECHO_ON then Some (CopyStr appdata) else None) msgs"

section \<open>The code\<close>

text \<open>The loop of \<open>PAMStart\<close>: the result code and the handle.\<close>

function pam_start_loop :: "pam_lib \<Rightarrow> string option \<Rightarrow> string \<Rightarrow> int \<Rightarrow> pam_handle \<Rightarrow> int \<times> pam_handle" where
  "pam_start_loop lib p user result h =
     (case GetToken p '','' GETTOKEN_QUOTES of
        (None, t) \<Rightarrow> (result, h)
      | (Some r, t) \<Rightarrow>
          if pam_start_ok lib t user then (PAM_SUCCESS, Live t user)
          else pam_start_loop lib (Some r) user PAM_PERM_DENIED NoHandle)"
  by pat_completeness auto
termination
  by (relation "measure (\<lambda>(_, p, _). ptr_left p)") (auto dest: get_token.next_decreases [OF sym])

declare pam_start_loop.simps [simp del]

definition PAMStart :: "pam_lib \<Rightarrow> string \<Rightarrow> string \<Rightarrow> pam_handle \<Rightarrow> int \<times> pam_handle" where
  "PAMStart lib types user h =
     (case pam_start_loop lib (Some types) user PAM_PERM_DENIED h of
        (result, h') \<Rightarrow> (if result = PAM_SUCCESS then 1 else 0, h'))"

definition pam_end :: "pam_handle \<Rightarrow> pam_handle res" where
  "pam_end h = (case h of NoHandle \<Rightarrow> Inr NoHandle | Live _ _ \<Rightarrow> Inr Ended | Ended \<Rightarrow> Inl BadPointer)"

definition pam_authenticate :: "pam_lib \<Rightarrow> string option \<Rightarrow> pam_handle \<Rightarrow> bool res" where
  "pam_authenticate lib pass h =
     (case h of
        NoHandle \<Rightarrow> Inr False
      | Live service user \<Rightarrow> Inr (pam_auth_ok lib service user pass)
      | Ended \<Rightarrow> Inl BadPointer)"

text \<open>\<open>have_pam\<close> is \<open>HAVE_LIBPAM\<close>.\<close>

definition AuthPAM ::
  "bool \<Rightarrow> pam_lib \<Rightarrow> string \<Rightarrow> string \<Rightarrow> string option \<Rightarrow> pam_handle \<Rightarrow> (int \<times> pam_handle) res" where
  "AuthPAM have_pam lib types user pass h =
     (if \<not> have_pam then Inr (0, h)
      else (case PAMStart lib types user h of
              (result, h1) \<Rightarrow>
                if result \<noteq> PAM_SUCCESS then bindr (pam_end h1) (\<lambda>h2. Inr (USER_UNKNOWN, h2))
                else bindr (pam_authenticate lib pass h1)
                       (\<lambda>ok. Inr (if ok then 1 else 0, h1))))"

definition AuthPAMCheckAccount ::
  "bool \<Rightarrow> pam_lib \<Rightarrow> string \<Rightarrow> pam_handle \<Rightarrow> (int \<times> pam_handle) res" where
  "AuthPAMCheckAccount have_pam lib user h =
     (if \<not> have_pam then Inr (0, h)
      else (case (if h = NoHandle then PAMStart lib ''login'' user h else (1, h)) of
              (started, h1) \<Rightarrow>
                if started = 0 then Inr (0, h1)
                else (case h1 of
                        NoHandle \<Rightarrow> Inr (0, h1)
                      | Live service u \<Rightarrow> Inr (if pam_acct_ok lib service u then 1 else 0, h1)
                      | Ended \<Rightarrow> Inl BadPointer)))"

definition AuthPAMClose :: "bool \<Rightarrow> pam_handle \<Rightarrow> pam_handle res" where
  "AuthPAMClose have_pam h = (if have_pam then pam_end h else Inr h)"

section \<open>Verdicts\<close>

definition services :: "string \<Rightarrow> string list" where
  "services types = token_list (Some types) '','' GETTOKEN_QUOTES"

lemma pam_start_loop_spec:
  "pam_start_loop lib p user result h =
     (case filter (\<lambda>t. pam_start_ok lib t user) (token_list p '','' GETTOKEN_QUOTES) of
        t # _ \<Rightarrow> (PAM_SUCCESS, Live t user)
      | [] \<Rightarrow> if token_list p '','' GETTOKEN_QUOTES = [] then (result, h) else (PAM_PERM_DENIED, NoHandle))"
proof (induction lib p user result h rule: pam_start_loop.induct)
  case (1 lib p user result h)
  obtain q t where G: "GetToken p '','' GETTOKEN_QUOTES = (q, t)" by fastforce
  show ?case
  proof (cases q)
    case None
    with G show ?thesis by (simp add: pam_start_loop.simps [of lib p] token_list.simps [of p])
  next
    case (Some r)
    show ?thesis
    proof (cases "pam_start_ok lib t user")
      case True
      with G Some show ?thesis by (simp add: pam_start_loop.simps [of lib p] token_list.simps [of p])
    next
      case False
      with "1.IH" [OF G [symmetric] Some False] G Some show ?thesis
        by (auto simp: pam_start_loop.simps [of lib p] token_list.simps [of p] split: list.splits)
    qed
  qed
qed

text \<open>
  Starting from no handle: when some service starts, the verdict is \<open>USER_UNKNOWN\<close> (which is not
  \<open>FALSE\<close>) whatever the password and whatever PAM would have said; when none starts, it is
  \<open>FALSE\<close>.
\<close>

lemma AuthPAM_verdict:
  "AuthPAM True lib types user pass NoHandle =
     Inr (if \<exists>t \<in> set (services types). pam_start_ok lib t user then (USER_UNKNOWN, Ended) else (0, NoHandle))"
proof (cases "filter (\<lambda>t. pam_start_ok lib t user) (services types)")
  case Nil
  then have "\<forall>t \<in> set (services types). \<not> pam_start_ok lib t user" by (simp add: filter_empty_conv)
  with Nil show ?thesis
    by (auto simp: AuthPAM_def PAMStart_def pam_start_loop_spec services_def [symmetric] pam_codes
        pam_authenticate_def)
next
  case (Cons t ts)
  then have "t \<in> set (filter (\<lambda>t. pam_start_ok lib t user) (services types))" by simp
  then have "\<exists>t \<in> set (services types). pam_start_ok lib t user" by auto
  with Cons show ?thesis
    by (simp add: AuthPAM_def PAMStart_def pam_start_loop_spec services_def [symmetric] pam_codes pam_end_def)
qed

lemma AuthPAMClose_verdict:
  "AuthPAMClose True Ended = Inl BadPointer" "AuthPAMClose True NoHandle = Inr NoHandle"
  by (simp_all add: AuthPAMClose_def pam_end_def)

text \<open>What was meant: the first service that starts decides.\<close>

definition pam_intended :: "pam_lib \<Rightarrow> string \<Rightarrow> string \<Rightarrow> string option \<Rightarrow> bool" where
  "pam_intended lib types user pass =
     (case filter (\<lambda>t. pam_start_ok lib t user) (services types) of
        [] \<Rightarrow> False
      | t # _ \<Rightarrow> pam_auth_ok lib t user pass)"

text \<open>A password that PAM refuses for every service is accepted.\<close>

lemma accepted_against_the_intention:
  assumes "t \<in> set (services types)" "pam_start_ok lib t user" "\<forall>service. \<not> pam_auth_ok lib service user pass"
  shows "\<not> pam_intended lib types user pass \<and> (\<exists>verdict h. AuthPAM True lib types user pass NoHandle = Inr (verdict, h) \<and> verdict \<noteq> 0)"
  using assms by (auto simp: AuthPAM_verdict pam_intended_def pam_codes split: list.splits)

section \<open>Properties\<close>

text \<open>C12: the verdict of \<open>AuthPAM\<close> depends on whether PAM knows one of the services, and not on the
  password or on what PAM thinks of it; the handle is gone when it is positive.\<close>

theorem any_password_is_accepted:
  "AuthPAM True lib types user pass NoHandle =
     Inr (if \<exists>t \<in> set (services types). pam_start_ok lib t user then (USER_UNKNOWN, Ended) else (0, NoHandle))"
  by (rule AuthPAM_verdict)

end
