(* ===== verification/VarSubst.thy ===== *)
theory VarSubst
  imports Vars
begin

text \<open>
  \<open>ParseVar\<close> and \<open>SubstituteVarsInString\<close> of \<open>libUseful-4/Vars.c\<close>, and the shell filter
  \<open>MakeShellSafeString\<close> they apply to every value with \<open>SUBS_SHELL_SAFE\<close>.

  The theory proves that substitution always ends within its fuel, that a template made of
  literal text and \<open>$(name)\<close> items expands to the text with the values in place, and what the
  shell filter guarantees: exactly the values in which no unescaped backslash stands directly
  before a metacharacter come out with every metacharacter escaped.
\<close>

section \<open>Flags\<close>

definition SUBS_QUOTE_VARS :: nat where "SUBS_QUOTE_VARS = 1"
definition SUBS_CASE_VARNAMES :: nat where "SUBS_CASE_VARNAMES = 2"
definition SUBS_STRIP_VARS_WHITESPACE :: nat where "SUBS_STRIP_VARS_WHITESPACE = 4"
definition SUBS_INTERPRET_BACKSLASH :: nat where "SUBS_INTERPRET_BACKSLASH = 8"
definition SUBS_QUOTES :: nat where "SUBS_QUOTES = 16"
definition SUBS_SHELL_SAFE :: nat where "SUBS_SHELL_SAFE = 32"

lemmas subs_flags =
  SUBS_QUOTE_VARS_def SUBS_CASE_VARNAMES_def SUBS_STRIP_VARS_WHITESPACE_def
  SUBS_INTERPRET_BACKSLASH_def SUBS_QUOTES_def SUBS_SHELL_SAFE_def

section \<open>The code\<close>

text \<open>The end of \<open>ParseVar\<close>: look the name up, filter the value, append it.\<close>

definition subst_value :: "nat \<Rightarrow> string \<Rightarrow> string" where
  "subst_value flags v =
     (let v1 = (if hasflag flags SUBS_SHELL_SAFE then MakeShellSafeString v 0 else v);
          v2 = (if hasflag flags SUBS_STRIP_VARS_WHITESPACE
                then StripLeadingWhitespace (StripTrailingWhitespace v1) else v1)
      in if hasflag flags SUBS_QUOTE_VARS then [SQ] @ v2 @ [SQ] else v2)"

definition parse_var_finish :: "vars \<Rightarrow> nat \<Rightarrow> string \<Rightarrow> string \<Rightarrow> string res" where
  "parse_var_finish vs flags out name =
     bindr (GetVar vs (if hasflag flags SUBS_CASE_VARNAMES then name else strlwr name))
       (\<lambda>v. Inr (out @ subst_value flags v))"

definition name_ends :: "bool \<Rightarrow> char \<Rightarrow> bool" where
  "name_ends bracketed c \<longleftrightarrow> (if bracketed then c = CHR '')'' else isspace c)"

text \<open>
  \<open>ParseVar\<close> returns the output and the pointer left in \<open>*Line\<close>.  For \<open>$$...\<close> the inner
  variable goes to a scratch string and the name stays empty.  In the name loop \<open>tmp\<close> is
  \<open>Tempstr\<close>, which inner variables are appended to and which is not cleared in between; after
  an inner variable the loop steps over the character the inner call stopped at.
\<close>

fun ParseVar :: "nat \<Rightarrow> vars \<Rightarrow> nat \<Rightarrow> string \<Rightarrow> string \<Rightarrow> (string \<times> string) res"
  and var_name_loop :: "nat \<Rightarrow> vars \<Rightarrow> nat \<Rightarrow> bool \<Rightarrow> string \<Rightarrow> string \<Rightarrow> string \<Rightarrow> (string \<times> string) res"
where
  "ParseVar 0 vs flags out p = Inl OutOfFuel"
| "ParseVar (Suc n) vs flags out p =
     (case p of
        [] \<Rightarrow> Inl OutOfBounds
      | c # cs \<Rightarrow>
          bindr (if c = CHR ''$'' then bindr (ParseVar n vs flags [] cs) (\<lambda>(tmp, q). Inr ([], q))
                 else var_name_loop n vs flags (c = CHR ''('') [] [] cs)
            (\<lambda>(name, q). bindr (parse_var_finish vs flags out name) (\<lambda>out'. Inr (out', q))))"
| "var_name_loop 0 vs flags br tmp name p = Inl OutOfFuel"
| "var_name_loop (Suc n) vs flags br tmp name p =
     (case p of
        [] \<Rightarrow> Inr (name, [])
      | c # cs \<Rightarrow>
          if name_ends br c then Inr (name, p)
          else if c = CHR ''$'' then
            bindr (ParseVar n vs flags tmp cs)
              (\<lambda>(tmp', q). if q = [] then Inl OutOfBounds
                           else var_name_loop n vs flags br tmp' (name @ tmp') (tl q))
          else var_name_loop n vs flags br tmp (name @ [c]) cs)"

definition SubstituteQuotedChar :: "char \<Rightarrow> char" where
  "SubstituteQuotedChar c =
     (if c = CHR ''0'' then NUL
      else if c = CHR ''a'' then CHR 0x07
      else if c = CHR ''b'' then CHR 0x08
      else if c = CHR ''d'' then CHR 0x7F
      else if c = CHR ''e'' then CHR 0x1B
      else if c = CHR ''f'' then CHR 0x0C
      else if c = CHR ''t'' then TAB
      else if c = CHR ''r'' then CR
      else if c = CHR ''n'' then LF
      else c)"

fun subst_loop :: "nat \<Rightarrow> vars \<Rightarrow> nat \<Rightarrow> string \<Rightarrow> string \<Rightarrow> string res" where
  "subst_loop 0 vs flags out p = Inl OutOfFuel"
| "subst_loop (Suc n) vs flags out p =
     (case p of
        [] \<Rightarrow> Inr out
      | c # cs \<Rightarrow>
          if c = BSL \<and> hasflag flags SUBS_INTERPRET_BACKSLASH then
            (case cs of
               [] \<Rightarrow> Inl OutOfBounds
             | d # ds \<Rightarrow> if d = CHR ''0'' then Inl EmbeddedNul
                         else subst_loop n vs flags (out @ [SubstituteQuotedChar d]) ds)
          else if c = CHR ''$'' then
            bindr (ParseVar (Suc n) vs flags out cs)
              (\<lambda>(out', q). if q = [] then Inl OutOfBounds else subst_loop n vs flags out' (tl q))
          else if c = DQ \<and> hasflag flags SUBS_QUOTES then
            (if DQ \<in> set cs
             then subst_loop n vs flags (out @ takeWhile (\<lambda>d. d \<noteq> DQ) cs)
                    (tl (dropWhile (\<lambda>d. d \<noteq> DQ) cs))
             else Inl OutOfBounds)
          else subst_loop n vs flags (out @ [c]) cs)"

definition SubstituteVarsInString :: "string \<Rightarrow> vars \<Rightarrow> nat \<Rightarrow> string res" where
  "SubstituteVarsInString fmt vs flags = subst_loop (Suc (length fmt)) vs flags [] fmt"

section \<open>The fuel is enough\<close>

lemma parse_var_finish_fuel: "vars_ok vs \<Longrightarrow> parse_var_finish vs flags out name \<noteq> Inl OutOfFuel"
  by (auto simp: parse_var_finish_def GetVar_find)

lemma ParseVar_suffix:
  shows "ParseVar n vs flags out p = Inr (out', q) \<Longrightarrow> suffix q p"
    and "var_name_loop n vs flags br tmp name p = Inr (name', q) \<Longrightarrow> suffix q p"
proof (induction n vs flags out p and n vs flags br tmp name p
    arbitrary: out' q and name' q rule: ParseVar_var_name_loop.induct)
  case (2 n vs flags out p)
  obtain c cs where p: "p = c # cs" using 2 by (cases p) auto
  show ?case
  proof (cases "c = CHR ''$''")
    case True
    with 2(3) p obtain tmp where "ParseVar n vs flags [] cs = Inr (tmp, q)"
      by (auto simp: bindr_Inr_iff)
    with 2(1) [OF p True] p show ?thesis by (auto intro: suffix_ConsI)
  next
    case False
    with 2(3) p obtain name where "var_name_loop n vs flags (c = CHR ''('') [] [] cs = Inr (name, q)"
      by (auto simp: bindr_Inr_iff)
    with 2(2) [OF p False] p show ?thesis by (auto intro: suffix_ConsI)
  qed
next
  case (4 n vs flags br tmp name p)
  show ?case
  proof (cases p)
    case Nil
    with 4 show ?thesis by simp
  next
    case (Cons c cs)
    consider (ends) "name_ends br c" | (var) "\<not> name_ends br c" "c = CHR ''$''"
      | (char) "\<not> name_ends br c" "c \<noteq> CHR ''$''" by blast
    then show ?thesis
    proof cases
      case ends
      with 4 Cons show ?thesis by simp
    next
      case var
      with 4(4) Cons obtain tmp' q' where v: "ParseVar n vs flags tmp cs = Inr (tmp', q')"
        "q' \<noteq> []" "var_name_loop n vs flags br tmp' (name @ tmp') (tl q') = Inr (name', q)"
        by (auto simp: bindr_Inr_iff split: if_splits)
      have "suffix q (tl q')" using 4(2) [OF Cons var v(1) refl v(2)] v(3) by blast
      moreover have "suffix (tl q') cs"
        using 4(1) [OF Cons var v(1)] suffix_tl suffix_order.trans by blast
      ultimately show ?thesis using Cons by (meson suffix_ConsI suffix_order.trans)
    next
      case char
      with 4(3) [OF Cons char] 4(4) Cons show ?thesis by (auto intro: suffix_ConsI)
    qed
  qed
qed auto

declare ParseVar.simps(2) [simp del] var_name_loop.simps(2) [simp del] subst_loop.simps(2) [simp del]

lemma ParseVar_fuel:
  shows "vars_ok vs \<Longrightarrow> length p < n \<Longrightarrow> ParseVar n vs flags out p \<noteq> Inl OutOfFuel"
    and "vars_ok vs \<Longrightarrow> length p < n \<Longrightarrow> var_name_loop n vs flags br tmp name p \<noteq> Inl OutOfFuel"
proof (induction n vs flags out p and n vs flags br tmp name p rule: ParseVar_var_name_loop.induct)
  case (2 n vs flags out p)
  show ?case
  proof (cases p)
    case (Cons c cs)
    have len: "length cs < n" using "2.prems"(2) Cons by simp
    show ?thesis
    proof (cases "c = CHR ''$''")
      case True
      show ?thesis
        using "2.IH"(1) [OF Cons True "2.prems"(1) len] True Cons
          parse_var_finish_fuel [OF "2.prems"(1)]
        by (auto simp: ParseVar.simps(2) bindr_Inl_iff)
    next
      case False
      show ?thesis
        using "2.IH"(2) [OF Cons False "2.prems"(1) len] False Cons
          parse_var_finish_fuel [OF "2.prems"(1)]
        by (auto simp: ParseVar.simps(2) bindr_Inl_iff)
    qed
  qed (simp add: ParseVar.simps(2))
next
  case (4 n vs flags br tmp name p)
  show ?case
  proof (cases p)
    case (Cons c cs)
    have len: "length cs < n" using "4.prems"(2) Cons by simp
    consider (ends) "name_ends br c" | (var) "\<not> name_ends br c" "c = CHR ''$''"
      | (char) "\<not> name_ends br c" "c \<noteq> CHR ''$''" by blast
    then show ?thesis
    proof cases
      case ends
      with Cons show ?thesis by (simp add: var_name_loop.simps(2))
    next
      case var
      have rest: "var_name_loop n vs flags br t (name @ t) (tl q) \<noteq> Inl OutOfFuel"
        if "ParseVar n vs flags tmp cs = Inr (t, q)" "q \<noteq> []" for t q
      proof -
        have "length (tl q) < n"
          using suffix_length_le [OF ParseVar_suffix(1) [OF that(1)]] len by simp
        with "4.IH"(2) [OF Cons var that(1) refl that(2) "4.prems"(1)] show ?thesis .
      qed
      show ?thesis
        using "4.IH"(1) [OF Cons var "4.prems"(1) len] rest var Cons
        by (auto simp: var_name_loop.simps(2) bindr_Inl_iff split: if_splits)
    next
      case char
      with "4.IH"(3) [OF Cons char "4.prems"(1) len] Cons show ?thesis
        by (simp add: var_name_loop.simps(2))
    qed
  qed (simp add: var_name_loop.simps(2))
qed auto

lemma subst_loop_fuel: "vars_ok vs \<Longrightarrow> length p < n \<Longrightarrow> subst_loop n vs flags out p \<noteq> Inl OutOfFuel"
proof (induction n arbitrary: out p)
  case (Suc n)
  show ?case
  proof (cases p)
    case (Cons c cs)
    have len: "length cs < n" using Suc.prems(2) Cons by simp
    have IH: "suffix r cs \<Longrightarrow> subst_loop n vs flags o' r \<noteq> Inl OutOfFuel" for o' r
      using Suc.IH [OF Suc.prems(1)] suffix_length_le [of r cs] len by (meson le_less_trans)
    have pv: "ParseVar (Suc n) vs flags out cs \<noteq> Inl OutOfFuel"
      using ParseVar_fuel(1) [OF Suc.prems(1)] len by simp
    have q: "subst_loop n vs flags o' (tl q) \<noteq> Inl OutOfFuel"
      if "ParseVar (Suc n) vs flags out cs = Inr (o', q)" for o' q
      using IH ParseVar_suffix(1) [OF that] by (meson suffix_tl suffix_order.trans)
    have dq: "subst_loop n vs flags o' (tl (dropWhile (\<lambda>d. d \<noteq> DQ) cs)) \<noteq> Inl OutOfFuel" for o'
      using IH by (meson suffix_tl suffix_order.trans suffix_dropWhile)
    have ds: "cs = d # ds \<Longrightarrow> subst_loop n vs flags o' ds \<noteq> Inl OutOfFuel" for d ds o'
      using IH by simp
    show ?thesis
      using IH pv q dq ds unfolding Cons
      by (auto simp: subst_loop.simps(2) bindr_Inl_iff simp del: suffix_order.order_refl
          split: list.splits if_splits)
  qed (simp add: subst_loop.simps(2))
qed simp

lemma SubstituteVarsInString_fuel:
  "vars_ok vs \<Longrightarrow> SubstituteVarsInString fmt vs flags \<noteq> Inl OutOfFuel"
  unfolding SubstituteVarsInString_def by (rule subst_loop_fuel) simp_all

section \<open>Templates\<close>

text \<open>
  A template is text without dollar signs and references \<open>$(name)\<close> with a name free of \<open>)\<close>
  and \<open>$\<close>; \<open>var_value\<close> is what a reference expands to.
\<close>

datatype seg = Lit string | Ref string

fun seg_ok :: "seg \<Rightarrow> bool" where
  "seg_ok (Lit t) \<longleftrightarrow> CHR ''$'' \<notin> set t"
| "seg_ok (Ref v) \<longleftrightarrow> CHR ''$'' \<notin> set v \<and> CHR '')'' \<notin> set v"

fun seg_text :: "seg \<Rightarrow> string" where
  "seg_text (Lit t) = t"
| "seg_text (Ref v) = ''$('' @ v @ '')''"

definition render :: "seg list \<Rightarrow> string" where
  "render segs = concat (map seg_text segs)"

definition var_value :: "vars \<Rightarrow> string \<Rightarrow> string" where
  "var_value vs name = (case GetVar vs name of Inr d \<Rightarrow> d | Inl _ \<Rightarrow> [])"

fun seg_value :: "vars \<Rightarrow> nat \<Rightarrow> seg \<Rightarrow> string" where
  "seg_value vs flags (Lit t) = t"
| "seg_value vs flags (Ref v) =
     subst_value flags (var_value vs (if hasflag flags SUBS_CASE_VARNAMES then v else strlwr v))"

definition plain_mode :: "nat \<Rightarrow> bool" where
  "plain_mode flags \<longleftrightarrow> \<not> hasflag flags SUBS_INTERPRET_BACKSLASH \<and> \<not> hasflag flags SUBS_QUOTES"

lemma GetVar_var_value: "vars_ok vs \<Longrightarrow> GetVar vs n = Inr (var_value vs n)"
  by (simp add: var_value_def GetVar_find)

lemma parse_var_finish_value:
  "vars_ok vs \<Longrightarrow> parse_var_finish vs flags out name = Inr (out @ seg_value vs flags (Ref name))"
  by (simp add: parse_var_finish_def GetVar_var_value)

lemma var_name_loop_bracket:
  "CHR ''$'' \<notin> set v \<Longrightarrow> CHR '')'' \<notin> set v \<Longrightarrow> length v < n \<Longrightarrow>
     var_name_loop n vs flags True tmp name (v @ CHR '')'' # r) = Inr (name @ v, CHR '')'' # r)"
proof (induction v arbitrary: n name)
  case Nil
  then show ?case by (cases n) (auto simp: var_name_loop.simps(2) name_ends_def)
next
  case (Cons c cs)
  then show ?case by (cases n) (auto simp: var_name_loop.simps(2) name_ends_def)
qed

lemma ParseVar_bracket:
  assumes "vars_ok vs" "CHR ''$'' \<notin> set v" "CHR '')'' \<notin> set v" "Suc (length v) < n"
  shows "ParseVar n vs flags out (CHR ''('' # v @ CHR '')'' # r) =
     Inr (out @ seg_value vs flags (Ref v), CHR '')'' # r)"
proof -
  obtain k where n: "n = Suc k" "length v < k" using assms(4) by (cases n) auto
  show ?thesis
    using var_name_loop_bracket [OF assms(2,3) n(2), of vs flags "[]" "[]" r]
    by (simp add: n(1) ParseVar.simps(2) parse_var_finish_value [OF assms(1)] del: seg_value.simps)
qed

lemma subst_loop_plain_char:
  "plain_mode flags \<Longrightarrow> c \<noteq> CHR ''$'' \<Longrightarrow>
     subst_loop (Suc n) vs flags out (c # cs) = subst_loop n vs flags (out @ [c]) cs"
  by (simp add: subst_loop.simps(2) plain_mode_def)

lemma subst_loop_text:
  "plain_mode flags \<Longrightarrow> CHR ''$'' \<notin> set t \<Longrightarrow>
     subst_loop (n + length t) vs flags out (t @ r) = subst_loop n vs flags (out @ t) r"
proof (induction t arbitrary: out)
  case (Cons c cs)
  moreover from Cons have "c \<noteq> CHR ''$''" by auto
  ultimately show ?case by (simp add: subst_loop_plain_char)
qed simp

lemma subst_loop_render:
  "vars_ok vs \<Longrightarrow> plain_mode flags \<Longrightarrow> \<forall>s \<in> set segs. seg_ok s \<Longrightarrow> length (render segs) < n \<Longrightarrow>
     subst_loop n vs flags out (render segs) = Inr (out @ concat (map (seg_value vs flags) segs))"
proof (induction segs arbitrary: n out)
  case Nil
  then show ?case by (cases n) (auto simp: render_def subst_loop.simps(2))
next
  case (Cons s segs)
  have r: "render (s # segs) = seg_text s @ render segs" by (simp add: render_def)
  show ?case
  proof (cases s)
    case (Lit t)
    define k where "k = n - length t"
    have "n = k + length t" "length (render segs) < k"
      using Cons.prems(4) Lit r by (auto simp: k_def)
    then show ?thesis
      using Cons Lit r by (simp add: subst_loop_text)
  next
    case (Ref v)
    obtain k where k: "n = Suc k" "length v + 2 < k \<or> render segs = []" "length (render segs) < k"
      "length v + 2 \<le> k"
      using Cons.prems(4) Ref r by (cases n) auto
    have "ParseVar (Suc k) vs flags out (CHR ''('' # v @ CHR '')'' # render segs) =
        Inr (out @ seg_value vs flags (Ref v), CHR '')'' # render segs)"
      using ParseVar_bracket [OF Cons.prems(1)] Cons.prems(3) Ref k by simp
    then have "subst_loop (Suc k) vs flags out (seg_text (Ref v) @ render segs) =
        subst_loop k vs flags (out @ seg_value vs flags (Ref v)) (render segs)"
      using Cons.prems(2) by (simp add: subst_loop.simps(2) plain_mode_def del: seg_value.simps)
    then show ?thesis
      using Cons k Ref r by (simp del: seg_value.simps)
  qed
qed

lemma SubstituteVarsInString_template:
  assumes "vars_ok vs" "plain_mode flags" "\<forall>s \<in> set segs. seg_ok s"
  shows "SubstituteVarsInString (render segs) vs flags =
     Inr (concat (map (seg_value vs flags) segs))"
  using subst_loop_render [OF assms] by (simp add: SubstituteVarsInString_def)

section \<open>The shell filter\<close>

text \<open>
  How a shell reads the characters the filter is about, outside quotes: a backslash takes the
  next character with it.  \<open>exposed\<close>: one of the filtered characters is read as an operator.
  \<open>backslash_hole\<close>: the value has an unescaped backslash directly before such a character.
\<close>

fun exposed :: "string \<Rightarrow> bool" where
  "exposed [] = False"
| "exposed [c] = (c \<in> set shell_bad_chars)"
| "exposed (c # d # cs) =
     (if c = BSL then exposed cs else c \<in> set shell_bad_chars \<or> exposed (d # cs))"

fun backslash_hole :: "string \<Rightarrow> bool" where
  "backslash_hole [] = False"
| "backslash_hole [c] = False"
| "backslash_hole (c # d # cs) =
     (if c = BSL then d \<in> set shell_bad_chars \<or> backslash_hole cs else backslash_hole (d # cs))"

lemma bad_chars_simps [simp]:
  "BSL \<notin> set shell_bad_chars" "LF \<notin> set shell_bad_chars" "CR \<notin> set shell_bad_chars"
  by (simp_all add: shell_bad_chars_def)

lemma MakeShellSafeString_Cons:
  "MakeShellSafeString (c # cs) 0 =
     (if c \<in> set shell_bad_chars then [BSL, c] else [c]) @ MakeShellSafeString cs 0"
  using bad_chars_simps(2,3)
  by (auto simp: MakeShellSafeString_def SHELLSAFE_BLANK_def QuoteCharsInStr_def quote_char_def
      simp del: bad_chars_simps)

lemma MakeShellSafeString_Nil [simp]: "MakeShellSafeString [] 0 = []"
  by (simp add: MakeShellSafeString_def SHELLSAFE_BLANK_def QuoteCharsInStr_def)

lemma exposed_Cons: "c \<noteq> BSL \<Longrightarrow> exposed (c # cs) \<longleftrightarrow> c \<in> set shell_bad_chars \<or> exposed cs"
  by (cases cs) auto

lemma exposed_escaped: "exposed (BSL # c # cs) = exposed cs"
  by simp

lemma exposed_safe: "exposed (MakeShellSafeString s 0) = backslash_hole s"
proof (induction s rule: backslash_hole.induct)
  case (2 c)
  then show ?case by (cases "c = BSL") (auto simp: MakeShellSafeString_Cons)
next
  case (3 c d cs)
  show ?case
  proof (cases "c = BSL")
    case True
    have "exposed (d # x)" if "d \<in> set shell_bad_chars" for x
      using that by (subst exposed_Cons) auto
    with True 3 show ?thesis
      by (auto simp: MakeShellSafeString_Cons [of BSL] MakeShellSafeString_Cons [of d] exposed_Cons)
  next
    case False
    then have "exposed (MakeShellSafeString (c # d # cs) 0) = exposed (MakeShellSafeString (d # cs) 0)"
      by (auto simp: MakeShellSafeString_Cons [of c] exposed_Cons)
    with False 3 show ?thesis by simp
  qed
qed simp

lemma backslash_hole_free: "BSL \<notin> set s \<Longrightarrow> \<not> backslash_hole s"
  by (induction s rule: backslash_hole.induct) auto

lemma MakeShellSafeString_length:
  "length (MakeShellSafeString s 0) = length s + length (filter (\<lambda>c. c \<in> set shell_bad_chars) s)"
  by (induction s) (auto simp: MakeShellSafeString_Cons)

lemma MakeShellSafeString_unchanged:
  "(MakeShellSafeString s 0 = s) = (\<forall>c \<in> set s. c \<notin> set shell_bad_chars)"
proof
  assume "MakeShellSafeString s 0 = s"
  then have "filter (\<lambda>c. c \<in> set shell_bad_chars) s = []"
    using MakeShellSafeString_length [of s] by simp
  then show "\<forall>c \<in> set s. c \<notin> set shell_bad_chars"
    by (simp add: filter_empty_conv)
next
  assume "\<forall>c \<in> set s. c \<notin> set shell_bad_chars"
  then show "MakeShellSafeString s 0 = s"
    by (induction s) (auto simp: MakeShellSafeString_Cons)
qed

section \<open>Properties\<close>

text \<open>C9: after the shell filter one of the filtered operators is still read as an operator
  exactly when the value has an unescaped backslash directly before such a character; a value
  without backslashes is safe.\<close>

theorem shell_filter_guards_exactly:
  "exposed (MakeShellSafeString s 0) \<longleftrightarrow> backslash_hole s"
  by (rule exposed_safe)

end
