(* ===== verification/DataParser.thy ===== *)
theory DataParser
  imports Tokenizer ListNodes
begin

text \<open>
  The parse tree of \<open>libUseful-4/DataParser.c\<close> and the operations on it that do not depend on
  a document format.  A list head made by \<open>ListCreate\<close> has item type \<open>ITEM_ROOT\<close>, its tag is set
  only for the lists of entities and arrays; \<open>Sub tag nodes\<close> is such a list.  A pointer into the
  tree is either a list head or a node.
\<close>

section \<open>The tree\<close>

definition ITEM_ROOT :: nat where "ITEM_ROOT = 0"
definition ITEM_STRING :: nat where "ITEM_STRING = 1"
definition ITEM_ENTITY :: nat where "ITEM_ENTITY = 2"
definition ITEM_ARRAY :: nat where "ITEM_ARRAY = 3"
definition ITEM_INTEGER :: nat where "ITEM_INTEGER = 4"

lemmas item_types = ITEM_ROOT_def ITEM_STRING_def ITEM_ENTITY_def ITEM_ARRAY_def ITEM_INTEGER_def

datatype item = Text string | Sub "string option" "node list"
  and node = Node (node_tag: "string option") (node_type: nat) (node_item: item)

text \<open>The nodes as the list functions see them.\<close>

definition lnode_of :: "node \<Rightarrow> item lnode" where
  "lnode_of n = \<lparr>ln_tag = node_tag n, ln_type = node_type n, ln_item = node_item n\<rparr>"

definition find_node :: "node list \<Rightarrow> string \<Rightarrow> node option res" where
  "find_node xs name =
     bindr (seq_find (map lnode_of xs) name) (\<lambda>r. Inr (map_option (\<lambda>i. xs ! i) r))"

text \<open>\<open>ListAddNamedItem\<close> followed by \<open>Node->ItemType=Type\<close>.\<close>

definition add_node :: "node list \<Rightarrow> string option \<Rightarrow> nat \<Rightarrow> item \<Rightarrow> node list" where
  "add_node xs name ty itm = xs @ [Node (if StrValid name then name else None) ty itm]"

section \<open>Building it\<close>

text \<open>The tag \<open>ParserNewObject\<close> gives a new object in a parent with tag \<open>ptag\<close> and \<open>n\<close> items.\<close>

definition object_tag :: "string option \<Rightarrow> nat \<Rightarrow> string option \<Rightarrow> string" where
  "object_tag ptag n name =
     (if StrValid name then the name
      else (if StrValid ptag then the ptag else ''item'') @ '':'' @ fmt_d (int n))"

definition ParserNewObject ::
  "string option \<Rightarrow> node list \<Rightarrow> nat \<Rightarrow> string option \<Rightarrow> node list \<Rightarrow> node list" where
  "ParserNewObject ptag parent ty name contents =
     add_node parent (Some (object_tag ptag (length parent) name)) ty (Sub (Some (CopyStr name)) contents)"

definition value_type :: "string \<Rightarrow> nat" where
  "value_type v = (if isdigit (deref v) then ITEM_INTEGER else ITEM_STRING)"

definition ParserAddValue :: "node list \<Rightarrow> string option \<Rightarrow> string \<Rightarrow> node list" where
  "ParserAddValue parent name v =
     (if StrValid name \<or> v \<noteq> [] then add_node parent name (value_type v) (Text v) else parent)"

section \<open>The document type\<close>

definition parser_types :: "string list" where
  "parser_types = [''json'', ''xml'', ''rss'', ''yaml'', ''config'', ''ini'', ''url'', ''cmon'']"

definition ParserIdentifyDocType :: "string \<Rightarrow> int" where
  "ParserIdentifyDocType typestr =
     (let t = StripLeadingWhitespace (StripTrailingWhitespace (snd (GetToken (Some typestr) '';'' 0)));
          p = (if take 12 t = ''application/'' then drop 12 t else t);
          q = (if take 21 p = ''x-www-form-urlencoded'' then ''url'' else p)
      in MatchTokenFromList (Some q) parser_types 0)"

text \<open>\<open>ParserParseDocument\<close> skips white space and one opening brace and bracket.\<close>

definition doc_start :: "string \<Rightarrow> string" where
  "doc_start doc =
     (let p = dropWhile isspace doc;
          p1 = (if deref p = CHR ''{'' then drop 1 p else p)
      in if deref p1 = CHR ''['' then drop 1 p1 else p1)"

lemma doc_start_suffix: "suffix (doc_start doc) doc"
proof -
  have "suffix (drop n (drop m (dropWhile isspace doc))) doc" for n m
    by (meson suffix_drop suffix_dropWhile suffix_order.trans)
  from this [of 0 0] this [of 1 0] this [of 0 1] this [of 1 1] show ?thesis
    by (simp add: doc_start_def Let_def split del: if_split) (auto split: if_splits)
qed

section \<open>Finding things in it\<close>

datatype place = AtList "node list" | AtNode node

definition ParserItemIsValue :: "node \<Rightarrow> bool" where
  "ParserItemIsValue n \<longleftrightarrow> node_type n = ITEM_STRING \<or> node_type n = ITEM_INTEGER"

text \<open>
  One path component.  Below a value the pointer stays where it is.  A node of type
  \<open>ITEM_ROOT\<close> inside a list would be taken for a list head.
\<close>

definition place_step :: "place \<Rightarrow> string \<Rightarrow> place option res" where
  "place_step pl name =
     (case pl of
        AtList xs \<Rightarrow> bindr (find_node xs name) (\<lambda>r. Inr (map_option AtNode r))
      | AtNode n \<Rightarrow>
          if node_type n = ITEM_ROOT then Inl TypeConfusion
          else if ParserItemIsValue n then Inr (Some pl)
          else (case node_item n of
                  Sub _ xs \<Rightarrow> bindr (find_node xs name) (\<lambda>r. Inr (map_option AtNode r))
                | Text _ \<Rightarrow> Inl TypeConfusion))"

function find_item_loop :: "string option \<Rightarrow> place \<Rightarrow> place option res" where
  "find_item_loop p pl =
     (case GetToken p ''/'' 0 of
        (None, t) \<Rightarrow> Inr (Some pl)
      | (Some r, t) \<Rightarrow>
          (case place_step pl t of
             Inl e \<Rightarrow> Inl e
           | Inr None \<Rightarrow> Inr None
           | Inr (Some pl') \<Rightarrow> find_item_loop (Some r) pl'))"
  by pat_completeness auto
termination
  by (relation "measure (\<lambda>(p, _). ptr_left p)") (auto dest: get_token.next_decreases [OF sym])

declare find_item_loop.simps [simp del]

definition ParserFindItem :: "node list \<Rightarrow> string \<Rightarrow> place option res" where
  "ParserFindItem items name =
     (if name = ''/'' then Inr (Some (AtList items))
      else (let p = (if deref name = CHR ''/'' then drop 1 name else name) in
            if p \<noteq> [] then find_item_loop (Some p) (AtList items)
            else Inr (case items of [] \<Rightarrow> None | n # _ \<Rightarrow> Some (AtNode n))))"

definition ParserOpenItem :: "node list \<Rightarrow> string \<Rightarrow> node list option res" where
  "ParserOpenItem items name =
     bindr (ParserFindItem items name)
       (\<lambda>r. case r of
          None \<Rightarrow> Inr None
        | Some (AtList xs) \<Rightarrow> Inr (Some xs)
        | Some (AtNode n) \<Rightarrow>
            if ParserItemIsValue n then Inr None
            else (case node_item n of Sub _ xs \<Rightarrow> Inr (Some xs) | Text _ \<Rightarrow> Inl TypeConfusion))"

text \<open>
  \<open>ParserGetValue\<close> on a list head.  The item is returned as a string whatever it is.
\<close>

definition item_text :: "item \<Rightarrow> string res" where
  "item_text i = (case i of Text t \<Rightarrow> Inr t | Sub _ _ \<Rightarrow> Inl TypeConfusion)"

definition ParserGetValue :: "node list \<Rightarrow> string \<Rightarrow> string res" where
  "ParserGetValue items name =
     (if CHR ''/'' \<in> set name then
        bindr (ParserFindItem items name)
          (\<lambda>r. case r of
             None \<Rightarrow> Inr []
           | Some (AtList _) \<Rightarrow> Inl TypeConfusion
           | Some (AtNode n) \<Rightarrow> item_text (node_item n))
      else bindr (find_node items name)
             (\<lambda>r. case r of None \<Rightarrow> Inr [] | Some n \<Rightarrow> item_text (node_item n)))"

section \<open>Well-formed trees\<close>

text \<open>Values hold text, entities and arrays hold lists, and no other item type occurs.\<close>

fun item_wf :: "nat \<Rightarrow> item \<Rightarrow> bool" and node_wf :: "node \<Rightarrow> bool" where
  "item_wf ty (Text t) \<longleftrightarrow> ty = ITEM_STRING \<or> ty = ITEM_INTEGER"
| "item_wf ty (Sub tag xs) \<longleftrightarrow> (ty = ITEM_ENTITY \<or> ty = ITEM_ARRAY) \<and> (\<forall>x \<in> set xs. node_wf x)"
| "node_wf (Node tag ty itm) \<longleftrightarrow> item_wf ty itm"

definition tree_wf :: "node list \<Rightarrow> bool" where
  "tree_wf xs \<longleftrightarrow> (\<forall>x \<in> set xs. node_wf x)"

lemma tree_wf_simps [simp]: "tree_wf []" "tree_wf (x # xs) \<longleftrightarrow> node_wf x \<and> tree_wf xs"
  "tree_wf (xs @ ys) \<longleftrightarrow> tree_wf xs \<and> tree_wf ys"
  by (auto simp: tree_wf_def)

lemma ParserAddValue_wf: "tree_wf xs \<Longrightarrow> tree_wf (ParserAddValue xs name v)"
  by (simp add: ParserAddValue_def add_node_def value_type_def)

lemma ParserNewObject_wf:
  "tree_wf xs \<Longrightarrow> tree_wf ys \<Longrightarrow> ty = ITEM_ENTITY \<or> ty = ITEM_ARRAY \<Longrightarrow>
     tree_wf (ParserNewObject ptag xs ty name ys)"
  by (auto simp: ParserNewObject_def add_node_def tree_wf_def)

lemma node_wf_cases:
  assumes "node_wf n"
  obtains (val) t where "ParserItemIsValue n" "node_item n = Text t" "node_type n \<noteq> ITEM_ROOT"
  | (sub) tag xs where "\<not> ParserItemIsValue n" "node_item n = Sub tag xs" "tree_wf xs"
      "node_type n \<noteq> ITEM_ROOT"
proof (cases n)
  case (Node tag ty itm)
  with assms that show thesis
    by (cases itm) (auto simp: ParserItemIsValue_def tree_wf_def item_types)
qed

lemma find_node_wf:
  assumes "find_node xs name = Inr (Some n)" "tree_wf xs"
  shows "node_wf n"
proof -
  obtain i where i: "seq_find (map lnode_of xs) name = Inr (Some i)" "n = xs ! i"
    using assms(1) by (auto simp: find_node_def bindr_Inr_iff)
  have "i < length xs"
  proof (rule ccontr)
    assume "\<not> i < length xs"
    moreover have "i < length (map lnode_of xs)"
      using i(1) seq_find_typed_less unfolding seq_find_def by metis
    ultimately show False by simp
  qed
  with i assms(2) show ?thesis by (auto simp: tree_wf_def)
qed

lemma find_node_total: "\<exists>r. find_node xs name = Inr r"
  using seq_find_typed_no_fault [of "map lnode_of xs" ANYTYPE name]
  by (auto simp: find_node_def seq_find_def)

fun place_wf :: "place \<Rightarrow> bool" where
  "place_wf (AtList xs) = tree_wf xs"
| "place_wf (AtNode n) = node_wf n"

lemma place_step_total:
  assumes "place_wf pl"
  shows "\<exists>r. place_step pl name = Inr r \<and> (\<forall>pl'. r = Some pl' \<longrightarrow> place_wf pl')"
proof (cases pl)
  case (AtList xs)
  obtain r where "find_node xs name = Inr r" using find_node_total by blast
  with assms AtList find_node_wf [of xs name] show ?thesis by (auto simp: place_step_def)
next
  case (AtNode n)
  with assms have "node_wf n" by simp
  then show ?thesis
  proof (cases rule: node_wf_cases)
    case (val t)
    with AtNode assms show ?thesis by (simp add: place_step_def)
  next
    case (sub tag xs)
    obtain r where "find_node xs name = Inr r" using find_node_total by blast
    with sub AtNode find_node_wf [of xs name] show ?thesis by (auto simp: place_step_def)
  qed
qed

lemma find_item_loop_total:
  "place_wf pl \<Longrightarrow> \<exists>r. find_item_loop p pl = Inr r \<and> (\<forall>pl'. r = Some pl' \<longrightarrow> place_wf pl')"
proof (induction p pl rule: find_item_loop.induct)
  case (1 p pl)
  obtain q t where G: "GetToken p ''/'' 0 = (q, t)" by (cases "GetToken p ''/'' 0") auto
  obtain r where r: "place_step pl t = Inr r" "\<forall>pl'. r = Some pl' \<longrightarrow> place_wf pl'"
    using place_step_total [OF "1.prems"] by blast
  show ?case
  proof (cases q)
    case None
    with G "1.prems" show ?thesis by (simp add: find_item_loop.simps [of p])
  next
    case (Some s)
    show ?thesis
    proof (cases r)
      case None
      with G Some r show ?thesis by (simp add: find_item_loop.simps [of p])
    next
      case (Some pl')
      with G \<open>q = Some s\<close> r "1.IH" [OF G [symmetric] \<open>q = Some s\<close> r(1) [unfolded Some] refl]
      show ?thesis by (simp add: find_item_loop.simps [of p])
    qed
  qed
qed

lemma ParserFindItem_total:
  assumes "tree_wf items"
  shows "\<exists>r. ParserFindItem items name = Inr r \<and> (\<forall>pl. r = Some pl \<longrightarrow> place_wf pl)"
proof -
  define p where "p = (if deref name = CHR ''/'' then drop 1 name else name)"
  have unf: "ParserFindItem items name =
     (if name = ''/'' then Inr (Some (AtList items))
      else if p \<noteq> [] then find_item_loop (Some p) (AtList items)
      else Inr (case items of [] \<Rightarrow> None | n # _ \<Rightarrow> Some (AtNode n)))"
    unfolding ParserFindItem_def p_def Let_def ..
  consider "name = ''/''" | "name \<noteq> ''/''" "p \<noteq> []" | "name \<noteq> ''/''" "p = []" by blast
  then show ?thesis
  proof cases
    case 2
    with unf find_item_loop_total [of "AtList items" "Some p"] assms show ?thesis by simp
  next
    case 3
    with unf assms show ?thesis by (cases items) auto
  qed (use unf assms in simp)
qed

lemma ParserOpenItem_total:
  assumes "tree_wf items"
  shows "\<exists>r. ParserOpenItem items name = Inr r \<and> (\<forall>xs. r = Some xs \<longrightarrow> tree_wf xs)"
proof -
  obtain r where r: "ParserFindItem items name = Inr r" "\<forall>pl. r = Some pl \<longrightarrow> place_wf pl"
    using ParserFindItem_total [OF assms] by blast
  show ?thesis
  proof (cases r)
    case (Some pl)
    show ?thesis
    proof (cases pl)
      case (AtNode n)
      with r Some have "node_wf n" by simp
      then show ?thesis
        using r Some AtNode by (cases rule: node_wf_cases) (auto simp: ParserOpenItem_def)
    qed (use r Some in \<open>auto simp: ParserOpenItem_def\<close>)
  qed (use r in \<open>simp add: ParserOpenItem_def\<close>)
qed

end
