(* ===== verification/Expect.thy ===== *)
theory Expect
  imports VarSubst DataParser TokenizerModes
begin

text \<open>
  \<open>libUseful-4/Expect.c\<close>, the conversation with a command the server has started, and
  \<open>ProcessExpect\<close> of \<open>server.c\<close>, which sets a conversation up from the configuration.

  What the command prints is a list of reads ending in end of file: a byte, a read that gave
  no data, or a read error.  The machine keeps for every dialog how much of its string has been
  seen.  The theory shows that the first \<open>d_match\<close> characters of a dialog are always the last
  ones read, that a reply is only sent when its whole string has just been read, that mandatory
  dialogs are answered in their order, and when the verdict is success.
\<close>

section \<open>Dialogs\<close>

definition DIALOG_END :: nat where "DIALOG_END = 1"
definition DIALOG_FAIL :: nat where "DIALOG_FAIL = 2"
definition DIALOG_OPTIONAL :: nat where "DIALOG_OPTIONAL = 4"
definition DIALOG_DONE :: nat where "DIALOG_DONE = 67108864"

lemmas dialog_flags = DIALOG_END_def DIALOG_FAIL_def DIALOG_OPTIONAL_def DIALOG_DONE_def

record dialog =
  d_flags :: nat
  d_match :: nat
  d_expect :: string
  d_reply :: string

definition ExpectDialogAdd :: "dialog list \<Rightarrow> string \<Rightarrow> string \<Rightarrow> nat \<Rightarrow> dialog list" where
  "ExpectDialogAdd ds expect reply flags =
     ds @ [\<lparr>d_flags = flags, d_match = 0, d_expect = expect, d_reply = reply\<rparr>]"

definition ExpectDialogsDone :: "dialog list \<Rightarrow> bool" where
  "ExpectDialogsDone ds \<longleftrightarrow> list_all (\<lambda>d. hasflag (d_flags d) (or DIALOG_DONE DIALOG_OPTIONAL)) ds"

section \<open>One byte\<close>

text \<open>
  \<open>char\<close> is signed, the byte read is not: \<open>Expect[Match] == inchar\<close> compares the signed value.
\<close>

definition schar :: "char \<Rightarrow> int" where
  "schar c = (if (of_char c :: nat) < 128 then of_char c else of_char c - 256)"

definition expect_at :: "dialog \<Rightarrow> nat \<Rightarrow> int" where
  "expect_at d i = (if i < length (d_expect d) then schar (d_expect d ! i) else 0)"

text \<open>The new dialog, and whether its string is complete.\<close>

definition dialog_char :: "dialog \<Rightarrow> char \<Rightarrow> dialog \<times> bool" where
  "dialog_char d c =
     (let m = (if expect_at d (d_match d) \<noteq> of_char c then 0 else d_match d) in
      if expect_at d m = of_char c then
        (if Suc m \<ge> length (d_expect d)
         then (d\<lparr>d_match := 0, d_flags := or (d_flags d) DIALOG_DONE\<rparr>, True)
         else (d\<lparr>d_match := Suc m\<rparr>, False))
      else (d\<lparr>d_match := m\<rparr>, False))"

text \<open>The walk over the dialogs: the dialogs, the replies sent, and the verdict if there is one.\<close>

fun dialog_walk :: "dialog list \<Rightarrow> char \<Rightarrow> dialog list \<times> string list \<times> bool option" where
  "dialog_walk [] c = ([], [], None)"
| "dialog_walk (d # ds) c =
     (if hasflag (d_flags d) DIALOG_DONE then
        (case dialog_walk ds c of (ds', rs, v) \<Rightarrow> (d # ds', rs, v))
      else
        (case dialog_char d c of
           (d', done) \<Rightarrow>
             if done \<and> hasflag (d_flags d) DIALOG_END then (d' # ds, [d_reply d], Some True)
             else if done \<and> hasflag (d_flags d) DIALOG_FAIL then (d' # ds, [d_reply d], Some False)
             else if \<not> hasflag (d_flags d) DIALOG_OPTIONAL
             then (d' # ds, if done then [d_reply d] else [], None)
             else (case dialog_walk ds c of
                     (ds', rs, v) \<Rightarrow> (d' # ds', (if done then [d_reply d] else []) @ rs, v))))"

section \<open>The conversation\<close>

datatype read_result = Byte char | NoData | ReadError

text \<open>The verdict, the dialogs, the replies, and what the command prints after it.\<close>

fun expect_loop ::
  "read_result list \<Rightarrow> dialog list \<Rightarrow> int \<Rightarrow> bool \<times> dialog list \<times> string list \<times> read_result list" where
  "expect_loop [] ds timeout = (ExpectDialogsDone ds, ds, [], [])"
| "expect_loop (r # rs) ds timeout =
     (case r of
        NoData \<Rightarrow> if timeout > 0 then (False, ds, [], rs) else expect_loop rs ds timeout
      | ReadError \<Rightarrow> expect_loop rs ds timeout
      | Byte c \<Rightarrow>
          if c = NUL then expect_loop rs ds timeout
          else (case dialog_walk ds c of
                  (ds', reps, Some v) \<Rightarrow> (v, ds', reps, rs)
                | (ds', reps, None) \<Rightarrow>
                    (case expect_loop rs ds' timeout of
                       (v, ds2, reps2, rest) \<Rightarrow> (v, ds2, reps @ reps2, rest))))"

definition STREAMExpectDialog ::
  "read_result list \<Rightarrow> dialog list \<Rightarrow> int \<Rightarrow> bool \<times> dialog list \<times> string list \<times> read_result list" where
  "STREAMExpectDialog reads ds timeout = expect_loop reads ds timeout"

section \<open>\<open>ProcessExpect\<close>\<close>

text \<open>The dialog an item of the configuration stands for.\<close>

definition expect_item :: "vars \<Rightarrow> dialog list \<Rightarrow> node \<Rightarrow> dialog list res" where
  "expect_item vs ds n =
     (if \<not> ParserItemIsValue n then Inr ds
      else bindr (item_text (node_item n))
        (\<lambda>t. case GetToken (Some t) WS_PATTERN GETTOKEN_QUOTES of
           (p, tok1) \<Rightarrow>
             bindr (SubstituteVarsInString tok1 vs 0)
               (\<lambda>expect. bindr (SubstituteVarsInString (snd (GetToken p WS_PATTERN GETTOKEN_QUOTES)) vs 0)
                  (\<lambda>reply0. let reply = reply0 @ [LF] in
                     case node_tag n of
                       None \<Rightarrow> Inl NullDeref
                     | Some tag \<Rightarrow>
                         Inr (if strcmp tag ''expect'' = 0 then ExpectDialogAdd ds expect reply 0
                              else if strcmp tag ''optional'' = 0
                              then ExpectDialogAdd ds expect reply DIALOG_OPTIONAL
                              else if strcmp tag ''fail'' = 0
                              then ExpectDialogAdd ds expect reply (or DIALOG_OPTIONAL DIALOG_FAIL)
                              else if strcmp tag ''end'' = 0 then ExpectDialogAdd ds expect reply DIALOG_END
                              else ds)))))"

fun expect_items :: "vars \<Rightarrow> dialog list \<Rightarrow> node list \<Rightarrow> dialog list res" where
  "expect_items vs ds [] = Inr ds"
| "expect_items vs ds (n # ns) = bindr (expect_item vs ds n) (\<lambda>ds'. expect_items vs ds' ns)"

text \<open>
  The verdict, the replies, and the rest of the output.  At the end \<open>ExpectDialogDestroy\<close> is called
  on the list of dialogs as if it were a dialog: in the place of \<open>Expect\<close> a list head has its
  pointer to the last node, which is the head itself when the list is empty, and the head is then
  freed twice.
\<close>

definition ProcessExpect ::
  "read_result list \<Rightarrow> string \<Rightarrow> vars \<Rightarrow> node list \<Rightarrow> int \<Rightarrow> (bool \<times> string list \<times> read_result list) res" where
  "ProcessExpect reads name vs config timeout =
     bindr (ParserOpenItem config name)
       (\<lambda>items. bindr (expect_items vs [] (case items of None \<Rightarrow> [] | Some ns \<Rightarrow> ns))
          (\<lambda>ds. case STREAMExpectDialog reads ds timeout of
             (v, ds', reps, rest) \<Rightarrow> if ds = [] then Inl BadPointer else Inr (v, reps, rest)))"

section \<open>What has been matched has been read\<close>

lemma of_char_int_ge_0: "0 \<le> (of_char c :: int)"
  by (metis of_nat_0_le_iff of_nat_of_char)

lemma of_char_int_less: "(of_char c :: int) < 256"
proof -
  have "(of_char c :: nat) < 256" by (rule nat_of_char_less_256)
  then have "int (of_char c) < int 256" by (simp only: of_nat_less_iff)
  also have "int 256 = 256" by simp
  finally show ?thesis by (simp only: of_nat_of_char)
qed

lemma schar_inj_unsigned: "schar d = of_char c \<Longrightarrow> d = c"
proof -
  assume A: "schar d = of_char c"
  have "(of_char d :: nat) < 128"
  proof (rule ccontr)
    assume "\<not> (of_char d :: nat) < 128"
    then have "schar d < 0" using of_char_int_less [of d] by (simp add: schar_def)
    with A of_char_int_ge_0 [of c] show False by simp
  qed
  with A have "(of_char d :: int) = of_char c" by (simp add: schar_def)
  then show "d = c" by (simp only: of_char_eq_iff)
qed

definition dialog_ok :: "string \<Rightarrow> dialog \<Rightarrow> bool" where
  "dialog_ok pre d \<longleftrightarrow> suffix (take (d_match d) (d_expect d)) pre \<and>
     d_match d \<le> length (d_expect d) \<and> (hasflag (d_flags d) DIALOG_DONE \<longrightarrow> d_match d = 0)"

text \<open>Dialogs behind a mandatory one that is still open have not been touched.\<close>

fun walk_inv :: "string \<Rightarrow> dialog list \<Rightarrow> bool" where
  "walk_inv pre [] = True"
| "walk_inv pre (d # ds) =
     (dialog_ok pre d \<and>
      (if hasflag (d_flags d) DIALOG_DONE \<or> hasflag (d_flags d) DIALOG_OPTIONAL then walk_inv pre ds
       else \<forall>x \<in> set ds. d_match x = 0))"

lemma walk_inv_untouched: "\<forall>x \<in> set ds. d_match x = 0 \<Longrightarrow> walk_inv pre ds"
  by (induction ds) (auto simp: dialog_ok_def)

lemma hasflag_done [simp]: "hasflag DIALOG_DONE DIALOG_DONE" "\<not> hasflag DIALOG_DONE DIALOG_OPTIONAL"
  "\<not> hasflag DIALOG_DONE DIALOG_END" "\<not> hasflag DIALOG_DONE DIALOG_FAIL"
  by (simp_all add: hasflag_def dialog_flags)

lemma expect_at_hit:
  assumes "expect_at d i = of_char c" "c \<noteq> NUL"
  shows "i < length (d_expect d) \<and> d_expect d ! i = c"
proof -
  have "(of_char c :: int) \<noteq> 0"
  proof
    assume "(of_char c :: int) = 0"
    then have "(of_char c :: int) = of_char NUL" by simp
    with assms(2) show False by (simp only: of_char_eq_iff)
  qed
  with assms show ?thesis
    by (auto simp: expect_at_def split: if_splits dest: schar_inj_unsigned)
qed

lemma dialog_char_keeps:
  "dialog_char d c = (d', b) \<Longrightarrow> d_expect d' = d_expect d \<and> d_reply d' = d_reply d \<and>
     d_flags d' = (if b then or (d_flags d) DIALOG_DONE else d_flags d)"
  by (auto simp: dialog_char_def Let_def split: if_splits)

lemma suffix_snoc: "suffix a pre \<Longrightarrow> suffix (a @ [c]) (pre @ [c])"
  by (auto simp: suffix_def)

lemma dialog_char_ok:
  assumes "dialog_ok pre d" "c \<noteq> NUL" "\<not> hasflag (d_flags d) DIALOG_DONE" "dialog_char d c = (d', b)"
  shows "dialog_ok (pre @ [c]) d' \<and> (b \<longrightarrow> suffix (d_expect d) (pre @ [c]))"
proof -
  define m where "m = (if expect_at d (d_match d) \<noteq> of_char c then 0 else d_match d)"
  have pre: "suffix (take m (d_expect d)) pre" using assms(1) by (simp add: m_def dialog_ok_def)
  have eq: "dialog_char d c =
     (if expect_at d m = of_char c then
        (if Suc m \<ge> length (d_expect d)
         then (d\<lparr>d_match := 0, d_flags := or (d_flags d) DIALOG_DONE\<rparr>, True)
         else (d\<lparr>d_match := Suc m\<rparr>, False))
      else (d\<lparr>d_match := m\<rparr>, False))"
    by (simp only: dialog_char_def m_def Let_def)
  show ?thesis
  proof (cases "expect_at d m = of_char c")
    case True
    then have hit: "m < length (d_expect d)" "d_expect d ! m = c"
      using expect_at_hit assms(2) by blast+
    then have "take (Suc m) (d_expect d) = take m (d_expect d) @ [c]"
      by (simp add: take_Suc_conv_app_nth)
    with pre have "suffix (take (Suc m) (d_expect d)) (pre @ [c])" by (simp add: suffix_snoc)
    with True eq hit assms(3,4) show ?thesis by (auto simp: dialog_ok_def split: if_splits)
  next
    case False
    then have "m = 0" by (auto simp: m_def split: if_splits)
    with False eq assms(3,4) show ?thesis by (auto simp: dialog_ok_def)
  qed
qed

lemma dialog_walk_ok:
  "walk_inv pre ds \<Longrightarrow> c \<noteq> NUL \<Longrightarrow> dialog_walk ds c = (ds', rs, v) \<Longrightarrow>
     (v = None \<longrightarrow> walk_inv (pre @ [c]) ds') \<and>
     (\<forall>r \<in> set rs. \<exists>d \<in> set ds. d_reply d = r \<and> suffix (d_expect d) (pre @ [c]))"
proof (induction ds c arbitrary: ds' rs v rule: dialog_walk.induct)
  case (2 d ds c)
  show ?case
  proof (cases "hasflag (d_flags d) DIALOG_DONE")
    case True
    obtain ds1 rs1 v1 where W: "dialog_walk ds c = (ds1, rs1, v1)" by (metis prod_cases3)
    have "dialog_ok (pre @ [c]) d" using "2.prems"(1) True by (auto simp: dialog_ok_def)
    with "2.IH"(1) [OF True _ "2.prems"(2) W] "2.prems" True W show ?thesis by auto
  next
    case open_: False
    obtain d1 b where D: "dialog_char d c = (d1, b)" by fastforce
    note ok = dialog_char_ok [OF _ "2.prems"(2) open_ D] and keeps = dialog_char_keeps [OF D]
    obtain ds1 rs1 v1 where W: "dialog_walk ds c = (ds1, rs1, v1)" by (metis prod_cases3)
    have inv: "dialog_ok pre d" using "2.prems"(1) by simp
    consider (end_) "b \<and> hasflag (d_flags d) DIALOG_END"
      | (fail) "\<not> (b \<and> hasflag (d_flags d) DIALOG_END)" "b \<and> hasflag (d_flags d) DIALOG_FAIL"
      | (stop) "\<not> (b \<and> hasflag (d_flags d) DIALOG_END)" "\<not> (b \<and> hasflag (d_flags d) DIALOG_FAIL)"
          "\<not> hasflag (d_flags d) DIALOG_OPTIONAL"
      | (go) "\<not> (b \<and> hasflag (d_flags d) DIALOG_END)" "\<not> (b \<and> hasflag (d_flags d) DIALOG_FAIL)"
          "hasflag (d_flags d) DIALOG_OPTIONAL" by blast
    then show ?thesis
    proof cases
      case end_
      with "2.prems"(3) D open_ ok inv show ?thesis by auto
    next
      case fail
      with "2.prems"(3) D open_ ok inv show ?thesis by auto
    next
      case stop
      have "\<forall>x \<in> set ds. d_match x = 0" using "2.prems"(1) open_ stop by simp
      with stop "2.prems"(3) D open_ ok inv keeps show ?thesis
        by (auto simp: walk_inv_untouched split: if_splits)
    next
      case go
      have "walk_inv pre ds" using "2.prems"(1) open_ go by simp
      from "2.IH"(2) [OF open_ D [symmetric] go(1,2) _ this "2.prems"(2) W] go
        "2.prems"(3) D open_ ok inv keeps W show ?thesis
        by (auto split: if_splits)
    qed
  qed
qed simp

lemma dialog_walk_keeps:
  "dialog_walk ds c = (ds', rs, v) \<Longrightarrow>
     map d_reply ds' = map d_reply ds \<and> map d_expect ds' = map d_expect ds"
proof (induction ds c arbitrary: ds' rs v rule: dialog_walk.induct)
  case (2 d ds c)
  obtain d1 b where D: "dialog_char d c = (d1, b)" by fastforce
  obtain ds1 rs1 v1 where W: "dialog_walk ds c = (ds1, rs1, v1)" by (metis prod_cases3)
  show ?case
    using "2.prems" "2.IH"(1) [OF _ W] "2.IH"(2) [OF _ D [symmetric] _ _ _ W] dialog_char_keeps [OF D] D W
    by (auto split: if_splits)
qed simp

text \<open>The bytes of a list of reads that the machine looks at.\<close>

definition read_bytes :: "read_result list \<Rightarrow> string" where
  "read_bytes rs = concat (map (\<lambda>r. case r of Byte c \<Rightarrow> if c = NUL then [] else [c] | _ \<Rightarrow> []) rs)"

lemma read_bytes_simps [simp]:
  "read_bytes [] = []" "read_bytes (NoData # rs) = read_bytes rs" "read_bytes (ReadError # rs) = read_bytes rs"
  "read_bytes (Byte c # rs) = (if c = NUL then read_bytes rs else c # read_bytes rs)"
  by (simp_all add: read_bytes_def)

text \<open>
  The replies a conversation has sent when it has seen the first reads of a command's output.  The reply \<^term>\<open>r\<close>
  is due when the string of its dialog is the end of what has been read.
\<close>

definition replies_after :: "read_result list \<Rightarrow> dialog list \<Rightarrow> int \<Rightarrow> string list" where
  "replies_after reads ds timeout = fst (snd (snd (STREAMExpectDialog reads ds timeout)))"

definition due :: "dialog list \<Rightarrow> string \<Rightarrow> string \<Rightarrow> bool" where
  "due ds seen r \<longleftrightarrow> (\<exists>d \<in> set ds. d_reply d = r \<and> suffix (d_expect d) seen)"

lemma due_same:
  assumes "map d_reply ds' = map d_reply ds" "map d_expect ds' = map d_expect ds" "due ds' seen r"
  shows "due ds seen r"
proof -
  obtain i where i: "i < length ds'" "d_reply (ds' ! i) = r" "suffix (d_expect (ds' ! i)) seen"
    using assms(3) by (auto simp: due_def in_set_conv_nth)
  have len: "length ds' = length ds" using assms(1) by (metis length_map)
  have "d_reply (ds ! i) = d_reply (ds' ! i)" "d_expect (ds ! i) = d_expect (ds' ! i)"
    using assms(1,2) i(1) len by (metis nth_map)+
  with i len show ?thesis unfolding due_def by (metis nth_mem)
qed

lemma replies_after_Cons:
  "replies_after (x # rs) ds timeout =
     (case x of
        NoData \<Rightarrow> if timeout > 0 then [] else replies_after rs ds timeout
      | ReadError \<Rightarrow> replies_after rs ds timeout
      | Byte c \<Rightarrow>
          if c = NUL then replies_after rs ds timeout
          else (case dialog_walk ds c of (ds', reps, v) \<Rightarrow>
                  reps @ (if v = None then replies_after rs ds' timeout else [])))"
  by (auto simp: replies_after_def STREAMExpectDialog_def split: read_result.split option.split prod.split)

lemma replies_after_Nil [simp]: "replies_after [] ds timeout = []"
  by (simp add: replies_after_def STREAMExpectDialog_def)

text \<open>One more read sends exactly replies that are due at this moment.\<close>

lemma replies_after_snoc:
  "walk_inv pre ds \<Longrightarrow>
     \<exists>new. replies_after (rs @ [x]) ds timeout = replies_after rs ds timeout @ new \<and>
       (\<forall>r \<in> set new. (\<exists>c. x = Byte c \<and> c \<noteq> NUL) \<and> due ds (pre @ read_bytes (rs @ [x])) r)"
proof (induction rs arbitrary: ds pre)
  case Nil
  show ?case
  proof (cases "\<exists>c. x = Byte c \<and> c \<noteq> NUL")
    case True
    then obtain c where c: "x = Byte c" "c \<noteq> NUL" by blast
    obtain ds1 rs1 v1 where W: "dialog_walk ds c = (ds1, rs1, v1)" by (metis prod_cases3)
    have "\<forall>r \<in> set rs1. due ds (pre @ [c]) r"
      using dialog_walk_ok [OF Nil c(2) W] unfolding due_def by blast
    with c W show ?thesis by (simp add: replies_after_Cons)
  next
    case False
    then show ?thesis by (cases x) (simp_all add: replies_after_Cons)
  qed
next
  case (Cons y rs)
  show ?case
  proof (cases "\<exists>c. y = Byte c \<and> c \<noteq> NUL")
    case True
    then obtain c where c: "y = Byte c" "c \<noteq> NUL" by blast
    obtain ds1 rs1 v1 where W: "dialog_walk ds c = (ds1, rs1, v1)" by (metis prod_cases3)
    note ok = dialog_walk_ok [OF Cons.prems c(2) W] and keep = dialog_walk_keeps [OF W]
    show ?thesis
    proof (cases v1)
      case None
      then obtain new where new: "replies_after (rs @ [x]) ds1 timeout = replies_after rs ds1 timeout @ new"
        "\<forall>r \<in> set new. (\<exists>c. x = Byte c \<and> c \<noteq> NUL) \<and> due ds1 ((pre @ [c]) @ read_bytes (rs @ [x])) r"
        using Cons.IH [of "pre @ [c]" ds1] ok by auto
      have "(pre @ [c]) @ read_bytes (rs @ [x]) = pre @ read_bytes ((y # rs) @ [x])" using c by simp
      with new due_same [of ds1 ds] keep
      have "\<forall>r \<in> set new. (\<exists>c. x = Byte c \<and> c \<noteq> NUL) \<and> due ds (pre @ read_bytes ((y # rs) @ [x])) r" by metis
      with new(1) c W None show ?thesis by (intro exI [of _ new]) (simp add: replies_after_Cons)
    next
      case (Some b)
      with c W show ?thesis by (simp add: replies_after_Cons)
    qed
  next
    case False
    with Cons.IH [OF Cons.prems] show ?thesis by (cases y) (auto simp: replies_after_Cons)
  qed
qed

section \<open>Mandatory dialogs are answered in order\<close>

definition all_done :: "dialog list \<Rightarrow> bool" where
  "all_done ds \<longleftrightarrow> (\<forall>d \<in> set ds. hasflag (d_flags d) DIALOG_DONE)"

definition mandatory :: "dialog list \<Rightarrow> bool" where
  "mandatory ds \<longleftrightarrow> (\<forall>d \<in> set ds. d_flags d = 0)"

lemma walk_done_prefix:
  "all_done ds1 \<Longrightarrow> dialog_walk ds2 c = (ds2', rs, v) \<Longrightarrow> dialog_walk (ds1 @ ds2) c = (ds1 @ ds2', rs, v)"
  by (induction ds1) (auto simp: all_done_def)

lemma walk_mandatory:
  assumes "all_done ds1" "mandatory (d # ds2)"
  shows "\<exists>d'. d_reply d' = d_reply d \<and>
     (dialog_walk (ds1 @ d # ds2) c = (ds1 @ d' # ds2, [d_reply d], None) \<and> hasflag (d_flags d') DIALOG_DONE \<or>
      dialog_walk (ds1 @ d # ds2) c = (ds1 @ d' # ds2, [], None) \<and> d_flags d' = 0)"
proof -
  obtain d' b where D: "dialog_char d c = (d', b)" by fastforce
  have "d_flags d = 0" using assms(2) by (simp add: mandatory_def)
  with D dialog_char_keeps [OF D] walk_done_prefix [OF assms(1), of "d # ds2" c] show ?thesis
    by (cases b) auto
qed

lemma expect_loop_mandatory:
  "all_done ds1 \<Longrightarrow> mandatory ds2 \<Longrightarrow> expect_loop rs (ds1 @ ds2) timeout = (v, ds', reps, rest) \<Longrightarrow>
     \<exists>k \<le> length ds2. reps = map d_reply (take k ds2) \<and> (v \<longrightarrow> k = length ds2)"
proof (induction rs arbitrary: ds1 ds2 v ds' reps rest)
  case Nil
  have "ExpectDialogsDone (ds1 @ ds2) \<Longrightarrow> ds2 = []"
    using Nil.prems(2) by (cases ds2) (auto simp: ExpectDialogsDone_def mandatory_def)
  with Nil show ?case by (intro exI [of _ 0]) auto
next
  case (Cons x rs)
  show ?case
  proof (cases "\<exists>c. x = Byte c \<and> c \<noteq> NUL")
    case True
    then obtain c where x: "x = Byte c" "c \<noteq> NUL" by blast
    show ?thesis
    proof (cases ds2)
      case Nil
      have "dialog_walk (ds1 @ []) c = (ds1 @ [], [], None)"
        using walk_done_prefix [OF Cons.prems(1), of "[]" c] by simp
      then have "expect_loop rs (ds1 @ []) timeout = (v, ds', reps, rest)"
        using Cons.prems(3) x Nil by (simp split: prod.splits)
      from Cons.IH [OF Cons.prems(1) _ this] Nil show ?thesis by (simp add: mandatory_def)
    next
      case (Cons d ds3)
      obtain d' where d': "d_reply d' = d_reply d"
        "dialog_walk (ds1 @ d # ds3) c = (ds1 @ d' # ds3, [d_reply d], None) \<and> hasflag (d_flags d') DIALOG_DONE \<or>
         dialog_walk (ds1 @ d # ds3) c = (ds1 @ d' # ds3, [], None) \<and> d_flags d' = 0"
        using walk_mandatory [OF \<open>all_done ds1\<close>, of d ds3 c] \<open>mandatory ds2\<close> Cons by auto
      obtain v2 ds4 reps2 rest2 where R: "expect_loop rs (ds1 @ d' # ds3) timeout = (v2, ds4, reps2, rest2)"
        by (metis prod_cases4)
      have m3: "mandatory ds3" using \<open>mandatory ds2\<close> Cons by (simp add: mandatory_def)
      from d'(2) show ?thesis
      proof
        assume W: "dialog_walk (ds1 @ d # ds3) c = (ds1 @ d' # ds3, [d_reply d], None) \<and> hasflag (d_flags d') DIALOG_DONE"
        then have "all_done (ds1 @ [d'])" using \<open>all_done ds1\<close> by (simp add: all_done_def)
        from Cons.IH [OF this m3, of v2 ds4 reps2 rest2] R obtain k where
          "k \<le> length ds3" "reps2 = map d_reply (take k ds3)" "v2 \<longrightarrow> k = length ds3" by auto
        moreover have "reps = d_reply d # reps2" "v = v2"
          using \<open>expect_loop (x # rs) (ds1 @ ds2) timeout = _\<close> x Cons W R by auto
        ultimately show ?thesis using Cons by (intro exI [of _ "Suc k"]) auto
      next
        assume W: "dialog_walk (ds1 @ d # ds3) c = (ds1 @ d' # ds3, [], None) \<and> d_flags d' = 0"
        then have "mandatory (d' # ds3)" using m3 by (simp add: mandatory_def)
        from Cons.IH [OF \<open>all_done ds1\<close> this R] obtain k where
          k: "k \<le> length (d' # ds3)" "reps2 = map d_reply (take k (d' # ds3))" "v2 \<longrightarrow> k = length (d' # ds3)" by auto
        moreover have "reps = reps2" "v = v2"
          using \<open>expect_loop (x # rs) (ds1 @ ds2) timeout = _\<close> x Cons W R by auto
        moreover have "map d_reply (take k (d' # ds3)) = map d_reply (take k ds2)"
          using Cons d'(1) by (cases k) auto
        ultimately show ?thesis using Cons by (intro exI [of _ k]) auto
      qed
    qed
  next
    case False
    then have "expect_loop (x # rs) (ds1 @ ds2) timeout = expect_loop rs (ds1 @ ds2) timeout \<or>
        (x = NoData \<and> timeout > 0)"
      by (cases x) auto
    then show ?thesis
    proof
      assume "expect_loop (x # rs) (ds1 @ ds2) timeout = expect_loop rs (ds1 @ ds2) timeout"
      with Cons.prems(3) have "expect_loop rs (ds1 @ ds2) timeout = (v, ds', reps, rest)" by metis
      from Cons.IH [OF Cons.prems(1,2) this] show ?thesis .
    next
      assume "x = NoData \<and> timeout > 0"
      with Cons.prems(3) show ?thesis by (intro exI [of _ 0]) auto
    qed
  qed
qed

section \<open>Properties\<close>

text \<open>C16: A reply is sent at the moment when the byte has been read that completes the string of its dialog, not before and
  not later: what the conversation has sent after a read is what it had sent before, followed by replies whose strings are
  the end of what has been read by now.\<close>

theorem replies_answer_what_was_read:
  assumes "\<forall>d \<in> set ds. d_match d = 0" "n < length reads"
  shows "\<exists>new. replies_after (take (Suc n) reads) ds timeout = replies_after (take n reads) ds timeout @ new \<and>
    (\<forall>r \<in> set new. (\<exists>c. reads ! n = Byte c \<and> c \<noteq> NUL) \<and> due ds (read_bytes (take (Suc n) reads)) r)"
  using replies_after_snoc [OF walk_inv_untouched [OF assms(1)], where pre = "[]" and rs = "take n reads" and
      x = "reads ! n" and timeout = timeout]
  by (simp add: take_Suc_conv_app_nth [OF assms(2)])

theorem replies_answer_what_was_read_witness:
  "replies_after (map Byte ''ok'') [\<lparr>d_flags = 0, d_match = 0, d_expect = ''k?'', d_reply = ''yes''\<rparr>] 0 = [] \<and>
   (\<exists>new. replies_after (map Byte ''ok?'') [\<lparr>d_flags = 0, d_match = 0, d_expect = ''k?'', d_reply = ''yes''\<rparr>] 0 = new \<and>
     ''yes'' \<in> set new \<and> due [\<lparr>d_flags = 0, d_match = 0, d_expect = ''k?'', d_reply = ''yes''\<rparr>] ''ok?'' ''yes'')"
proof -
  let ?ds = "[\<lparr>d_flags = 0, d_match = 0, d_expect = ''k?'', d_reply = ''yes''\<rparr>]"
  have none: "replies_after (map Byte ''ok'') ?ds 0 = []" and sent: "replies_after (map Byte ''ok?'') ?ds 0 = [''yes'']"
    by (simp_all add: replies_after_def STREAMExpectDialog_def dialog_char_def Let_def expect_at_def schar_def DIALOG_DONE_def
        DIALOG_END_def DIALOG_FAIL_def DIALOG_OPTIONAL_def hasflag_def)
  show ?thesis
    using replies_answer_what_was_read [of ?ds 2 "map Byte ''ok?''" 0] none sent by (simp add: eval_nat_numeral)
qed

text \<open>C17: mandatory dialogs are answered in their order without gaps, and the conversation only
  succeeds when all have been answered.\<close>

theorem mandatory_dialogs_in_order:
  assumes "mandatory ds" "STREAMExpectDialog reads ds timeout = (v, ds', reps, rest)"
  shows "\<exists>k \<le> length ds. reps = map d_reply (take k ds) \<and> (v \<longrightarrow> k = length ds)"
  using expect_loop_mandatory [of "[]" ds reads timeout] assms by (simp add: STREAMExpectDialog_def all_done_def)

theorem mandatory_dialogs_in_order_witness:
  "\<exists>k \<le> 2. fst (snd (snd (STREAMExpectDialog (map Byte ''ab'')
     [\<lparr>d_flags = 0, d_match = 0, d_expect = ''a'', d_reply = ''1''\<rparr>,
      \<lparr>d_flags = 0, d_match = 0, d_expect = ''b'', d_reply = ''2''\<rparr>] 0))) = take k [''1'', ''2'']"
proof -
  let ?ds = "[\<lparr>d_flags = 0, d_match = 0, d_expect = ''a'', d_reply = ''1''\<rparr>,
      \<lparr>d_flags = 0, d_match = 0, d_expect = ''b'', d_reply = ''2''\<rparr>]"
  obtain v ds' reps rest where S: "STREAMExpectDialog (map Byte ''ab'') ?ds 0 = (v, ds', reps, rest)"
    by (metis prod_cases4)
  have "mandatory ?ds" by (simp add: mandatory_def)
  from mandatory_dialogs_in_order [OF this S] obtain k where
    k: "k \<le> length ?ds" "reps = map d_reply (take k ?ds)" by blast
  then have "reps = take k [''1'', ''2'']" by (simp add: take_map [symmetric])
  with S k(1) show ?thesis by (intro exI [of _ k]) simp
qed

end
