(* ===== verification/ConfigParser.thy ===== *)
theory ConfigParser
  imports DataParser DocTokens
begin

text \<open>
  The parser for configuration files, \<open>ParserConfigItems\<close> of \<open>libUseful-4/DataParser.c\<close>, which
  reads \<open>/etc/invoke.conf\<close>.

  One iteration of its loop is \<open>config_step\<close>; \<open>{\<close> opens a nested parse with the parent's format,
  which \<open>ParserConfigItems\<close> runs with the fuel left.  The fuel is the number of characters ahead
  plus two; every iteration consumes a character, so it is enough, and no document makes the
  parser follow a null pointer (\<open>config_parse_total\<close>).  With the fuel gone, \<open>config_run\<close> is the
  loop as the code has it (\<open>config_run_unfold\<close>).
\<close>

section \<open>The code\<close>

definition CONFIG_FILE_TOKENS :: string where
  "CONFIG_FILE_TOKENS = '' |'' @ [TAB] @ ''|#|=|:|;|{|}|'' @ [CR] @ ''|'' @ [LF]"

text \<open>
  The local variables of the loop: \<open>ptr\<close>, \<open>PrevToken\<close>, \<open>Name\<close>, \<open>Value\<close> (all initially \<open>NULL\<close>,
  which reads like the empty string everywhere here), \<open>NewKey\<close>, and the items of \<open>Parent\<close>.
\<close>

record cfg_state =
  c_ptr :: "string option"
  c_prev :: string
  c_name :: string
  c_value :: string
  c_newkey :: bool
  c_items :: "node list"

definition cfg_start :: "string option \<Rightarrow> cfg_state" where
  "cfg_start p = \<lparr>c_ptr = p, c_prev = [], c_name = [], c_value = [], c_newkey = True, c_items = []\<rparr>"

text \<open>Does the next token open a block?  Then the white space before it is skipped.\<close>

definition ParserConfigCheckForBrace :: "string option \<Rightarrow> bool \<times> string option" where
  "ParserConfigCheckForBrace data =
     (case data of
        None \<Rightarrow> (False, None)
      | Some s \<Rightarrow>
          let p = dropWhile isspace s;
              token = snd (GetToken (Some p) CONFIG_FILE_TOKENS DOC_FLAGS)
          in if strcmp token ''{'' = 0 then (True, Some p) else (False, data))"

text \<open>\<open>while (isspace( *ptr)) ptr++\<close>\<close>

definition skip_space :: "string option \<Rightarrow> string option res" where
  "skip_space p = (case p of None \<Rightarrow> Inl NullDeref | Some s \<Rightarrow> Inr (Some (dropWhile isspace s)))"

datatype cfg_act = CNext cfg_state | CStop cfg_state | COpen cfg_state

text \<open>The code from \<open>case ';'\<close> on: add the pair, if there is a value.\<close>

definition config_flush :: "cfg_state \<Rightarrow> string \<Rightarrow> cfg_state res" where
  "config_flush st token =
     bindr (skip_space (c_ptr st))
       (\<lambda>p. Inr
          (if c_value st \<noteq> [] then
             st\<lparr>c_ptr := p, c_newkey := True,
                c_items := ParserAddValue (c_items st) (Some (c_name st))
                             (StripTrailingWhitespace (StripLeadingWhitespace (c_value st))),
                c_name := [], c_value := [], c_prev := []\<rparr>
           else st\<lparr>c_ptr := p, c_newkey := True, c_prev := token\<rparr>))"

text \<open>\<open>case '\n'\<close>, and with \<open>}\<close> as token the fall through from \<open>case '}'\<close>.\<close>

definition config_newline :: "cfg_state \<Rightarrow> string \<Rightarrow> cfg_state res" where
  "config_newline st token =
     (case ParserConfigCheckForBrace (c_ptr st) of
        (True, p) \<Rightarrow>
          Inr (st\<lparr>c_ptr := p, c_name := c_name st @ '' '' @ c_prev st, c_value := [], c_prev := token\<rparr>)
      | (False, p) \<Rightarrow> config_flush st token)"

definition config_separator :: "cfg_state \<Rightarrow> string \<Rightarrow> cfg_state res" where
  "config_separator st token =
     bindr (skip_space (c_ptr st))
       (\<lambda>p. Inr
          (if c_newkey st
           then st\<lparr>c_ptr := p, c_name := c_prev st, c_value := [], c_newkey := False, c_prev := []\<rparr>
           else st\<lparr>c_ptr := p, c_value := c_value st @ token, c_prev := token\<rparr>))"

definition config_step :: "cfg_state \<Rightarrow> cfg_act res" where
  "config_step st0 =
     (case GetToken (c_ptr st0) CONFIG_FILE_TOKENS DOC_FLAGS of
        (p, token) \<Rightarrow>
          let st = st0\<lparr>c_ptr := p\<rparr>; c = deref token in
          if c = CHR ''#'' then
            (case GetToken p [LF] 0 of (q, comment) \<Rightarrow> Inr (CNext (st\<lparr>c_ptr := q, c_prev := comment\<rparr>)))
          else if c = CHR ''{'' then
            Inr (COpen (st\<lparr>c_name := StripTrailingWhitespace (StripLeadingWhitespace (c_name st))\<rparr>))
          else if c = CHR '' '' \<or> c = TAB \<or> c = CHR '':'' \<or> c = CHR ''='' then
            bindr (config_separator st token) (\<lambda>st'. Inr (CNext st'))
          else if c = CR then Inr (CNext (st\<lparr>c_prev := token\<rparr>))
          else if c = CHR ''}'' then bindr (config_newline st token) (\<lambda>st'. Inr (CStop st'))
          else if c = LF then bindr (config_newline st token) (\<lambda>st'. Inr (CNext st'))
          else if c = CHR '';'' then bindr (config_flush st token) (\<lambda>st'. Inr (CNext st'))
          else Inr (CNext (st\<lparr>c_value := c_value st @ token, c_prev := token\<rparr>)))"

text \<open>After the nested parse: \<open>Parent\<close> has a new entity, the loop goes on where it stopped.\<close>

definition config_opened :: "string option \<Rightarrow> cfg_state \<Rightarrow> string option \<Rightarrow> node list \<Rightarrow> cfg_state" where
  "config_opened ptag st q sub =
     st\<lparr>c_ptr := q, c_items := ParserNewObject ptag (c_items st) ITEM_ENTITY (Some (c_name st)) sub,
        c_name := [], c_prev := []\<rparr>"

fun ParserConfigItems :: "nat \<Rightarrow> string option \<Rightarrow> cfg_state \<Rightarrow> (string option \<times> node list) res" where
  "ParserConfigItems 0 ptag st = Inl OutOfFuel"
| "ParserConfigItems (Suc n) ptag st =
     (if c_ptr st = None then Inr (None, c_items st)
      else bindr (config_step st)
             (\<lambda>a. case a of
                CStop st' \<Rightarrow> Inr (c_ptr st', c_items st')
              | CNext st' \<Rightarrow> ParserConfigItems n ptag st'
              | COpen st' \<Rightarrow>
                  bindr (ParserConfigItems n (Some (c_name st')) (cfg_start (c_ptr st')))
                    (\<lambda>(q, sub). ParserConfigItems n ptag (config_opened ptag st' q sub))))"

declare ParserConfigItems.simps(2) [simp del]

definition config_run :: "string option \<Rightarrow> cfg_state \<Rightarrow> (string option \<times> node list) res" where
  "config_run ptag st = ParserConfigItems (Suc (ptr_left (c_ptr st))) ptag st"

text \<open>\<open>ParserParseDocument("config", Doc)\<close>\<close>

definition ParserParseConfig :: "string \<Rightarrow> node list res" where
  "ParserParseConfig doc =
     bindr (config_run None (cfg_start (Some (doc_start doc)))) (\<lambda>(q, items). Inr items)"

section \<open>Every iteration moves on\<close>

fun act_state :: "cfg_act \<Rightarrow> cfg_state" where
  "act_state (CNext st) = st"
| "act_state (CStop st) = st"
| "act_state (COpen st) = st"

lemma skip_space_left: "skip_space p = Inr q \<Longrightarrow> ptr_left q \<le> ptr_left p"
  using length_dropWhile_le by (auto simp: skip_space_def split: option.splits)

lemma config_flush_left: "config_flush st t = Inr st' \<Longrightarrow> ptr_left (c_ptr st') \<le> ptr_left (c_ptr st)"
  by (auto simp: config_flush_def bindr_Inr_iff dest: skip_space_left)

lemma config_separator_left:
  "config_separator st t = Inr st' \<Longrightarrow> ptr_left (c_ptr st') \<le> ptr_left (c_ptr st)"
  by (auto simp: config_separator_def bindr_Inr_iff dest: skip_space_left)

lemma check_brace_left:
  "ParserConfigCheckForBrace p = (b, q) \<Longrightarrow> ptr_left q \<le> ptr_left p"
  using length_dropWhile_le
  by (auto simp: ParserConfigCheckForBrace_def Let_def split: option.splits if_splits)

lemma config_newline_left:
  assumes "config_newline st t = Inr st'"
  shows "ptr_left (c_ptr st') \<le> ptr_left (c_ptr st)"
proof (cases "ParserConfigCheckForBrace (c_ptr st)")
  case (Pair b q)
  with assms check_brace_left [OF Pair] show ?thesis
    by (cases b) (auto simp: config_newline_def dest: config_flush_left)
qed

lemma GetToken_left:
  "p \<noteq> None \<Longrightarrow> GetToken p sep flags = (q, t) \<Longrightarrow> ptr_left q < ptr_left p"
  by (cases q) (auto dest: get_token.next_decreases)

lemma GetToken_left_le: "GetToken p sep flags = (q, t) \<Longrightarrow> ptr_left q \<le> ptr_left p"
  using GetToken_left [of p sep flags q t] by (cases p) auto

lemma config_step_left:
  assumes "config_step st = Inr a" "c_ptr st \<noteq> None"
  shows "ptr_left (c_ptr (act_state a)) < ptr_left (c_ptr st)"
proof -
  obtain p t where G: "GetToken (c_ptr st) CONFIG_FILE_TOKENS DOC_FLAGS = (p, t)" by fastforce
  note lt = GetToken_left [OF assms(2) G]
  have "ptr_left (c_ptr (act_state a)) \<le> ptr_left p"
    using assms(1) G
    by (auto simp: config_step_def Let_def bindr_Inr_iff
        dest!: config_flush_left config_newline_left config_separator_left GetToken_left_le
        split: if_splits prod.splits)
  with lt show ?thesis by simp
qed

text \<open>A token is empty only when the pointer has become null, so no null pointer is read.\<close>

lemma GetToken_doc_token:
  assumes "GetToken p CONFIG_FILE_TOKENS DOC_FLAGS = (q, t)" "t \<noteq> []"
  shows "q \<noteq> None"
proof (cases p)
  case (Some s)
  have "s \<noteq> []" using assms Some by auto
  then show ?thesis
    using GetToken_Some_iff [of s CONFIG_FILE_TOKENS DOC_FLAGS] assms Some
    by (auto simp: CONFIG_FILE_TOKENS_def)
qed (use assms in simp)

lemma config_flush_total: "c_ptr st \<noteq> None \<Longrightarrow> \<exists>st'. config_flush st t = Inr st'"
  by (cases "c_ptr st") (simp_all add: config_flush_def skip_space_def)

lemma config_separator_total: "c_ptr st \<noteq> None \<Longrightarrow> \<exists>st'. config_separator st t = Inr st'"
  by (cases "c_ptr st") (simp_all add: config_separator_def skip_space_def)

lemma config_newline_total: "c_ptr st \<noteq> None \<Longrightarrow> \<exists>st'. config_newline st t = Inr st'"
  using config_flush_total by (auto simp: config_newline_def split: prod.splits bool.splits)

lemma config_step_total: "\<exists>a. config_step st = Inr a"
proof -
  obtain p t where G: "GetToken (c_ptr st) CONFIG_FILE_TOKENS DOC_FLAGS = (p, t)" by fastforce
  show ?thesis
  proof (cases "t = []")
    case True
    with G show ?thesis by (simp add: config_step_def)
  next
    case False
    with GetToken_doc_token [OF G] have p: "c_ptr (st\<lparr>c_ptr := p\<rparr>) \<noteq> None" by simp
    obtain s1 where 1: "config_separator (st\<lparr>c_ptr := p\<rparr>) t = Inr s1" using config_separator_total [OF p] by blast
    obtain s2 where 2: "config_newline (st\<lparr>c_ptr := p\<rparr>) t = Inr s2" using config_newline_total [OF p] by blast
    obtain s3 where 3: "config_flush (st\<lparr>c_ptr := p\<rparr>) t = Inr s3" using config_flush_total [OF p] by blast
    show ?thesis
      by (simp add: config_step_def G Let_def 1 2 3 split: prod.split)
  qed
qed

section \<open>The fuel is enough\<close>

lemma ParserConfigItems_total:
  "ptr_left (c_ptr st) < n \<Longrightarrow>
     \<exists>q items. ParserConfigItems n ptag st = Inr (q, items) \<and> ptr_left q \<le> ptr_left (c_ptr st)"
proof (induction n arbitrary: ptag st)
  case (Suc n)
  show ?case
  proof (cases "c_ptr st = None")
    case True
    then show ?thesis by (simp add: ParserConfigItems.simps(2))
  next
    case False
    obtain a where a: "config_step st = Inr a" using config_step_total by blast
    note left = config_step_left [OF a False]
    show ?thesis
    proof (cases a)
      case (CStop st')
      with a left False show ?thesis by (simp add: ParserConfigItems.simps(2))
    next
      case (CNext st')
      with left Suc.prems have "ptr_left (c_ptr st') < n" by simp
      from Suc.IH [OF this, of ptag] a CNext left False show ?thesis
        by (auto simp: ParserConfigItems.simps(2))
    next
      case (COpen st')
      with left Suc.prems have "ptr_left (c_ptr (cfg_start (c_ptr st'))) < n"
        by (simp add: cfg_start_def)
      from Suc.IH [OF this, of "Some (c_name st')"] obtain q sub where
        sub: "ParserConfigItems n (Some (c_name st')) (cfg_start (c_ptr st')) = Inr (q, sub)"
          "ptr_left q \<le> ptr_left (c_ptr st')"
        by (auto simp: cfg_start_def)
      have "ptr_left (c_ptr (config_opened ptag st' q sub)) < n"
        using sub(2) left Suc.prems COpen by (simp add: config_opened_def)
      from Suc.IH [OF this, of ptag] obtain q2 items where
        rest: "ParserConfigItems n ptag (config_opened ptag st' q sub) = Inr (q2, items)"
          "ptr_left q2 \<le> ptr_left q"
        by (auto simp: config_opened_def)
      with sub a left COpen False show ?thesis
        by (auto simp: ParserConfigItems.simps(2))
    qed
  qed
qed simp

lemma ParserConfigItems_step:
  "c_ptr st \<noteq> None \<Longrightarrow> ParserConfigItems (Suc n) ptag st =
     bindr (config_step st)
       (\<lambda>a. case a of
          CStop st' \<Rightarrow> Inr (c_ptr st', c_items st')
        | CNext st' \<Rightarrow> ParserConfigItems n ptag st'
        | COpen st' \<Rightarrow>
            bindr (ParserConfigItems n (Some (c_name st')) (cfg_start (c_ptr st')))
              (\<lambda>(q, sub). ParserConfigItems n ptag (config_opened ptag st' q sub)))"
  by (simp only: ParserConfigItems.simps(2) if_False)

lemma ParserConfigItems_more:
  "ParserConfigItems n ptag st = Inr r \<Longrightarrow> n \<le> m \<Longrightarrow> ParserConfigItems m ptag st = Inr r"
proof (induction n arbitrary: ptag st r m)
  case (Suc n)
  obtain k where m: "m = Suc k" "n \<le> k" using Suc.prems(2) by (cases m) auto
  show ?case
  proof (cases "c_ptr st = None")
    case True
    with Suc.prems m show ?thesis by (simp add: ParserConfigItems.simps(2))
  next
    case False
    obtain a where a: "config_step st = Inr a" using config_step_total by blast
    show ?thesis
    proof (cases a)
      case (CStop st')
      with a Suc.prems m show ?thesis by (simp add: ParserConfigItems_step [OF False])
    next
      case (CNext st')
      with a Suc.prems have "ParserConfigItems n ptag st' = Inr r"
        by (simp add: ParserConfigItems_step [OF False])
      from Suc.IH [OF this m(2)] a CNext m show ?thesis
        by (simp add: ParserConfigItems_step [OF False])
    next
      case (COpen st')
      with a Suc.prems obtain q sub where
        s: "ParserConfigItems n (Some (c_name st')) (cfg_start (c_ptr st')) = Inr (q, sub)"
          "ParserConfigItems n ptag (config_opened ptag st' q sub) = Inr r"
        by (auto simp: ParserConfigItems_step [OF False] bindr_Inr_iff)
      from Suc.IH [OF s(1) m(2)] Suc.IH [OF s(2) m(2)] a COpen m show ?thesis
        by (simp add: ParserConfigItems_step [OF False])
    qed
  qed
qed simp

lemma config_run_fuel:
  assumes "ptr_left (c_ptr st) < n"
  shows "ParserConfigItems n ptag st = config_run ptag st"
proof -
  obtain q items where "config_run ptag st = Inr (q, items)"
    using ParserConfigItems_total [of st "Suc (ptr_left (c_ptr st))" ptag] by (auto simp: config_run_def)
  moreover from this ParserConfigItems_more [of "Suc (ptr_left (c_ptr st))" ptag st _ n] assms
  have "ParserConfigItems n ptag st = Inr (q, items)" by (simp add: config_run_def)
  ultimately show ?thesis by simp
qed

lemma config_run_total: "\<exists>q items. config_run ptag st = Inr (q, items) \<and> ptr_left q \<le> ptr_left (c_ptr st)"
  unfolding config_run_def by (rule ParserConfigItems_total) simp

text \<open>The loop without fuel.\<close>

lemma config_run_unfold:
  "config_run ptag st =
     (if c_ptr st = None then Inr (None, c_items st)
      else bindr (config_step st)
             (\<lambda>a. case a of
                CStop st' \<Rightarrow> Inr (c_ptr st', c_items st')
              | CNext st' \<Rightarrow> config_run ptag st'
              | COpen st' \<Rightarrow>
                  bindr (config_run (Some (c_name st')) (cfg_start (c_ptr st')))
                    (\<lambda>(q, sub). config_run ptag (config_opened ptag st' q sub))))"
proof (cases "c_ptr st = None")
  case False
  define n where "n = ptr_left (c_ptr st)"
  obtain a where a: "config_step st = Inr a" using config_step_total by blast
  note left = config_step_left [OF a False]
  have unf: "config_run ptag st = ParserConfigItems (Suc n) ptag st"
    by (simp add: config_run_def n_def)
  show ?thesis
  proof (cases a)
    case (CStop st')
    with a unf False show ?thesis by (simp only: ParserConfigItems_step [OF False] bindr_simps cfg_act.case if_False)
  next
    case (CNext st')
    with left have "ParserConfigItems n ptag st' = config_run ptag st'"
      by (intro config_run_fuel) (simp add: n_def)
    with CNext a unf False show ?thesis by (simp only: ParserConfigItems_step [OF False] bindr_simps cfg_act.case if_False)
  next
    case (COpen st')
    with left have sub: "ParserConfigItems n (Some (c_name st')) (cfg_start (c_ptr st')) =
        config_run (Some (c_name st')) (cfg_start (c_ptr st'))"
      by (intro config_run_fuel) (simp add: n_def cfg_start_def)
    obtain q items where r: "config_run (Some (c_name st')) (cfg_start (c_ptr st')) = Inr (q, items)"
      "ptr_left q \<le> ptr_left (c_ptr st')"
      using config_run_total [of "Some (c_name st')" "cfg_start (c_ptr st')"] by (auto simp: cfg_start_def)
    with left COpen have "ParserConfigItems n ptag (config_opened ptag st' q items) =
        config_run ptag (config_opened ptag st' q items)"
      by (intro config_run_fuel) (simp add: n_def config_opened_def)
    with COpen a unf sub r False show ?thesis
      by (simp only: ParserConfigItems_step [OF False] bindr_simps cfg_act.case if_False prod.case)
  qed
qed (simp add: config_run_def ParserConfigItems.simps(2))

lemma ParserParseConfig_total: "\<exists>items. ParserParseConfig doc = Inr items"
  using config_run_total [of None "cfg_start (Some (doc_start doc))"]
  by (auto simp: ParserParseConfig_def)

section \<open>The tree is well formed\<close>

lemma config_flush_wf: "config_flush st t = Inr st' \<Longrightarrow> tree_wf (c_items st) \<Longrightarrow> tree_wf (c_items st')"
  by (auto simp: config_flush_def bindr_Inr_iff ParserAddValue_wf)

lemma config_separator_items: "config_separator st t = Inr st' \<Longrightarrow> c_items st' = c_items st"
  by (auto simp: config_separator_def bindr_Inr_iff)

lemma config_newline_wf: "config_newline st t = Inr st' \<Longrightarrow> tree_wf (c_items st) \<Longrightarrow> tree_wf (c_items st')"
  by (auto simp: config_newline_def config_flush_wf split: prod.splits bool.splits)

lemma config_step_wf:
  assumes "config_step st = Inr a" "tree_wf (c_items st)"
  shows "tree_wf (c_items (act_state a))"
proof -
  obtain p t where G: "GetToken (c_ptr st) CONFIG_FILE_TOKENS DOC_FLAGS = (p, t)" by fastforce
  have wf: "tree_wf (c_items (st\<lparr>c_ptr := p\<rparr>))" using assms(2) by simp
  show ?thesis
    using assms G
    by (auto simp: config_step_def Let_def bindr_Inr_iff
        dest!: config_flush_wf [OF _ wf] config_newline_wf [OF _ wf] config_separator_items
        split: if_splits prod.splits)
qed

lemma config_opened_wf:
  "tree_wf (c_items st) \<Longrightarrow> tree_wf sub \<Longrightarrow> tree_wf (c_items (config_opened ptag st q sub))"
  by (simp add: config_opened_def ParserNewObject_wf)

lemma ParserConfigItems_wf:
  "ParserConfigItems n ptag st = Inr (q, items) \<Longrightarrow> tree_wf (c_items st) \<Longrightarrow> tree_wf items"
proof (induction n arbitrary: ptag st q items)
  case (Suc n)
  show ?case
  proof (cases "c_ptr st = None")
    case True
    with Suc.prems show ?thesis by (simp add: ParserConfigItems.simps(2))
  next
    case False
    obtain a where a: "config_step st = Inr a" using config_step_total by blast
    note wf = config_step_wf [OF a Suc.prems(2)]
    show ?thesis
    proof (cases a)
      case (CStop st')
      with a wf Suc.prems show ?thesis by (simp add: ParserConfigItems_step [OF False])
    next
      case (CNext st')
      with a wf Suc.prems Suc.IH show ?thesis by (simp add: ParserConfigItems_step [OF False])
    next
      case (COpen st')
      with a Suc.prems obtain q1 sub where
        s: "ParserConfigItems n (Some (c_name st')) (cfg_start (c_ptr st')) = Inr (q1, sub)"
          "ParserConfigItems n ptag (config_opened ptag st' q1 sub) = Inr (q, items)"
        by (auto simp: ParserConfigItems_step [OF False] bindr_Inr_iff)
      have "tree_wf sub" using Suc.IH [OF s(1)] by (simp add: cfg_start_def)
      with Suc.IH [OF s(2)] config_opened_wf wf COpen show ?thesis by simp
    qed
  qed
qed simp

lemma ParserParseConfig_wf: "ParserParseConfig doc = Inr items \<Longrightarrow> tree_wf items"
  by (auto simp: ParserParseConfig_def bindr_Inr_iff config_run_def cfg_start_def dest: ParserConfigItems_wf)

section \<open>Properties\<close>

text \<open>C6: every configuration document, whatever its bytes, is parsed to a well-formed tree: the
  parser ends, follows no null pointer, and looking anything up in the tree meets no value where
  a list is expected.\<close>

theorem every_document_parses:
  "\<exists>items. ParserParseConfig doc = Inr items \<and> tree_wf items \<and> (\<exists>r. ParserOpenItem items name = Inr r)"
  using ParserParseConfig_total [of doc] ParserParseConfig_wf ParserOpenItem_total by metis

end
