(* ===== verification/ServerActions.thy ===== *)
theory ServerActions
  imports AppDB Auth Expect ConfigParser
begin

text \<open>
  What the server does for a request once it is allowed: \<open>peer.c\<close>, \<open>book_inout.c\<close> and the parts of
  \<open>server.c\<close> from \<open>InvokeCheckArgs\<close> to \<open>RunInvoke\<close>.

  The state of a server process is the peer record, the bytes the client has sent and the server
  has not read, the PAM handle, and the events so far.  Everything outside the process is
  an environment whose answers may depend on those events: the file system, the password
  database, PAM, and the commands that are run.  What a command prints is a finite list of reads.

  Two markers bracket the branch a handler takes when \<open>FindPermission\<close> has returned \<open>TRUE\<close>:
  \<open>Granted\<close> with the command, and \<open>Finished\<close>.  Log messages are not modelled.
\<close>

section \<open>State and environment\<close>

definition PEER_AUTHENTICATED :: nat where "PEER_AUTHENTICATED = 1"

record peer =
  p_flags :: nat
  p_pid :: int
  p_uid :: int
  p_gid :: int
  p_user :: string
  p_group :: string
  p_exe :: string
  p_md5 :: string
  p_host :: string

text \<open>\<open>GetPeerInfo\<close>: the credentials of the socket and what the system says about them.\<close>

definition GetPeerInfo ::
  "int \<Rightarrow> int \<Rightarrow> int \<Rightarrow> (int \<Rightarrow> string) \<Rightarrow> (int \<Rightarrow> string) \<Rightarrow> (string \<Rightarrow> string) \<Rightarrow> (string \<Rightarrow> string) \<Rightarrow> peer" where
  "GetPeerInfo pid uid gid user_name group_name real_path md5 =
     \<lparr>p_flags = 0, p_pid = pid, p_uid = uid, p_gid = gid, p_user = user_name uid, p_group = group_name gid,
      p_exe = real_path (''/proc/'' @ fmt_d pid @ ''/exe''), p_md5 = md5 (''/proc/'' @ fmt_d pid @ ''/exe''),
      p_host = ''???''\<rparr>"

datatype event =
    ToClient string
  | FileToClient string
  | OutputToClient
  | AuthAccepted
  | Granted string
  | Finished
  | Spawned string string
  | Replied "string list"
  | SwitchedUser string
  | SwitchedGroup string
  | LockTaken string
  | FileCreated string
  | FileWritten string string
  | FileRenamed string string
  | FileUnlinked string

type_synonym trace = "event list"

record fstat =
  st_size :: nat
  st_dir :: bool
  st_reg :: bool

record senv =
  e_config :: "node list"
  e_have_pam :: bool
  e_pam :: "trace \<Rightarrow> pam_lib"
  e_appdb :: "trace \<Rightarrow> string option"
  e_stat :: "trace \<Rightarrow> string \<Rightarrow> fstat option"
  e_hash :: "trace \<Rightarrow> string \<Rightarrow> string option"
  e_exists :: "trace \<Rightarrow> string \<Rightarrow> bool"
  e_open_lock :: "trace \<Rightarrow> string \<Rightarrow> int"
  e_flock :: "trace \<Rightarrow> string \<Rightarrow> bool"
  e_can_read :: "trace \<Rightarrow> string \<Rightarrow> bool"
  e_can_write :: "trace \<Rightarrow> string \<Rightarrow> bool"
  e_lookup_uid :: "string \<Rightarrow> int"
  e_lookup_gid :: "string \<Rightarrow> int"
  e_set_ids :: "trace \<Rightarrow> int \<Rightarrow> bool"
  e_allow_fail :: bool
  e_spawn_ok :: "trace \<Rightarrow> string \<Rightarrow> string \<Rightarrow> bool"
  e_output :: "trace \<Rightarrow> read_result list"

record srv =
  s_peer :: peer
  s_input :: string
  s_pam :: pam_handle
  s_trace :: trace

definition emit :: "event list \<Rightarrow> srv \<Rightarrow> srv" where
  "emit evs s = s\<lparr>s_trace := s_trace s @ evs\<rparr>"

lemma emit_simps [simp]:
  "s_peer (emit evs s) = s_peer s" "s_input (emit evs s) = s_input s" "s_pam (emit evs s) = s_pam s"
  "s_trace (emit evs s) = s_trace s @ evs"
  by (simp_all add: emit_def)

section \<open>Switching identity, lock files (\<open>Process.c\<close>)\<close>

definition SwitchUID :: "senv \<Rightarrow> trace \<Rightarrow> int \<Rightarrow> bool res" where
  "SwitchUID env tr uid =
     (if uid = -1 \<or> \<not> e_set_ids env tr uid
      then (if e_allow_fail env then Inr False else Inl Exited)
      else Inr True)"

definition SwitchUser :: "senv \<Rightarrow> trace \<Rightarrow> string \<Rightarrow> bool res" where
  "SwitchUser env tr name =
     (let uid = (if name = [] then -1 else e_lookup_uid env name) in
      if uid = -1 then Inr False else SwitchUID env tr uid)"

definition SwitchGID :: "senv \<Rightarrow> trace \<Rightarrow> int \<Rightarrow> bool res" where
  "SwitchGID env tr gid =
     (if gid = -1 \<or> \<not> e_set_ids env tr gid
      then (if e_allow_fail env then Inr False else Inl Exited)
      else Inr True)"

definition SwitchGroup :: "senv \<Rightarrow> trace \<Rightarrow> string \<Rightarrow> bool res" where
  "SwitchGroup env tr name =
     (let gid = (if name = [] then -1 else e_lookup_gid env name) in
      if gid = -1 then Inr False else SwitchGID env tr gid)"

definition CreateLockFile :: "senv \<Rightarrow> trace \<Rightarrow> string \<Rightarrow> int" where
  "CreateLockFile env tr path =
     (let fd = e_open_lock env tr path in
      if fd < 0 then -1 else if \<not> e_flock env tr path then -1 else fd)"

section \<open>\<open>book_inout.c\<close>\<close>

definition BookoutFileToClient :: "senv \<Rightarrow> string \<Rightarrow> vars \<Rightarrow> srv \<Rightarrow> srv res" where
  "BookoutFileToClient env path vs s =
     bindr (SubstituteVarsInString path vs 0)
       (\<lambda>p. case e_stat env (s_trace s) p of
          None \<Rightarrow> Inr s
        | Some st \<Rightarrow>
            if st_reg st \<and> e_can_read env (s_trace s) p
            then Inr (emit [ToClient (''bookout '' @ fmt_u (st_size st) @ '' '' @ GetBasename p @ [LF]),
                            FileToClient p] s)
            else Inr s)"

text \<open>
  After the rename the mode and owner recorded by \<open>stat(Path)\<close> are restored; when there was no
  such file the buffer is uninitialised.
\<close>

definition bookin_receive :: "senv \<Rightarrow> string \<Rightarrow> srv \<Rightarrow> srv res" where
  "bookin_receive env p s =
     (case read_line (s_input s) of
        (line, rest) \<Rightarrow>
          (case GetToken line '' '' 0 of
             (ptr, tok) \<Rightarrow>
               if strcmp tok ''bookin'' = 0 then
                 (case ptr of
                    None \<Rightarrow> Inl NullDeref
                  | Some t \<Rightarrow>
                      let n = copy_limit (size_of_text t);
                          s1 = emit [FileWritten (p @ ''+'') (take n rest)] (s\<lparr>s_input := drop n rest\<rparr>)
                      in if e_stat env (s_trace s1) p = None then Inl BadPointer
                         else Inr (emit [FileRenamed (p @ ''+'') p] s1))
               else Inr (emit [FileUnlinked (p @ ''+'')] (s\<lparr>s_input := rest\<rparr>))))"

definition BookinFileFromClient :: "senv \<Rightarrow> string \<Rightarrow> vars \<Rightarrow> srv \<Rightarrow> srv res" where
  "BookinFileFromClient env ipath vs s =
     bindr (SubstituteVarsInString ipath vs 0)
       (\<lambda>p. if \<not> e_can_write env (s_trace s) (p @ ''+'') then Inr s
        else bookin_receive env p
               (emit [FileCreated (p @ ''+''), ToClient (''bookin '' @ GetBasename p @ [LF])] s))"

section \<open>Running a command\<close>

text \<open>\<open>StrLen(Token) > MaxLen\<close> compares a \<open>size_t\<close> with an \<open>int\<close>: a negative bound is a huge one.\<close>

function check_args :: "string option \<Rightarrow> int \<Rightarrow> bool" where
  "check_args p maxlen =
     (case GetToken p WS_PATTERN 0 of
        (None, t) \<Rightarrow> True
      | (Some r, t) \<Rightarrow> if length t > size_of_int maxlen then False else check_args (Some r) maxlen)"
  by pat_completeness auto
termination
  by (relation "measure (\<lambda>(p, _). ptr_left p)") (auto dest: get_token.next_decreases [OF sym])

declare check_args.simps [simp del]

definition InvokeCheckArgs :: "string \<Rightarrow> int \<Rightarrow> bool" where
  "InvokeCheckArgs cmd maxlen = check_args (Some cmd) maxlen"

text \<open>The arguments of \<open>run\<close> after the command itself.\<close>

record run_opts =
  r_cmd :: string
  r_caps :: string
  r_expect :: string
  r_timeout :: int

definition run_option :: "run_opts \<Rightarrow> string \<Rightarrow> run_opts" where
  "run_option o1 tok =
     (if CHR ''='' \<in> set tok then
        (case GetNameValuePair (Some tok) WS_PATTERN ''='' of
           (_, name, v) \<Rightarrow>
             if strcmp name ''expect'' = 0 then o1\<lparr>r_expect := v\<rparr>
             else if strcmp name ''pty'' = 0 then o1\<lparr>r_caps := r_caps o1 @ ''pty ''\<rparr>
             else if strcmp name ''timeout'' = 0 then o1\<lparr>r_timeout := atoi v\<rparr>
             else if strcmp name ''capabilities'' = 0 then o1\<lparr>r_caps := r_caps o1 @ v\<rparr>
             else if strcmp name ''caps'' = 0
             then o1\<lparr>r_caps := r_caps o1 @ ''capabilities='' @ quoted v @ '' ''\<rparr>
             else o1\<lparr>r_caps := r_caps o1 @ name @ ''='' @ quoted v @ '' ''\<rparr>)
      else if strcmp tok ''pty'' = 0 then o1\<lparr>r_caps := r_caps o1 @ ''pty ''\<rparr>
      else o1\<lparr>r_cmd := r_cmd o1 @ '' '' @ tok\<rparr>)"

function run_options :: "string option \<Rightarrow> run_opts \<Rightarrow> run_opts" where
  "run_options p o1 =
     (case GetToken p WS_PATTERN GETTOKEN_HONOR_QUOTES of
        (None, t) \<Rightarrow> o1
      | (Some r, t) \<Rightarrow> run_options (Some r) (run_option o1 t))"
  by pat_completeness auto
termination
  by (relation "measure (\<lambda>(p, _). ptr_left p)") (auto dest: get_token.next_decreases [OF sym])

declare run_options.simps [simp del]

text \<open>
  \<open>ProcessExpect\<close> with the configuration pointer it is given, which \<open>HandleExec\<close> leaves null: looking
  up a path that starts with a slash then finds nothing, and the empty list of dialogs is destroyed.
\<close>

definition run_expect ::
  "read_result list \<Rightarrow> string \<Rightarrow> vars \<Rightarrow> node list option \<Rightarrow> int \<Rightarrow> (bool \<times> string list \<times> read_result list) res" where
  "run_expect reads name vs config timeout =
     (case config of
        Some items \<Rightarrow> ProcessExpect reads name vs items timeout
      | None \<Rightarrow>
          if deref name = CHR ''/'' then Inl BadPointer else Inl NullDeref)"

definition run_spawn ::
  "senv \<Rightarrow> run_opts \<Rightarrow> vars \<Rightarrow> node list option \<Rightarrow> srv \<Rightarrow> srv res" where
  "run_spawn env o1 vs config s =
     (let ok = e_spawn_ok env (s_trace s) (r_cmd o1) (r_caps o1);
          s1 = emit [Spawned (r_cmd o1) (r_caps o1)] s
      in if \<not> ok then Inr (emit [ToClient (''FAIL: No such command'' @ [LF])] s1)
         else if r_expect o1 = []
         then Inr (emit [ToClient (''OKAY: Command output follows'' @ [LF]), OutputToClient] s1)
         else bindr (run_expect (e_output env (s_trace s1)) (r_expect o1) vs config (r_timeout o1))
                (\<lambda>(v, reps, rest).
                   let s2 = emit [Replied reps] s1 in
                   if v then Inr (emit [ToClient (''OKAY: Command output follows'' @ [LF]), OutputToClient] s2)
                   else Inr (emit [ToClient (''FAIL: convo failed'' @ [LF])] s2)))"

definition RunCommand ::
  "senv \<Rightarrow> string option \<Rightarrow> vars \<Rightarrow> node list option \<Rightarrow> srv \<Rightarrow> srv res" where
  "RunCommand env details vs config s =
     (case GetToken details WS_PATTERN GETTOKEN_QUOTES of
        (ptr, tok) \<Rightarrow>
          bindr (SubstituteVarsInString tok vs SUBS_SHELL_SAFE)
            (\<lambda>cmd. bindr (GetVar vs ''InvokeMaxArgLen'')
               (\<lambda>maxtext.
                  let maxlen = atoi maxtext in
                  if maxlen > 0 \<and> \<not> InvokeCheckArgs cmd maxlen then Inr s
                  else run_spawn env
                         (run_options ptr \<lparr>r_cmd = cmd, r_caps = [], r_expect = [], r_timeout = 0\<rparr>)
                         vs config s)))"

section \<open>Running an entry of the configuration\<close>

text \<open>
  \<open>CheckRequirement\<close>: the verdict, the variables and the state.  The keywords are compared after a
  switch on the first letter, which changes nothing for the words compared.
\<close>

definition CheckRequirement :: "senv \<Rightarrow> string \<Rightarrow> vars \<Rightarrow> srv \<Rightarrow> (bool \<times> vars \<times> srv) res" where
  "CheckRequirement env details vs s =
     (case GetToken (Some details) WS_PATTERN 0 of
        (ptr, ty) \<Rightarrow>
          let arg = CopyStr ptr in
          if strcasecmp ty ''absent'' = 0 then Inr (\<not> e_exists env (s_trace s) arg, vs, s)
          else if strcasecmp ty ''arglen'' = 0 then
            bindr (SetVar vs ''InvokeMaxArgLen'' arg) (\<lambda>vs'. Inr (True, vs', s))
          else if strcasecmp ty ''directory'' = 0 then
            Inr ((case e_stat env (s_trace s) arg of None \<Rightarrow> False | Some st \<Rightarrow> st_dir st), vs, s)
          else if strcasecmp ty ''exists'' = 0 then Inr (e_exists env (s_trace s) arg, vs, s)
          else if strcasecmp ty ''lock'' = 0 then
            Inr (CreateLockFile env (s_trace s) arg \<noteq> 0, vs, emit [LockTaken arg] s)
          else Inr (True, vs, s))"

definition invoke_value :: "senv \<Rightarrow> string \<Rightarrow> string \<Rightarrow> vars \<Rightarrow> node list \<Rightarrow> srv \<Rightarrow> srv res" where
  "invoke_value env tag t vs config s =
     (if strcmp tag ''chuser'' = 0 then
        bindr (SwitchUser env (s_trace s) t) (\<lambda>ok. Inr (emit (if ok then [SwitchedUser t] else []) s))
      else if strcmp tag ''chgrp'' = 0 then
        bindr (SwitchGroup env (s_trace s) t) (\<lambda>ok. Inr (emit (if ok then [SwitchedGroup t] else []) s))
      else if strcmp tag ''bookout'' = 0 then BookoutFileToClient env t vs s
      else if strcmp tag ''bookin'' = 0 then BookinFileFromClient env t vs s
      else if strcmp tag ''clientrun'' = 0 then Inr (emit [ToClient (''clientrun '' @ t @ [LF])] s)
      else if strcmp tag ''run'' = 0 then RunCommand env (Some t) vs (Some config) s
      else Inr s)"

fun run_items :: "senv \<Rightarrow> node list \<Rightarrow> vars \<Rightarrow> node list \<Rightarrow> srv \<Rightarrow> srv res" where
  "run_items env config vs [] s = Inr s"
| "run_items env config vs (n # ns) s =
     (if \<not> ParserItemIsValue n then run_items env config vs ns s
      else (case node_tag n of
              None \<Rightarrow> Inl NullDeref
            | Some tag \<Rightarrow>
                bindr (item_text (node_item n))
                  (\<lambda>t. if strcmp tag ''require'' = 0 then
                          bindr (CheckRequirement env t vs s)
                            (\<lambda>(ok, vs', s'). if \<not> ok then Inr s' else run_items env config vs' ns s')
                        else bindr (invoke_value env tag t vs config s)
                               (\<lambda>s'. run_items env config vs ns s'))))"

definition RunInvokeCommand :: "senv \<Rightarrow> vars \<Rightarrow> node list \<Rightarrow> srv \<Rightarrow> srv res" where
  "RunInvokeCommand env vs config s = run_items env config vs config s"

text \<open>\<open>RunInvoke\<close>: the first entry with the name of the command.\<close>

fun RunInvoke :: "senv \<Rightarrow> node list \<Rightarrow> string \<Rightarrow> vars \<Rightarrow> srv \<Rightarrow> srv res" where
  "RunInvoke env [] command vs s = Inr s"
| "RunInvoke env (n # ns) command vs s =
     (case node_tag n of
        None \<Rightarrow> Inl NullDeref
      | Some tag \<Rightarrow>
          if strcmp tag command = 0 then
            (case node_item n of
               Sub _ items \<Rightarrow> RunInvokeCommand env vs items s
             | Text _ \<Rightarrow> Inl TypeConfusion)
          else RunInvoke env ns command vs s)"

section \<open>Checking argument lengths\<close>

lemma check_args_tokens:
  "check_args p maxlen \<longleftrightarrow> (\<forall>t \<in> set (token_list p WS_PATTERN 0). length t \<le> size_of_int maxlen)"
proof (induction p maxlen rule: check_args.induct)
  case (1 p maxlen)
  obtain q t where G: "GetToken p WS_PATTERN 0 = (q, t)" by fastforce
  show ?case
  proof (cases q)
    case None
    with G show ?thesis by (simp add: check_args.simps [of p] token_list.simps [of p])
  next
    case (Some r)
    with "1.IH" [OF G [symmetric] Some] G show ?thesis
      by (auto simp: check_args.simps [of p] token_list.simps [of p])
  qed
qed

section \<open>Requirements\<close>

text \<open>
  When a \<open>require\<close> line refuses, the events so far being \<open>tr\<close>.  The files are as the keyword says or not.  A lock
  refuses when it was taken and has the descriptor 0, because the code takes -1, the answer for a lock that cannot be
  taken, for success.  No other keyword refuses, in particular not \<open>peer-sha256\<close> of the README.
\<close>

definition requirement_refuses :: "senv \<Rightarrow> trace \<Rightarrow> string \<Rightarrow> bool" where
  "requirement_refuses env tr details \<longleftrightarrow>
     (case GetToken (Some details) WS_PATTERN 0 of
        (ptr, ty) \<Rightarrow>
          strcasecmp ty ''absent'' = 0 \<and> e_exists env tr (CopyStr ptr) \<or>
          strcasecmp ty ''exists'' = 0 \<and> \<not> e_exists env tr (CopyStr ptr) \<or>
          strcasecmp ty ''directory'' = 0 \<and> (case e_stat env tr (CopyStr ptr) of None \<Rightarrow> True | Some st \<Rightarrow> \<not> st_dir st) \<or>
          strcasecmp ty ''lock'' = 0 \<and> e_open_lock env tr (CopyStr ptr) = 0 \<and> e_flock env tr (CopyStr ptr))"

text \<open>The event of a requirement: the attempt to take a lock.\<close>

definition lock_events :: "string \<Rightarrow> trace" where
  "lock_events details =
     (case GetToken (Some details) WS_PATTERN 0 of
        (ptr, ty) \<Rightarrow> if strcasecmp ty ''lock'' = 0 then [LockTaken (CopyStr ptr)] else [])"

definition locks :: "string list \<Rightarrow> trace" where
  "locks ts = concat (map lock_events ts)"

lemma locks_simps [simp]: "locks [] = []" "locks (t # ts) = lock_events t @ locks ts"
  by (simp_all add: locks_def)

lemma emit_emit [simp]: "emit [] s = s" "emit b (emit a s) = emit (a @ b) s"
  by (simp_all add: emit_def)

lemma keyword_lower:
  "map tolower ''absent'' = ''absent''" "map tolower ''exists'' = ''exists''"
  "map tolower ''directory'' = ''directory''" "map tolower ''lock'' = ''lock''"
  "map tolower ''arglen'' = ''arglen''"
  by (simp_all add: tolower_def isupper_def)

lemma keywords_differ:
  "strcasecmp ty ''absent'' = 0 \<Longrightarrow> strcasecmp ty ''exists'' \<noteq> 0 \<and> strcasecmp ty ''directory'' \<noteq> 0 \<and>
     strcasecmp ty ''lock'' \<noteq> 0"
  "strcasecmp ty ''exists'' = 0 \<Longrightarrow> strcasecmp ty ''directory'' \<noteq> 0 \<and> strcasecmp ty ''lock'' \<noteq> 0"
  "strcasecmp ty ''directory'' = 0 \<Longrightarrow> strcasecmp ty ''lock'' \<noteq> 0"
  "strcasecmp ty ''arglen'' = 0 \<Longrightarrow> strcasecmp ty ''absent'' \<noteq> 0 \<and> strcasecmp ty ''exists'' \<noteq> 0 \<and>
     strcasecmp ty ''directory'' \<noteq> 0 \<and> strcasecmp ty ''lock'' \<noteq> 0"
  by (auto simp: strcasecmp_0_iff keyword_lower simp del: list.map)

lemma CheckRequirement_outcome:
  assumes "vars_ok vs"
  shows "\<exists>vs'. vars_ok vs' \<and>
     CheckRequirement env t vs s = Inr (\<not> requirement_refuses env (s_trace s) t, vs', emit (lock_events t) s)"
proof -
  obtain ptr ty where G: "GetToken (Some t) WS_PATTERN 0 = (ptr, ty)" by fastforce
  obtain vs1 where vs1: "SetVar vs ''InvokeMaxArgLen'' (CopyStr ptr) = Inr vs1" "vars_ok vs1"
    using SetVar_ok [OF assms] by blast
  consider (a) "strcasecmp ty ''absent'' = 0" | (l) "strcasecmp ty ''arglen'' = 0"
    | (d) "strcasecmp ty ''directory'' = 0" | (e) "strcasecmp ty ''exists'' = 0"
    | (k) "strcasecmp ty ''lock'' = 0"
    | (n) "strcasecmp ty ''absent'' \<noteq> 0" "strcasecmp ty ''arglen'' \<noteq> 0" "strcasecmp ty ''directory'' \<noteq> 0"
        "strcasecmp ty ''exists'' \<noteq> 0" "strcasecmp ty ''lock'' \<noteq> 0"
    by blast
  then show ?thesis
  proof cases
    case a
    with assms G keywords_differ(1) [OF a] show ?thesis
      by (auto simp: CheckRequirement_def requirement_refuses_def lock_events_def Let_def)
  next
    case l
    with assms G vs1 keywords_differ(4) [OF l] show ?thesis
      by (auto simp: CheckRequirement_def requirement_refuses_def lock_events_def Let_def)
  next
    case d
    have n: "strcasecmp ty ''absent'' \<noteq> 0" "strcasecmp ty ''arglen'' \<noteq> 0" "strcasecmp ty ''exists'' \<noteq> 0"
      using d keywords_differ by blast+
    with d assms G keywords_differ(3) [OF d] show ?thesis
      by (auto simp: CheckRequirement_def requirement_refuses_def lock_events_def Let_def split: option.splits)
  next
    case e
    have n: "strcasecmp ty ''absent'' \<noteq> 0" "strcasecmp ty ''arglen'' \<noteq> 0"
      using e keywords_differ by blast+
    with e assms G keywords_differ(2) [OF e] show ?thesis
      by (auto simp: CheckRequirement_def requirement_refuses_def lock_events_def Let_def)
  next
    case k
    have n: "strcasecmp ty ''absent'' \<noteq> 0" "strcasecmp ty ''arglen'' \<noteq> 0" "strcasecmp ty ''directory'' \<noteq> 0"
      "strcasecmp ty ''exists'' \<noteq> 0"
      using k keywords_differ by blast+
    with k assms G show ?thesis
      by (auto simp: CheckRequirement_def requirement_refuses_def lock_events_def Let_def CreateLockFile_def)
  next
    case n
    with assms G show ?thesis by (auto simp: CheckRequirement_def requirement_refuses_def lock_events_def Let_def)
  qed
qed

definition is_require :: "node \<Rightarrow> bool" where
  "is_require n \<longleftrightarrow> node_tag n = Some ''require'' \<and> ParserItemIsValue n"

lemma run_require:
  assumes "vars_ok vs" "is_require n" "node_item n = Text t"
  shows "\<exists>vs'. vars_ok vs' \<and> run_items env config vs (n # ns) s =
    (if requirement_refuses env (s_trace s) t then Inr (emit (lock_events t) s)
     else run_items env config vs' ns (emit (lock_events t) s))"
  using CheckRequirement_outcome [OF assms(1), of env t s] assms(2,3)
  by (auto simp: is_require_def item_text_def)

lemma run_requires:
  "vars_ok vs \<Longrightarrow> \<forall>n \<in> set reqs. is_require n \<Longrightarrow> map node_item reqs = map Text ts \<Longrightarrow>
     (\<forall>i < length ts. \<not> requirement_refuses env (s_trace s @ locks (take i ts)) (ts ! i)) \<and>
       (\<exists>vs'. vars_ok vs' \<and> run_items env config vs (reqs @ rest) s = run_items env config vs' rest (emit (locks ts) s)) \<or>
     (\<exists>i < length ts. requirement_refuses env (s_trace s @ locks (take i ts)) (ts ! i) \<and>
        (\<forall>j < i. \<not> requirement_refuses env (s_trace s @ locks (take j ts)) (ts ! j)) \<and>
        run_items env config vs (reqs @ rest) s = Inr (emit (locks (take (Suc i) ts)) s))"
proof (induction reqs arbitrary: vs s ts)
  case Nil
  then show ?case by auto
next
  case (Cons n reqs)
  obtain t us where ts: "ts = t # us" using Cons.prems(3) by (cases ts) auto
  have n: "is_require n" "node_item n = Text t" using Cons.prems(2,3) ts by auto
  obtain vs1 where vs1: "vars_ok vs1" "run_items env config vs (n # reqs @ rest) s =
    (if requirement_refuses env (s_trace s) t then Inr (emit (lock_events t) s)
     else run_items env config vs1 (reqs @ rest) (emit (lock_events t) s))"
    using run_require [OF Cons.prems(1) n] by blast
  show ?case
  proof (cases "requirement_refuses env (s_trace s) t")
    case True
    with vs1 ts show ?thesis by (intro disjI2 exI [of _ 0]) simp
  next
    case False
    then have run: "run_items env config vs ((n # reqs) @ rest) s = run_items env config vs1 (reqs @ rest) (emit (lock_events t) s)"
      using vs1(2) by simp
    have "\<forall>n \<in> set reqs. is_require n" "map node_item reqs = map Text us" using Cons.prems(2,3) ts by auto
    from Cons.IH [OF vs1(1) this, of "emit (lock_events t) s"] show ?thesis
    proof (elim disjE conjE exE, goal_cases)
      case (1 vs2)
      have "\<not> requirement_refuses env (s_trace s @ locks (take i ts)) (ts ! i)" if "i < length ts" for i
        using that False 1(1) ts by (cases i) auto
      with 1 run ts show ?case by auto
    next
      case (2 i)
      have "\<not> requirement_refuses env (s_trace s @ locks (take j ts)) (ts ! j)" if "j < Suc i" for j
        using that False 2(3) ts by (cases j) auto
      with 2 run ts show ?case by (intro disjI2 exI [of _ "Suc i"]) simp
    qed
  qed
qed

section \<open>Properties\<close>

text \<open>C20: a command whose bound on the length of words is positive is not started, and nothing else happens, when a word of
  the expanded template is longer than the bound; else it is started.  A bound that is zero or negative bounds nothing, and
  the words behind the template are not looked at.\<close>

theorem arguments_are_bounded:
  assumes "SubstituteVarsInString (snd (GetToken details WS_PATTERN GETTOKEN_QUOTES)) vs SUBS_SHELL_SAFE = Inr cmd"
    and "GetVar vs ''InvokeMaxArgLen'' = Inr b"
  shows "RunCommand env details vs config s =
     (if 0 < atoi b \<and> (\<exists>t \<in> set (token_list (Some cmd) WS_PATTERN 0). atoi b < int (length t)) then Inr s
      else run_spawn env (run_options (fst (GetToken details WS_PATTERN GETTOKEN_QUOTES))
             \<lparr>r_cmd = cmd, r_caps = [], r_expect = [], r_timeout = 0\<rparr>) vs config s)"
proof -
  have "int (size_of_int (atoi b)) = atoi b" if "0 < atoi b"
    using that int32_of_range(2) [of "strtoll10 b"] by (simp add: size_of_int_id atoi_def)
  then have le: "length t \<le> size_of_int (atoi b) \<longleftrightarrow> \<not> atoi b < int (length t)" if "0 < atoi b" for t :: string
    using that by linarith
  have "InvokeCheckArgs cmd (atoi b) \<longleftrightarrow> \<not> (\<exists>t \<in> set (token_list (Some cmd) WS_PATTERN 0). atoi b < int (length t))"
    if "0 < atoi b"
    unfolding InvokeCheckArgs_def check_args_tokens using le [OF that] by blast
  then show ?thesis
    using assms by (cases "0 < atoi b") (simp_all add: RunCommand_def Let_def case_prod_beta)
qed

theorem arguments_are_bounded_witness:
  "\<forall>env config s. \<exists>vs. SetVar [] ''InvokeMaxArgLen'' ''3'' = Inr vs \<and>
     RunCommand env (Some (dquote ''ls aaaa'')) vs config s = Inr s"
proof (intro allI)
  fix env config s
  obtain vs where vs: "SetVar [] ''InvokeMaxArgLen'' ''3'' = Inr vs" "vars_ok vs" using SetVar_ok [OF vars_ok_Nil] by blast
  have b: "GetVar vs ''InvokeMaxArgLen'' = Inr ''3''" using GetVar_SetVar [OF vars_ok_Nil vs(1)] by (simp add: GetVar_find)
  have flags: "plain_mode SUBS_SHELL_SAFE" by (simp add: plain_mode_def hasflag_def subs_flags)
  have tok: "GetToken (Some (dquote ''ls aaaa'')) WS_PATTERN GETTOKEN_QUOTES = (Some [], ''ls aaaa'')"
    by (rule GetToken_quoted_last) simp_all
  have cmd: "SubstituteVarsInString ''ls aaaa'' vs SUBS_SHELL_SAFE = Inr ''ls aaaa''"
    using SubstituteVarsInString_template [OF vs(2) flags, of "[Lit ''ls aaaa'']"] by (simp add: render_def)
  have "atoi ''3'' = 3" "token_list (Some ''ls aaaa'') WS_PATTERN 0 = [''ls'', ''aaaa'']" by code_simp+
  then have "RunCommand env (Some (dquote ''ls aaaa'')) vs config s = Inr s"
    using arguments_are_bounded [of "Some (dquote ''ls aaaa'')" vs "''ls aaaa''" "''3''" env config s] tok cmd b by simp
  with vs(1) show "\<exists>vs. SetVar [] ''InvokeMaxArgLen'' ''3'' = Inr vs \<and>
     RunCommand env (Some (dquote ''ls aaaa'')) vs config s = Inr s" by blast
qed

text \<open>A negative bound, which \<open>RunCommand\<close> never passes, would let every command through.\<close>

lemma negative_bound_accepts:
  assumes "- (2 ^ 31) \<le> maxlen" "maxlen < 0" "\<forall>t \<in> set (token_list (Some cmd) WS_PATTERN 0). length t < 2 ^ 63"
  shows "InvokeCheckArgs cmd maxlen"
proof -
  have "maxlen mod 2 ^ 64 = maxlen + 2 ^ 64"
    using assms(1,2) mod_pos_pos_trivial [of "maxlen + 2 ^ 64" "2 ^ 64"] by simp
  then have "2 ^ 63 \<le> size_of_int maxlen" using assms(1) by (simp add: size_of_int_def)
  then show ?thesis using assms(3) by (fastforce simp: InvokeCheckArgs_def check_args_tokens)
qed

end
