(* ===== verification/Server.thy ===== *)
theory Server
  imports ServerActions
begin

text \<open>
  The request handlers of \<open>server.c\<close>: \<open>CheckAuth\<close>, \<open>CheckPermission\<close>, \<open>FindPermission\<close>,
  \<open>HandleClientAuth\<close>, \<open>HandleInvoke\<close>, \<open>HandleExec\<close>, \<open>HandleClientRequest\<close> and \<open>HandleClient\<close>.

  A request may need authentication, for which \<open>CheckAuth\<close> handles further requests until one
  fails to arrive: \<open>HandleClientRequest\<close> calls itself through three other functions and a loop.
  Those functions take the handler to call as an argument, and \<open>HandleClientRequest\<close> ties the knot
  with fuel.  Every request that is handled takes a line from the input, so the number of bytes
  left is enough fuel for the recursion and for the loop (theory \<open>ServerTermination\<close>).
\<close>

section \<open>Permission\<close>

text \<open>A request handler: authentication types, state, whether a request arrived, new state.\<close>

type_synonym handler = "string \<Rightarrow> srv \<Rightarrow> (bool \<times> srv) res"

definition authenticated :: "srv \<Rightarrow> bool" where
  "authenticated s \<longleftrightarrow> hasflag (p_flags (s_peer s)) PEER_AUTHENTICATED"

text \<open>\<open>while (HandleClientRequest(...));\<close>\<close>

fun auth_loop :: "nat \<Rightarrow> (srv \<Rightarrow> (bool \<times> srv) res) \<Rightarrow> srv \<Rightarrow> srv res" where
  "auth_loop 0 h s = Inl OutOfFuel"
| "auth_loop (Suc n) h s = bindr (h s) (\<lambda>(more, s'). if more then auth_loop n h s' else Inr s')"

definition CheckAuth :: "handler \<Rightarrow> string \<Rightarrow> srv \<Rightarrow> (bool \<times> srv) res" where
  "CheckAuth h types s =
     (if authenticated s then Inr (True, s)
      else bindr (auth_loop (Suc (length (s_input s))) (h types) (emit [ToClient (''AUTH'' @ [LF])] s))
             (\<lambda>s'. Inr (authenticated s', s')))"

text \<open>One rule: \<open>None\<close> is a failure; otherwise the new \<open>result\<close>.\<close>

definition check_rule :: "handler \<Rightarrow> node \<Rightarrow> bool \<Rightarrow> srv \<Rightarrow> (bool option \<times> srv) res" where
  "check_rule h n result s =
     (case node_tag n of
        None \<Rightarrow> Inl NullDeref
      | Some tag \<Rightarrow>
          if strcasecmp tag ''user'' = 0 then
            bindr (item_text (node_item n))
              (\<lambda>t. Inr (if IsItemInList (p_user (s_peer s)) (Some t) then Some True else None, s))
          else if strcasecmp tag ''group'' = 0 then
            bindr (item_text (node_item n))
              (\<lambda>t. Inr (if IsItemInList (p_group (s_peer s)) (Some t) then Some True else None, s))
          else if strcasecmp tag ''program'' = 0 then
            bindr (item_text (node_item n))
              (\<lambda>t. Inr (if IsItemInList (p_exe (s_peer s)) (Some t) then Some True else None, s))
          else if strcasecmp tag ''auth'' = 0 then
            bindr (item_text (node_item n))
              (\<lambda>t. bindr (CheckAuth h t s) (\<lambda>(ok, s'). Inr (if ok then Some True else None, s')))
          else Inr (Some result, s))"

fun check_rules :: "handler \<Rightarrow> node list \<Rightarrow> bool \<Rightarrow> srv \<Rightarrow> (bool \<times> srv) res" where
  "check_rules h [] result s = Inr (result, s)"
| "check_rules h (n # ns) result s =
     bindr (check_rule h n result s)
       (\<lambda>(r, s'). case r of None \<Rightarrow> Inr (False, s') | Some result' \<Rightarrow> check_rules h ns result' s')"

definition db_check :: "senv \<Rightarrow> trace \<Rightarrow> string \<Rightarrow> string \<Rightarrow> bool res" where
  "db_check env tr command exe =
     AppDBCheck (e_appdb env tr) (\<lambda>p. map_option st_size (e_stat env tr p)) (e_hash env tr) command exe"

definition CheckPermission ::
  "senv \<Rightarrow> handler \<Rightarrow> string \<Rightarrow> node list \<Rightarrow> srv \<Rightarrow> (bool \<times> srv) res" where
  "CheckPermission env h command rules s =
     bindr (db_check env (s_trace s) command (p_exe (s_peer s)))
       (\<lambda>granted. if granted then Inr (True, s) else check_rules h rules False s)"

definition entry_matches :: "peer \<Rightarrow> string \<Rightarrow> string \<Rightarrow> bool" where
  "entry_matches p command tag \<longleftrightarrow>
     strcmp tag command = 0 \<or> strcmp tag (p_exe p) = 0 \<or> strcmp tag (GetBasename (p_exe p)) = 0"

fun find_permission ::
  "senv \<Rightarrow> handler \<Rightarrow> string \<Rightarrow> node list \<Rightarrow> srv \<Rightarrow> (bool \<times> srv) res" where
  "find_permission env h command [] s = Inr (False, s)"
| "find_permission env h command (n # ns) s =
     (case node_tag n of
        None \<Rightarrow> Inl NullDeref
      | Some tag \<Rightarrow>
          if entry_matches (s_peer s) command tag then
            (case node_item n of
               Sub _ rules \<Rightarrow> CheckPermission env h command rules s
             | Text _ \<Rightarrow> Inl TypeConfusion)
          else find_permission env h command ns s)"

definition FindPermission :: "senv \<Rightarrow> handler \<Rightarrow> string \<Rightarrow> srv \<Rightarrow> (bool \<times> srv) res" where
  "FindPermission env h command s = find_permission env h command (e_config env) s"

section \<open>The handlers\<close>

text \<open>
  The password among the details.  The first pair is split at \<open>"="\<close>, the following ones at \<open>"= "\<close>.
\<close>

function auth_password_loop :: "string option \<Rightarrow> string option \<Rightarrow> string \<Rightarrow> string option" where
  "auth_password_loop p pw nd =
     (case GetNameValuePair p '' '' nd of
        (None, name, v) \<Rightarrow> pw
      | (Some r, name, v) \<Rightarrow>
          auth_password_loop (Some r) (if strcmp name ''password'' = 0 then Some v else pw) ''= '')"
  by pat_completeness auto
termination
  by (relation "measure (\<lambda>(p, _). ptr_left p)") (auto dest: name_value.next_decreases [OF sym])

declare auth_password_loop.simps [simp del]

definition auth_outcome :: "int \<Rightarrow> srv \<Rightarrow> srv" where
  "auth_outcome verdict s =
     (if verdict \<noteq> 0
      then emit [AuthAccepted, ToClient (''OKAY: Authenticated'' @ [LF])]
             (s\<lparr>s_peer := (s_peer s)\<lparr>p_flags := or (p_flags (s_peer s)) PEER_AUTHENTICATED\<rparr>\<rparr>)
      else emit [ToClient (''FAIL: Authentication failed'' @ [LF])] s)"

definition HandleClientAuth :: "senv \<Rightarrow> string option \<Rightarrow> string \<Rightarrow> srv \<Rightarrow> srv res" where
  "HandleClientAuth env details types s =
     (let password = auth_password_loop details None ''='';
          services = (if types \<noteq> [] then types else ''login'')
      in bindr (AuthPAM (e_have_pam env) (e_pam env (s_trace s)) services (p_user (s_peer s)) password (s_pam s))
           (\<lambda>(verdict, h1).
              bindr (AuthPAMClose (e_have_pam env) h1)
                (\<lambda>h2. Inr ((auth_outcome verdict s)\<lparr>s_pam := h2\<rparr>))))"

text \<open>The variables a client sets.\<close>

function invoke_pairs :: "string option \<Rightarrow> (string \<times> string) list" where
  "invoke_pairs p =
     (case GetNameValuePair p '' '' ''='' of
        (None, n, v) \<Rightarrow> []
      | (Some r, n, v) \<Rightarrow> (n, StripQuotes (StripTrailingWhitespace v)) # invoke_pairs (Some r))"
  by pat_completeness auto
termination
  by (relation "measure ptr_left") (auto dest: name_value.next_decreases [OF sym])

declare invoke_pairs.simps [simp del]

text \<open>And those the server sets after them.\<close>

definition peer_pairs :: "peer \<Rightarrow> (string \<times> string) list" where
  "peer_pairs p =
     [(''invoke:user'', p_user p), (''invoke:group'', p_group p), (''invoke:uid'', fmt_d (p_uid p)),
      (''invoke:gid'', fmt_d (p_gid p)), (''invoke:peer_pid'', fmt_d (p_pid p)),
      (''invoke:peer_program'', p_exe p)]"

definition invoke_vars :: "peer \<Rightarrow> (string \<times> string) list \<Rightarrow> vars res" where
  "invoke_vars p pairs = set_vars [] (pairs @ peer_pairs p)"

text \<open>The command and the pairs of an \<open>INVOKE\<close> request.\<close>

definition invoke_details :: "string option \<Rightarrow> (string \<times> (string \<times> string) list) res" where
  "invoke_details details =
     bindr (skip_space details)
       (\<lambda>p. case GetToken p WS_PATTERN GETTOKEN_QUOTES of (ptr, command) \<Rightarrow> Inr (command, invoke_pairs ptr))"

definition deny :: "srv \<Rightarrow> srv" where
  "deny s = emit [ToClient (''FAIL: Not authorized'' @ [LF])] s"

definition HandleInvoke :: "senv \<Rightarrow> handler \<Rightarrow> string option \<Rightarrow> srv \<Rightarrow> srv res" where
  "HandleInvoke env h details s =
     bindr (invoke_details details)
       (\<lambda>(command, pairs).
          bindr (invoke_vars (s_peer s) pairs)
            (\<lambda>vs. bindr (FindPermission env h command s)
               (\<lambda>(ok, s1).
                  if ok then bindr (RunInvoke env (e_config env) command vs (emit [Granted command] s1))
                               (\<lambda>s2. Inr (emit [Finished] s2))
                  else Inr (deny s1))))"

definition HandleExec :: "senv \<Rightarrow> handler \<Rightarrow> string option \<Rightarrow> srv \<Rightarrow> srv res" where
  "HandleExec env h details s =
     (case GetToken details WS_PATTERN 0 of
        (ptr, command) \<Rightarrow>
          bindr (FindPermission env h command s)
            (\<lambda>(ok, s1).
               if ok then bindr (RunCommand env details [] None (emit [Granted command] s1))
                            (\<lambda>s2. Inr (emit [Finished] s2))
               else Inr (deny s1)))"

definition REQUEST_PATTERN :: string where "REQUEST_PATTERN = BSL # ''S|:''"

definition dispatch :: "senv \<Rightarrow> handler \<Rightarrow> string \<Rightarrow> string option \<Rightarrow> string \<Rightarrow> srv \<Rightarrow> srv res" where
  "dispatch env h token ptr types s =
     (if strcasecmp token ''AUTH'' = 0 then HandleClientAuth env ptr types s
      else if strcasecmp token ''EXEC'' = 0 then HandleExec env h ptr s
      else if strcasecmp token ''INVOKE'' = 0 then HandleInvoke env h ptr s
      else Inr s)"

text \<open>One request, with the handler for the requests it waits for in turn.\<close>

definition handle_request :: "senv \<Rightarrow> handler \<Rightarrow> handler" where
  "handle_request env h types s =
     (case read_line (s_input s) of
        (line, rest) \<Rightarrow>
          let t = StripTrailingWhitespace (CopyStr line);
              s1 = s\<lparr>s_input := rest\<rparr>
          in if t = [] then Inr (False, s1)
             else (case GetToken (Some t) REQUEST_PATTERN GETTOKEN_MULTI_SEP of
                     (ptr, token) \<Rightarrow> bindr (dispatch env h token ptr types s1) (\<lambda>s2. Inr (True, s2))))"

primrec HandleClientRequest :: "nat \<Rightarrow> senv \<Rightarrow> handler" where
  "HandleClientRequest 0 env = (\<lambda>types s. Inl OutOfFuel)"
| "HandleClientRequest (Suc n) env = handle_request env (HandleClientRequest n env)"

text \<open>The child process of \<open>HandleClient\<close>: one request from a fresh peer.\<close>

definition start_state :: "peer \<Rightarrow> string \<Rightarrow> srv" where
  "start_state p input = \<lparr>s_peer = p, s_input = input, s_pam = NoHandle, s_trace = []\<rparr>"

definition HandleClient :: "senv \<Rightarrow> peer \<Rightarrow> string \<Rightarrow> srv res" where
  "HandleClient env p input =
     bindr (HandleClientRequest (Suc (length input)) env [] (start_state p input)) (\<lambda>(b, s). Inr s)"

text \<open>\<open>LoadConfig\<close> followed by a client.\<close>

definition serve :: "senv \<Rightarrow> string \<Rightarrow> peer \<Rightarrow> string \<Rightarrow> srv res" where
  "serve env conf p input =
     bindr (ParserParseConfig conf) (\<lambda>items. HandleClient (env\<lparr>e_config := items\<rparr>) p input)"

text \<open>The command line of the server.\<close>

record server_flags =
  sf_nodemon :: bool
  sf_key :: bool

fun ParseServerCommandLine :: "string list \<Rightarrow> server_flags \<Rightarrow> server_flags option" where
  "ParseServerCommandLine [] f = Some f"
| "ParseServerCommandLine (a # args) f =
     (if a = ''-nodemon'' then ParseServerCommandLine args (f\<lparr>sf_nodemon := True\<rparr>)
      else if a = ''-k'' then ParseServerCommandLine args (f\<lparr>sf_key := True\<rparr>)
      else if a = ''-version'' \<or> a = ''--version'' then None
      else ParseServerCommandLine args f)"

end
