(* ===== verification/ServerSafety.thy ===== *)
theory ServerSafety
  imports Server
begin

text \<open>
  The safety argument for the server.

  The abstract policy says when a peer may have a command run: the first entry of the
  configuration that applies to the request permits it.  A trace respects the policy if every
  privileged event lies between a \<open>Granted\<close> marker and the next \<open>Finished\<close>, and the policy held
  for the command when it was granted.  The locale \<open>request_handler\<close> is the contract between the
  permission check and the handler it calls back for authentication; the handlers of the program
  satisfy it for every amount of fuel.
\<close>

section \<open>The policy\<close>

definition rule_kind :: "node \<Rightarrow> string option" where
  "rule_kind n =
     (case node_tag n of
        None \<Rightarrow> None
      | Some tag \<Rightarrow> if strlwr tag \<in> {''user'', ''group'', ''program'', ''auth''} then Some (strlwr tag) else None)"

definition rule_text :: "node \<Rightarrow> string" where
  "rule_text n = (case node_item n of Text t \<Rightarrow> t | Sub _ _ \<Rightarrow> [])"

text \<open>What a rule asks of a peer; items that are not rules ask nothing.\<close>

definition rule_holds :: "peer \<Rightarrow> bool \<Rightarrow> node \<Rightarrow> bool" where
  "rule_holds p authed n \<longleftrightarrow>
     (case rule_kind n of
        None \<Rightarrow> True
      | Some k \<Rightarrow>
          if k = ''user'' then IsItemInList (p_user p) (Some (rule_text n))
          else if k = ''group'' then IsItemInList (p_group p) (Some (rule_text n))
          else if k = ''program'' then IsItemInList (p_exe p) (Some (rule_text n))
          else authed)"

definition rules_permit :: "peer \<Rightarrow> bool \<Rightarrow> node list \<Rightarrow> bool" where
  "rules_permit p authed ns \<longleftrightarrow>
     (\<exists>n \<in> set ns. rule_kind n \<noteq> None) \<and> (\<forall>n \<in> set ns. rule_holds p authed n)"

text \<open>The entry that decides: the first one named after the command or the program.\<close>

fun deciding_rules :: "node list \<Rightarrow> peer \<Rightarrow> string \<Rightarrow> node list option" where
  "deciding_rules [] p command = None"
| "deciding_rules (n # ns) p command =
     (case node_tag n of
        None \<Rightarrow> None
      | Some tag \<Rightarrow>
          if tag \<in> {command, p_exe p, GetBasename (p_exe p)}
          then (case node_item n of Sub _ rules \<Rightarrow> Some rules | Text _ \<Rightarrow> None)
          else deciding_rules ns p command)"

definition was_authenticated :: "trace \<Rightarrow> bool" where
  "was_authenticated tr \<longleftrightarrow> AuthAccepted \<in> set tr"

definition policy :: "senv \<Rightarrow> peer \<Rightarrow> trace \<Rightarrow> string \<Rightarrow> bool" where
  "policy env p tr command \<longleftrightarrow>
     (\<exists>rules. deciding_rules (e_config env) p command = Some rules \<and>
        ((\<exists>h. prefix h tr \<and> db_check env h command (p_exe p) = Inr True) \<or>
         rules_permit p (was_authenticated tr) rules))"

section \<open>Traces that respect it\<close>

text \<open>The command whose branch is being run, if any.\<close>

definition running :: "trace \<Rightarrow> string option" where
  "running tr =
     fold (\<lambda>ev r. case ev of Granted c \<Rightarrow> Some c | Finished \<Rightarrow> None | _ \<Rightarrow> r) tr None"

fun privileged :: "event \<Rightarrow> bool" where
  "privileged (ToClient _) = False"
| "privileged AuthAccepted = False"
| "privileged (Granted _) = False"
| "privileged Finished = False"
| "privileged _ = True"

definition event_ok :: "senv \<Rightarrow> peer \<Rightarrow> trace \<Rightarrow> event \<Rightarrow> bool" where
  "event_ok env p tr ev \<longleftrightarrow>
     (privileged ev \<longrightarrow> running tr \<noteq> None) \<and>
     (\<forall>c. ev = Granted c \<longrightarrow> running tr = None \<and> policy env p tr c)"

definition respects_policy :: "senv \<Rightarrow> peer \<Rightarrow> trace \<Rightarrow> bool" where
  "respects_policy env p tr \<longleftrightarrow>
     (\<forall>before ev after. tr = before @ ev # after \<longrightarrow> event_ok env p before ev)"

lemma running_simps [simp]:
  "running [] = None"
  "running (tr @ [ev]) = (case ev of Granted c \<Rightarrow> Some c | Finished \<Rightarrow> None | _ \<Rightarrow> running tr)"
  by (simp_all add: running_def split: event.split)

lemma running_two [simp]:
  "running (tr @ [e1, e2]) = (case e2 of Granted c \<Rightarrow> Some c | Finished \<Rightarrow> None | _ \<Rightarrow> running (tr @ [e1]))"
  using running_simps(2) [of "tr @ [e1]" e2] by simp

lemma respects_Nil [simp]: "respects_policy env p []"
  by (simp add: respects_policy_def)

lemma respects_snoc: "respects_policy env p (tr @ [ev]) \<longleftrightarrow> respects_policy env p tr \<and> event_ok env p tr ev"
proof
  assume A: "respects_policy env p (tr @ [ev])"
  have "respects_policy env p tr"
    unfolding respects_policy_def
  proof (intro allI impI)
    fix before e after assume "tr = before @ e # after"
    then have "tr @ [ev] = before @ e # (after @ [ev])" by simp
    with A show "event_ok env p before e" unfolding respects_policy_def by blast
  qed
  with A show "respects_policy env p tr \<and> event_ok env p tr ev" by (auto simp: respects_policy_def)
next
  assume A: "respects_policy env p tr \<and> event_ok env p tr ev"
  show "respects_policy env p (tr @ [ev])"
    unfolding respects_policy_def
  proof (intro allI impI)
    fix before e after assume eq: "tr @ [ev] = before @ e # after"
    show "event_ok env p before e"
    proof (cases after rule: rev_cases)
      case Nil
      with eq A show ?thesis by simp
    next
      case (snoc ys y)
      with eq have "tr = before @ e # ys" by simp
      with A show ?thesis unfolding respects_policy_def by blast
    qed
  qed
qed

text \<open>Events that are no markers, and what adding them does.\<close>

definition plain_event :: "event \<Rightarrow> bool" where
  "plain_event ev \<longleftrightarrow> (\<forall>c. ev \<noteq> Granted c) \<and> ev \<noteq> Finished \<and> ev \<noteq> AuthAccepted"

lemma plain_event_simps [simp]:
  "plain_event (ToClient m)" "plain_event (FileToClient m)" "plain_event OutputToClient"
  "plain_event (Spawned c d)" "plain_event (Replied rs)" "plain_event (SwitchedUser u)"
  "plain_event (SwitchedGroup u)" "plain_event (LockTaken f)" "plain_event (FileCreated f)"
  "plain_event (FileWritten f d)" "plain_event (FileRenamed f g)" "plain_event (FileUnlinked f)"
  by (simp_all add: plain_event_def)

lemma running_plain: "plain_event ev \<Longrightarrow> running (tr @ [ev]) = running tr"
  by (cases ev) (auto simp: plain_event_def)

lemma plain_events:
  "\<forall>ev \<in> set evs. plain_event ev \<Longrightarrow> respects_policy env p tr \<Longrightarrow>
     running tr \<noteq> None \<or> (\<forall>ev \<in> set evs. \<not> privileged ev) \<Longrightarrow>
     respects_policy env p (tr @ evs) \<and> running (tr @ evs) = running tr \<and>
     was_authenticated (tr @ evs) = was_authenticated tr"
proof (induction evs rule: rev_induct)
  case (snoc ev evs)
  have IH: "respects_policy env p (tr @ evs)" "running (tr @ evs) = running tr"
    "was_authenticated (tr @ evs) = was_authenticated tr"
    using snoc.IH [OF _ snoc.prems(2)] snoc.prems(1,3) by auto
  have pl: "plain_event ev" using snoc.prems(1) by simp
  have "event_ok env p (tr @ evs) ev"
    using pl snoc.prems(3) IH(2) by (auto simp: event_ok_def plain_event_def)
  then have "respects_policy env p ((tr @ evs) @ [ev])" using IH(1) respects_snoc by blast
  moreover have "running ((tr @ evs) @ [ev]) = running tr" using running_plain [OF pl] IH(2) by metis
  moreover have "was_authenticated ((tr @ evs) @ [ev]) = was_authenticated tr"
    using pl IH(3) by (auto simp: was_authenticated_def plain_event_def)
  ultimately show ?case by simp
qed simp

section \<open>What the actions do to the state\<close>

text \<open>They read input, add plain events, and leave the peer and the PAM handle alone.\<close>

definition acts :: "srv \<Rightarrow> srv \<Rightarrow> bool" where
  "acts s s' \<longleftrightarrow> suffix (s_input s') (s_input s) \<and> s_peer s' = s_peer s \<and> s_pam s' = s_pam s \<and>
     (\<exists>evs. s_trace s' = s_trace s @ evs \<and> (\<forall>ev \<in> set evs. plain_event ev))"

lemma acts_refl [simp]: "acts s s"
  by (auto simp: acts_def)

lemma acts_trans: "acts s1 s2 \<Longrightarrow> acts s2 s3 \<Longrightarrow> acts s1 s3"
  unfolding acts_def by (force intro: suffix_order.trans)

lemma acts_emit [simp]: "\<forall>ev \<in> set evs. plain_event ev \<Longrightarrow> acts s (emit evs s)"
  by (auto simp: acts_def)

lemma acts_emit_after: "acts s s1 \<Longrightarrow> \<forall>ev \<in> set evs. plain_event ev \<Longrightarrow> acts s (emit evs s1)"
  using acts_trans acts_emit by blast

lemma acts_from_emit: "acts (emit evs s) s' \<Longrightarrow> \<forall>ev \<in> set evs. plain_event ev \<Longrightarrow> acts s s'"
  using acts_trans acts_emit by blast

lemma acts_input: "acts s s1 \<Longrightarrow> suffix r (s_input s1) \<Longrightarrow> acts s (s1\<lparr>s_input := r\<rparr>)"
  by (auto simp: acts_def intro: suffix_order.trans)

lemma read_line_suffix: "read_line inp = (l, rest) \<Longrightarrow> suffix rest inp"
proof -
  assume A: "read_line inp = (l, rest)"
  have "suffix r inp" if "dropWhile (\<lambda>c. c \<noteq> LF) inp = c # r" for c r
    using suffix_dropWhile [of "\<lambda>c. c \<noteq> LF" inp] that by (metis suffix_tl_intro)
  with A show ?thesis
    by (auto simp: read_line_def split: if_splits list.splits)
qed

lemma BookoutFileToClient_acts: "BookoutFileToClient env path vs s = Inr s' \<Longrightarrow> acts s s'"
  by (auto simp: BookoutFileToClient_def bindr_Inr_iff split: option.splits if_splits)

lemma bookin_receive_acts:
  assumes "bookin_receive env p s = Inr s'"
  shows "acts s s'"
proof -
  obtain line rest where L: "read_line (s_input s) = (line, rest)" by fastforce
  then have suf: "suffix rest (s_input s)" "\<And>n. suffix (drop n rest) (s_input s)"
    using read_line_suffix suffix_drop suffix_order.trans by blast+
  note input = acts_input [OF acts_refl suf(1)] acts_input [OF acts_refl suf(2)]
  obtain ptr tok where G: "GetToken line '' '' 0 = (ptr, tok)" by fastforce
  show ?thesis
  proof (cases "tok = ''bookin''")
    case True
    with assms L G show ?thesis
      by (auto simp: bookin_receive_def Let_def split: option.splits if_splits
          intro!: acts_emit_after input(2))
  next
    case False
    with assms L G have "s' = emit [FileUnlinked (p @ ''+'')] (s\<lparr>s_input := rest\<rparr>)"
      by (simp add: bookin_receive_def)
    with acts_emit_after [OF input(1)] show ?thesis by simp
  qed
qed

lemma BookinFileFromClient_acts: "BookinFileFromClient env path vs s = Inr s' \<Longrightarrow> acts s s'"
  by (auto simp: BookinFileFromClient_def bindr_Inr_iff split: if_splits
      dest!: bookin_receive_acts elim!: acts_from_emit)

lemma run_spawn_acts: "run_spawn env o1 vs config s = Inr s' \<Longrightarrow> acts s s'"
  by (auto simp: run_spawn_def Let_def bindr_Inr_iff intro!: acts_emit_after split: if_splits prod.splits)

lemma RunCommand_acts: "RunCommand env details vs config s = Inr s' \<Longrightarrow> acts s s'"
  by (auto simp: RunCommand_def Let_def bindr_Inr_iff dest: run_spawn_acts split: if_splits prod.splits)

lemma CheckRequirement_acts: "CheckRequirement env details vs s = Inr (ok, vs', s') \<Longrightarrow> acts s s'"
  by (auto simp: CheckRequirement_def Let_def bindr_Inr_iff split: if_splits prod.splits)

lemma invoke_value_acts: "invoke_value env tag t vs config s = Inr s' \<Longrightarrow> acts s s'"
  by (auto simp: invoke_value_def bindr_Inr_iff
      dest: RunCommand_acts BookinFileFromClient_acts BookoutFileToClient_acts split: if_splits)

lemma run_items_acts: "run_items env config vs ns s = Inr s' \<Longrightarrow> acts s s'"
proof (induction ns arbitrary: vs s)
  case (Cons n ns)
  show ?case
  proof (cases "ParserItemIsValue n")
    case False
    with Cons show ?thesis by simp
  next
    case True
    with Cons.prems obtain tag t where tag: "node_tag n = Some tag" "item_text (node_item n) = Inr t"
      by (auto simp: bindr_Inr_iff split: option.splits)
    show ?thesis
    proof (cases "tag = ''require''")
      case req: True
      with Cons.prems True tag obtain ok vs1 s1 where
        "CheckRequirement env t vs s = Inr (ok, vs1, s1)"
        "(if ok then run_items env config vs1 ns s1 else Inr s1) = Inr s'"
        by (auto simp: bindr_Inr_iff split: if_splits)
      then show ?thesis
        using Cons.IH CheckRequirement_acts acts_trans by (metis sum.inject(2))
    next
      case False
      with Cons.prems True tag obtain s1 where
        "invoke_value env tag t vs config s = Inr s1" "run_items env config vs ns s1 = Inr s'"
        by (auto simp: bindr_Inr_iff)
      then show ?thesis using Cons.IH invoke_value_acts acts_trans by metis
    qed
  qed
qed simp

lemma RunInvoke_acts: "RunInvoke env ns command vs s = Inr s' \<Longrightarrow> acts s s'"
  by (induction ns)
    (auto simp: RunInvokeCommand_def dest: run_items_acts split: option.splits item.splits if_splits)

section \<open>The contract of a request handler\<close>

text \<open>
  Between requests no command is running, the flag of the peer says whether a password has been
  accepted, and the trace respects the policy.
\<close>

definition sane :: "senv \<Rightarrow> srv \<Rightarrow> bool" where
  "sane env s \<longleftrightarrow> (authenticated s \<longleftrightarrow> was_authenticated (s_trace s)) \<and> running (s_trace s) = None \<and>
     respects_policy env (s_peer s) (s_trace s)"

text \<open>The peer without its flags, which no request changes.\<close>

definition who :: "peer \<Rightarrow> peer" where
  "who p = p\<lparr>p_flags := 0\<rparr>"

definition request_step :: "senv \<Rightarrow> srv \<Rightarrow> srv \<Rightarrow> bool" where
  "request_step env s s' \<longleftrightarrow>
     suffix (s_input s') (s_input s) \<and> who (s_peer s') = who (s_peer s) \<and>
     (authenticated s \<longrightarrow> authenticated s') \<and> prefix (s_trace s) (s_trace s') \<and>
     (sane env s \<longrightarrow> sane env s')"

lemma who_simps:
  assumes "who p = who q"
  shows "p_user p = p_user q" "p_group p = p_group q" "p_exe p = p_exe q" "p_pid p = p_pid q"
    "p_uid p = p_uid q" "p_gid p = p_gid q"
  using assms by (cases p; cases q; simp add: who_def)+

lemma deciding_rules_who:
  assumes "who p = who q"
  shows "deciding_rules ns p c = deciding_rules ns q c"
  by (induction ns) (simp_all add: who_simps [OF assms] split: option.splits)

lemma rule_holds_who:
  assumes "who p = who q"
  shows "rule_holds p a n = rule_holds q a n"
  by (cases "rule_kind n") (simp_all add: rule_holds_def who_simps [OF assms])

lemma rules_permit_who:
  assumes "who p = who q"
  shows "rules_permit p a ns = rules_permit q a ns"
  by (simp add: rules_permit_def rule_holds_who [OF assms])

lemma policy_who:
  assumes "who p = who q"
  shows "policy env p tr c = policy env q tr c"
  by (simp add: policy_def deciding_rules_who [OF assms] rules_permit_who [OF assms] who_simps [OF assms])

lemma respects_who:
  assumes "who p = who q"
  shows "respects_policy env p tr = respects_policy env q tr"
  by (simp add: respects_policy_def event_ok_def policy_who [OF assms])

lemma request_step_refl [simp]: "request_step env s s"
  by (simp add: request_step_def)

lemma request_step_trans: "request_step env s1 s2 \<Longrightarrow> request_step env s2 s3 \<Longrightarrow> request_step env s1 s3"
  unfolding request_step_def by (auto intro: suffix_order.trans prefix_order.trans)

lemma request_step_message: "request_step env s (emit [ToClient m] s)"
proof -
  have "sane env (emit [ToClient m] s)" if "sane env s"
    using that plain_events [of "[ToClient m]" env "s_peer s" "s_trace s"]
    by (auto simp: sane_def authenticated_def)
  then show ?thesis by (auto simp: request_step_def authenticated_def)
qed

lemma request_step_input: "suffix r (s_input s) \<Longrightarrow> request_step env s (s\<lparr>s_input := r\<rparr>)"
  by (auto simp: request_step_def sane_def authenticated_def)

lemma acts_prefix: "acts s s' \<Longrightarrow> prefix (s_trace s) (s_trace s')"
  by (auto simp: acts_def)

text \<open>A granted command: the marker, the actions, the closing marker.\<close>

lemma granted_step:
  assumes "sane env s" "policy env (s_peer s) (s_trace s) command" "acts (emit [Granted command] s) s'"
  shows "sane env (emit [Finished] s')"
proof -
  let ?tr = "s_trace s @ [Granted command]"
  obtain evs where evs: "s_trace s' = ?tr @ evs" "\<forall>ev \<in> set evs. plain_event ev"
    and peer: "s_peer s' = s_peer s" using assms(3) by (auto simp: acts_def)
  have "event_ok env (s_peer s) (s_trace s) (Granted command)"
    using assms(1,2) by (auto simp: event_ok_def sane_def)
  then have 1: "respects_policy env (s_peer s) ?tr" "running ?tr = Some command"
    using assms(1) by (auto simp: respects_snoc sane_def)
  have "was_authenticated ?tr = was_authenticated (s_trace s)" by (simp add: was_authenticated_def)
  with plain_events [OF evs(2) 1(1)] 1(2) evs(1) have
    2: "respects_policy env (s_peer s) (s_trace s')" "was_authenticated (s_trace s') = was_authenticated (s_trace s)"
    by auto
  have "event_ok env (s_peer s) (s_trace s') Finished" by (simp add: event_ok_def)
  with 2 assms(1) peer show ?thesis
    by (auto simp: sane_def respects_snoc authenticated_def was_authenticated_def)
qed

locale request_handler =
  fixes env :: senv and h :: handler
  assumes handler_step: "h types s = Inr (again, s') \<Longrightarrow> request_step env s s'"
    and handler_reads: "h types s = Inr (True, s') \<Longrightarrow> length (s_input s') < length (s_input s)"
begin

lemma auth_loop_step: "auth_loop n (h types) s = Inr s' \<Longrightarrow> request_step env s s'"
proof (induction n arbitrary: s)
  case (Suc n)
  then obtain again s1 where "h types s = Inr (again, s1)"
    "(if again then auth_loop n (h types) s1 else Inr s1) = Inr s'"
    by (auto simp: bindr_Inr_iff)
  then show ?case
    using handler_step Suc.IH request_step_trans by (metis sum.inject(2))
qed simp

lemma CheckAuth_step:
  assumes "CheckAuth h types s = Inr (ok, s')"
  shows "request_step env s s' \<and> ok = authenticated s'"
proof (cases "authenticated s")
  case True
  with assms show ?thesis by (simp add: CheckAuth_def)
next
  case False
  with assms obtain
    "auth_loop (Suc (length (s_input s))) (h types) (emit [ToClient (''AUTH'' @ [LF])] s) = Inr s'"
    "ok = authenticated s'"
    by (auto simp: CheckAuth_def bindr_Inr_iff)
  with auth_loop_step request_step_message request_step_trans show ?thesis by blast
qed

lemma check_rule_step:
  assumes "check_rule h n result s = Inr (r, s')"
  shows "request_step env s s' \<and>
     r = (if rule_holds (s_peer s) (authenticated s') n then Some (result \<or> rule_kind n \<noteq> None) else None)"
proof -
  obtain tag where tag: "node_tag n = Some tag"
    using assms by (auto simp: check_rule_def split: option.splits)
  have kinds: "strcasecmp tag k = 0 \<longleftrightarrow> strlwr tag = k" if "k \<in> {''user'', ''group'', ''program'', ''auth''}" for k
  proof -
    have "map tolower k = k" using that by (auto simp: tolower_def isupper_def)
    then show ?thesis by (simp add: strcasecmp_0_iff strlwr_def)
  qed
  have item: "item_text (node_item n) = Inr t \<Longrightarrow> rule_text n = t" for t
    by (cases "node_item n") (auto simp: item_text_def rule_text_def)
  consider (user) "strlwr tag = ''user''" | (grp) "strlwr tag = ''group''" | (program) "strlwr tag = ''program''"
    | (auth) "strlwr tag = ''auth''" | (none) "strlwr tag \<notin> {''user'', ''group'', ''program'', ''auth''}"
    by blast
  then show ?thesis
  proof cases
    case auth
    with assms tag obtain t ok where "item_text (node_item n) = Inr t" "CheckAuth h t s = Inr (ok, s')"
      "r = (if ok then Some True else None)"
      by (auto simp: check_rule_def kinds bindr_Inr_iff)
    with CheckAuth_step auth tag show ?thesis by (auto simp: rule_holds_def rule_kind_def)
  qed (use assms tag item in \<open>auto simp: check_rule_def kinds bindr_Inr_iff rule_holds_def rule_kind_def\<close>)
qed

lemma rule_holds_mono: "rule_holds p a n \<Longrightarrow> (a \<longrightarrow> b) \<Longrightarrow> rule_holds p b n"
  by (auto simp: rule_holds_def split: option.splits if_splits)

lemma check_rules_step:
  "check_rules h ns result s = Inr (ok, s') \<Longrightarrow> request_step env s s' \<and>
     (ok \<longleftrightarrow> (\<forall>n \<in> set ns. rule_holds (s_peer s) (authenticated s') n) \<and>
        (result \<or> (\<exists>n \<in> set ns. rule_kind n \<noteq> None)))"
proof (induction ns arbitrary: result s)
  case (Cons n ns)
  then obtain r s1 where r: "check_rule h n result s = Inr (r, s1)"
    "(case r of None \<Rightarrow> Inr (False, s1) | Some result' \<Rightarrow> check_rules h ns result' s1) = Inr (ok, s')"
    by (auto simp: bindr_Inr_iff)
  note step = check_rule_step [OF r(1)]
  show ?case
  proof (cases "rule_holds (s_peer s) (authenticated s1) n")
    case False
    with step r(2) show ?thesis by auto
  next
    case True
    with step r(2) have "check_rules h ns (result \<or> rule_kind n \<noteq> None) s1 = Inr (ok, s')" by simp
    from Cons.IH [OF this] have IH: "request_step env s1 s'"
      "ok \<longleftrightarrow> (\<forall>n \<in> set ns. rule_holds (s_peer s1) (authenticated s') n) \<and>
        (result \<or> rule_kind n \<noteq> None \<or> (\<exists>n \<in> set ns. rule_kind n \<noteq> None))" by auto
    have who: "who (s_peer s1) = who (s_peer s)" using step by (simp add: request_step_def)
    have "rule_holds (s_peer s) (authenticated s') n"
      using rule_holds_mono [OF True] IH(1) by (auto simp: request_step_def)
    with IH step who show ?thesis
      using request_step_trans rule_holds_who [OF who] by auto
  qed
qed simp

text \<open>\<open>CheckPermission\<close> says yes iff the program has been granted the command or the rules permit it.\<close>

lemma CheckPermission_step:
  assumes "CheckPermission env h command rules s = Inr (ok, s')"
  shows "request_step env s s' \<and>
     (ok \<longleftrightarrow> db_check env (s_trace s) command (p_exe (s_peer s)) = Inr True \<or>
        rules_permit (s_peer s) (authenticated s') rules)"
proof -
  obtain granted where g: "db_check env (s_trace s) command (p_exe (s_peer s)) = Inr granted"
    "(if granted then Inr (True, s) else check_rules h rules False s) = Inr (ok, s')"
    using assms by (auto simp: CheckPermission_def bindr_Inr_iff)
  show ?thesis
  proof (cases granted)
    case True
    with g show ?thesis by simp
  next
    case False
    with g have "check_rules h rules False s = Inr (ok, s')" by simp
    with check_rules_step [OF this] g False show ?thesis by (auto simp: rules_permit_def)
  qed
qed

lemma find_permission_step:
  "find_permission env h command ns s = Inr (ok, s') \<Longrightarrow> request_step env s s' \<and>
     (ok \<longleftrightarrow> (\<exists>rules. deciding_rules ns (s_peer s) command = Some rules \<and>
        (db_check env (s_trace s) command (p_exe (s_peer s)) = Inr True \<or>
         rules_permit (s_peer s) (authenticated s') rules)))"
proof (induction ns)
  case (Cons n ns)
  then obtain tag where tag: "node_tag n = Some tag" by (auto split: option.splits)
  show ?case
  proof (cases "entry_matches (s_peer s) command tag")
    case False
    with Cons tag show ?thesis by (auto simp: entry_matches_def)
  next
    case True
    with Cons.prems tag obtain stag rules where
      "node_item n = Sub stag rules" "CheckPermission env h command rules s = Inr (ok, s')"
      by (auto split: item.splits)
    with CheckPermission_step tag True show ?thesis by (auto simp: entry_matches_def)
  qed
qed simp

lemma FindPermission_step:
  assumes "FindPermission env h command s = Inr (ok, s')"
  shows "request_step env s s' \<and> (ok \<and> sane env s \<longrightarrow> policy env (s_peer s') (s_trace s') command)"
proof -
  have f: "find_permission env h command (e_config env) s = Inr (ok, s')"
    using assms by (simp add: FindPermission_def)
  note step = find_permission_step [OF f]
  then have who: "who (s_peer s) = who (s_peer s')" and pre: "prefix (s_trace s) (s_trace s')"
    and sane: "sane env s \<longrightarrow> sane env s'" by (auto simp: request_step_def)
  have "policy env (s_peer s) (s_trace s') command" if "ok" "sane env s"
  proof -
    have "authenticated s' = was_authenticated (s_trace s')" using that(2) sane by (auto simp: sane_def)
    with step that(1) pre show ?thesis by (auto simp: policy_def)
  qed
  with step policy_who [OF who] show ?thesis by auto
qed

text \<open>Hence the branch a handler takes after a permission check.\<close>

lemma guarded_step:
  assumes "FindPermission env h command s = Inr (ok, s1)"
    and "(if ok then bindr (run (emit [Granted command] s1)) (\<lambda>s2. Inr (emit [Finished] s2)) else Inr (deny s1)) = Inr s'"
    and "\<And>s2. run (emit [Granted command] s1) = Inr s2 \<Longrightarrow> acts (emit [Granted command] s1) s2"
  shows "request_step env s s'"
proof (cases ok)
  case False
  then have "s' = emit [ToClient (''FAIL: Not authorized'' @ [LF])] s1"
    using assms(2) by (simp add: deny_def)
  with FindPermission_step [OF assms(1)] request_step_message request_step_trans show ?thesis
    by blast
next
  case True
  then obtain s2 where s2: "run (emit [Granted command] s1) = Inr s2" "s' = emit [Finished] s2"
    using assms(2) by (auto simp: bindr_Inr_iff)
  note perm = FindPermission_step [OF assms(1)] and a = assms(3) [OF s2(1)]
  have "request_step env s s1" using perm by blast
  moreover have "sane env s'" if "sane env s"
    using granted_step [OF _ _ a] perm True that s2(2) by (simp add: request_step_def)
  moreover have "suffix (s_input s') (s_input s1)" "s_peer s' = s_peer s1"
    using a s2(2) by (simp_all add: acts_def)
  moreover have "prefix (s_trace s1) (s_trace s')"
    using acts_prefix [OF a] s2(2) by (auto simp: prefix_def)
  ultimately show ?thesis
    unfolding request_step_def authenticated_def
    by (metis suffix_order.trans prefix_order.trans)
qed

lemma HandleExec_step:
  assumes "HandleExec env h details s = Inr s'"
  shows "request_step env s s'"
proof -
  obtain ptr command where G: "GetToken details WS_PATTERN 0 = (ptr, command)" by fastforce
  with assms obtain ok s1 where "FindPermission env h command s = Inr (ok, s1)"
    "(if ok then bindr (RunCommand env details [] None (emit [Granted command] s1))
        (\<lambda>s2. Inr (emit [Finished] s2)) else Inr (deny s1)) = Inr s'"
    by (auto simp: HandleExec_def bindr_Inr_iff)
  then show ?thesis by (rule guarded_step) (rule RunCommand_acts)
qed

lemma HandleInvoke_step:
  assumes "HandleInvoke env h details s = Inr s'"
  shows "request_step env s s'"
proof -
  obtain command vs ok s1 where "FindPermission env h command s = Inr (ok, s1)"
    "(if ok then bindr (RunInvoke env (e_config env) command vs (emit [Granted command] s1))
        (\<lambda>s2. Inr (emit [Finished] s2)) else Inr (deny s1)) = Inr s'"
    using assms by (auto simp: HandleInvoke_def bindr_Inr_iff)
  then show ?thesis by (rule guarded_step) (rule RunInvoke_acts)
qed

end

section \<open>The handlers of the program satisfy it\<close>

lemma hasflag_authenticated [simp]: "hasflag PEER_AUTHENTICATED PEER_AUTHENTICATED"
  by (simp add: hasflag_def PEER_AUTHENTICATED_def)

lemma accept_step:
  assumes "sane env s"
  shows "sane env (emit [AuthAccepted, ToClient m]
     (s\<lparr>s_peer := (s_peer s)\<lparr>p_flags := or (p_flags (s_peer s)) PEER_AUTHENTICATED\<rparr>\<rparr>))"
proof -
  let ?p = "(s_peer s)\<lparr>p_flags := or (p_flags (s_peer s)) PEER_AUTHENTICATED\<rparr>"
  have who: "who ?p = who (s_peer s)" by (simp add: who_def)
  have "event_ok env (s_peer s) (s_trace s) AuthAccepted"
    "event_ok env (s_peer s) (s_trace s @ [AuthAccepted]) (ToClient m)"
    by (simp_all add: event_ok_def)
  then have "respects_policy env (s_peer s) ((s_trace s @ [AuthAccepted]) @ [ToClient m])"
    "running ((s_trace s @ [AuthAccepted]) @ [ToClient m]) = None"
    using assms unfolding sane_def respects_snoc by auto
  moreover have "s_trace s @ [AuthAccepted, ToClient m] = (s_trace s @ [AuthAccepted]) @ [ToClient m]" by simp
  ultimately have "respects_policy env (s_peer s) (s_trace s @ [AuthAccepted, ToClient m])"
    "running (s_trace s @ [AuthAccepted, ToClient m]) = None" by metis+
  then show ?thesis
    using respects_who [OF who] by (auto simp: sane_def authenticated_def was_authenticated_def)
qed

lemma auth_outcome_step: "request_step env s ((auth_outcome verdict s)\<lparr>s_pam := h2\<rparr>)"
proof -
  have pam: "request_step env s s1 \<Longrightarrow> request_step env s (s1\<lparr>s_pam := h2\<rparr>)" for s1
    by (simp add: request_step_def sane_def authenticated_def)
  show ?thesis
  proof (cases "verdict = 0")
    case True
    with pam request_step_message show ?thesis by (simp add: auth_outcome_def)
  next
    case False
    have "request_step env s (auth_outcome verdict s)"
      using False accept_step [of env s]
      by (auto simp: request_step_def auth_outcome_def who_def authenticated_def)
    with pam show ?thesis by blast
  qed
qed

lemma HandleClientAuth_step:
  assumes "HandleClientAuth env details types s = Inr s'"
  shows "request_step env s s'"
proof -
  obtain verdict h2 where "s' = (auth_outcome verdict s)\<lparr>s_pam := h2\<rparr>"
    using assms by (auto simp: HandleClientAuth_def bindr_Inr_iff)
  then show ?thesis using auth_outcome_step by simp
qed

lemma dispatch_step:
  assumes "request_handler env h" "dispatch env h token ptr types s = Inr s'"
  shows "request_step env s s'"
  using assms(2) HandleClientAuth_step request_handler.HandleExec_step [OF assms(1)]
    request_handler.HandleInvoke_step [OF assms(1)]
  by (auto simp: dispatch_def split: if_splits)

lemma handle_request_handler:
  assumes "request_handler env h"
  shows "request_handler env (handle_request env h)"
proof
  fix types s again s' assume A: "handle_request env h types s = Inr (again, s')"
  obtain line rest where L: "read_line (s_input s) = (line, rest)" by fastforce
  have inp: "request_step env s (s\<lparr>s_input := rest\<rparr>)"
    using request_step_input read_line_suffix [OF L] by blast
  show "request_step env s s'"
  proof (cases "StripTrailingWhitespace (CopyStr line) = []")
    case True
    with A L inp show ?thesis by (simp add: handle_request_def)
  next
    case False
    obtain ptr token where
      "GetToken (Some (StripTrailingWhitespace (CopyStr line))) REQUEST_PATTERN GETTOKEN_MULTI_SEP = (ptr, token)"
      by fastforce
    with A L False have "dispatch env h token ptr types (s\<lparr>s_input := rest\<rparr>) = Inr s'"
      by (simp add: handle_request_def bindr_Inr_iff)
    with dispatch_step [OF assms] inp request_step_trans show ?thesis by blast
  qed
next
  fix types s s' assume A: "handle_request env h types s = Inr (True, s')"
  obtain line rest where L: "read_line (s_input s) = (line, rest)" by fastforce
  have False: "StripTrailingWhitespace (CopyStr line) \<noteq> []"
    using A L by (auto simp: handle_request_def)
  obtain ptr token where
    "GetToken (Some (StripTrailingWhitespace (CopyStr line))) REQUEST_PATTERN GETTOKEN_MULTI_SEP = (ptr, token)"
    by fastforce
  with A L False have "dispatch env h token ptr types (s\<lparr>s_input := rest\<rparr>) = Inr s'"
    by (simp add: handle_request_def bindr_Inr_iff)
  from dispatch_step [OF assms this] have "suffix (s_input s') rest" by (simp add: request_step_def)
  moreover obtain l where "line = Some l"
    using False by (cases line) (auto simp: StripTrailingWhitespace_def)
  ultimately show "length (s_input s') < length (s_input s)"
    using read_line_shorter L suffix_length_le by (metis le_less_trans)
qed

lemma HandleClientRequest_handler: "request_handler env (HandleClientRequest n env)"
proof (induction n)
  case 0
  show ?case by unfold_locales simp_all
next
  case (Suc n)
  then show ?case using handle_request_handler by simp
qed

interpretation client_request: request_handler env "HandleClientRequest n env" for env n
  by (rule HandleClientRequest_handler)

section \<open>A client\<close>

text \<open>\<open>GetPeerInfo\<close> clears the flags of the peer.\<close>

lemma start_sane: "p_flags p = 0 \<Longrightarrow> sane env (start_state p input)"
  by (simp add: sane_def start_state_def authenticated_def was_authenticated_def)

lemma HandleClient_step:
  assumes "HandleClient env p input = Inr s" "p_flags p = 0"
  shows "sane env s \<and> who (s_peer s) = who p"
proof -
  obtain b where "HandleClientRequest (Suc (length input)) env [] (start_state p input) = Inr (b, s)"
    using assms(1) by (auto simp: HandleClient_def bindr_Inr_iff)
  with client_request.handler_step start_sane [OF assms(2)] show ?thesis
    unfolding request_step_def start_state_def by fastforce
qed

lemma HandleClient_policy:
  assumes "HandleClient env p input = Inr s" "p_flags p = 0"
  shows "respects_policy env p (s_trace s)"
proof -
  have "respects_policy env (s_peer s) (s_trace s)" "who (s_peer s) = who p"
    using HandleClient_step [OF assms] by (simp_all add: sane_def)
  with respects_who show ?thesis by blast
qed

text \<open>A reading of it: whatever is spawned belongs to a command that was allowed before.\<close>

lemma running_granted:
  "running tr = Some c \<Longrightarrow> \<exists>before after. tr = before @ Granted c # after \<and> (\<forall>ev \<in> set after. ev \<noteq> Finished)"
proof (induction tr rule: rev_induct)
  case (snoc ev tr)
  show ?case
  proof (cases "ev = Granted c")
    case True
    then show ?thesis by (intro exI [of _ tr] exI [of _ "[]"]) simp
  next
    case False
    with snoc.prems have "running tr = Some c" "ev \<noteq> Finished" by (cases ev; simp)+
    with snoc.IH obtain before after where
      "tr = before @ Granted c # after" "\<forall>ev \<in> set after. ev \<noteq> Finished" by blast
    with \<open>ev \<noteq> Finished\<close> show ?thesis by (intro exI [of _ before] exI [of _ "after @ [ev]"]) simp
  qed
qed simp

lemma respects_policy_privileged:
  assumes "respects_policy env p tr" "ev \<in> set tr" "privileged ev"
  shows "\<exists>before c between after. tr = before @ Granted c # between @ ev # after \<and> policy env p before c \<and>
     (\<forall>e \<in> set between. e \<noteq> Finished)"
proof -
  obtain pre after where tr: "tr = pre @ ev # after" using assms(2) by (meson split_list)
  with assms(1,3) obtain c where "running pre = Some c"
    unfolding respects_policy_def event_ok_def by blast
  then obtain before between where pre: "pre = before @ Granted c # between" "\<forall>e \<in> set between. e \<noteq> Finished"
    using running_granted by blast
  have "event_ok env p before (Granted c)"
    using assms(1) tr pre(1) unfolding respects_policy_def by simp
  then have "policy env p before c" by (simp add: event_ok_def)
  with tr pre show ?thesis by auto
qed

end
