(* ===== verification/ServerTermination.thy ===== *)
theory ServerTermination
  imports ServerSafety
begin

text \<open>
  Every request ends: with the number of unread bytes plus one as fuel no run of the server stops
  for lack of fuel.  The result may still be one of the other faults, or \<open>Exited\<close>.
\<close>

named_theorems fuelled \<open>operations that never run out of fuel\<close>

lemma bindr_fuelled:
  "m \<noteq> Inl OutOfFuel \<Longrightarrow> (\<And>x. m = Inr x \<Longrightarrow> f x \<noteq> Inl OutOfFuel) \<Longrightarrow> bindr m f \<noteq> Inl OutOfFuel"
  by (cases m) auto

section \<open>Lookups\<close>

lemma item_text_fuelled [fuelled]: "item_text i \<noteq> Inl OutOfFuel"
  by (cases i) (auto simp: item_text_def)

lemma place_step_fault: "place_step pl t = Inl e \<Longrightarrow> e = TypeConfusion"
proof (cases pl)
  case (AtList xs)
  assume "place_step pl t = Inl e"
  with AtList find_node_total [of xs t] show ?thesis by (auto simp: place_step_def)
next
  case (AtNode n)
  assume A: "place_step pl t = Inl e"
  show ?thesis
  proof (cases "node_item n")
    case (Sub tag xs)
    with A AtNode find_node_total [of xs t] show ?thesis by (auto simp: place_step_def split: if_splits)
  next
    case (Text x)
    with A AtNode show ?thesis by (auto simp: place_step_def split: if_splits)
  qed
qed

lemma find_item_loop_fuelled: "find_item_loop p pl \<noteq> Inl OutOfFuel"
proof (induction p pl rule: find_item_loop.induct)
  case (1 p pl)
  obtain q t where G: "GetToken p ''/'' 0 = (q, t)" by fastforce
  show ?case
  proof (cases q)
    case None
    with G show ?thesis by (simp add: find_item_loop.simps [of p])
  next
    case (Some r)
    show ?thesis
    proof (cases "place_step pl t")
      case (Inl e)
      with G Some place_step_fault [OF Inl] show ?thesis by (simp add: find_item_loop.simps [of p])
    next
      case (Inr o1)
      show ?thesis
      proof (cases o1)
        case None
        with G Some Inr show ?thesis by (simp add: find_item_loop.simps [of p])
      next
        case (Some pl')
        with G \<open>q = Some r\<close> Inr "1.IH" [OF G [symmetric] \<open>q = Some r\<close> Inr Some] show ?thesis
          by (simp add: find_item_loop.simps [of p])
      qed
    qed
  qed
qed

lemma ParserOpenItem_fuelled [fuelled]: "ParserOpenItem items name \<noteq> Inl OutOfFuel"
proof -
  have "ParserFindItem items name \<noteq> Inl OutOfFuel"
    using find_item_loop_fuelled by (simp add: ParserFindItem_def Let_def)
  then show ?thesis
    by (auto simp: ParserOpenItem_def bindr_Inl_iff split: option.splits place.splits item.splits if_splits)
qed

section \<open>The actions\<close>

lemma AppDBCheck_fuelled [fuelled]: "AppDBCheck db statf hashf c path \<noteq> Inl OutOfFuel"
proof -
  have entry: "AppDBCheckEntry e c path sz hashf \<noteq> Inl OutOfFuel" for e sz
    by (auto simp: AppDBCheckEntry_def split: option.splits)
  have parse: "AppDBParseEntry l \<noteq> Inl OutOfFuel" for l
    by (simp add: AppDBParseEntry_def)
  have "check_lines ls c path sz hashf \<noteq> Inl OutOfFuel" for ls sz
    by (induction ls) (auto simp: bindr_Inl_iff entry parse split: if_splits)
  then show ?thesis by (auto simp: AppDBCheck_def split: option.splits)
qed

lemma GetVar_fuelled [fuelled]: "vars_ok vs \<Longrightarrow> GetVar vs n \<noteq> Inl OutOfFuel"
  by (simp add: GetVar_find)

lemma expect_items_fuelled: "vars_ok vs \<Longrightarrow> expect_items vs ds ns \<noteq> Inl OutOfFuel"
proof (induction ns arbitrary: ds)
  case (Cons n ns)
  have "expect_item vs ds n \<noteq> Inl OutOfFuel"
    using SubstituteVarsInString_fuel [OF Cons.prems] item_text_fuelled
    by (auto simp: expect_item_def Let_def bindr_Inl_iff split: option.splits prod.splits)
  with Cons show ?case by (auto simp: bindr_Inl_iff)
qed simp

lemma ProcessExpect_fuelled [fuelled]: "vars_ok vs \<Longrightarrow> ProcessExpect reads name vs config timeout \<noteq> Inl OutOfFuel"
  unfolding ProcessExpect_def
  by (intro bindr_fuelled ParserOpenItem_fuelled expect_items_fuelled) (simp_all split: prod.splits)

lemma run_spawn_fuelled: "vars_ok vs \<Longrightarrow> run_spawn env o1 vs config s \<noteq> Inl OutOfFuel"
proof -
  assume "vars_ok vs"
  then have "run_expect reads name vs config timeout \<noteq> Inl OutOfFuel" for reads name timeout
    using ProcessExpect_fuelled by (auto simp: run_expect_def split: option.splits prod.splits)
  then show ?thesis
    by (auto simp: run_spawn_def Let_def bindr_Inl_iff split: prod.splits if_splits)
qed

lemma RunCommand_fuelled [fuelled]: "vars_ok vs \<Longrightarrow> RunCommand env details vs config s \<noteq> Inl OutOfFuel"
  using SubstituteVarsInString_fuel GetVar_fuelled run_spawn_fuelled
  by (auto simp: RunCommand_def Let_def bindr_Inl_iff split: prod.splits if_splits)

lemma Bookout_fuelled: "vars_ok vs \<Longrightarrow> BookoutFileToClient env t vs s \<noteq> Inl OutOfFuel"
  using SubstituteVarsInString_fuel
  by (auto simp: BookoutFileToClient_def bindr_Inl_iff split: option.splits if_splits)

lemma Bookin_fuelled: "vars_ok vs \<Longrightarrow> BookinFileFromClient env t vs s \<noteq> Inl OutOfFuel"
proof -
  assume "vars_ok vs"
  moreover have "bookin_receive env p s1 \<noteq> Inl OutOfFuel" for p s1
    by (auto simp: bookin_receive_def Let_def split: prod.splits option.splits)
  ultimately show ?thesis
    using SubstituteVarsInString_fuel
    by (auto simp: BookinFileFromClient_def bindr_Inl_iff split: if_splits)
qed

lemma invoke_value_fuelled: "vars_ok vs \<Longrightarrow> invoke_value env tag t vs config s \<noteq> Inl OutOfFuel"
  using RunCommand_fuelled Bookin_fuelled Bookout_fuelled
  by (auto simp: invoke_value_def bindr_Inl_iff SwitchUser_def SwitchUID_def SwitchGroup_def SwitchGID_def
      Let_def split: if_splits)

lemma CheckRequirement_vars:
  "vars_ok vs \<Longrightarrow> CheckRequirement env t vs s \<noteq> Inl OutOfFuel \<and>
     (CheckRequirement env t vs s = Inr (ok, vs', s') \<longrightarrow> vars_ok vs')"
  using SetVar_ok [of vs "''InvokeMaxArgLen''"]
  by (auto simp: CheckRequirement_def Let_def bindr_Inl_iff bindr_Inr_iff split: prod.splits if_splits;
      metis sum.distinct(1) sum.inject(2))

lemma run_items_fuelled: "vars_ok vs \<Longrightarrow> run_items env config vs ns s \<noteq> Inl OutOfFuel"
proof (induction ns arbitrary: vs s)
  case (Cons n ns)
  show ?case
  proof (cases "ParserItemIsValue n")
    case False
    with Cons show ?thesis by simp
  next
    case True
    show ?thesis
    proof (cases "node_tag n")
      case None
      with True show ?thesis by simp
    next
      case (Some tag)
      have req: "bindr (CheckRequirement env t vs s)
          (\<lambda>(ok, vs', s'). if \<not> ok then Inr s' else run_items env config vs' ns s') \<noteq> Inl OutOfFuel" for t
        using CheckRequirement_vars [OF Cons.prems] Cons.IH
        by (intro bindr_fuelled) (auto split: prod.splits)
      have act: "bindr (invoke_value env tag t vs config s) (\<lambda>s'. run_items env config vs ns s') \<noteq> Inl OutOfFuel" for t
        using invoke_value_fuelled [OF Cons.prems] Cons.IH [OF Cons.prems] by (intro bindr_fuelled) auto
      show ?thesis
        using True Some req act by (auto simp: bindr_Inl_iff item_text_fuelled split: if_splits)
    qed
  qed
qed simp

lemma RunInvoke_fuelled [fuelled]: "vars_ok vs \<Longrightarrow> RunInvoke env ns c vs s \<noteq> Inl OutOfFuel"
  by (induction ns)
    (auto simp: RunInvokeCommand_def run_items_fuelled split: option.splits item.splits)

lemma invoke_vars_ok: "\<exists>vs. invoke_vars p pairs = Inr vs \<and> vars_ok vs"
  using var_list.run_sets_total [of "[]"] by (simp add: invoke_vars_def set_vars_run)

section \<open>The recursion\<close>

text \<open>A handler that has fuel for fewer than \<open>n\<close> unread bytes.\<close>

definition fuel_for :: "nat \<Rightarrow> handler \<Rightarrow> bool" where
  "fuel_for n h \<longleftrightarrow> (\<forall>types s. length (s_input s) < n \<longrightarrow> h types s \<noteq> Inl OutOfFuel)"

context request_handler begin

lemma auth_loop_fuelled:
  "fuel_for n h \<Longrightarrow> length (s_input s) < n \<Longrightarrow> length (s_input s) < m \<Longrightarrow>
     auth_loop m (h types) s \<noteq> Inl OutOfFuel"
proof (induction m arbitrary: s)
  case (Suc m)
  have "auth_loop m (h types) s' \<noteq> Inl OutOfFuel" if "h types s = Inr (True, s')" for s'
    using handler_reads [OF that] Suc.IH [OF Suc.prems(1)] Suc.prems(2,3) by simp
  with Suc.prems(1,2) show ?case
    by (auto simp: fuel_for_def bindr_Inl_iff split: if_splits)
qed simp

lemma CheckAuth_fuelled:
  "fuel_for n h \<Longrightarrow> length (s_input s) < n \<Longrightarrow> CheckAuth h types s \<noteq> Inl OutOfFuel"
  using auth_loop_fuelled [of n "emit [ToClient (''AUTH'' @ [LF])] s"]
  by (simp add: CheckAuth_def bindr_Inl_iff del: auth_loop.simps)

lemma check_rule_fuelled:
  "fuel_for n h \<Longrightarrow> length (s_input s) < n \<Longrightarrow> check_rule h r b s \<noteq> Inl OutOfFuel"
  using CheckAuth_fuelled
  by (auto simp: check_rule_def bindr_Inl_iff item_text_fuelled split: option.splits if_splits)

lemma check_rules_fuelled:
  "fuel_for n h \<Longrightarrow> length (s_input s) < n \<Longrightarrow> check_rules h ns b s \<noteq> Inl OutOfFuel"
proof (induction ns arbitrary: b s)
  case (Cons r ns)
  have "check_rules h ns b' s' \<noteq> Inl OutOfFuel" if "check_rule h r b s = Inr (v, s')" for b' v s'
  proof -
    have "suffix (s_input s') (s_input s)" using check_rule_step [OF that] by (simp add: request_step_def)
    with Cons.prems show ?thesis
      using Cons.IH suffix_length_le by (metis le_less_trans)
  qed
  with check_rule_fuelled [OF Cons.prems] show ?case
    by (auto simp: bindr_Inl_iff split: option.splits)
qed simp

lemma FindPermission_fuelled:
  assumes "fuel_for n h" "length (s_input s) < n"
  shows "FindPermission env h c s \<noteq> Inl OutOfFuel"
proof -
  have check: "CheckPermission env h c rules s \<noteq> Inl OutOfFuel" for rules
    using check_rules_fuelled [OF assms] AppDBCheck_fuelled
    by (auto simp: CheckPermission_def db_check_def bindr_Inl_iff)
  have "find_permission env h c ns s \<noteq> Inl OutOfFuel" for ns
    by (induction ns) (auto simp: check split: option.splits item.splits)
  then show ?thesis by (simp add: FindPermission_def)
qed

lemma HandleExec_fuelled:
  assumes "fuel_for n h" "length (s_input s) < n"
  shows "HandleExec env h details s \<noteq> Inl OutOfFuel"
  using FindPermission_fuelled [OF assms] RunCommand_fuelled [OF vars_ok_Nil]
  by (auto simp: HandleExec_def bindr_Inl_iff split: prod.splits if_splits)

lemma HandleInvoke_fuelled:
  assumes "fuel_for n h" "length (s_input s) < n"
  shows "HandleInvoke env h details s \<noteq> Inl OutOfFuel"
proof -
  have inv: "invoke_vars p pairs \<noteq> Inl OutOfFuel" "invoke_vars p pairs = Inr vs \<Longrightarrow> vars_ok vs" for p pairs vs
    using invoke_vars_ok [of p pairs] by auto
  have sk: "invoke_details details \<noteq> Inl OutOfFuel"
    by (auto simp: invoke_details_def skip_space_def split: option.splits prod.splits)
  show ?thesis
    using FindPermission_fuelled [OF assms] RunInvoke_fuelled inv sk
    by (auto simp: HandleInvoke_def bindr_Inl_iff split: prod.splits if_splits)
qed

lemma dispatch_fuelled:
  assumes "fuel_for n h" "length (s_input s) < n"
  shows "dispatch env h token ptr types s \<noteq> Inl OutOfFuel"
proof -
  have "AuthPAM hp lib t u pw ph \<noteq> Inl OutOfFuel" "AuthPAMClose hp ph \<noteq> Inl OutOfFuel" for hp lib t u pw ph
    by (auto simp: AuthPAM_def AuthPAMClose_def pam_end_def pam_authenticate_def bindr_Inl_iff
        split: pam_handle.splits prod.splits if_splits)
  then have "HandleClientAuth env ptr types s \<noteq> Inl OutOfFuel"
    by (auto simp: HandleClientAuth_def Let_def bindr_Inl_iff)
  then show ?thesis
    using HandleExec_fuelled [OF assms] HandleInvoke_fuelled [OF assms] by (simp add: dispatch_def)
qed

lemma handle_request_fuel_for:
  assumes "fuel_for n h"
  shows "fuel_for (Suc n) (handle_request env h)"
  unfolding fuel_for_def
proof (intro allI impI)
  fix types and s :: srv assume len: "length (s_input s) < Suc n"
  obtain line rest where L: "read_line (s_input s) = (line, rest)" by fastforce
  show "handle_request env h types s \<noteq> Inl OutOfFuel"
  proof (cases line)
    case None
    with L show ?thesis by (simp add: handle_request_def StripTrailingWhitespace_def)
  next
    case (Some l)
    with read_line_shorter L len have "length (s_input (s\<lparr>s_input := rest\<rparr>)) < n" by fastforce
    from dispatch_fuelled [OF assms this] L show ?thesis
      by (auto simp: handle_request_def Let_def bindr_Inl_iff split: prod.splits)
  qed
qed

end

lemma HandleClientRequest_fuel_for: "fuel_for n (HandleClientRequest n env)"
proof (induction n)
  case 0
  show ?case by (simp add: fuel_for_def)
next
  case (Suc n)
  then show ?case
    using request_handler.handle_request_fuel_for [OF HandleClientRequest_handler] by simp
qed

lemma HandleClient_fuel: "HandleClient env p input \<noteq> Inl OutOfFuel"
proof -
  have "HandleClientRequest (Suc (length input)) env [] (start_state p input) \<noteq> Inl OutOfFuel"
    using HandleClientRequest_fuel_for [of "Suc (length input)" env]
    unfolding fuel_for_def by (simp add: start_state_def)
  then show ?thesis by (auto simp: HandleClient_def bindr_Inl_iff)
qed

lemma serve_fuel: "serve env conf p input \<noteq> Inl OutOfFuel"
  using ParserParseConfig_total [of conf] HandleClient_fuel by (auto simp: serve_def)

end
