(* ===== verification/Samples.thy ===== *)
theory Samples
  imports Server
begin

text \<open>
  A small world in which the witnesses of the server's properties are evaluated: every file is
  readable and seven bytes long, every command can be started, \<open>root\<close> is the only user, PAM knows
  every service and refuses every password, and there is no grant database.
\<close>

definition sample_env :: senv where
  "sample_env =
     \<lparr>e_config = [], e_have_pam = True,
      e_pam = (\<lambda>tr. \<lparr>pam_start_ok = (\<lambda>service user. True), pam_auth_ok = (\<lambda>service user pass. False),
                    pam_acct_ok = (\<lambda>service user. True)\<rparr>),
      e_appdb = (\<lambda>tr. None), e_stat = (\<lambda>tr path. Some \<lparr>st_size = 7, st_dir = False, st_reg = True\<rparr>),
      e_hash = (\<lambda>tr path. Some ''abc''), e_exists = (\<lambda>tr path. False), e_open_lock = (\<lambda>tr path. -1),
      e_flock = (\<lambda>tr path. True), e_can_read = (\<lambda>tr path. True), e_can_write = (\<lambda>tr path. True),
      e_lookup_uid = (\<lambda>name. if name = ''root'' then 0 else -1), e_lookup_gid = (\<lambda>name. -1),
      e_set_ids = (\<lambda>tr id. True), e_allow_fail = False, e_spawn_ok = (\<lambda>tr cmd caps. True),
      e_output = (\<lambda>tr. [])\<rparr>"

definition bob :: peer where
  "bob = GetPeerInfo 12 1000 100 (\<lambda>u. ''bob'') (\<lambda>g. ''users'') (\<lambda>path. ''/usr/bin/vi'') (\<lambda>path. [])"

lemma bob_flags: "p_flags bob = 0"
  by (simp add: bob_def GetPeerInfo_def)

definition ping_config :: string where
  "ping_config = ''ping'' @ [LF] @ ''{'' @ [LF] @ ''user bob'' @ [LF] @
     ''run '' @ [DQ] @ ''/bin/ping $(host)'' @ [DQ] @ [LF] @ ''}'' @ [LF]"

definition ping_request :: string where
  "ping_request = ''INVOKE ping host=example.org'' @ [LF]"

lemma ping_trace:
  "\<exists>items s. ParserParseConfig ping_config = Inr items \<and> serve sample_env ping_config bob ping_request = Inr s \<and>
     s_trace s = [Granted ''ping'', Spawned ''/bin/ping example.org'' [],
       ToClient (''OKAY: Command output follows'' @ [LF]), OutputToClient, Finished]"
proof -
  have "case serve sample_env ping_config bob ping_request of Inr s \<Rightarrow>
     s_trace s = [Granted ''ping'', Spawned ''/bin/ping example.org'' [],
       ToClient (''OKAY: Command output follows'' @ [LF]), OutputToClient, Finished] | Inl _ \<Rightarrow> False"
    by code_simp
  then obtain s where s: "serve sample_env ping_config bob ping_request = Inr s"
    "s_trace s = [Granted ''ping'', Spawned ''/bin/ping example.org'' [],
       ToClient (''OKAY: Command output follows'' @ [LF]), OutputToClient, Finished]"
    by (cases "serve sample_env ping_config bob ping_request") simp_all
  from s(1) obtain items where "ParserParseConfig ping_config = Inr items"
    by (auto simp: serve_def bindr_Inr_iff)
  with s show ?thesis by blast
qed

end
