(* ===== verification/ServerHoles.thy ===== *)
theory ServerHoles
  imports ServerSafety Samples
begin

text \<open>
  What the requirements of an entry guard and what they do not, and two ways around the restrictions of an entry: an
  entry for the program of the peer, and the words of an \<open>EXEC\<close> request.  Each is shown for all configurations, peers
  and requests of its kind.
\<close>

section \<open>Requirements\<close>

text \<open>C14: the requirements at the beginning of an entry are asked in their order, each when the locks before it have been tried
  and nothing else has been done.  If none refuses, the rest of the entry is run; else the entry ends at the first that
  refuses, and nothing but those attempts has happened.  What refuses is said by \<open>requirement_refuses\<close>: a file that
  is not as it should be, but no lock that could not be taken, and no other keyword.\<close>

theorem leading_requirements_guard:
  assumes "vars_ok vs" "\<forall>n \<in> set reqs. is_require n" "map node_item reqs = map Text ts"
  shows "(\<forall>i < length ts. \<not> requirement_refuses env (s_trace s @ locks (take i ts)) (ts ! i)) \<and>
       (\<exists>vs'. vars_ok vs' \<and> run_items env config vs (reqs @ rest) s = run_items env config vs' rest (emit (locks ts) s)) \<or>
     (\<exists>i < length ts. requirement_refuses env (s_trace s @ locks (take i ts)) (ts ! i) \<and>
        (\<forall>j < i. \<not> requirement_refuses env (s_trace s @ locks (take j ts)) (ts ! j)) \<and>
        run_items env config vs (reqs @ rest) s = Inr (emit (locks (take (Suc i) ts)) s))"
  using assms by (rule run_requires)

theorem leading_requirements_guard_witness:
  "run_items sample_env [] [] ([Node (Some ''require'') 1 (Text ''lock /run/l''), Node (Some ''require'') 1 (Text ''exists /run/x'')]
       @ [Node (Some ''clientrun'') 1 (Text ''ls'')]) (start_state bob []) =
     Inr (emit [LockTaken ''/run/l''] (start_state bob []))"
proof -
  let ?reqs = "[Node (Some ''require'') 1 (Text ''lock /run/l''), Node (Some ''require'') 1 (Text ''exists /run/x'')]"
  let ?ts = "[''lock /run/l'', ''exists /run/x'']"
  have "\<forall>n \<in> set ?reqs. is_require n" by (simp add: is_require_def ParserItemIsValue_def item_types)
  moreover have ref: "\<not> requirement_refuses sample_env [] (?ts ! 0)"
      "requirement_refuses sample_env [LockTaken ''/run/l''] (?ts ! 1)"
      "lock_events (?ts ! 0) = [LockTaken ''/run/l'']" "lock_events (?ts ! 1) = []" by code_simp+
  ultimately show ?thesis
    using leading_requirements_guard [of "[]" ?reqs ?ts sample_env "start_state bob []" "[]"
        "[Node (Some ''clientrun'') 1 (Text ''ls'')]"]
    by (auto simp: start_state_def less_Suc_eq nth_Cons')
qed

text \<open>C15: a requirement whose keyword is not one of the five that are implemented, like \<open>peer-sha256\<close> of the README, and a
  lock that cannot be opened or is held by somebody else, do not stop an entry.\<close>

theorem failed_locks_and_unknown_requirements_pass:
  assumes "is_require n" "node_item n = Text t" "GetToken (Some t) WS_PATTERN 0 = (ptr, ty)"
    and "\<forall>k \<in> {''absent'', ''exists'', ''directory'', ''arglen''}. strcasecmp ty k \<noteq> 0"
    and "strcasecmp ty ''lock'' = 0 \<longrightarrow> e_open_lock env (s_trace s) (CopyStr ptr) < 0 \<or> \<not> e_flock env (s_trace s) (CopyStr ptr)"
  shows "run_items env config vs (n # ns) s = run_items env config vs ns (emit (lock_events t) s)"
proof -
  have "CheckRequirement env t vs s = Inr (True, vs, emit (lock_events t) s)"
    using assms(3-5) by (auto simp: CheckRequirement_def lock_events_def CreateLockFile_def Let_def)
  then show ?thesis using assms(1,2) by (auto simp: is_require_def item_text_def)
qed

theorem failed_locks_and_unknown_requirements_pass_witness:
  "run_items sample_env [] [] [Node (Some ''require'') 1 (Text ''peer-sha256 abc'')] (start_state bob []) =
     Inr (start_state bob [])"
proof -
  have g: "GetToken (Some ''peer-sha256 abc'') WS_PATTERN 0 = (Some ''abc'', ''peer-sha256'')"
    "\<forall>k \<in> {''absent'', ''exists'', ''directory'', ''arglen''}. strcasecmp ''peer-sha256'' k \<noteq> 0"
    "strcasecmp ''peer-sha256'' ''lock'' \<noteq> 0" "lock_events ''peer-sha256 abc'' = []" by code_simp+
  show ?thesis
    using failed_locks_and_unknown_requirements_pass [of "Node (Some ''require'') 1 (Text ''peer-sha256 abc'')"
        "''peer-sha256 abc''" "Some ''abc''" "''peer-sha256''" sample_env "start_state bob []" "[]" "[]" "[]"] g
    by (simp add: is_require_def ParserItemIsValue_def item_types)
qed

section \<open>An entry for the program\<close>

text \<open>Items whose check does not ask the client for a password.\<close>

definition plain_rule :: "node \<Rightarrow> bool" where
  "plain_rule n \<longleftrightarrow> node_tag n \<noteq> None \<and> rule_kind n \<noteq> Some ''auth'' \<and> (rule_kind n \<noteq> None \<longrightarrow> (\<exists>t. node_item n = Text t))"

lemma rule_keywords:
  "strcasecmp t ''user'' = 0 \<longleftrightarrow> strlwr t = ''user''" "strcasecmp t ''group'' = 0 \<longleftrightarrow> strlwr t = ''group''"
  "strcasecmp t ''program'' = 0 \<longleftrightarrow> strlwr t = ''program''" "strcasecmp t ''auth'' = 0 \<longleftrightarrow> strlwr t = ''auth''"
  by (auto simp: strcasecmp_0_iff strlwr_def tolower_def isupper_def)

lemma check_rule_plain:
  assumes "plain_rule n" "rule_holds (s_peer s) False n"
  shows "check_rule h n result s = Inr (Some (result \<or> rule_kind n \<noteq> None), s)"
proof -
  obtain tag where tag: "node_tag n = Some tag" using assms(1) by (auto simp: plain_rule_def)
  show ?thesis
  proof (cases "rule_kind n")
    case None
    with tag show ?thesis
      by (auto simp: check_rule_def rule_kind_def rule_keywords split: if_splits)
  next
    case (Some k)
    then obtain t where t: "node_item n = Text t" using assms(1) by (auto simp: plain_rule_def)
    from Some tag assms(1) have "strlwr tag = k" "k \<in> {''user'', ''group'', ''program''}"
      by (auto simp: rule_kind_def plain_rule_def split: if_splits)
    with Some tag t assms(2) show ?thesis
      by (auto simp: check_rule_def rule_keywords rule_holds_def rule_text_def item_text_def)
  qed
qed

lemma check_rules_plain:
  "\<forall>n \<in> set rules. plain_rule n \<and> rule_holds (s_peer s) False n \<Longrightarrow>
     check_rules h rules result s = Inr (result \<or> (\<exists>n \<in> set rules. rule_kind n \<noteq> None), s)"
  by (induction rules arbitrary: result) (auto simp: check_rule_plain)

lemma find_permission_entry:
  assumes "\<forall>n \<in> set before. \<exists>t. node_tag n = Some t \<and> \<not> entry_matches (s_peer s) command t"
    and "entry_matches (s_peer s) command tag"
  shows "find_permission env h command (before @ Node (Some tag) ty (Sub x rules) # after) s = CheckPermission env h command rules s"
  using assms by (induction before) auto

lemma entry_permits:
  assumes "e_config env = before @ Node (Some tag) ty (Sub x rules) # after"
    and "\<forall>n \<in> set before. \<exists>t. node_tag n = Some t \<and> \<not> entry_matches (s_peer s) command t"
    and "entry_matches (s_peer s) command tag" "\<forall>n \<in> set rules. plain_rule n" "rules_permit (s_peer s) False rules"
    and "db_check env (s_trace s) command (p_exe (s_peer s)) = Inr granted"
  shows "FindPermission env h command s = Inr (True, s)"
proof -
  have "check_rules h rules False s = Inr (True, s)"
    using check_rules_plain [of rules s h False] assms(4,5) by (auto simp: rules_permit_def)
  then show ?thesis
    using find_permission_entry [OF assms(2,3), of env h ty x rules] assms(6)
    by (simp add: FindPermission_def assms(1) CheckPermission_def)
qed

lemma bob_rule:
  "plain_rule (Node (Some ''user'') 1 (Text ''bob''))" "rules_permit bob False [Node (Some ''user'') 1 (Text ''bob'')]"
proof -
  have d: "IsItemInList ''bob'' (Some ''bob'')" "strlwr ''user'' = ''user''" by code_simp+
  show "plain_rule (Node (Some ''user'') 1 (Text ''bob''))" using d(2) by (simp add: plain_rule_def rule_kind_def)
  show "rules_permit bob False [Node (Some ''user'') 1 (Text ''bob'')]"
    using d by (simp add: rules_permit_def rule_holds_def rule_kind_def rule_text_def bob_def GetPeerInfo_def)
qed

lemma RunInvoke_entry:
  assumes "\<forall>n \<in> set before. \<exists>t. node_tag n = Some t \<and> t \<noteq> command"
  shows "RunInvoke env (before @ Node (Some command) ty (Sub x items) # after) command vs s = RunInvokeCommand env vs items s"
  using assms by (induction before) (auto simp: strcmp_0_iff)

text \<open>C21: a peer whose program has an entry it satisfies can run every other entry: when an entry named after the path or the
  basename of its program permits it, an \<open>INVOKE\<close> of any command with an entry after it runs the items of that
  entry, whatever rules are among them.\<close>

theorem an_entry_for_the_program_opens_every_command:
  assumes "invoke_details details = Inr (command, pairs)"
    and "e_config env = before @ Node (Some tag) ty (Sub x rules) # between @ Node (Some command) ty' (Sub y items) # after"
    and "\<forall>n \<in> set before. \<exists>t. node_tag n = Some t \<and> \<not> entry_matches (s_peer s) command t"
    and "\<forall>n \<in> set between. \<exists>t. node_tag n = Some t \<and> t \<noteq> command"
    and "tag = p_exe (s_peer s) \<or> tag = GetBasename (p_exe (s_peer s))" "tag \<noteq> command"
    and "\<forall>n \<in> set rules. plain_rule n" "rules_permit (s_peer s) False rules"
    and "db_check env (s_trace s) command (p_exe (s_peer s)) = Inr granted"
  shows "\<exists>vs. invoke_vars (s_peer s) pairs = Inr vs \<and>
    HandleInvoke env h details s =
      bindr (run_items env items vs items (emit [Granted command] s)) (\<lambda>s2. Inr (emit [Finished] s2))"
proof -
  obtain vs where vs: "invoke_vars (s_peer s) pairs = Inr vs"
    using var_list.run_sets_total [of "[]" "pairs @ peer_pairs (s_peer s)"] by (auto simp: invoke_vars_def set_vars_run)
  have "entry_matches (s_peer s) command tag" using assms(5) by (auto simp: entry_matches_def strcmp_0_iff)
  then have "FindPermission env h command s = Inr (True, s)" using entry_permits assms(2,3,7-9) by blast
  moreover have "\<forall>n \<in> set (before @ Node (Some tag) ty (Sub x rules) # between). \<exists>t. node_tag n = Some t \<and> t \<noteq> command"
    using assms(3,4,6) by (auto simp: entry_matches_def strcmp_0_iff)
  then have "RunInvoke env (e_config env) command vs (emit [Granted command] s) =
      run_items env items vs items (emit [Granted command] s)"
    using RunInvoke_entry [of "before @ Node (Some tag) ty (Sub x rules) # between" command env ty' y items after vs]
    by (simp add: assms(2) RunInvokeCommand_def)
  ultimately show ?thesis using vs assms(1) by (simp add: HandleInvoke_def)
qed

theorem an_entry_for_the_program_opens_every_command_witness:
  "\<forall>h. HandleInvoke (sample_env\<lparr>e_config := [Node (Some ''vi'') 3 (Sub None [Node (Some ''user'') 1 (Text ''bob'')]),
       Node (Some ''mount'') 3 (Sub None [Node (Some ''user'') 1 (Text ''root''), Node (Some ''clientrun'') 1 (Text ''ls'')])]\<rparr>)
     h (Some ''mount'') (start_state bob []) =
     Inr (emit [Granted ''mount'', ToClient (''clientrun ls'' @ [LF]), Finished] (start_state bob []))"
proof (rule allI)
  fix h :: handler
  let ?items = "[Node (Some ''user'') 1 (Text ''root''), Node (Some ''clientrun'') 1 (Text ''ls'')]"
  let ?env = "sample_env\<lparr>e_config := [Node (Some ''vi'') 3 (Sub None [Node (Some ''user'') 1 (Text ''bob'')]),
       Node (Some ''mount'') 3 (Sub None ?items)]\<rparr>"
  let ?s = "start_state bob []"
  have d: "invoke_details (Some ''mount'') = Inr (''mount'', [])" "GetBasename (p_exe (s_peer ?s)) = ''vi''" by code_simp+
  have permit: "rules_permit (s_peer ?s) False [Node (Some ''user'') 1 (Text ''bob'')]"
    using bob_rule(2) by (simp add: start_state_def)
  have db: "db_check ?env (s_trace ?s) ''mount'' (p_exe (s_peer ?s)) = Inr False"
    by (simp add: db_check_def AppDBCheck_def sample_env_def)
  obtain vs where "HandleInvoke ?env h (Some ''mount'') ?s =
      bindr (run_items ?env ?items vs ?items (emit [Granted ''mount''] ?s)) (\<lambda>s2. Inr (emit [Finished] s2))"
    using an_entry_for_the_program_opens_every_command [where env = ?env and before = "[]" and between = "[]" and after = "[]"
        and tag = "''vi''" and ty = 3 and ty' = 3 and x = None and y = None and items = ?items and s = ?s,
        OF d(1) _ _ _ _ _ _ permit db, of h] d(2) bob_rule(1)
    by auto
  then show "HandleInvoke ?env h (Some ''mount'') ?s =
      Inr (emit [Granted ''mount'', ToClient (''clientrun ls'' @ [LF]), Finished] ?s)"
    by (simp add: invoke_value_def item_text_def ParserItemIsValue_def item_types emit_def strcmp_0_iff)
qed

section \<open>The words of an \<open>EXEC\<close> request\<close>

text \<open>The next word of a line without quotes, in the modes \<open>HandleExec\<close> and \<open>RunCommand\<close> read it in.\<close>

definition word_mode :: "nat \<Rightarrow> bool" where
  "word_mode flags \<longleftrightarrow> (\<forall>f \<in> {GETTOKEN_MULTI_SEP, GETTOKEN_BACKSLASH, GETTOKEN_INCLUDE_SEP, GETTOKEN_APPEND_SEP,
     GETTOKEN_STRIP_SPACE}. \<not> hasflag flags f)"

lemma word_modes: "word_mode 0" "word_mode GETTOKEN_HONOR_QUOTES" "word_mode GETTOKEN_QUOTES"
  by (simp_all add: word_mode_def hasflag_def gettoken_flags)

lemma word_loop_skip:
  assumes "word_mode flags"
  shows "plain_word t \<Longrightarrow> find_separator_loop WS_PATTERN (t @ r) None flags = find_separator_loop WS_PATTERN r None flags"
proof (induction t)
  case (Cons c cs)
  then have c: "\<not> tok_blank c" "c \<noteq> BSL" "\<not> tok_quote c"
    by (auto simp: plain_word_Cons dest: tok_blank_isspace)
  have "GetTokenStepThru (c # cs @ r) flags = cs @ r"
    using c by (simp add: GetTokenStepThru_def)
  with Cons c show ?case
    by (simp add: find_separator_loop.simps [of _ "c # cs @ r"] ws_match_plain plain_word_Cons)
qed simp

lemma plain_next:
  assumes "word_mode flags" "plain_word t" "tok_blank c"
  shows "GetToken (Some (t @ c # r)) WS_PATTERN flags = (Some (dropWhile isspace r), t)"
proof -
  have "token_strip_quotes (t @ c # r) (length t) = (0, length t)"
    using assms tok_blank_classes [of c] strip_quotes_plain [of t "c # r"]
    by (cases t) (auto simp: plain_word_Cons)
  moreover have "find_separator_loop WS_PATTERN (c # r) None flags = (True, c # r, Some (dropWhile isspace r))"
    using assms(3) tok_blank_classes [of c] by (simp add: find_separator_loop.simps ws_match_blank)
  ultimately show ?thesis
    using assms
    by (simp add: GetToken_def GetTokenFindSeparator_def word_loop_skip GetTokenPostProcess_def token_bounds_def word_mode_def Let_def)
qed

lemma plain_last:
  assumes "word_mode flags" "plain_word t" "t \<noteq> []"
  shows "GetToken (Some t) WS_PATTERN flags = (Some [], t)"
proof -
  have "token_strip_quotes t (length t) = (0, length t)"
    using assms strip_quotes_plain [of t "[]"] by (cases t) (auto simp: plain_word_Cons tok_char_defs)
  moreover have "find_separator_loop WS_PATTERN t None flags = (False, [], Some [])"
    using word_loop_skip [OF assms(1,2), of "[]"] by (simp add: find_separator_loop.simps)
  ultimately show ?thesis
    using assms by (simp add: GetToken_def GetTokenFindSeparator_def GetTokenPostProcess_def token_bounds_def word_mode_def Let_def)
qed

definition line_word :: "string \<Rightarrow> bool" where
  "line_word t \<longleftrightarrow> plain_word t \<and> t \<noteq> []"

lemma line_word_start: "line_word t \<Longrightarrow> dropWhile isspace (t @ r) = t @ r"
  by (cases t) (auto simp: line_word_def plain_word_Cons)

lemma join_line_start: "\<forall>t \<in> set ts. line_word t \<Longrightarrow> dropWhile isspace (join_with c ts) = join_with c ts"
  by (induction ts rule: induct_list012) (auto simp: line_word_start line_word_start [where r = "[]", simplified])

text \<open>The first word of a line, and where the others are.\<close>

lemma first_word:
  assumes "word_mode flags" "\<forall>t \<in> set (w # ws). line_word t"
  shows "GetToken (Some (join_with (CHR '' '') (w # ws))) WS_PATTERN flags = (Some (join_with (CHR '' '') ws), w)"
proof (cases ws)
  case Nil
  then show ?thesis using assms plain_last by (simp add: line_word_def)
next
  case (Cons v vs)
  then show ?thesis
    using assms plain_next [OF assms(1), of w "CHR '' ''" "join_with (CHR '' '') ws"] join_line_start [of ws "CHR '' ''"]
    by (simp add: line_word_def)
qed

lemma run_options_words:
  "\<forall>t \<in> set ws. line_word t \<and> CHR ''='' \<notin> set t \<and> t \<noteq> ''pty'' \<Longrightarrow>
     run_options (Some (join_with (CHR '' '') ws)) o1 =
     o1\<lparr>r_cmd := r_cmd o1 @ concat (map (\<lambda>t. CHR '' '' # t) ws)\<rparr>"
proof (induction ws arbitrary: o1)
  case (Cons w ws)
  then have "run_option o1 w = o1\<lparr>r_cmd := r_cmd o1 @ '' '' @ w\<rparr>"
    by (simp add: run_option_def strcmp_0_iff)
  moreover have "GetToken (Some (join_with (CHR '' '') (w # ws))) WS_PATTERN GETTOKEN_HONOR_QUOTES =
      (Some (join_with (CHR '' '') ws), w)"
    using Cons.prems by (intro first_word word_modes) auto
  ultimately show ?case
    using Cons by (simp add: run_options.simps [of "Some (join_with (CHR '' '') (w # ws))"])
qed (simp add: run_options.simps)

lemma join_words: "join_with c (w # ws) = w @ concat (map (\<lambda>t. c # t) ws)"
  by (induction ws arbitrary: w) auto

text \<open>C22: once the command of an \<open>EXEC\<close> request is permitted, its words reach the shell as they are: any words
  that are neither options nor quoted, like \<open>;\<close> and what follows it, are the rest of the command line that is
  run.\<close>

theorem exec_passes_shell_operators:
  assumes "\<forall>t \<in> set (command # ws). plain_word t \<and> t \<noteq> []" "CHR ''$'' \<notin> set command"
    and "\<forall>t \<in> set ws. CHR ''='' \<notin> set t \<and> t \<noteq> ''pty''"
    and "FindPermission env h command s = Inr (True, s1)"
  shows "HandleExec env h (Some (join_with (CHR '' '') (command # ws))) s =
     Inr (emit ([Granted command, Spawned (join_with (CHR '' '') (command # ws)) []] @
       (if e_spawn_ok env (s_trace s1 @ [Granted command]) (join_with (CHR '' '') (command # ws)) []
        then [ToClient (''OKAY: Command output follows'' @ [LF]), OutputToClient]
        else [ToClient (''FAIL: No such command'' @ [LF])]) @ [Finished]) s1)"
proof -
  have line: "\<forall>t \<in> set (command # ws). line_word t" using assms(1) by (simp add: line_word_def)
  have flags: "plain_mode SUBS_SHELL_SAFE" by (simp add: plain_mode_def hasflag_def subs_flags)
  have "SubstituteVarsInString command [] SUBS_SHELL_SAFE = Inr command"
    using SubstituteVarsInString_template [OF vars_ok_Nil flags, of "[Lit command]"] assms(2) by (simp add: render_def)
  moreover have "GetVar [] ''InvokeMaxArgLen'' = Inr []" by (simp add: GetVar_find)
  moreover have "atoi [] = 0" by (simp add: atoi_def strtoll10_def int32_of_def)
  moreover have "run_options (Some (join_with (CHR '' '') ws)) \<lparr>r_cmd = command, r_caps = [], r_expect = [], r_timeout = 0\<rparr> =
      \<lparr>r_cmd = join_with (CHR '' '') (command # ws), r_caps = [], r_expect = [], r_timeout = 0\<rparr>"
    using run_options_words [of ws] line assms(3) by (simp add: join_words del: join_with.simps)
  ultimately show ?thesis
    using first_word [OF _ line] word_modes(1,3) assms(4)
    by (simp add: HandleExec_def RunCommand_def run_spawn_def emit_def del: join_with.simps)
qed

theorem exec_passes_shell_operators_witness:
  "HandleExec (sample_env\<lparr>e_config := [Node (Some ''vi'') 3 (Sub None [Node (Some ''user'') 1 (Text ''bob'')])]\<rparr>)
     (HandleClientRequest 0 sample_env) (Some ''vi notes ; /sbin/reboot'') (start_state bob []) =
   Inr (emit [Granted ''vi'', Spawned ''vi notes ; /sbin/reboot'' [],
     ToClient (''OKAY: Command output follows'' @ [LF]), OutputToClient, Finished] (start_state bob []))"
proof -
  let ?env = "sample_env\<lparr>e_config := [Node (Some ''vi'') 3 (Sub None [Node (Some ''user'') 1 (Text ''bob'')])]\<rparr>"
  let ?s = "start_state bob []"
  have "FindPermission ?env (HandleClientRequest 0 sample_env) ''vi'' ?s = Inr (True, ?s)"
    using bob_rule
    by (intro entry_permits [where before = "[]" and tag = "''vi''" and granted = False])
      (simp_all add: start_state_def entry_matches_def strcmp_0_iff db_check_def AppDBCheck_def sample_env_def)
  moreover have "\<forall>t \<in> set [''vi'', ''notes'', '';'', ''/sbin/reboot'']. plain_word t \<and> t \<noteq> []"
    by (simp add: plain_word_def isspace_def tok_char_defs)
  moreover have "e_spawn_ok ?env tr cmd caps" for tr cmd caps by (simp add: sample_env_def)
  ultimately show ?thesis
    using exec_passes_shell_operators [of "''vi''" "[''notes'', '';'', ''/sbin/reboot'']" ?env
        "HandleClientRequest 0 sample_env" ?s ?s]
    by simp
qed

end
