(* ===== verification/ConfigRoundTrip.thy ===== *)
theory ConfigRoundTrip
  imports ConfigParser
begin

text \<open>
  What the configuration parser makes of a configuration file that is written the way the
  documentation shows: settings \<open>name word word ...\<close>, one per line, and blocks with the name,
  the opening and the closing brace on lines of their own, nested to any depth.
\<close>

section \<open>Documents\<close>

datatype conf = Setting string "chunk list list" | Block string "conf list"

definition config_chars :: string where
  "config_chars = [CHR '' '', TAB, CHR ''#'', CHR ''='', CHR '':'', CHR '';'', CHR ''{'', CHR ''}'', CR, LF]"

definition words_text :: "chunk list list \<Rightarrow> string" where
  "words_text ws = join_with (CHR '' '') (map word_text ws)"

fun conf_text :: "conf \<Rightarrow> string" where
  "conf_text (Setting k ws) = k @ CHR '' '' # words_text ws @ [LF]"
| "conf_text (Block n cs) = n @ LF # CHR ''{'' # LF # concat (map conf_text cs) @ [CHR ''}'', LF]"

fun conf_ok :: "conf \<Rightarrow> bool" where
  "conf_ok (Setting k ws) \<longleftrightarrow> word_ok config_chars [Plain k] \<and> ws \<noteq> [] \<and> (\<forall>w \<in> set ws. word_ok config_chars w)"
| "conf_ok (Block n cs) \<longleftrightarrow> word_ok config_chars [Plain n] \<and> (\<forall>c \<in> set cs. conf_ok c)"

fun conf_node :: "conf \<Rightarrow> node" where
  "conf_node (Setting k ws) = Node (Some k) (value_type (words_text ws)) (Text (words_text ws))"
| "conf_node (Block n cs) = Node (Some n) ITEM_ENTITY (Sub (Some n) (map conf_node cs))"

definition document :: "conf list \<Rightarrow> string" where
  "document cs = concat (map conf_text cs)"

section \<open>Tokens\<close>

lemma config_seps: "char_seps CONFIG_FILE_TOKENS config_chars"
proof -
  have "BuildMultiSeparators CONFIG_FILE_TOKENS = map (\<lambda>c. [c]) config_chars"
    by (simp add: CONFIG_FILE_TOKENS_def config_chars_def BuildMultiSeparators.simps)
  moreover have "\<forall>c \<in> set config_chars. c \<noteq> BSL \<and> \<not> tok_quote c"
    by (simp add: config_chars_def tok_quote_def)
  moreover have "length CONFIG_FILE_TOKENS > 1" by (simp add: CONFIG_FILE_TOKENS_def)
  ultimately show ?thesis by (simp add: char_seps_def)
qed

lemma DQ_config [simp]: "DQ \<notin> set config_chars"
  by (simp add: config_chars_def)

text \<open>A line start: not white space, not an opening brace.\<close>

definition line_start :: "string \<Rightarrow> bool" where
  "line_start r \<longleftrightarrow> \<not> isspace (deref r) \<and> deref r \<noteq> CHR ''{''"

lemma dropWhile_line_start: "\<not> isspace (deref r) \<Longrightarrow> dropWhile isspace r = r"
  by (cases r) auto

lemma word_line_start: "word_ok config_chars w \<Longrightarrow> line_start (word_text w @ r)"
  using word_first [of config_chars w r] by (auto simp: line_start_def config_chars_def)

lemma plain_word_text: "word_text [Plain k] = k"
  by (simp add: word_text_def)

lemma check_brace:
  "ParserConfigCheckForBrace (Some s) =
     (if deref (dropWhile isspace s) = CHR ''{'' then (True, Some (dropWhile isspace s))
      else (False, Some s))"
proof (cases "dropWhile isspace s")
  case Nil
  show ?thesis unfolding ParserConfigCheckForBrace_def Let_def option.case Nil by simp
next
  case (Cons c p)
  have brace: "CHR ''{'' \<in> set config_chars" by (simp add: config_chars_def)
  obtain q t where G: "GetToken (Some (c # p)) CONFIG_FILE_TOKENS DOC_FLAGS = (q, t)" by fastforce
  then obtain r where "q = Some r" 
    using GetToken_Some_iff [of "c # p" CONFIG_FILE_TOKENS DOC_FLAGS]
    by (cases q) (auto simp: CONFIG_FILE_TOKENS_def)
  with GetToken_keeps [OF DOC_FLAGS_keeps, of "c # p" CONFIG_FILE_TOKENS r t] G have "t @ r = c # p"
    by simp
  then have "t = ''{'' \<Longrightarrow> c = CHR ''{''" by auto
  moreover have "c = CHR ''{'' \<Longrightarrow> t = ''{''"
    using GetToken_doc_sep [OF config_seps brace, of p] G by simp
  ultimately show ?thesis
    using G Cons by (auto simp: ParserConfigCheckForBrace_def Let_def)
qed

lemma step_word:
  assumes "c_ptr st = Some (word_text w @ d # r)" "word_ok config_chars w" "d \<in> set config_chars"
  shows "config_step st =
     Inr (CNext (st\<lparr>c_ptr := Some (d # r), c_value := c_value st @ word_text w, c_prev := word_text w\<rparr>))"
proof -
  have "deref (word_text w) \<notin> set config_chars"
    using word_first [OF assms(2), of "[]"] by simp
  then show ?thesis
    using GetToken_doc_word [OF config_seps assms(2,3)] assms(1)
    by (simp add: config_step_def Let_def config_chars_def)
qed

lemma step_sep:
  assumes "c_ptr st = Some (d # r)" "d \<in> set config_chars"
  shows "GetToken (c_ptr st) CONFIG_FILE_TOKENS DOC_FLAGS = (Some r, [d])"
  using GetToken_doc_sep [OF config_seps assms(2)] assms(1) by simp

lemma step_space:
  assumes "c_ptr st = Some (CHR '' '' # r)"
  shows "config_step st =
     Inr (CNext (if c_newkey st
       then st\<lparr>c_ptr := Some (dropWhile isspace r), c_name := c_prev st, c_value := [], c_newkey := False,
               c_prev := []\<rparr>
       else st\<lparr>c_ptr := Some (dropWhile isspace r), c_value := c_value st @ '' '', c_prev := '' ''\<rparr>))"
  using step_sep [OF assms]
  by (simp add: config_step_def Let_def config_separator_def skip_space_def config_chars_def)

lemma step_newline:
  assumes "c_ptr st = Some (LF # r)" "line_start (dropWhile isspace r)"
  shows "config_step st =
     Inr (CNext
       (if c_value st \<noteq> []
        then st\<lparr>c_ptr := Some (dropWhile isspace r), c_newkey := True,
                c_items := ParserAddValue (c_items st) (Some (c_name st))
                             (StripTrailingWhitespace (StripLeadingWhitespace (c_value st))),
                c_name := [], c_value := [], c_prev := []\<rparr>
        else st\<lparr>c_ptr := Some (dropWhile isspace r), c_newkey := True, c_prev := [LF]\<rparr>))"
  using step_sep [OF assms(1)] assms(2)
  by (simp add: config_step_def Let_def config_newline_def config_flush_def check_brace
      skip_space_def config_chars_def line_start_def)

lemma step_newline_brace:
  assumes "c_ptr st = Some (LF # r)" "deref (dropWhile isspace r) = CHR ''{''"
  shows "config_step st =
     Inr (CNext (st\<lparr>c_ptr := Some (dropWhile isspace r), c_name := c_name st @ '' '' @ c_prev st,
                    c_value := [], c_prev := [LF]\<rparr>))"
  using step_sep [OF assms(1)] assms(2)
  by (simp add: config_step_def Let_def config_newline_def check_brace config_chars_def)

lemma step_open:
  assumes "c_ptr st = Some (CHR ''{'' # r)"
  shows "config_step st =
     Inr (COpen (st\<lparr>c_ptr := Some r,
                    c_name := StripTrailingWhitespace (StripLeadingWhitespace (c_name st))\<rparr>))"
  using step_sep [OF assms] by (simp add: config_step_def Let_def config_chars_def)

lemma step_close:
  assumes "c_ptr st = Some (CHR ''}'' # r)" "line_start (dropWhile isspace r)" "c_value st = []"
  shows "config_step st =
     Inr (CStop (st\<lparr>c_ptr := Some (dropWhile isspace r), c_newkey := True, c_prev := ''}''\<rparr>))"
  using step_sep [OF assms(1)] assms(2,3)
  by (simp add: config_step_def Let_def config_newline_def config_flush_def check_brace
      skip_space_def config_chars_def line_start_def)

section \<open>Settings\<close>

lemma run_next:
  "c_ptr st = Some p \<Longrightarrow> config_step st = Inr (CNext st') \<Longrightarrow> config_run ptag st = config_run ptag st'"
  by (subst config_run_unfold) simp

lemma run_stop:
  "c_ptr st = Some p \<Longrightarrow> config_step st = Inr (CStop st') \<Longrightarrow> config_run ptag st = Inr (c_ptr st', c_items st')"
  by (subst config_run_unfold) simp

lemma run_open:
  "c_ptr st = Some p \<Longrightarrow> config_step st = Inr (COpen st') \<Longrightarrow> config_run ptag st =
     bindr (config_run (Some (c_name st')) (cfg_start (c_ptr st')))
       (\<lambda>(q, sub). config_run ptag (config_opened ptag st' q sub))"
  by (subst config_run_unfold) simp

text \<open>The state at the start of a line.\<close>

definition line_state :: "string \<Rightarrow> string \<Rightarrow> node list \<Rightarrow> cfg_state" where
  "line_state s prev xs =
     \<lparr>c_ptr = Some s, c_prev = prev, c_name = [], c_value = [], c_newkey = True, c_items = xs\<rparr>"

lemma words_text_first:
  "ws \<noteq> [] \<Longrightarrow> \<forall>w \<in> set ws. word_ok config_chars w \<Longrightarrow> line_start (words_text ws @ r)"
proof (cases ws)
  case (Cons w us)
  assume "\<forall>w \<in> set ws. word_ok config_chars w"
  with Cons have "line_start (word_text w @ q)" for q by (intro word_line_start) simp
  with Cons show ?thesis by (cases us) (simp_all add: words_text_def)
qed simp

lemma run_words:
  "ws \<noteq> [] \<Longrightarrow> \<forall>w \<in> set ws. word_ok config_chars w \<Longrightarrow> c_ptr st = Some (words_text ws @ LF # r) \<Longrightarrow>
     \<not> c_newkey st \<Longrightarrow>
     \<exists>prev. config_run ptag st =
       config_run ptag (st\<lparr>c_ptr := Some (LF # r), c_value := c_value st @ words_text ws, c_prev := prev\<rparr>)"
proof (induction ws arbitrary: st rule: induct_list012)
  case (2 w)
  then have "config_step st = Inr (CNext (st\<lparr>c_ptr := Some (LF # r),
      c_value := c_value st @ words_text [w], c_prev := word_text w\<rparr>))"
    using step_word [of st w LF r] by (simp add: words_text_def config_chars_def)
  from run_next [OF "2.prems"(3) this] show ?case by blast
next
  case (3 w u ws)
  let ?rest = "words_text (u # ws) @ LF # r"
  have ptr: "c_ptr st = Some (word_text w @ CHR '' '' # ?rest)"
    using "3.prems"(3) by (simp add: words_text_def)
  define s1 where "s1 = st\<lparr>c_ptr := Some (CHR '' '' # ?rest), c_value := c_value st @ word_text w,
      c_prev := word_text w\<rparr>"
  define s2 where "s2 = s1\<lparr>c_ptr := Some ?rest, c_value := c_value s1 @ '' '', c_prev := '' ''\<rparr>"
  have "config_run ptag st = config_run ptag s1"
    using step_word [OF ptr] "3.prems"(2) by (intro run_next [OF ptr]) (simp add: s1_def config_chars_def)
  also have "\<dots> = config_run ptag s2"
  proof (rule run_next)
    have "dropWhile isspace ?rest = ?rest"
      using words_text_first [of "u # ws" "LF # r"] "3.prems"(2) dropWhile_line_start
      by (auto simp: line_start_def)
    then show "config_step s1 = Inr (CNext s2)"
      using step_space [of s1 ?rest] "3.prems"(4) by (simp add: s1_def s2_def)
  qed (simp add: s1_def)
  also have "\<exists>prev. config_run ptag s2 =
      config_run ptag (s2\<lparr>c_ptr := Some (LF # r), c_value := c_value s2 @ words_text (u # ws), c_prev := prev\<rparr>)"
    using "3.IH"(2) [of s2] "3.prems"(2,4) by (simp add: s1_def s2_def)
  finally show ?case by (simp add: s1_def s2_def words_text_def)
qed simp

lemma word_last: "word_ok cs w \<Longrightarrow> \<not> isspace (last (word_text w))"
proof (induction w rule: rev_induct)
  case (snoc c w)
  show ?case
  proof (cases "chunk_text c = []")
    case True
    with snoc show ?thesis by (simp add: word_ok_def word_text_def)
  next
    case False
    then have "last (word_text (w @ [c])) = last (chunk_text c)"
      by (simp add: word_text_def)
    moreover have "\<not> isspace (last (chunk_text c))"
      using snoc.prems False by (cases c) (auto simp: word_ok_def dquote_def)
    ultimately show ?thesis by simp
  qed
qed (simp add: word_ok_def word_text_def)

lemma words_text_nonempty:
  "ws \<noteq> [] \<Longrightarrow> \<forall>w \<in> set ws. word_ok config_chars w \<Longrightarrow> words_text ws \<noteq> []"
  by (induction ws rule: induct_list012) (auto simp: words_text_def word_ok_def)

lemma words_text_last:
  "ws \<noteq> [] \<Longrightarrow> \<forall>w \<in> set ws. word_ok config_chars w \<Longrightarrow> \<not> isspace (last (words_text ws))"
proof (induction ws rule: induct_list012)
  case (2 w)
  then show ?case using word_last by (simp add: words_text_def)
next
  case (3 w u ws)
  then show ?case
    using words_text_nonempty [of "u # ws"] by (simp add: words_text_def)
qed simp

lemma strip_words:
  assumes "ws \<noteq> []" "\<forall>w \<in> set ws. word_ok config_chars w"
  shows "StripTrailingWhitespace (StripLeadingWhitespace (words_text ws)) = words_text ws"
proof -
  have "StripLeadingWhitespace (words_text ws) = words_text ws"
    using words_text_first [OF assms, of "[]"] by (intro StripLeadingWhitespace_id) (simp add: line_start_def)
  then show ?thesis
    using words_text_last [OF assms] by (simp add: StripTrailingWhitespace_id)
qed

lemma run_setting:
  assumes "conf_ok (Setting k ws)" "line_start rest"
  shows "\<exists>prev. config_run ptag (line_state (conf_text (Setting k ws) @ rest) p xs) =
     config_run ptag (line_state rest prev (xs @ [conf_node (Setting k ws)]))"
proof -
  have k: "word_ok config_chars [Plain k]" and ws: "ws \<noteq> []" "\<forall>w \<in> set ws. word_ok config_chars w"
    using assms(1) by auto
  let ?rest = "words_text ws @ LF # rest"
  define s1 where "s1 = (line_state (k @ CHR '' '' # ?rest) p xs)
      \<lparr>c_ptr := Some (CHR '' '' # ?rest), c_value := k, c_prev := k\<rparr>"
  define s2 where "s2 = s1\<lparr>c_ptr := Some ?rest, c_name := k, c_value := [], c_newkey := False, c_prev := []\<rparr>"
  have "config_run ptag (line_state (conf_text (Setting k ws) @ rest) p xs) = config_run ptag s1"
    using step_word [of "line_state (k @ CHR '' '' # ?rest) p xs" "[Plain k]" "CHR '' ''" ?rest] k
    by (intro run_next) (auto simp: line_state_def s1_def plain_word_text config_chars_def)
  also have "\<dots> = config_run ptag s2"
  proof (rule run_next)
    have "dropWhile isspace ?rest = ?rest"
      using words_text_first [OF ws, of "LF # rest"] dropWhile_line_start by (simp add: line_start_def)
    then show "config_step s1 = Inr (CNext s2)"
      using step_space [of s1 ?rest] by (simp add: s1_def s2_def line_state_def)
  qed (simp add: s1_def)
  also have "\<exists>prev. config_run ptag s2 =
      config_run ptag (s2\<lparr>c_ptr := Some (LF # rest), c_value := words_text ws, c_prev := prev\<rparr>)"
    using run_words [OF ws, of s2 rest ptag] by (simp add: s2_def)
  finally obtain prev where run1: "config_run ptag (line_state (conf_text (Setting k ws) @ rest) p xs) =
      config_run ptag (s2\<lparr>c_ptr := Some (LF # rest), c_value := words_text ws, c_prev := prev\<rparr>)"
    (is "_ = config_run ptag ?s3") by blast
  have "config_run ptag ?s3 = config_run ptag (line_state rest [] (xs @ [conf_node (Setting k ws)]))"
  proof (rule run_next)
    have "dropWhile isspace rest = rest"
      using assms(2) dropWhile_line_start by (simp add: line_start_def)
    moreover have "k \<noteq> []" using k by (simp add: word_ok_def plain_word_text)
    ultimately show "config_step ?s3 = Inr (CNext (line_state rest [] (xs @ [conf_node (Setting k ws)])))"
      using step_newline [of ?s3 rest] assms(2) strip_words [OF ws] words_text_nonempty [OF ws]
      by (simp add: s2_def s1_def line_state_def ParserAddValue_def add_node_def)
  qed simp
  with run1 show ?thesis by auto
qed

text \<open>A line start follows whatever comes after the lines of a block.\<close>

lemma conf_text_line_start: "conf_ok c \<Longrightarrow> line_start (conf_text c @ r)"
proof (cases c)
  case (Setting k ws)
  assume "conf_ok c"
  with Setting word_line_start [of "[Plain k]"] show ?thesis by (simp add: plain_word_text)
next
  case (Block n cs)
  assume "conf_ok c"
  with Block word_line_start [of "[Plain n]"] show ?thesis by (simp add: plain_word_text)
qed

lemma confs_line_start:
  "\<forall>c \<in> set cs. conf_ok c \<Longrightarrow> line_start r \<Longrightarrow> line_start (concat (map conf_text cs) @ r)"
  by (cases cs) (simp_all add: conf_text_line_start)

lemma run_confs:
  assumes "\<And>c p xs ptag rest. c \<in> set cs \<Longrightarrow> conf_ok c \<Longrightarrow> line_start rest \<Longrightarrow>
      \<exists>prev. config_run ptag (line_state (conf_text c @ rest) p xs) =
        config_run ptag (line_state rest prev (xs @ [conf_node c]))"
    and "\<forall>c \<in> set cs. conf_ok c" "line_start rest"
  shows "\<exists>prev. config_run ptag (line_state (concat (map conf_text cs) @ rest) p xs) =
     config_run ptag (line_state rest prev (xs @ map conf_node cs))"
  using assms
proof (induction cs arbitrary: p xs)
  case (Cons c cs)
  have ls: "line_start (concat (map conf_text cs) @ rest)"
    using Cons.prems(2,3) by (intro confs_line_start) auto
  obtain prev where 1: "config_run ptag (line_state (conf_text c @ concat (map conf_text cs) @ rest) p xs) =
      config_run ptag (line_state (concat (map conf_text cs) @ rest) prev (xs @ [conf_node c]))"
    using Cons.prems(1) [of c "concat (map conf_text cs) @ rest" ptag p xs] Cons.prems(2) ls by auto
  obtain prev2 where "config_run ptag (line_state (concat (map conf_text cs) @ rest) prev (xs @ [conf_node c])) =
      config_run ptag (line_state rest prev2 ((xs @ [conf_node c]) @ map conf_node cs))"
    using Cons.IH [of prev "xs @ [conf_node c]"] Cons.prems by auto
  with 1 show ?case by auto
qed auto

lemma run_conf:
  "conf_ok c \<Longrightarrow> line_start rest \<Longrightarrow>
     \<exists>prev. config_run ptag (line_state (conf_text c @ rest) p xs) =
       config_run ptag (line_state rest prev (xs @ [conf_node c]))"
proof (induction c arbitrary: ptag p xs rest)
  case (Setting k ws)
  then show ?case by (rule run_setting)
next
  case (Block n cs)
  have n: "word_ok config_chars [Plain n]" and cs: "\<forall>c \<in> set cs. conf_ok c" using Block.prems by auto
  let ?after = "CHR ''}'' # LF # rest"
  let ?body = "concat (map conf_text cs) @ ?after"
  let ?st = "line_state (n @ LF # CHR ''{'' # LF # ?body) p xs"
  have body_start: "line_start ?body"
    using cs by (rule confs_line_start) (simp add: line_start_def isspace_def)
  have rest: "dropWhile isspace rest = rest" "dropWhile isspace ?body = ?body"
    using Block.prems(2) body_start dropWhile_line_start by (simp_all add: line_start_def)
  have brace: "dropWhile isspace (CHR ''{'' # LF # ?body) = CHR ''{'' # LF # ?body"
    by (simp add: isspace_def)
  define s1 where "s1 = ?st\<lparr>c_ptr := Some (LF # CHR ''{'' # LF # ?body), c_value := n, c_prev := n\<rparr>"
  define s2 where "s2 = s1\<lparr>c_ptr := Some (CHR ''{'' # LF # ?body), c_name := CHR '' '' # n,
      c_value := [], c_prev := [LF]\<rparr>"
  define s3 where "s3 = s2\<lparr>c_ptr := Some (LF # ?body), c_name := n\<rparr>"
  have "config_run ptag ?st = config_run ptag s1"
    using step_word [of ?st "[Plain n]" LF "CHR ''{'' # LF # ?body"] n
    by (intro run_next) (auto simp: line_state_def s1_def plain_word_text config_chars_def)
  also have "\<dots> = config_run ptag s2"
    using step_newline_brace [of s1 "CHR ''{'' # LF # ?body"] brace
    by (intro run_next) (auto simp: s1_def s2_def line_state_def)
  also have "\<dots> = bindr (config_run (Some (c_name s3)) (cfg_start (c_ptr s3)))
       (\<lambda>(q, sub). config_run ptag (config_opened ptag s3 q sub))"
  proof (rule run_open)
    have "StripLeadingWhitespace (CHR '' '' # n) = n"
      using word_line_start [OF n, of "[]"] dropWhile_line_start
      by (simp add: StripLeadingWhitespace_def line_start_def plain_word_text)
    moreover have "StripTrailingWhitespace n = n"
      using word_last [OF n] by (simp add: StripTrailingWhitespace_id plain_word_text)
    ultimately show "config_step s2 = Inr (COpen s3)"
      using step_open [of s2 "LF # ?body"] by (simp add: s2_def s3_def)
  qed (simp add: s2_def)
  also have "config_run (Some (c_name s3)) (cfg_start (c_ptr s3)) = Inr (Some rest, map conf_node cs)"
  proof -
    have "config_run (Some n) (cfg_start (Some (LF # ?body))) = config_run (Some n) (line_state ?body [LF] [])"
      using step_newline [of "cfg_start (Some (LF # ?body))" ?body] rest(2) body_start
      by (intro run_next) (auto simp: cfg_start_def line_state_def)
    also obtain prev where "\<dots> = config_run (Some n) (line_state ?after prev ([] @ map conf_node cs))"
      using run_confs [of cs ?after "Some n" "[LF]" "[]"] Block.IH cs
      by (auto simp: line_start_def isspace_def)
    also have "\<dots> = Inr (Some rest, map conf_node cs)"
      using step_close [of "line_state ?after prev (map conf_node cs)" "LF # rest"] rest(1) Block.prems(2)
      by (subst run_stop) (auto simp: line_state_def)
    finally show ?thesis by (simp add: s3_def)
  qed
  also have "bindr (Inr (Some rest, map conf_node cs)) (\<lambda>(q, sub). config_run ptag (config_opened ptag s3 q sub)) =
      config_run ptag (line_state rest [] (xs @ [conf_node (Block n cs)]))"
  proof -
    have "n \<noteq> []" using n by (simp add: word_ok_def plain_word_text)
    then have "config_opened ptag s3 (Some rest) (map conf_node cs) =
        line_state rest [] (xs @ [conf_node (Block n cs)])"
      by (simp add: config_opened_def s3_def s2_def s1_def line_state_def ParserNewObject_def
          object_tag_def add_node_def)
    then show ?thesis by simp
  qed
  finally show ?case by (auto simp: line_state_def)
qed

text \<open>Parsing a document gives its tree.\<close>

lemma ParserParseConfig_document:
  assumes "\<forall>c \<in> set cs. conf_ok c" "deref (document cs) \<noteq> CHR ''[''"
  shows "ParserParseConfig (document cs) = Inr (map conf_node cs)"
proof -
  have ls: "line_start (document cs)"
    using confs_line_start [OF assms(1), of "[]"] by (simp add: document_def line_start_def isspace_def)
  then have "dropWhile isspace (document cs) = document cs"
    using dropWhile_line_start by (simp add: line_start_def)
  then have start: "doc_start (document cs) = document cs"
    using ls assms(2) by (simp add: doc_start_def line_start_def)
  obtain prev where "config_run None (line_state (document cs @ []) [] []) =
      config_run None (line_state [] prev ([] @ map conf_node cs))"
    using run_confs [of cs "[]" None "[]" "[]"] run_conf assms(1)
    by (auto simp: document_def line_start_def isspace_def)
  moreover have "config_run None (line_state [] prev (map conf_node cs)) = Inr (None, map conf_node cs)"
  proof -
    have "config_step (line_state [] prev (map conf_node cs)) =
        Inr (CNext ((line_state [] prev (map conf_node cs))\<lparr>c_ptr := None, c_prev := []\<rparr>))"
      by (simp add: config_step_def line_state_def)
    then have "config_run None (line_state [] prev (map conf_node cs)) =
        config_run None ((line_state [] prev (map conf_node cs))\<lparr>c_ptr := None, c_prev := []\<rparr>)"
      by (intro run_next) (auto simp: line_state_def)
    also have "\<dots> = Inr (None, map conf_node cs)"
      by (subst config_run_unfold) (simp add: line_state_def)
    finally show ?thesis .
  qed
  ultimately show ?thesis
    by (simp add: ParserParseConfig_def start cfg_start_def line_state_def)
qed

section \<open>Properties\<close>

text \<open>C5: a configuration written as documented, one setting per line and blocks with braces on lines
  of their own, nested to any depth, is parsed to exactly the tree it was written from.\<close>

theorem config_files_round_trip:
  assumes "\<forall>c \<in> set cs. conf_ok c" "deref (document cs) \<noteq> CHR ''[''"
  shows "ParserParseConfig (document cs) = Inr (map conf_node cs)"
  using assms by (rule ParserParseConfig_document)

theorem config_files_round_trip_witness:
  "ParserParseConfig (''ping'' @ [LF] @ ''{'' @ [LF] @ ''user bob'' @ [LF] @ ''}'' @ [LF]) =
     Inr [Node (Some ''ping'') ITEM_ENTITY (Sub (Some ''ping'') [Node (Some ''user'') ITEM_STRING (Text ''bob'')])]"
  using config_files_round_trip [of "[Block ''ping'' [Setting ''user'' [[Plain ''bob'']]]]"]
  by (simp add: document_def words_text_def word_text_def word_ok_def config_chars_def value_type_def isdigit_def
      isspace_def tok_quote_def)

end
