(* ===== verification/Client.thy ===== *)
theory Client
  imports Server
begin

text \<open>
  \<open>client.c\<close>: the command line of \<open>invoke\<close>, the request it sends, and what it does with the lines
  the server sends back.  The theory shows what a command line means to the server: the
  variables the handler of the request sets.
\<close>

section \<open>The request\<close>

text \<open>The arguments after the command; \<open>None\<close> is the exit after \<open>-version\<close>.\<close>

fun client_args :: "string list \<Rightarrow> string \<Rightarrow> string \<Rightarrow> (string \<times> string) option" where
  "client_args [] vars args = Some (vars, args)"
| "client_args (a # as) vars args =
     (if a = ''-version'' \<or> a = ''--version'' then None
      else if deref a = CHR ''-'' \<or> CHR ''='' \<notin> set a then client_args as vars (args @ a @ '' '')
      else client_args as (vars @ a @ '' '') args)"

definition ParseCommandLineArgs :: "string list \<Rightarrow> (string \<times> string) option" where
  "ParseCommandLineArgs argv =
     (case argv of
        [] \<Rightarrow> Some ([], [])
      | cmd # as \<Rightarrow>
          map_option (\<lambda>(vars, args). (cmd, if args \<noteq> [] then vars @ '' args='' @ quoted args else vars))
            (client_args as [] []))"

definition request_line :: "string \<Rightarrow> string \<Rightarrow> string" where
  "request_line cmd vars = ''invoke: '' @ cmd @ '' '' @ vars @ [LF]"

definition auth_line :: "string option \<Rightarrow> string" where
  "auth_line typed = ''AUTH password='' @ StripTrailingWhitespace (CopyStr typed) @ [LF]"

section \<open>Answering the server\<close>

text \<open>
  The client process: the unread bytes from the server, those typed by the user, and what has
  been done.  \<open>ce_size\<close> is the value of the variable \<open>Size\<close> of \<open>ClientBookinFile\<close>, which the code
  never sets; \<open>ce_stream_size\<close> what the library says about the size of an open file.
\<close>

datatype client_event =
    ToServer string
  | Wrote string string
  | Sent string
  | Ran string
  | Printed string

record cenv =
  ce_can_write :: "string \<Rightarrow> bool"
  ce_read :: "string \<Rightarrow> string option"
  ce_stream_size :: "string \<Rightarrow> int"
  ce_size :: nat

record cstate =
  c_in :: string
  c_typed :: string
  c_done :: "client_event list"

definition did :: "client_event list \<Rightarrow> cstate \<Rightarrow> cstate" where
  "did evs c = c\<lparr>c_done := c_done c @ evs\<rparr>"

definition ClientBookoutFile :: "cenv \<Rightarrow> string option \<Rightarrow> cstate \<Rightarrow> cstate" where
  "ClientBookoutFile env details c =
     (case GetToken details '' '' 0 of
        (ptr, tok) \<Rightarrow>
          let size = copy_limit (size_of_text tok); path = StripTrailingWhitespace (CopyStr ptr) in
          if ce_can_write env path
          then did [Wrote path (take size (c_in c))] (c\<lparr>c_in := drop size (c_in c)\<rparr>)
          else c)"

definition ClientBookinFile :: "cenv \<Rightarrow> string option \<Rightarrow> cstate \<Rightarrow> cstate" where
  "ClientBookinFile env details c =
     (let path = StripTrailingWhitespace (CopyStr details) in
      case ce_read env path of
        None \<Rightarrow> c
      | Some data \<Rightarrow>
          did ([ToServer (''bookin '' @ fmt_d (ce_stream_size env path) @ '' '' @ path @ [LF])]
               @ (if ce_size env > 0 then [ToServer data] else [])) c)"

definition ClientRun :: "string option \<Rightarrow> cstate \<Rightarrow> cstate" where
  "ClientRun details c = did [Ran (StripTrailingWhitespace (CopyStr details))] c"

definition ClientAuth :: "cstate \<Rightarrow> cstate" where
  "ClientAuth c =
     (case read_line (c_typed c) of
        (line, rest) \<Rightarrow>
          did [Printed (''Authentication Required'' @ [LF]), ToServer (auth_line line)] (c\<lparr>c_typed := rest\<rparr>))"

text \<open>One line from the server.  After \<open>okay:\<close> everything that follows is copied to the output.\<close>

definition client_line :: "cenv \<Rightarrow> string \<Rightarrow> cstate \<Rightarrow> cstate" where
  "client_line env line c =
     (let t = StripTrailingWhitespace line in
      case GetToken (Some t) '' '' 0 of
        (ptr, tok) \<Rightarrow>
          if strcasecmp tok ''bookout'' = 0 then ClientBookoutFile env ptr c
          else if strcasecmp tok ''bookin'' = 0 then ClientBookinFile env ptr c
          else if strcasecmp tok ''clientrun'' = 0 then ClientRun ptr c
          else if strcasecmp tok ''auth'' = 0 then ClientAuth c
          else if strcasecmp tok ''okay:'' = 0 then did [Printed (c_in c)] (c\<lparr>c_in := []\<rparr>)
          else did [Printed t] c)"

lemma client_line_shorter: "length (c_in (client_line env line c)) \<le> length (c_in c)"
  by (auto simp: client_line_def Let_def ClientBookoutFile_def ClientBookinFile_def ClientRun_def
      ClientAuth_def did_def split: prod.splits option.splits)

function client_loop :: "cenv \<Rightarrow> cstate \<Rightarrow> cstate" where
  "client_loop env c =
     (case read_line (c_in c) of
        (None, rest) \<Rightarrow> c
      | (Some line, rest) \<Rightarrow> client_loop env (client_line env line (c\<lparr>c_in := rest\<rparr>)))"
  by pat_completeness auto
termination
proof (relation "measure (\<lambda>(_, c). length (c_in c))", goal_cases)
  case (2 env c l rest line)
  then have "length rest < length (c_in c)" using read_line_shorter [of "c_in c" line rest] by simp
  with client_line_shorter [of env line "c\<lparr>c_in := rest\<rparr>"] show ?case by simp
qed simp

declare client_loop.simps [simp del]

text \<open>\<open>main\<close>: the request, then the answers.\<close>

definition client_main :: "cenv \<Rightarrow> bool \<Rightarrow> string list \<Rightarrow> string \<Rightarrow> string \<Rightarrow> cstate option" where
  "client_main env connected argv typed replies =
     map_option
       (\<lambda>(cmd, vars).
          let c = \<lparr>c_in = replies, c_typed = typed, c_done = []\<rparr> in
          if connected then client_loop env (did [ToServer (request_line cmd vars)] c)
          else did [Printed (''FAIL: could not connect'' @ [LF])] c)
       (ParseCommandLineArgs argv)"

section \<open>What a command line means to the server\<close>

text \<open>Arguments: settings \<open>name=value\<close> and plain words.\<close>

definition setting_ok :: "string \<times> string \<Rightarrow> bool" where
  "setting_ok kv \<longleftrightarrow> name_ok (fst kv) \<and> fst kv \<noteq> [] \<and> hd (fst kv) \<noteq> CHR ''-'' \<and>
     (\<forall>c \<in> set (fst kv). \<not> isspace c) \<and> bare_ok (snd kv)"

definition setting_text :: "string \<times> string \<Rightarrow> string" where
  "setting_text kv = fst kv @ CHR ''='' # snd kv"

definition arg_ok :: "string \<Rightarrow> bool" where
  "arg_ok a \<longleftrightarrow> bare_ok a \<and> CHR ''='' \<notin> set a \<and> a \<noteq> ''-version'' \<and> a \<noteq> ''--version''"

definition spaced :: "string list \<Rightarrow> string" where
  "spaced ts = concat (map (\<lambda>t. t @ '' '') ts)"

lemma client_args_settings:
  "\<forall>kv \<in> set kvs. setting_ok kv \<Longrightarrow>
     client_args (map setting_text kvs @ as) vars args = client_args as (vars @ spaced (map setting_text kvs)) args"
proof (induction kvs arbitrary: vars)
  case (Cons kv kvs)
  obtain c n where n: "fst kv = c # n" "c \<noteq> CHR ''-''"
    using Cons.prems by (cases "fst kv") (auto simp: setting_ok_def)
  then have "setting_text kv \<noteq> ''-version''" "setting_text kv \<noteq> ''--version''"
    "deref (setting_text kv) \<noteq> CHR ''-''" "CHR ''='' \<in> set (setting_text kv)"
    by (auto simp: setting_text_def)
  with Cons show ?case by (simp add: spaced_def)
qed (simp add: spaced_def)

lemma client_args_plain:
  "\<forall>a \<in> set as. arg_ok a \<Longrightarrow> client_args as vars args = Some (vars, args @ spaced as)"
  by (induction as arbitrary: args) (auto simp: arg_ok_def spaced_def)

text \<open>The value of \<open>args\<close>: the words, each followed by a space but the last.\<close>

lemma StripTrailing_spaced:
  assumes "as \<noteq> []" "\<forall>a \<in> set as. bare_ok a"
  shows "StripTrailingWhitespace (spaced as) = join_with (CHR '' '') as"
  using assms
proof (induction as rule: induct_list012)
  case (2 a)
  then have "\<not> isspace (last a)" by (cases a rule: rev_cases) (auto simp: bare_ok_def)
  then show ?case
    using StripTrailingWhitespace_snoc_space [of "CHR '' ''" a]
    by (simp add: spaced_def StripTrailingWhitespace_id)
next
  case (3 a b as)
  have ne: "StripTrailingWhitespace (spaced (b # as)) \<noteq> []"
    using 3 by (cases as) (auto simp: bare_ok_def)
  have app: "StripTrailingWhitespace t \<noteq> [] \<Longrightarrow> StripTrailingWhitespace (s @ t) = s @ StripTrailingWhitespace t" for s t
    by (auto simp: StripTrailingWhitespace_def dropWhile_append split: if_splits)
  have "spaced (a # b # as) = (a @ '' '') @ spaced (b # as)" by (simp add: spaced_def)
  then have "StripTrailingWhitespace (spaced (a # b # as)) = (a @ '' '') @ StripTrailingWhitespace (spaced (b # as))"
    by (simp only: app [OF ne])
  with 3 show ?case by simp
qed simp

lemma invoke_pairs_next:
  "name_ok n \<Longrightarrow> written v w \<Longrightarrow>
     invoke_pairs (Some (n @ CHR ''='' # w @ CHR '' '' # r)) =
     (n, StripQuotes (StripTrailingWhitespace v)) # invoke_pairs (Some r)"
  by (simp add: invoke_pairs.simps [of "Some (n @ CHR ''='' # w @ CHR '' '' # r)"] GetNameValuePair_next)

lemma invoke_pairs_end [simp]: "invoke_pairs (Some []) = []"
  by (simp add: invoke_pairs.simps)

lemma invoke_pairs_last:
  "name_ok n \<Longrightarrow> written v w \<Longrightarrow>
     invoke_pairs (Some (n @ CHR ''='' # w)) = [(n, StripQuotes (StripTrailingWhitespace v))]"
  by (simp add: invoke_pairs.simps [of "Some (n @ CHR ''='' # w)"] GetNameValuePair_last)

lemma bare_strip: "bare_ok v \<Longrightarrow> StripQuotes (StripTrailingWhitespace v) = v"
  by (cases v rule: rev_cases) (auto simp: bare_ok_def StripTrailingWhitespace_id StripQuotes_bare)

lemma invoke_pairs_settings:
  "\<forall>kv \<in> set kvs. setting_ok kv \<Longrightarrow>
     invoke_pairs (Some (spaced (map setting_text kvs) @ r)) = kvs @ invoke_pairs (Some r)"
proof (induction kvs)
  case (Cons kv kvs)
  then have "name_ok (fst kv)" "written (snd kv) (snd kv)" "bare_ok (snd kv)"
    by (auto simp: setting_ok_def written_def)
  with Cons show ?case
    by (simp add: spaced_def setting_text_def invoke_pairs_next bare_strip)
qed (simp add: spaced_def)

text \<open>An extra space makes an unnamed pair.\<close>

lemma GetNameValuePair_blank:
  "GetNameValuePair (Some (CHR '' '' # r)) '' '' ''='' = (Some r, [], [])"
proof -
  have "find_char (CHR '' '') (CHR '' '' # r) = (True, CHR '' '' # r, Some r)"
    by (simp add: find_char_Cons)
  then have "GetToken (Some (CHR '' '' # r)) '' '' GETTOKEN_QUOTES = (Some r, [])"
    by (simp add: GetToken_find_char GetTokenPostProcess_def token_bounds_def token_strip_quotes_def)
  then show ?thesis by (simp add: GetNameValuePair_def)
qed

lemma invoke_pairs_blank: "invoke_pairs (Some (CHR '' '' # r)) = ([], []) # invoke_pairs (Some r)"
  by (simp add: invoke_pairs.simps [of "Some (CHR '' '' # r)"] GetNameValuePair_blank
      StripTrailingWhitespace_def StripQuotes_def)

text \<open>The server's side of the first word of a request.\<close>

lemma REQUEST_PATTERN_separators: "BuildMultiSeparators REQUEST_PATTERN = [WS_PATTERN, '':'']"
  by (simp add: REQUEST_PATTERN_def WS_PATTERN_def BuildMultiSeparators.simps)

lemma request_step_thru: "c \<noteq> BSL \<Longrightarrow> GetTokenStepThru (c # r) GETTOKEN_MULTI_SEP = r"
  by (simp add: GetTokenStepThru_def)

lemma request_try:
  assumes "\<not> tok_blank c" "c \<noteq> BSL"
  shows "multi_sep_try [WS_PATTERN, '':''] (c # r) None GETTOKEN_MULTI_SEP =
     (if c = CHR '':'' then (Some (c # r), Some r) else (None, None))"
  using assms char_sep_match [of "CHR '':''" c r GETTOKEN_MULTI_SEP]
  by (simp add: ws_match_plain tok_quote_def)

lemma request_loop:
  assumes "\<not> tok_blank c" "c \<noteq> BSL"
  shows "multi_sep_loop [WS_PATTERN, '':''] (c # r) None GETTOKEN_MULTI_SEP =
     (if c = CHR '':'' then Some (c # r, Some r)
      else multi_sep_loop [WS_PATTERN, '':''] r None GETTOKEN_MULTI_SEP)"
  using request_try [OF assms, of r] request_step_thru [OF assms(2)]
  by (simp add: multi_sep_loop.simps [of _ "c # r"] del: multi_sep_try.simps)

lemma request_token:
  "GetToken (Some (''invoke:'' @ r)) REQUEST_PATTERN GETTOKEN_MULTI_SEP = (Some r, ''invoke'')"
proof -
  have "multi_sep_loop [WS_PATTERN, '':''] (''invoke:'' @ r) None GETTOKEN_MULTI_SEP =
      Some (CHR '':'' # r, Some r)"
    by (simp add: request_loop tok_blank_def)
  then show ?thesis
    by (simp add: GetToken_def REQUEST_PATTERN_separators GetTokenMultiSepMatch_def
        GetTokenPostProcess_def token_bounds_def) (simp add: REQUEST_PATTERN_def)
qed

text \<open>What the handler of a request gets for a command line.\<close>

definition args_pairs :: "(string \<times> string) list \<Rightarrow> string list \<Rightarrow> (string \<times> string) list" where
  "args_pairs kvs as =
     kvs @ (if kvs = [] then [] else [([], [])]) @ [(''args'', join_with (CHR '' '') as)]"

lemma plain_for_spaced: "\<forall>a \<in> set as. bare_ok a \<Longrightarrow> quoted_ok (spaced as)"
  by (induction as) (auto simp: quoted_ok_def spaced_def bare_ok_def plain_for_def tok_quote_def)

lemma join_strip_quotes:
  assumes "as \<noteq> []" "\<forall>a \<in> set as. bare_ok a"
  shows "StripQuotes (join_with (CHR '' '') as) = join_with (CHR '' '') as"
proof -
  obtain a bs where as: "as = a # bs" using assms(1) by (cases as) auto
  obtain c cs where a: "a = c # cs" "\<not> isspace c" "\<not> tok_quote c"
    using assms(2) as by (cases a) (auto simp: bare_ok_def plain_for_def)
  then have "deref (join_with (CHR '' '') as) = c" using as by (cases bs) auto
  with a show ?thesis by (intro StripQuotes_id) (auto simp: tok_quote_def)
qed

lemma args_pair:
  assumes "as \<noteq> []" "\<forall>a \<in> set as. arg_ok a"
  shows "invoke_pairs (Some (''args='' @ quoted (spaced as))) = [(''args'', join_with (CHR '' '') as)]"
proof -
  have bare: "\<forall>a \<in> set as. bare_ok a" using assms(2) by (simp add: arg_ok_def)
  have "name_ok ''args''" by (simp add: name_ok_def plain_for_def tok_quote_def)
  moreover have "written (spaced as) (quoted (spaced as))" using plain_for_spaced [OF bare] by (simp add: written_def)
  ultimately show ?thesis
    using invoke_pairs_last [of "''args''"] StripTrailing_spaced [OF assms(1) bare] join_strip_quotes [OF assms(1) bare]
    by simp
qed

lemma settings_first:
  assumes "kvs \<noteq> []" "\<forall>kv \<in> set kvs. setting_ok kv"
  shows "dropWhile isspace (spaced (map setting_text kvs) @ r) = spaced (map setting_text kvs) @ r"
proof -
  obtain kv kvs' where k: "kvs = kv # kvs'" using assms(1) by (cases kvs) auto
  obtain c n where "fst kv = c # n" "\<not> isspace c"
    using assms(2) k by (cases "fst kv") (auto simp: setting_ok_def)
  with k show ?thesis by (simp add: spaced_def setting_text_def)
qed

lemma plain_word_first: "plain_word cmd \<Longrightarrow> cmd \<noteq> [] \<Longrightarrow> dropWhile isspace (cmd @ r) = cmd @ r"
  by (cases cmd) (auto simp: plain_word_Cons)

lemma request_details:
  assumes "plain_word cmd" "cmd \<noteq> []" "\<forall>kv \<in> set kvs. setting_ok kv" "as \<noteq> []" "\<forall>a \<in> set as. arg_ok a"
  shows "invoke_details (Some ('' '' @ cmd @ '' '' @ spaced (map setting_text kvs) @ '' args='' @ quoted (spaced as))) =
     Inr (cmd, args_pairs kvs as)"
proof -
  let ?args = "''args='' @ quoted (spaced as)"
  let ?vars = "spaced (map setting_text kvs) @ CHR '' '' # ?args"
  have "GetToken (Some (cmd @ CHR '' '' # ?vars)) WS_PATTERN GETTOKEN_QUOTES = (Some (dropWhile isspace ?vars), cmd)"
    using assms(1) by (rule GetToken_word) simp
  moreover have "invoke_pairs (Some (dropWhile isspace ?vars)) = args_pairs kvs as"
  proof (cases "kvs = []")
    case True
    have "dropWhile isspace ?vars = ?args" using True by (simp add: spaced_def isspace_def)
    with True args_pair [OF assms(4,5)] show ?thesis by (simp add: args_pairs_def)
  next
    case False
    then show ?thesis
      using settings_first [OF False assms(3)] invoke_pairs_settings [OF assms(3)] invoke_pairs_blank
        args_pair [OF assms(4,5)] by (simp add: args_pairs_def)
  qed
  ultimately show ?thesis
    using plain_word_first [OF assms(1,2), of "CHR '' '' # ?vars"]
    by (simp add: invoke_details_def skip_space_def)
qed

lemma client_command_line:
  assumes "\<forall>kv \<in> set kvs. setting_ok kv" "as \<noteq> []" "\<forall>a \<in> set as. arg_ok a"
  shows "ParseCommandLineArgs (cmd # map setting_text kvs @ as) =
     Some (cmd, spaced (map setting_text kvs) @ '' args='' @ quoted (spaced as))"
proof -
  have "spaced as \<noteq> []" using assms(2) by (cases as) (auto simp: spaced_def)
  then show ?thesis
    using client_args_settings [OF assms(1)] client_args_plain [OF assms(3)]
    by (simp add: ParseCommandLineArgs_def)
qed

end
