(* ===== verification/Encodings.thy ===== *)
theory Encodings
  imports CString
begin

text \<open>
  \<open>libUseful-4/base64.c\<close> and \<open>libUseful-4/Encodings.c\<close>: writing bytes as text and reading them
  back, and the HTTP quoting of \<open>Http.c\<close> that one of the decoders uses.  The grant database writes
  the hash of a program in base 64.

  Bytes are \<open>8 word\<close>s.  Reading a table entry or a buffer that was never written is the fault
  \<open>BadPointer\<close>, reading behind the terminator of a string \<open>OutOfBounds\<close>.
\<close>

unbundle bit_operations_syntax

type_synonym bytes = "8 word list"

definition byte_char :: "8 word \<Rightarrow> char" where
  "byte_char b = char_of (unat b)"

definition char_byte :: "char \<Rightarrow> 8 word" where
  "char_byte c = of_nat (of_char c)"

lemma unat_less_256: "unat (b :: 8 word) < 256"
  using unsigned_less [of b] by simp

lemma char_byte_char [simp]: "char_byte (byte_char b) = b"
  using unat_less_256 [of b] by (simp add: char_byte_def byte_char_def)

lemma byte_char_byte [simp]: "byte_char (char_byte c) = c"
proof -
  have "(of_char c :: nat) < 256" by (rule nat_of_char_less_256)
  then show ?thesis by (simp add: char_byte_def byte_char_def unat_of_nat)
qed

section \<open>Base 64\<close>

definition BASE64_CHARS :: string where
  "BASE64_CHARS = ''ABCDEFGHIJKLMNOPQRSTUVWXYZabcdefghijklmnopqrstuvwxyz0123456789+/''"
definition RBASE64_CHARS :: string where
  "RBASE64_CHARS = ''ABCDEFGHIJKLMNOPQRSTUVWXYZabcdefghijklmnopqrstuvwxyz0123456789-_''"
definition IBASE64_CHARS :: string where
  "IBASE64_CHARS = ''AaBbCcDdEeFfGgHhIiJjKkLlMmNnOoPpQqRrSsTtUuVvWwXxYyZz0123456789+/''"
definition PBASE64_CHARS :: string where
  "PBASE64_CHARS = ''0123456789-ABCDEFGHIJKLMNOPQRSTUVWXYZ_abcdefghijklmnopqrstuvwxyz''"
definition CRYPT_CHARS :: string where
  "CRYPT_CHARS = ''./0123456789ABCDEFGHIJKLMNOPQRSTUVWXYZabcdefghijklmnopqrstuvwxyz''"
definition UUENC_CHARS :: string where
  "UUENC_CHARS = '' !'' @ [DQ] @ ''#$%&'' @ [SQ] @ ''()*+,-./0123456789:;<=>?@ABCDEFGHIJKLMNOPQRSTUVWXYZ['' @ [BSL] @ '']^_''"
definition XXENC_CHARS :: string where
  "XXENC_CHARS = ''+-0123456789ABCDEFGHIJKLMNOPQRSTUVWXYZabcdefghijklmnopqrstuvwxyz''"

lemmas digit_tables = BASE64_CHARS_def RBASE64_CHARS_def IBASE64_CHARS_def PBASE64_CHARS_def
  CRYPT_CHARS_def UUENC_CHARS_def XXENC_CHARS_def

text \<open>The four digits of three bytes, as the code computes them.\<close>

definition sextet1 :: "8 word \<Rightarrow> 8 word" where "sextet1 a = drop_bit 2 a"
definition sextet2 :: "8 word \<Rightarrow> 8 word \<Rightarrow> 8 word" where
  "sextet2 a b = (push_bit 4 a AND 0x30) OR drop_bit 4 b"
definition sextet3 :: "8 word \<Rightarrow> 8 word \<Rightarrow> 8 word" where
  "sextet3 b c = (push_bit 2 b AND 0x3c) OR drop_bit 6 c"
definition sextet2_end :: "8 word \<Rightarrow> 8 word" where "sextet2_end a = push_bit 4 a AND 0x30"
definition sextet3_end :: "8 word \<Rightarrow> 8 word" where "sextet3_end b = push_bit 2 b AND 0x3c"
definition sextet4 :: "8 word \<Rightarrow> 8 word" where "sextet4 c = c AND 0x3f"

lemmas sextet_defs = sextet1_def sextet2_def sextet3_def sextet4_def sextet2_end_def sextet3_end_def

definition digit64 :: "string \<Rightarrow> 8 word \<Rightarrow> char" where
  "digit64 digits v = digits ! unat v"

fun Radix64frombits :: "bytes \<Rightarrow> string \<Rightarrow> char \<Rightarrow> string" where
  "Radix64frombits [] digits pad = []"
| "Radix64frombits [a] digits pad =
     [digit64 digits (sextet1 a), digit64 digits (sextet2_end a), pad, pad]"
| "Radix64frombits [a, b] digits pad =
     [digit64 digits (sextet1 a), digit64 digits (sextet2 a b), digit64 digits (sextet3_end b), pad]"
| "Radix64frombits (a # b # c # rest) digits pad =
     [digit64 digits (sextet1 a), digit64 digits (sextet2 a b), digit64 digits (sextet3 b c), digit64 digits (sextet4 c)]
       @ Radix64frombits rest digits pad"

text \<open>
  \<open>DECODE64\<close>: \<open>None\<close> is \<open>BAD\<close>.  The table is a local array of which only the entries of the digits
  are written; a digit that occurs twice has the value of its last place.
\<close>

definition DECODE64 :: "string \<Rightarrow> char \<Rightarrow> 8 word option res" where
  "DECODE64 digits c =
     (if (of_char c :: nat) \<ge> 128 then Inr None
      else if c \<in> set digits
      then Inr (Some (of_nat (length digits - 1 - length (takeWhile (\<lambda>d. d \<noteq> c) (rev digits)))))
      else Inl BadPointer)"

text \<open>\<open>ptr[i]\<close>\<close>

definition read_at :: "string \<Rightarrow> nat \<Rightarrow> char res" where
  "read_at p i = (if i < length p then Inr (p ! i) else if i = length p then Inr NUL else Inl OutOfBounds)"

definition group_bytes :: "8 word \<Rightarrow> 8 word \<Rightarrow> 8 word option \<Rightarrow> 8 word option \<Rightarrow> bytes" where
  "group_bytes v1 v2 v3 v4 =
     (push_bit 2 v1 OR drop_bit 4 v2) #
     (case v3 of None \<Rightarrow> [] | Some w3 \<Rightarrow>
        ((push_bit 4 v2 AND 0xf0) OR drop_bit 2 w3) #
        (case v4 of None \<Rightarrow> [] | Some w4 \<Rightarrow> [(push_bit 6 w3 AND 0xc0) OR w4]))"

text \<open>A digit or the padding: \<open>None\<close> is \<open>BAD\<close>, \<open>Some None\<close> the padding.\<close>

definition digit_or_pad :: "string \<Rightarrow> char \<Rightarrow> char \<Rightarrow> 8 word option option res" where
  "digit_or_pad digits pad c =
     (if c = pad then Inr (Some None) else bindr (DECODE64 digits c) (\<lambda>v. Inr (map_option Some v)))"

text \<open>
  One turn of the loop: \<open>None\<close> when a bad digit ends it, else the bytes and the fourth character.
  A fourth digit behind a padding is not used.
\<close>

definition decode_group :: "string \<Rightarrow> char \<Rightarrow> string \<Rightarrow> (bytes \<times> char) option res" where
  "decode_group digits pad p =
     bindr (bindr (read_at p 0) (DECODE64 digits)) (\<lambda>d1. case d1 of None \<Rightarrow> Inr None | Some v1 \<Rightarrow>
     bindr (bindr (read_at p 1) (DECODE64 digits)) (\<lambda>d2. case d2 of None \<Rightarrow> Inr None | Some v2 \<Rightarrow>
     bindr (bindr (read_at p 2) (digit_or_pad digits pad)) (\<lambda>d3. case d3 of None \<Rightarrow> Inr None | Some v3 \<Rightarrow>
     bindr (read_at p 3) (\<lambda>c4.
     bindr (digit_or_pad digits pad c4) (\<lambda>d4. case d4 of None \<Rightarrow> Inr None | Some v4 \<Rightarrow>
       Inr (Some (group_bytes v1 v2 v3 v4, c4)))))))"

text \<open>The count (\<open>-1\<close> for a bad digit) and the bytes written.\<close>

function radix64_loop :: "string \<Rightarrow> char \<Rightarrow> string \<Rightarrow> bytes \<Rightarrow> (int \<times> bytes) res" where
  "radix64_loop digits pad p out =
     (case decode_group digits pad p of
        Inl e \<Rightarrow> Inl e
      | Inr None \<Rightarrow> Inr (-1, out)
      | Inr (Some (bs, c4)) \<Rightarrow>
          (case read_at p 4 of
             Inl e \<Rightarrow> Inl e
           | Inr c \<Rightarrow>
               if c \<noteq> NUL \<and> c \<noteq> CR \<and> 4 < length p \<and> c4 \<noteq> pad
               then radix64_loop digits pad (drop 4 p) (out @ bs)
               else Inr (int (length (out @ bs)), out @ bs)))"
  by pat_completeness auto
termination
  by (relation "measure (\<lambda>(_, _, p, _). length p)") auto

declare radix64_loop.simps [simp del]

definition Radix64tobits :: "string \<Rightarrow> string \<Rightarrow> char \<Rightarrow> (int \<times> bytes) res" where
  "Radix64tobits text digits pad =
     (let p = (if take 2 text = ''+ '' then drop 2 text else text) in
      if deref p = CR then Inr (0, []) else radix64_loop digits pad p [])"

section \<open>Base 64 round trip\<close>

text \<open>A usable table: 64 different ASCII digits, none of them a space, an end of line or the padding.\<close>

definition radix_ok :: "string \<Rightarrow> char \<Rightarrow> bool" where
  "radix_ok digits pad \<longleftrightarrow> length digits = 64 \<and> distinct digits \<and> pad \<notin> set digits \<and>
     (\<forall>c \<in> set digits. (of_char c :: nat) < 128 \<and> c \<noteq> NUL \<and> c \<noteq> CR \<and> c \<noteq> CHR '' '')"

lemma takeWhile_rev_distinct:
  assumes "distinct xs" "i < length xs"
  shows "length (takeWhile (\<lambda>d. d \<noteq> xs ! i) (rev xs)) = length xs - 1 - i"
proof -
  have xs: "xs = take i xs @ xs ! i # drop (Suc i) xs" using assms(2) by (simp add: id_take_nth_drop)
  have "xs ! i \<notin> set (drop (Suc i) xs)"
    using assms xs by (metis distinct.simps(2) distinct_append)
  then have "takeWhile (\<lambda>d. d \<noteq> xs ! i) (rev (drop (Suc i) xs) @ xs ! i # rev (take i xs)) = rev (drop (Suc i) xs)"
    by (subst takeWhile_append2) auto
  moreover have "rev xs = rev (drop (Suc i) xs) @ xs ! i # rev (take i xs)"
    by (subst xs) simp
  ultimately show ?thesis by simp
qed

lemma DECODE64_digit:
  assumes "radix_ok digits pad" "unat v < 64"
  shows "DECODE64 digits (digit64 digits v) = Inr (Some v)"
proof -
  have "digits ! unat v \<in> set digits" "length digits = 64" "distinct digits"
    using assms by (auto simp: radix_ok_def)
  then show ?thesis
    using assms takeWhile_rev_distinct [of digits "unat v"]
    by (auto simp: DECODE64_def digit64_def radix_ok_def not_le)
qed

lemma digit64_chars:
  assumes "radix_ok digits pad" "unat v < 64"
  shows "digit64 digits v \<noteq> pad" "digit64 digits v \<noteq> NUL" "digit64 digits v \<noteq> CR" "digit64 digits v \<noteq> CHR '' ''"
proof -
  have "digit64 digits v \<in> set digits" using assms by (simp add: digit64_def radix_ok_def)
  with assms(1) show "digit64 digits v \<noteq> pad" "digit64 digits v \<noteq> NUL" "digit64 digits v \<noteq> CR" "digit64 digits v \<noteq> CHR '' ''"
    unfolding radix_ok_def by blast+
qed

lemma small_sextet: "v AND 0x3f = v \<Longrightarrow> unat (v :: 8 word) < 64"
proof -
  assume "v AND 0x3f = v"
  then have "v = take_bit 6 v" by (simp add: take_bit_eq_mask mask_eq_exp_minus_1)
  then have "unat v = take_bit 6 (unat v)" by (metis unsigned_take_bit_eq)
  also have "\<dots> < 64" by (simp add: take_bit_eq_mod)
  finally show ?thesis .
qed

lemma byte_bits: "n < LENGTH(8) \<longleftrightarrow> n \<in> {0,1,2,3,4,5,6,7}"
  by auto

lemma bit_above: "8 \<le> n \<Longrightarrow> \<not> bit (b :: 8 word) n"
  using bit_imp_le_length [of b n] by auto

lemma byte_eqI: "(\<And>n. n \<in> {0,1,2,3,4,5,6,7} \<Longrightarrow> bit a n = bit (b :: 8 word) n) \<Longrightarrow> a = b"
  by (rule bit_word_eqI) (auto simp: less_Suc_eq numeral_eq_Suc)

lemma sextets_small [simp]:
  "unat (sextet1 a) < 64" "unat (sextet2 a b) < 64" "unat (sextet3 b c) < 64" "unat (sextet4 c) < 64"
  "unat (sextet2_end a) < 64" "unat (sextet3_end b) < 64"
  by (rule small_sextet, rule byte_eqI; auto simp: sextet_defs bit_simps bit_numeral_rec bit_above)+

lemma join_bytes:
  "push_bit 2 (sextet1 a) OR drop_bit 4 (sextet2 a b) = a"
  "(push_bit 4 (sextet2 a b) AND 0xf0) OR drop_bit 2 (sextet3 b c) = b"
  "(push_bit 6 (sextet3 b c) AND 0xc0) OR sextet4 c = c"
  "push_bit 2 (sextet1 a) OR drop_bit 4 (sextet2_end a) = a"
  "(push_bit 4 (sextet2 a b) AND 0xf0) OR drop_bit 2 (sextet3_end b) = b"
  by (rule byte_eqI; auto simp: sextet_defs bit_simps bit_numeral_rec bit_above numeral_2_eq_2 [symmetric])+

lemma digit_or_pad_digit:
  "radix_ok digits pad \<Longrightarrow> unat v < 64 \<Longrightarrow> digit_or_pad digits pad (digit64 digits v) = Inr (Some (Some v))"
  by (simp add: digit_or_pad_def DECODE64_digit digit64_chars)

lemma digit_or_pad_pad [simp]: "digit_or_pad digits pad pad = Inr (Some None)"
  by (simp add: digit_or_pad_def)

lemma read_at_simps [simp]:
  "read_at (c # cs) 0 = Inr c" "read_at (c # d # cs) (Suc 0) = Inr d" "read_at (c # d # e # cs) 2 = Inr e"
  "read_at (c # d # e # f # cs) 3 = Inr f" "read_at (c # d # e # f # cs) 4 = Inr (deref cs)"
  by (simp_all add: read_at_def deref_def numeral_eq_Suc split: list.split)

lemma decode_group_full:
  assumes "radix_ok digits pad"
  shows "decode_group digits pad (digit64 digits (sextet1 a) # digit64 digits (sextet2 a b) #
       digit64 digits (sextet3 b c) # digit64 digits (sextet4 c) # r) =
     Inr (Some ([a, b, c], digit64 digits (sextet4 c)))"
  by (simp add: decode_group_def DECODE64_digit [OF assms] digit_or_pad_digit [OF assms] group_bytes_def join_bytes)

lemma decode_group_two:
  assumes "radix_ok digits pad"
  shows "decode_group digits pad (digit64 digits (sextet1 a) # digit64 digits (sextet2 a b) #
       digit64 digits (sextet3_end b) # pad # r) = Inr (Some ([a, b], pad))"
  by (simp add: decode_group_def DECODE64_digit [OF assms] digit_or_pad_digit [OF assms] group_bytes_def join_bytes)

lemma decode_group_one:
  assumes "radix_ok digits pad"
  shows "decode_group digits pad (digit64 digits (sextet1 a) # digit64 digits (sextet2_end a) # pad # pad # r) =
     Inr (Some ([a], pad))"
  by (simp add: decode_group_def DECODE64_digit [OF assms] group_bytes_def join_bytes)

lemma Radix64frombits_first:
  "bs \<noteq> [] \<Longrightarrow> \<exists>v r. Radix64frombits bs digits pad = digit64 digits v # r \<and> unat v < 64"
  by (cases "(bs, digits, pad)" rule: Radix64frombits.cases) auto

lemma radix64_loop_frombits:
  assumes "radix_ok digits pad"
  shows "bs \<noteq> [] \<Longrightarrow> radix64_loop digits pad (Radix64frombits bs digits pad) out = Inr (int (length (out @ bs)), out @ bs)"
  using assms
proof (induction bs digits pad arbitrary: out rule: Radix64frombits.induct)
  case (2 a digits pad)
  then show ?case by (subst radix64_loop.simps) (simp add: decode_group_one)
next
  case (3 a b digits pad)
  then show ?case by (subst radix64_loop.simps) (simp add: decode_group_two)
next
  case (4 a b c rest digits pad)
  show ?case
  proof (cases "rest = []")
    case True
    with 4 show ?thesis by (subst radix64_loop.simps) (simp add: decode_group_full)
  next
    case False
    then obtain v r where v: "Radix64frombits rest digits pad = digit64 digits v # r" "unat v < 64"
      using Radix64frombits_first by blast
    have "digit64 digits (sextet4 c) \<noteq> pad" "digit64 digits v \<noteq> NUL" "digit64 digits v \<noteq> CR"
      using digit64_chars [OF 4(3)] v(2) by auto
    with 4 False v(1) show ?thesis
      by (subst radix64_loop.simps) (simp add: decode_group_full)
  qed
qed simp

lemma Radix64_round_trip:
  assumes "radix_ok digits pad" "bs \<noteq> []"
  shows "Radix64tobits (Radix64frombits bs digits pad) digits pad = Inr (int (length bs), bs)"
proof -
  obtain v r where v: "Radix64frombits bs digits pad = digit64 digits v # r" "unat v < 64"
    using Radix64frombits_first [OF assms(2)] by blast
  have first: "digit64 digits v \<noteq> CR" using digit64_chars [OF assms(1) v(2)] by auto
  have second: "hd r \<noteq> CHR '' ''"
    using v(1) digit64_chars(4) [OF assms(1)]
    by (cases "(bs, digits, pad)" rule: Radix64frombits.cases) auto
  then have "take 2 (digit64 digits v # r) \<noteq> ''+ ''" by (cases r) auto
  then have "(if take 2 (digit64 digits v # r) = ''+ '' then drop 2 (digit64 digits v # r) else digit64 digits v # r) =
      digit64 digits v # r" by (rule if_not_P)
  then show ?thesis
    using radix64_loop_frombits [OF assms, of "[]"] first
    unfolding Radix64tobits_def v(1) Let_def by (simp only: deref_simps if_False) simp
qed

lemma Radix64frombits_no_NUL:
  "radix_ok digits pad \<Longrightarrow> pad \<noteq> NUL \<Longrightarrow> NUL \<notin> set (Radix64frombits bs digits pad)"
  by (induction bs digits pad rule: Radix64frombits.induct) (auto dest: digit64_chars(2) [OF _ sextets_small(1)]
     digit64_chars(2) [OF _ sextets_small(2)] digit64_chars(2) [OF _ sextets_small(3)] digit64_chars(2) [OF _ sextets_small(4)]
     digit64_chars(2) [OF _ sextets_small(5)] digit64_chars(2) [OF _ sextets_small(6)])

lemma radix_tables:
  "radix_ok BASE64_CHARS (CHR ''='')" "radix_ok RBASE64_CHARS (CHR ''='')"
  by (simp_all add: radix_ok_def digit_tables)

section \<open>Numbers in a base\<close>

text \<open>\<open>strtol\<close> in a base up to 16.\<close>

definition digit_in :: "nat \<Rightarrow> char \<Rightarrow> nat option" where
  "digit_in base c =
     (let v = (if isdigit c then of_char c - 48
               else if islower c then of_char c - 87
               else if isupper c then of_char c - 55 else 36) :: nat
      in if v < base then Some v else None)"

fun digits_in :: "nat \<Rightarrow> int \<Rightarrow> string \<Rightarrow> int" where
  "digits_in base acc [] = acc"
| "digits_in base acc (c # cs) =
     (case digit_in base c of None \<Rightarrow> acc | Some v \<Rightarrow> digits_in base (acc * int base + int v) cs)"

definition skip_prefix :: "nat \<Rightarrow> string \<Rightarrow> string" where
  "skip_prefix base s =
     (if base = 16 \<and> strlwr (take 2 s) = ''0x'' \<and> digit_in base (deref (drop 2 s)) \<noteq> None then drop 2 s else s)"

definition strtol :: "nat \<Rightarrow> string \<Rightarrow> int" where
  "strtol base s =
     (let t = dropWhile isspace s;
          v = (if deref t = CHR ''-'' then - digits_in base 0 (skip_prefix base (tl t))
               else if deref t = CHR ''+'' then digits_in base 0 (skip_prefix base (tl t))
               else digits_in base 0 (skip_prefix base t))
      in max (- (2 ^ 63)) (min (2 ^ 63 - 1) v))"

text \<open>\<open>printf\<close> with \<open>%0<w>o\<close>, \<open>%0<w>d\<close>, \<open>%0<w>x\<close> and \<open>%0<w>X\<close> of a number that is not negative.\<close>

definition lower_digits :: string where "lower_digits = ''0123456789abcdef''"
definition upper_digits :: string where "upper_digits = ''0123456789ABCDEF''"

fun base_digits :: "nat \<Rightarrow> string \<Rightarrow> nat \<Rightarrow> string" where
  "base_digits b tbl n =
     (if n < b \<or> b < 2 then [tbl ! n] else base_digits b tbl (n div b) @ [tbl ! (n mod b)])"

declare base_digits.simps [simp del]

definition fmt_base :: "nat \<Rightarrow> nat \<Rightarrow> string \<Rightarrow> nat \<Rightarrow> string" where
  "fmt_base w b tbl n =
     (let d = base_digits b tbl n in replicate (w - length d) (CHR ''0'') @ d)"

text \<open>\<open>strntol\<close>: whether there were enough characters, the rest, and the number when there were.\<close>

definition strntol :: "string \<Rightarrow> nat \<Rightarrow> nat \<Rightarrow> bool \<times> string \<times> int option" where
  "strntol p len radix =
     (if len \<le> length p then (True, drop len p, Some (strtol radix (strlwr (take len p))))
      else (False, [], None))"

section \<open>\<open>Encodings.c\<close>\<close>

definition ENCODE_NONE :: int where "ENCODE_NONE = 0"
definition ENCODE_QUOTED_MIME :: int where "ENCODE_QUOTED_MIME = 1"
definition ENCODE_QUOTED_HTTP :: int where "ENCODE_QUOTED_HTTP = 2"
definition ENCODE_OCTAL :: int where "ENCODE_OCTAL = 8"
definition ENCODE_DECIMAL :: int where "ENCODE_DECIMAL = 10"
definition ENCODE_HEX :: int where "ENCODE_HEX = 16"
definition ENCODE_HEXUPPER :: int where "ENCODE_HEXUPPER = 17"
definition ENCODE_BASE64 :: int where "ENCODE_BASE64 = 64"
definition ENCODE_IBASE64 :: int where "ENCODE_IBASE64 = 65"
definition ENCODE_PBASE64 :: int where "ENCODE_PBASE64 = 66"
definition ENCODE_XXENC :: int where "ENCODE_XXENC = 67"
definition ENCODE_UUENC :: int where "ENCODE_UUENC = 68"
definition ENCODE_CRYPT :: int where "ENCODE_CRYPT = 69"
definition ENCODE_RBASE64 :: int where "ENCODE_RBASE64 = 70"
definition ENCODE_ASCII85 :: int where "ENCODE_ASCII85 = 85"
definition ENCODE_Z85 :: int where "ENCODE_Z85 = 86"

lemmas encode_defs = ENCODE_NONE_def ENCODE_QUOTED_MIME_def ENCODE_QUOTED_HTTP_def ENCODE_OCTAL_def
  ENCODE_DECIMAL_def ENCODE_HEX_def ENCODE_HEXUPPER_def ENCODE_BASE64_def ENCODE_IBASE64_def
  ENCODE_PBASE64_def ENCODE_XXENC_def ENCODE_UUENC_def ENCODE_CRYPT_def ENCODE_RBASE64_def
  ENCODE_ASCII85_def ENCODE_Z85_def

definition EncodingParse :: "string \<Rightarrow> int" where
  "EncodingParse s =
     (if strcmp s ''8'' = 0 then ENCODE_OCTAL
      else if strcmp (take 3 s) ''oct'' = 0 then ENCODE_OCTAL
      else if strcmp s ''10'' = 0 then ENCODE_DECIMAL
      else if strcmp (take 3 s) ''dec'' = 0 then ENCODE_DECIMAL
      else if strcmp s ''16'' = 0 then ENCODE_HEX
      else if strcmp (take 3 s) ''hex'' = 0 then ENCODE_HEX
      else if strcmp s ''64'' = 0 then ENCODE_BASE64
      else if strcmp s ''b64'' = 0 then ENCODE_BASE64
      else if strcmp s ''base64'' = 0 then ENCODE_BASE64
      else if strcmp s ''i64'' = 0 then ENCODE_IBASE64
      else if strcmp s ''p64'' = 0 then ENCODE_PBASE64
      else if strcmp s ''r64'' = 0 then ENCODE_RBASE64
      else if strcmp s ''rfc4648'' = 0 then ENCODE_RBASE64
      else if strcmp (take 2 s) ''xx'' = 0 then ENCODE_XXENC
      else if strcmp (take 2 s) ''uu'' = 0 then ENCODE_UUENC
      else if strcmp s ''crypt'' = 0 then ENCODE_CRYPT
      else if strcmp s ''z85'' = 0 then ENCODE_Z85
      else if strcmp s ''quoted-printable'' = 0 then ENCODE_QUOTED_MIME
      else if strcasecmp s ''http'' = 0 then ENCODE_QUOTED_HTTP
      else if strcmp s ''quoted-http'' = 0 then ENCODE_QUOTED_HTTP
      else ENCODE_NONE)"

text \<open>
  \<open>Ascii85\<close>: the value of a block of one to four bytes, its five digits, and as many of them
  as the block has bytes.
\<close>

definition ASCII85_CHARS :: string where
  "ASCII85_CHARS = ''!'' @ [DQ] @ ''#$%&'' @ [SQ] @ ''()*+,-./0123456789:;<=>?@ABCDEFGHIJKLMNOPQRSTUVWXYZ['' @ [BSL]
     @ '']^_`abcdefghijklmnopqrstu''"
definition Z85_CHARS :: string where
  "Z85_CHARS = ''01234567899abcdefghijklmnopqrstuvwxyzABCDEFGHIJKLMNOPQRSTUVWXYZ.-:+=^!/*?&<>()[]{}@%$#.''"

fun block_value :: "bytes \<Rightarrow> nat \<Rightarrow> 32 word" where
  "block_value [] shift = 0"
| "block_value (b # bs) shift = push_bit shift (of_nat (unat b)) OR block_value bs (shift - 8)"

fun digits85 :: "nat \<Rightarrow> 32 word \<Rightarrow> string \<Rightarrow> string" where
  "digits85 0 v tbl = []"
| "digits85 (Suc n) v tbl = digits85 n (v div 85) tbl @ [tbl ! unat (v mod 85)]"

function Ascii85 :: "bytes \<Rightarrow> string \<Rightarrow> string" where
  "Ascii85 bs tbl =
     (if bs = [] then []
      else let block = take 4 bs;
               v = block_value block 24;
               buff = (if v = 0 then ''z'' else digits85 5 v tbl)
           in take (length block) buff @ Ascii85 (drop 4 bs) tbl)"
  by pat_completeness auto
termination
  by (relation "measure (\<lambda>(bs, _). length bs)") auto

declare Ascii85.simps [simp del]

definition encode_numbers :: "nat \<Rightarrow> nat \<Rightarrow> string \<Rightarrow> bytes \<Rightarrow> string" where
  "encode_numbers w b tbl bs = concat (map (\<lambda>x. fmt_base w b tbl (unat x)) bs)"

definition EncodeBytes :: "bytes \<Rightarrow> int \<Rightarrow> string" where
  "EncodeBytes bs enc =
     (if enc = ENCODE_BASE64 then cut_at_NUL (Radix64frombits bs BASE64_CHARS (CHR ''=''))
      else if enc = ENCODE_IBASE64 then cut_at_NUL (Radix64frombits bs IBASE64_CHARS NUL)
      else if enc = ENCODE_PBASE64 then cut_at_NUL (Radix64frombits bs PBASE64_CHARS NUL)
      else if enc = ENCODE_RBASE64 then cut_at_NUL (Radix64frombits bs RBASE64_CHARS (CHR ''=''))
      else if enc = ENCODE_CRYPT then cut_at_NUL (Radix64frombits bs CRYPT_CHARS NUL)
      else if enc = ENCODE_XXENC then cut_at_NUL (Radix64frombits bs XXENC_CHARS (CHR ''+''))
      else if enc = ENCODE_UUENC then cut_at_NUL (Radix64frombits bs UUENC_CHARS SQ)
      else if enc = ENCODE_ASCII85 then Ascii85 bs ASCII85_CHARS
      else if enc = ENCODE_Z85 then Ascii85 bs Z85_CHARS
      else if enc = ENCODE_OCTAL then encode_numbers 3 8 lower_digits bs
      else if enc = ENCODE_DECIMAL then encode_numbers 3 10 lower_digits bs
      else if enc = ENCODE_HEX then encode_numbers 2 16 lower_digits bs
      else if enc = ENCODE_HEXUPPER then encode_numbers 2 16 upper_digits bs
      else cut_at_NUL (map byte_char bs))"

text \<open>
  \<open>DecodeQuoted\<close> reads the two digits into an array of three characters without terminating it;
  \<open>runs_on\<close>: \<open>strtol\<close> gets to the third one.  A zero byte is not added by \<open>AddCharToStr\<close>.
\<close>

definition runs_on :: "string \<Rightarrow> bool" where
  "runs_on h \<longleftrightarrow>
     (let t = dropWhile isspace h;
          u = (if deref t = CHR ''-'' \<or> deref t = CHR ''+'' then tl t else t)
      in dropWhile (\<lambda>c. digit_in 16 c \<noteq> None) u = [] \<or> strlwr u = ''0x'')"

definition AddCharToStr :: "string \<Rightarrow> char \<Rightarrow> string" where
  "AddCharToStr dest c = (if c = NUL then dest else dest @ [c])"

function DecodeQuoted :: "string \<Rightarrow> string \<Rightarrow> char \<Rightarrow> string res" where
  "DecodeQuoted out p qc =
     (case p of
        [] \<Rightarrow> Inr out
      | c # cs \<Rightarrow>
          if c = qc then
            (let q = (if deref cs = CR then tl cs else cs) in
             case q of
               [] \<Rightarrow> Inr out
             | d # ds \<Rightarrow>
                 if d = LF then DecodeQuoted out ds qc
                 else (case ds of
                         [] \<Rightarrow> Inr out
                       | e # es \<Rightarrow>
                           if runs_on [d, e] then Inl BadPointer
                           else DecodeQuoted (AddCharToStr out (byte_char (word_of_int (strtol 16 [d, e])))) es qc))
          else DecodeQuoted (AddCharToStr out c) cs qc)"
  by pat_completeness auto
termination
  by (relation "measure (\<lambda>(_, p, _). length p)") (auto simp: Let_def split: if_splits list.splits dest!: arg_cong [of "_ # _" _ length])

declare DecodeQuoted.simps [simp del]

text \<open>The loops over numbers; \<open>val\<close> is the variable the last number was stored in.\<close>

function decode_numbers :: "nat \<Rightarrow> nat \<Rightarrow> string \<Rightarrow> int option \<Rightarrow> bytes res" where
  "decode_numbers w radix p val =
     (if p = [] \<or> w = 0 then Inr []
      else (case strntol p w radix of
              (ok, rest, v) \<Rightarrow>
                (case (if ok then v else val) of
                   None \<Rightarrow> Inl BadPointer
                 | Some x \<Rightarrow> bindr (decode_numbers w radix rest (Some x)) (\<lambda>bs. Inr (word_of_int x # bs)))))"
  by pat_completeness auto
termination
  by (relation "measure (\<lambda>(_, _, p, _). length p)") (auto simp: strntol_def split: if_splits)

declare decode_numbers.simps [simp del]

section \<open>HTTP quoting\<close>

text \<open>\<open>%02X\<close> of a (signed) character.\<close>

definition fmt_char_hex :: "char \<Rightarrow> string" where
  "fmt_char_hex c =
     (let n = of_char c :: nat in fmt_base 2 16 upper_digits (if n < 128 then n else n + (2 ^ 32 - 256)))"

definition HTTPQuoteChars :: "string \<Rightarrow> string \<Rightarrow> string" where
  "HTTPQuoteChars s chars = concat (map (\<lambda>c. if c \<in> set chars then CHR ''%'' # fmt_char_hex c else [c]) s)"

definition http_specials :: string where
  "http_specials = '' '' @ [TAB, CR, LF, DQ] @ ''#%()[]{}?&!,+'' @ [SQ] @ '':;/''"

definition HTTPQuote :: "string \<Rightarrow> string" where
  "HTTPQuote s = HTTPQuoteChars s http_specials"

text \<open>The bytes written; a zero among them ends the string for its readers.\<close>

function HTTPUnQuote :: "string \<Rightarrow> string" where
  "HTTPUnQuote p =
     (case p of
        [] \<Rightarrow> []
      | c # cs \<Rightarrow>
          if c = CHR ''+'' then CHR '' '' # HTTPUnQuote cs
          else if c = CHR ''%'' then byte_char (word_of_int (strtol 16 (take 2 cs))) # HTTPUnQuote (drop 2 cs)
          else c # HTTPUnQuote cs)"
  by pat_completeness auto
termination
  by (relation "measure length") auto

declare HTTPUnQuote.simps [simp del]

section \<open>Decoding\<close>

text \<open>The length and the bytes it counts, in a buffer that was null before.\<close>

definition counted :: "bytes \<Rightarrow> int \<times> bytes" where
  "counted bs = (int (length bs), bs)"

definition DecodeBytes :: "string \<Rightarrow> int \<Rightarrow> (int \<times> bytes) res" where
  "DecodeBytes text enc =
     (if enc = ENCODE_QUOTED_MIME then
        bindr (DecodeQuoted [] text (CHR ''='')) (\<lambda>t. Inr (counted (map char_byte t)))
      else if enc = ENCODE_QUOTED_HTTP then Inr (counted (map char_byte (cut_at_NUL (HTTPUnQuote text))))
      else if enc = ENCODE_BASE64 then Radix64tobits text BASE64_CHARS (CHR ''='')
      else if enc = ENCODE_IBASE64 then Radix64tobits text IBASE64_CHARS NUL
      else if enc = ENCODE_PBASE64 then Radix64tobits text PBASE64_CHARS NUL
      else if enc = ENCODE_CRYPT then Radix64tobits text CRYPT_CHARS NUL
      else if enc = ENCODE_XXENC then Radix64tobits text XXENC_CHARS (CHR ''+'')
      else if enc = ENCODE_UUENC then Radix64tobits text UUENC_CHARS SQ
      else if enc = ENCODE_OCTAL then bindr (decode_numbers 3 8 text None) (\<lambda>bs. Inr (counted bs))
      else if enc = ENCODE_DECIMAL then bindr (decode_numbers 3 10 text None) (\<lambda>bs. Inr (counted bs))
      else if enc = ENCODE_HEX \<or> enc = ENCODE_HEXUPPER
      then bindr (decode_numbers 2 16 text None) (\<lambda>bs. Inr (counted bs))
      else Inr (counted (replicate (length text) 0)))"

text \<open>A bad digit makes the length \<open>-1\<close>, at which the terminator is then written.\<close>

definition DecodeToText :: "string \<Rightarrow> int \<Rightarrow> string res" where
  "DecodeToText text enc =
     bindr (DecodeBytes text enc)
       (\<lambda>(n, bs). if n < 0 then Inl OutOfBounds else Inr (cut_at_NUL (map byte_char (take (nat n) bs))))"

section \<open>Number round trips\<close>

definition plain_digit :: "char \<Rightarrow> bool" where
  "plain_digit c \<longleftrightarrow> \<not> isspace c \<and> c \<noteq> CHR ''-'' \<and> c \<noteq> CHR ''+'' \<and> c \<noteq> CHR ''x''"

definition digit_table :: "nat \<Rightarrow> string \<Rightarrow> bool" where
  "digit_table b tbl \<longleftrightarrow> 2 \<le> b \<and> b \<le> 16 \<and> tbl ! 0 = CHR ''0'' \<and>
     (\<forall>d < b. plain_digit (tbl ! d) \<and> plain_digit (tolower (tbl ! d)) \<and>
        digit_in b (tolower (tbl ! d)) = Some d \<and> digit_in b (tbl ! d) = Some d)"

lemma small_ranges:
  "(d :: nat) < 16 \<longleftrightarrow> d \<in> {0,1,2,3,4,5,6,7,8,9,10,11,12,13,14,15}"
  "d < 10 \<longleftrightarrow> d \<in> {0,1,2,3,4,5,6,7,8,9}"
  "d < 8 \<longleftrightarrow> d \<in> {0,1,2,3,4,5,6,7}"
  by (simp only: insert_iff empty_iff; arith)+

lemma digit_tables_ok:
  "digit_table 16 lower_digits" "digit_table 16 upper_digits" "digit_table 10 lower_digits" "digit_table 8 lower_digits"
  unfolding digit_table_def small_ranges
  by (simp_all add: lower_digits_def upper_digits_def digit_in_def plain_digit_def isspace_def isdigit_def islower_def
      isupper_def tolower_def char_of_def bit_Suc_0_iff)

lemma digits_in_append:
  "\<forall>c \<in> set xs. digit_in b c \<noteq> None \<Longrightarrow> digits_in b acc (xs @ ys) = digits_in b (digits_in b acc xs) ys"
  by (induction xs arbitrary: acc) (auto split: option.splits)

text \<open>What the digits of a number, in either case, read as.\<close>

lemma base_digits_set: "digit_table b tbl \<Longrightarrow> set (base_digits b tbl n) \<subseteq> {tbl ! d |d. d < b}"
proof (induction b tbl n rule: base_digits.induct)
  case (1 b tbl n)
  have "b \<ge> 2" using 1(2) by (simp add: digit_table_def)
  then have "n mod b < b" "\<not> b < 2" by auto
  then show ?case
    using 1 by (subst base_digits.simps) (auto simp: not_less)
qed

lemma digits_in_base_digits:
  "digit_table b tbl \<Longrightarrow> f = id \<or> f = tolower \<Longrightarrow> digits_in b 0 (map f (base_digits b tbl n)) = int n"
proof (induction b tbl n rule: base_digits.induct)
  case (1 b tbl n)
  have b: "b \<ge> 2" using 1(2) by (simp add: digit_table_def)
  have digit: "digit_in b (f (tbl ! d)) = Some d" if "d < b" for d
    using 1(2,3) that by (auto simp: digit_table_def)
  show ?case
  proof (cases "n < b")
    case True
    then show ?thesis using digit by (simp add: base_digits.simps [of b])
  next
    case False
    have "\<forall>c \<in> set (map f (base_digits b tbl (n div b))). digit_in b c \<noteq> None"
      using base_digits_set [OF 1(2), of "n div b"] digit by fastforce
    moreover have "n mod b < b" using b by simp
    moreover have "int (n div b) * int b + int (n mod b) = int n"
      by (metis div_mult_mod_eq of_nat_add of_nat_mult)
    ultimately show ?thesis
      using 1 False b digit by (simp add: base_digits.simps [of b] digits_in_append)
  qed
qed

lemma base_digits_length: "2 \<le> b \<Longrightarrow> n < b ^ Suc w \<Longrightarrow> length (base_digits b tbl n) \<le> Suc w"
proof (induction w arbitrary: n)
  case 0
  then show ?case by (simp add: base_digits.simps [of b])
next
  case (Suc w)
  have "n div b < b ^ Suc w" using Suc.prems by (simp add: less_mult_imp_div_less mult.commute)
  with Suc.IH [OF Suc.prems(1)] show ?case
    by (auto simp: base_digits.simps [of b _ n])
qed

lemma fmt_base_length: "2 \<le> b \<Longrightarrow> n < b ^ Suc w \<Longrightarrow> length (fmt_base (Suc w) b tbl n) = Suc w"
  using base_digits_length [of b n w tbl] by (simp add: fmt_base_def Let_def)

lemma fmt_base_set: "digit_table b tbl \<Longrightarrow> set (fmt_base w b tbl n) \<subseteq> {tbl ! d |d. d < b}"
proof -
  assume A: "digit_table b tbl"
  then have "CHR ''0'' = tbl ! 0" "0 < b" by (auto simp: digit_table_def)
  then have "CHR ''0'' \<in> {tbl ! d |d. d < b}" by blast
  with base_digits_set [OF A, of n] show ?thesis by (auto simp: fmt_base_def Let_def)
qed

lemma digits_in_fmt_base:
  assumes "digit_table b tbl" "f = id \<or> f = tolower"
  shows "digits_in b 0 (map f (fmt_base w b tbl n)) = int n"
proof -
  have zero: "digit_in b (CHR ''0'') = Some 0" using assms(1) by (simp add: digit_in_def isdigit_def digit_table_def)
  have f0: "f (CHR ''0'') = CHR ''0''" using assms(2) by (auto simp: tolower_def isupper_def)
  have "digits_in b 0 (replicate k (CHR ''0'') @ t) = digits_in b 0 t" for k t
    using zero by (induction k) simp_all
  then show ?thesis
    using digits_in_base_digits [OF assms] f0 by (simp add: fmt_base_def Let_def)
qed

lemma strtol_fmt_base:
  assumes "digit_table b tbl" "f = id \<or> f = tolower" "n < 2 ^ 63" "fmt_base w b tbl n \<noteq> []"
  shows "strtol b (map f (fmt_base w b tbl n)) = int n"
proof -
  have set: "\<exists>d < b. c = tbl ! d" if "c \<in> set (fmt_base w b tbl n)" for c
    using fmt_base_set [OF assms(1)] that by blast
  obtain c cs where cs: "fmt_base w b tbl n = c # cs" using assms(4) by (cases "fmt_base w b tbl n") auto
  obtain d where "d < b" "c = tbl ! d" using set cs by auto
  then have c: "\<not> isspace (f c)" "f c \<noteq> CHR ''-''" "f c \<noteq> CHR ''+''"
    using assms(1,2) by (auto simp: digit_table_def plain_digit_def)
  have "CHR ''x'' \<notin> set (strlwr (map f (fmt_base w b tbl n)))"
  proof
    assume "CHR ''x'' \<in> set (strlwr (map f (fmt_base w b tbl n)))"
    then obtain e where "e \<in> set (fmt_base w b tbl n)" "tolower (f e) = CHR ''x''" by (auto simp: strlwr_def)
    with set assms(1,2) show False by (fastforce simp: digit_table_def plain_digit_def)
  qed
  then have "strlwr (take 2 (map f (fmt_base w b tbl n))) \<noteq> ''0x''"
    by (metis (no_types, opaque_lifting) in_set_takeD list.set_intros(1,2) strlwr_def take_map)
  then have "skip_prefix b (f c # map f cs) = f c # map f cs"
    unfolding skip_prefix_def cs by (metis list.simps(9))
  moreover have "digits_in b 0 (f c # map f cs) = int n"
    using digits_in_fmt_base [OF assms(1,2), of w n] cs by simp
  ultimately show ?thesis
    using c assms(3) cs unfolding strtol_def by (simp add: Let_def del: digits_in.simps)
qed

lemma decode_encode_numbers:
  assumes "digit_table b tbl" "256 \<le> b ^ Suc w"
  shows "decode_numbers (Suc w) b (encode_numbers (Suc w) b tbl bs) val = Inr bs"
proof (induction bs arbitrary: val)
  case Nil
  show ?case by (simp add: encode_numbers_def decode_numbers.simps)
next
  case (Cons x bs)
  let ?t = "fmt_base (Suc w) b tbl (unat x)"
  have x: "unat x < b ^ Suc w" using unat_less_256 [of x] assms(2) by linarith
  have x63: "unat x < 2 ^ 63" using unat_less_256 [of x] by simp
  have len: "length ?t = Suc w" using fmt_base_length [OF _ x] assms(1) by (simp add: digit_table_def)
  then have ne: "?t \<noteq> []" by (metis length_0_conv nat.simps(3))
  have "strntol (?t @ r) (Suc w) b = (True, r, Some (int (unat x)))" for r
    using strtol_fmt_base [OF assms(1) _ x63 ne, of tolower] len
    by (simp add: strntol_def strlwr_def)
  moreover have "encode_numbers (Suc w) b tbl (x # bs) = ?t @ encode_numbers (Suc w) b tbl bs"
    by (simp add: encode_numbers_def)
  ultimately show ?case
    using Cons.IH ne by (simp add: decode_numbers.simps [of "Suc w" b "?t @ _"])
qed

section \<open>Properties\<close>

lemma cut_at_NUL_id: "NUL \<notin> set s \<Longrightarrow> cut_at_NUL s = s"
  by (auto simp: cut_at_NUL_def takeWhile_eq_all_conv)

lemma DecodeBytes_numbers:
  "DecodeBytes (encode_numbers 3 8 lower_digits bs) ENCODE_OCTAL = Inr (counted bs)"
  "DecodeBytes (encode_numbers 3 10 lower_digits bs) ENCODE_DECIMAL = Inr (counted bs)"
  "DecodeBytes (encode_numbers 2 16 lower_digits bs) ENCODE_HEX = Inr (counted bs)"
  "DecodeBytes (encode_numbers 2 16 upper_digits bs) ENCODE_HEXUPPER = Inr (counted bs)"
  using decode_encode_numbers [OF digit_tables_ok(4), of 2] decode_encode_numbers [OF digit_tables_ok(3), of 2]
    decode_encode_numbers [OF digit_tables_ok(1), of 1] decode_encode_numbers [OF digit_tables_ok(2), of 1]
  by (simp_all add: DecodeBytes_def encode_defs numeral_eq_Suc)

lemma EncodeBytes_reversible:
  "EncodeBytes bs ENCODE_BASE64 = Radix64frombits bs BASE64_CHARS (CHR ''='')"
  "EncodeBytes bs ENCODE_OCTAL = encode_numbers 3 8 lower_digits bs"
  "EncodeBytes bs ENCODE_DECIMAL = encode_numbers 3 10 lower_digits bs"
  "EncodeBytes bs ENCODE_HEX = encode_numbers 2 16 lower_digits bs"
  "EncodeBytes bs ENCODE_HEXUPPER = encode_numbers 2 16 upper_digits bs"
  using Radix64frombits_no_NUL [OF radix_tables(1), of bs]
  by (simp_all add: EncodeBytes_def encode_defs cut_at_NUL_id)

text \<open>C32: In base 64 and in octal, decimal, lower and upper case hexadecimal numbers, decoding what was
  encoded gives back every byte, zeros included, and their count.\<close>

theorem encoded_bytes_round_trip:
  assumes "enc \<in> {ENCODE_BASE64, ENCODE_OCTAL, ENCODE_DECIMAL, ENCODE_HEX, ENCODE_HEXUPPER}" "bs \<noteq> []"
  shows "DecodeBytes (EncodeBytes bs enc) enc = Inr (int (length bs), bs)"
proof -
  have "DecodeBytes (Radix64frombits bs BASE64_CHARS (CHR ''='')) ENCODE_BASE64 = Inr (int (length bs), bs)"
    using Radix64_round_trip [OF radix_tables(1) assms(2)] by (simp add: DecodeBytes_def encode_defs)
  then show ?thesis
    using assms(1) by (auto simp: EncodeBytes_reversible DecodeBytes_numbers counted_def)
qed

theorem encoded_bytes_round_trip_witness:
  "DecodeBytes (EncodeBytes [0, 255, 10, 61] ENCODE_BASE64) ENCODE_BASE64 = Inr (4, [0, 255, 10, 61])"
  using encoded_bytes_round_trip [of ENCODE_BASE64 "[0, 255, 10, 61]"] by simp

section \<open>HTTP quoting is reversible\<close>

lemma HTTPUnQuote_special:
  "c \<in> set http_specials \<Longrightarrow> HTTPUnQuote (CHR ''%'' # fmt_char_hex c @ r) = c # HTTPUnQuote r"
proof -
  have "list_all (\<lambda>c. fmt_char_hex c \<noteq> [] \<and> length (fmt_char_hex c) = 2 \<and>
      byte_char (word_of_int (strtol 16 (fmt_char_hex c))) = c) http_specials" by code_simp
  then show "c \<in> set http_specials \<Longrightarrow> HTTPUnQuote (CHR ''%'' # fmt_char_hex c @ r) = c # HTTPUnQuote r"
    by (auto simp: list_all_iff HTTPUnQuote.simps [of "CHR ''%'' # _"])
qed

text \<open>Unquoting a quoted string gives the string back.\<close>

theorem http_quoting_round_trip: "HTTPUnQuote (HTTPQuote s) = s"
proof (induction s)
  case Nil
  show ?case by (simp add: HTTPQuote_def HTTPQuoteChars_def HTTPUnQuote.simps)
next
  case (Cons c s)
  show ?case
  proof (cases "c \<in> set http_specials")
    case True
    with Cons show ?thesis
      by (simp only: HTTPQuote_def HTTPQuoteChars_def list.map concat.simps if_True append_Cons HTTPUnQuote_special)
  next
    case False
    then have "c \<noteq> CHR ''%''" "c \<noteq> CHR ''+''" by (auto simp: http_specials_def)
    then have "HTTPUnQuote (c # r) = c # HTTPUnQuote r" for r by (simp add: HTTPUnQuote.simps [of "c # r"])
    with Cons False show ?thesis
      by (simp only: HTTPQuote_def HTTPQuoteChars_def list.map concat.simps if_False append_Cons append_Nil)
  qed
qed

end
