(* ===== verification/EncodingLosses.thy ===== *)
theory EncodingLosses
  imports Encodings
begin

text \<open>
  The encodings of \<open>Encodings.c\<close> that do not give back what was encoded: xxencode and uuencode, whose padding
  is one of their digits, and the two in base 85, which drop the last digit of every block.  Here is what they
  give back, and which data they confuse.
\<close>

unbundle bit_operations_syntax

section \<open>Digits that are also the padding\<close>

text \<open>The bytes that come back: a third digit that is the padding hides the second and third byte of its group,
  a fourth one the third byte and everything behind the group.\<close>

fun surviving :: "8 word \<Rightarrow> bytes \<Rightarrow> bytes" where
  "surviving z [] = []"
| "surviving z [a] = [a]"
| "surviving z [a, b] = (if sextet3_end b = z then [a] else [a, b])"
| "surviving z (a # b # c # rest) =
     (if sextet3 b c = z then [a] else if sextet4 c = z then [a, b] else [a, b, c]) @
     (if sextet4 c = z then [] else surviving z rest)"

text \<open>The third and fourth digits of the groups.\<close>

fun later_digits :: "bytes \<Rightarrow> 8 word list" where
  "later_digits [a, b] = [sextet3_end b]"
| "later_digits (a # b # c # rest) = [sextet3 b c, sextet4 c] @ later_digits rest"
| "later_digits bs = []"

lemma surviving_length: "length (surviving z bs) \<le> length bs"
  by (induction z bs rule: surviving.induct) auto

lemma surviving_all: "surviving z bs = bs \<longleftrightarrow> z \<notin> set (later_digits bs)"
proof (induction z bs rule: surviving.induct)
  case (4 z a b c rest)
  have "surviving z (a # b # c # rest) \<noteq> a # b # c # rest" if "sextet3 b c = z \<or> sextet4 c = z"
  proof -
    have "length (surviving z (a # b # c # rest)) < length (a # b # c # rest)"
      using that surviving_length [of z rest] by auto
    then show ?thesis by (metis less_irrefl)
  qed
  with 4 show ?case by auto
qed auto

text \<open>An alphabet of 64 different digits, the one for \<open>z\<close> being the padding too.\<close>

locale pad_alphabet =
  fixes digits :: string and z :: "8 word"
  assumes table: "length digits = 64" "distinct digits" and pad: "unat z < 64"
    and plain: "\<forall>c \<in> set digits. (of_char c :: nat) < 128 \<and> c \<noteq> NUL \<and> c \<noteq> CR"
begin

lemma digit_read: "unat v < 64 \<Longrightarrow> DECODE64 digits (digit64 digits v) = Inr (Some v)"
proof -
  assume v: "unat v < 64"
  then have "digits ! unat v \<in> set digits" using table by simp
  then show ?thesis
    using table plain v takeWhile_rev_distinct [of digits "unat v"]
    by (auto simp: DECODE64_def digit64_def not_le)
qed

lemma digit_is_pad: "unat v < 64 \<Longrightarrow> digit64 digits v = digit64 digits z \<longleftrightarrow> v = z"
  using table pad by (auto simp: digit64_def nth_eq_iff_index_eq word_unat_eq_iff)

lemma digit_ends_nothing: "unat v < 64 \<Longrightarrow> digit64 digits v \<noteq> NUL \<and> digit64 digits v \<noteq> CR"
proof -
  assume "unat v < 64"
  then have "digit64 digits v \<in> set digits" using table by (simp add: digit64_def)
  then show ?thesis using plain by blast
qed

lemma digit_or_pad_read:
  "unat v < 64 \<Longrightarrow> digit_or_pad digits (digit64 digits z) (digit64 digits v) = Inr (Some (if v = z then None else Some v))"
  by (simp add: digit_or_pad_def digit_read digit_is_pad)

lemma group_survives:
  "decode_group digits (digit64 digits z) (digit64 digits (sextet1 a) # digit64 digits (sextet2 a b) #
       digit64 digits (sextet3 b c) # digit64 digits (sextet4 c) # r) =
     Inr (Some (if sextet3 b c = z then [a] else if sextet4 c = z then [a, b] else [a, b, c], digit64 digits (sextet4 c)))"
  by (simp add: decode_group_def digit_read digit_or_pad_read group_bytes_def join_bytes)

lemma group_survives_two:
  "decode_group digits (digit64 digits z) (digit64 digits (sextet1 a) # digit64 digits (sextet2 a b) #
       digit64 digits (sextet3_end b) # digit64 digits z # r) =
     Inr (Some (if sextet3_end b = z then [a] else [a, b], digit64 digits z))"
  by (simp add: decode_group_def digit_read digit_or_pad_read group_bytes_def join_bytes)

lemma group_survives_one:
  "decode_group digits (digit64 digits z) (digit64 digits (sextet1 a) # digit64 digits (sextet2_end a) #
       digit64 digits z # digit64 digits z # r) = Inr (Some ([a], digit64 digits z))"
  by (simp add: decode_group_def digit_read group_bytes_def join_bytes)

lemma radix64_loop_survives:
  "bs \<noteq> [] \<Longrightarrow> radix64_loop digits (digit64 digits z) (Radix64frombits bs digits (digit64 digits z)) out =
     Inr (int (length (out @ surviving z bs)), out @ surviving z bs)"
proof (induction bs arbitrary: out rule: later_digits.induct)
  case (1 a b)
  show ?case by (subst radix64_loop.simps) (simp add: group_survives_two)
next
  case (2 a b c rest)
  show ?case
  proof (cases "rest = []")
    case True
    then show ?thesis by (subst radix64_loop.simps) (simp add: group_survives)
  next
    case False
    then obtain v r where v: "Radix64frombits rest digits (digit64 digits z) = digit64 digits v # r" "unat v < 64"
      using Radix64frombits_first by blast
    have "sextet4 c = z \<longleftrightarrow> digit64 digits (sextet4 c) = digit64 digits z" by (simp add: digit_is_pad)
    then show ?thesis
      using 2 False v digit_ends_nothing [OF v(2)]
      by (subst radix64_loop.simps) (simp add: group_survives)
  qed
qed (simp, subst radix64_loop.simps, simp add: group_survives_one)

lemma Radix64_survives:
  assumes "bs \<noteq> []" "take 2 (Radix64frombits bs digits (digit64 digits z)) \<noteq> ''+ ''"
  shows "Radix64tobits (Radix64frombits bs digits (digit64 digits z)) digits (digit64 digits z) =
     Inr (int (length (surviving z bs)), surviving z bs)"
proof -
  obtain v r where v: "Radix64frombits bs digits (digit64 digits z) = digit64 digits v # r" "unat v < 64"
    using Radix64frombits_first [OF assms(1)] by blast
  then have "deref (Radix64frombits bs digits (digit64 digits z)) \<noteq> CR" using digit_ends_nothing by simp
  then show ?thesis
    using radix64_loop_survives [OF assms(1), of "[]"] assms(2) by (simp add: Radix64tobits_def)
qed

lemma encoded_no_NUL: "NUL \<notin> set (Radix64frombits bs digits (digit64 digits z))"
proof -
  have nul: "digit64 digits v \<noteq> NUL" "NUL \<noteq> digit64 digits v" if "unat v < 64" for v
    using digit_ends_nothing [OF that] by auto
  show ?thesis
    by (induction bs rule: later_digits.induct) (simp_all add: nul pad)
qed

end

text \<open>The padding of xxencode is the digit 0, the one of uuencode the digit 7.\<close>

definition pad_value :: "int \<Rightarrow> 8 word" where
  "pad_value enc = (if enc = ENCODE_XXENC then 0 else 7)"

interpretation xx: pad_alphabet XXENC_CHARS 0
  by unfold_locales (simp_all add: digit_tables)

interpretation uu: pad_alphabet UUENC_CHARS 7
  by unfold_locales (simp_all add: digit_tables)

lemma pad_digits: "digit64 XXENC_CHARS 0 = CHR ''+''" "digit64 UUENC_CHARS 7 = SQ"
  by (simp_all add: digit64_def digit_tables)

text \<open>C33: what xxencode and uuencode give back: of a group with the padding as third digit the first byte, and
  nothing behind a group with the padding as fourth digit.  So exactly the data without such digits come back
  whole.  (A uuencoded text that starts with a plus and a space is another case: the decoder skips them.)\<close>

theorem xxencode_and_uuencode_stop_at_their_padding:
  assumes "enc \<in> {ENCODE_XXENC, ENCODE_UUENC}" "bs \<noteq> []" "take 2 (EncodeBytes bs enc) \<noteq> ''+ ''"
  shows "DecodeBytes (EncodeBytes bs enc) enc =
      Inr (int (length (surviving (pad_value enc) bs)), surviving (pad_value enc) bs) \<and>
    (surviving (pad_value enc) bs = bs \<longleftrightarrow> pad_value enc \<notin> set (later_digits bs))"
proof -
  have enc: "EncodeBytes bs ENCODE_XXENC = Radix64frombits bs XXENC_CHARS (CHR ''+'')"
      "EncodeBytes bs ENCODE_UUENC = Radix64frombits bs UUENC_CHARS SQ"
    using xx.encoded_no_NUL [of bs] uu.encoded_no_NUL [of bs]
    by (simp_all add: EncodeBytes_def encode_defs cut_at_NUL_id pad_digits)
  have dec: "DecodeBytes t ENCODE_XXENC = Radix64tobits t XXENC_CHARS (CHR ''+'')"
      "DecodeBytes t ENCODE_UUENC = Radix64tobits t UUENC_CHARS SQ" for t
    by (simp_all add: DecodeBytes_def encode_defs)
  consider "enc = ENCODE_XXENC" | "enc = ENCODE_UUENC" using assms(1) by blast
  then have "DecodeBytes (EncodeBytes bs enc) enc = Inr (int (length (surviving (pad_value enc) bs)), surviving (pad_value enc) bs)"
  proof cases
    case 1
    have "pad_value ENCODE_XXENC = 0" by (simp add: pad_value_def)
    then show ?thesis
      using assms(3) xx.Radix64_survives [OF assms(2), unfolded pad_digits] unfolding 1 dec enc by simp
  next
    case 2
    have "pad_value ENCODE_UUENC = 7" by (simp add: pad_value_def encode_defs)
    then show ?thesis
      using assms(3) uu.Radix64_survives [OF assms(2), unfolded pad_digits] unfolding 2 dec enc by simp
  qed
  then show ?thesis by (simp add: surviving_all)
qed

theorem xxencode_and_uuencode_stop_at_their_padding_witness:
  "DecodeBytes (EncodeBytes [1, 2, 3, 4, 0, 0, 5] ENCODE_XXENC) ENCODE_XXENC = Inr (4, [1, 2, 3, 4])"
proof -
  have "take 2 (EncodeBytes [1, 2, 3, 4, 0, 0, 5] ENCODE_XXENC) \<noteq> ''+ ''"
    "surviving (pad_value ENCODE_XXENC) [1, 2, 3, 4, 0, 0, 5] = [1, 2, 3, 4]" by code_simp+
  then show ?thesis
    using xxencode_and_uuencode_stop_at_their_padding [of ENCODE_XXENC "[1, 2, 3, 4, 0, 0, 5]"] by simp
qed

section \<open>Base 85\<close>

text \<open>Blocks that the encoder does not tell apart: those whose values differ in the last digit only.\<close>

definition same_quotient :: "bytes \<Rightarrow> bytes \<Rightarrow> bool" where
  "same_quotient x y \<longleftrightarrow> length x = 4 \<and> length y = 4 \<and> block_value x 24 div 85 = block_value y 24 div 85 \<and>
     (block_value x 24 = 0 \<longleftrightarrow> block_value y 24 = 0)"

lemma digits85_length: "length (digits85 n v tbl) = n"
  by (induction n arbitrary: v) simp_all

lemma Ascii85_Nil: "Ascii85 [] tbl = []"
  by (simp add: Ascii85.simps)

lemma Ascii85_block: "length x = 4 \<Longrightarrow> Ascii85 (x @ r) tbl =
    (if block_value x 24 = 0 then ''z'' else digits85 4 (block_value x 24 div 85) tbl) @ Ascii85 r tbl"
proof -
  assume x: "length x = 4"
  have "digits85 5 v tbl = digits85 4 (v div 85) tbl @ [tbl ! unat (v mod 85)]" for v
    using digits85.simps(2) [of 4 v tbl] by simp
  moreover have "x \<noteq> []" using x by auto
  ultimately show ?thesis
    using x by (subst Ascii85.simps) (simp add: Let_def digits85_length)
qed

lemma Ascii85_same_quotient: "list_all2 same_quotient xs ys \<Longrightarrow> Ascii85 (concat xs) tbl = Ascii85 (concat ys) tbl"
  by (induction rule: list_all2_induct) (auto simp: Ascii85_block same_quotient_def)

text \<open>The encodings in base 85 keep four of the five digits of every block: data whose blocks agree in the
  quotient by 85 have the same encoding.\<close>

theorem base_85_confuses_blocks:
  assumes "enc \<in> {ENCODE_ASCII85, ENCODE_Z85}" "list_all2 same_quotient xs ys"
  shows "EncodeBytes (concat xs) enc = EncodeBytes (concat ys) enc"
  using assms(1) Ascii85_same_quotient [OF assms(2)] by (auto simp: EncodeBytes_def encode_defs)

theorem base_85_confuses_blocks_witness:
  "EncodeBytes [0, 0, 0, 3, 0, 0, 0, 1] ENCODE_Z85 = EncodeBytes [0, 0, 0, 4, 0, 0, 0, 2] ENCODE_Z85"
proof -
  have "block_value [0, 0, 0, 1] 24 = 1" "block_value [0, 0, 0, 2] 24 = 2" "block_value [0, 0, 0, 3] 24 = 3"
    "block_value [0, 0, 0, 4] 24 = 4" by simp_all
  then have "list_all2 same_quotient [[0, 0, 0, 3], [0, 0, 0, 1]] [[0, 0, 0, 4], [0, 0, 0, 2]]"
    by (simp add: same_quotient_def)
  from base_85_confuses_blocks [OF _ this, of ENCODE_Z85] show ?thesis by simp
qed

section \<open>RFC 4648\<close>

text \<open>\<open>DecodeBytes\<close> has no case for the encoding: whatever the text, the result is as many zeros.\<close>

lemma rfc4648_is_decoded_to_zeros: "DecodeBytes text ENCODE_RBASE64 = Inr (int (length text), replicate (length text) 0)"
  by (simp add: DecodeBytes_def encode_defs counted_def)

text \<open>Of the two names that the header documents neither is known.\<close>

lemma base_85_names: "EncodingParse ''ascii85'' = ENCODE_NONE" "EncodingParse ''z86'' = ENCODE_NONE"
  by code_simp+

end
