(* ===== verification/ListHeap.thy ===== *)
theory ListHeap
  imports ListNodes
begin

text \<open>
  \<open>libUseful-4/List.c\<close> as it is: nodes in memory, linked by pointers.  \<open>ListNodes\<close> describes lists
  as sequences; the theory \<open>ListRefinement\<close> shows that the operations here implement it.

  A \<open>ListNode *\<close> is an address or \<open>NULL\<close> (\<open>None\<close>); following \<open>NULL\<close> is the fault \<open>NullDeref\<close>, following
  the address of a node that was freed, or never allocated, \<open>BadPointer\<close>.  \<open>calloc\<close> succeeds and
  returns fresh addresses.  The chains of a map are consecutive addresses, as in the array the code
  allocates.  Items are opaque; an item destroyer is represented by the sequence of its calls.
\<close>

unbundle bit_operations_syntax

type_synonym addr = nat

text \<open>\<open>ListNode\<close>.  A map head keeps the array of its chains in \<open>Item\<close>; here it is a field of its own, the
  address and the number of nodes that were allocated.\<close>

record 'a hnode =
  hn_next :: "addr option"
  hn_prev :: "addr option"
  hn_tag :: "string option"
  hn_type :: nat
  hn_flags :: nat
  hn_head :: "addr option"
  hn_item :: "'a option"
  hn_chains :: "(addr \<times> nat) option"
  hn_side :: "addr option"
  hn_stats :: "(nat \<times> 64 word) option"

definition calloc_node :: "'a hnode" where
  "calloc_node = \<lparr>hn_next = None, hn_prev = None, hn_tag = None, hn_type = 0, hn_flags = 0, hn_head = None,
     hn_item = None, hn_chains = None, hn_side = None, hn_stats = None\<rparr>"

record 'a store =
  st_nodes :: "addr \<Rightarrow> 'a hnode option"
  st_fresh :: addr

definition LIST_FLAG_CASE :: nat where "LIST_FLAG_CASE = 2"
definition LIST_FLAG_SELFORG :: nat where "LIST_FLAG_SELFORG = 4"
definition LIST_FLAG_ORDERED :: nat where "LIST_FLAG_ORDERED = 8"
definition LIST_FLAG_CACHE :: nat where "LIST_FLAG_CACHE = 16"
definition LIST_FLAG_TIMEOUT :: nat where "LIST_FLAG_TIMEOUT = 32"
definition LIST_FLAG_MAP_HEAD :: nat where "LIST_FLAG_MAP_HEAD = 64"
definition LIST_FLAG_MAP_CHAIN :: nat where "LIST_FLAG_MAP_CHAIN = 128"
definition LIST_FLAG_MAP :: nat where "LIST_FLAG_MAP = or LIST_FLAG_MAP_HEAD LIST_FLAG_MAP_CHAIN"
definition LIST_FLAG_STATS :: nat where "LIST_FLAG_STATS = 256"
definition LIST_FLAG_UNIQ :: nat where "LIST_FLAG_UNIQ = 512"

lemmas list_flag_defs = LIST_FLAG_CASE_def LIST_FLAG_SELFORG_def LIST_FLAG_ORDERED_def LIST_FLAG_CACHE_def
  LIST_FLAG_TIMEOUT_def LIST_FLAG_MAP_HEAD_def LIST_FLAG_MAP_CHAIN_def LIST_FLAG_MAP_def LIST_FLAG_STATS_def
  LIST_FLAG_UNIQ_def

section \<open>Memory\<close>

definition getn :: "'a store \<Rightarrow> addr option \<Rightarrow> 'a hnode res" where
  "getn s p = (case p of None \<Rightarrow> Inl NullDeref
               | Some a \<Rightarrow> (case st_nodes s a of None \<Rightarrow> Inl BadPointer | Some n \<Rightarrow> Inr n))"

definition setn :: "'a store \<Rightarrow> addr \<Rightarrow> 'a hnode \<Rightarrow> 'a store" where
  "setn s a n = s\<lparr>st_nodes := (st_nodes s)(a \<mapsto> n)\<rparr>"

definition updn :: "'a store \<Rightarrow> addr option \<Rightarrow> ('a hnode \<Rightarrow> 'a hnode) \<Rightarrow> 'a store res" where
  "updn s p f = bindr (getn s p) (\<lambda>n. Inr (setn s (the p) (f n)))"

definition alloc :: "'a store \<Rightarrow> 'a hnode \<Rightarrow> addr \<times> 'a store" where
  "alloc s n = (st_fresh s, s\<lparr>st_nodes := (st_nodes s)(st_fresh s \<mapsto> n), st_fresh := Suc (st_fresh s)\<rparr>)"

definition freen :: "'a store \<Rightarrow> addr option \<Rightarrow> 'a store res" where
  "freen s p = bindr (getn s p) (\<lambda>n. Inr (s\<lparr>st_nodes := (st_nodes s)(the p := None)\<rparr>))"

definition empty_store :: "'a store" where
  "empty_store = \<lparr>st_nodes = (\<lambda>_. None), st_fresh = 0\<rparr>"

text \<open>The number of steps a walk along \<open>Next\<close> pointers is given; only a cycle uses it up.\<close>

definition walk_fuel :: "'a store \<Rightarrow> nat" where
  "walk_fuel s = Suc (st_fresh s)"

section \<open>Heads and counts\<close>

definition MapChainGetHead :: "'a store \<Rightarrow> addr \<Rightarrow> addr option res" where
  "MapChainGetHead s a =
     bindr (getn s (Some a)) (\<lambda>n. Inr (if hasflag (hn_flags n) LIST_FLAG_MAP_CHAIN then Some a else hn_head n))"

definition ListGetHead :: "'a store \<Rightarrow> addr option \<Rightarrow> addr option res" where
  "ListGetHead s p = (case p of None \<Rightarrow> Inr None | Some a \<Rightarrow> MapChainGetHead s a)"

definition ListSize :: "'a store \<Rightarrow> addr option \<Rightarrow> (64 word) res" where
  "ListSize s p =
     bindr (ListGetHead s p) (\<lambda>h. case h of None \<Rightarrow> Inr 0 | Some a \<Rightarrow>
     bindr (getn s h) (\<lambda>n. Inr (case hn_stats n of None \<Rightarrow> 0 | Some (t, hits) \<Rightarrow> hits)))"

definition ListInit :: "'a store \<Rightarrow> nat \<Rightarrow> addr \<times> 'a store" where
  "ListInit s flags =
     (let a = st_fresh s
      in alloc s (calloc_node\<lparr>hn_head := Some a, hn_prev := Some a, hn_flags := and flags 0xFFFF,
                    hn_stats := Some (0, 0)\<rparr>))"

definition ListSetFlags :: "'a store \<Rightarrow> addr option \<Rightarrow> nat \<Rightarrow> 'a store res" where
  "ListSetFlags s p flags =
     bindr (ListGetHead s p) (\<lambda>h. updn s h (\<lambda>n. n\<lparr>hn_flags := and flags 0xFFFF\<rparr>))"

text \<open>The statistics of a node, made when there are none.\<close>

definition stats_of :: "'a hnode \<Rightarrow> nat \<times> 64 word" where
  "stats_of n = (case hn_stats n of None \<Rightarrow> (0, 0) | Some st \<Rightarrow> st)"

definition ListNodeSetHits :: "'a store \<Rightarrow> addr option \<Rightarrow> int \<Rightarrow> 'a store res" where
  "ListNodeSetHits s p v = updn s p (\<lambda>n. n\<lparr>hn_stats := Some (fst (stats_of n), word_of_int v)\<rparr>)"

definition ListNodeAddHits :: "'a store \<Rightarrow> addr option \<Rightarrow> int \<Rightarrow> (64 word \<times> 'a store) res" where
  "ListNodeAddHits s p v =
     bindr (getn s p) (\<lambda>n. let hits = snd (stats_of n) + word_of_int v in
     bindr (updn s p (\<lambda>n. n\<lparr>hn_stats := Some (fst (stats_of n), hits)\<rparr>)) (\<lambda>s1. Inr (hits, s1)))"

definition ListNodeSetTime :: "'a store \<Rightarrow> addr option \<Rightarrow> nat \<Rightarrow> 'a store res" where
  "ListNodeSetTime s p t = updn s p (\<lambda>n. n\<lparr>hn_stats := Some (t, snd (stats_of n))\<rparr>)"

definition ListNodeGetTime :: "'a hnode \<Rightarrow> nat" where
  "ListNodeGetTime n = (case hn_stats n of None \<Rightarrow> 0 | Some (t, _) \<Rightarrow> t)"

text \<open>\<open>Stats->Hits += d\<close> without a test for \<open>NULL\<close>.\<close>

definition add_hits :: "'a store \<Rightarrow> addr option \<Rightarrow> 64 word \<Rightarrow> 'a store res" where
  "add_hits s p d =
     bindr (getn s p) (\<lambda>n. case hn_stats n of None \<Rightarrow> Inl NullDeref
       | Some (t, hits) \<Rightarrow> updn s p (\<lambda>n. n\<lparr>hn_stats := Some (t, hits + d)\<rparr>))"

definition hits_of :: "'a store \<Rightarrow> addr option \<Rightarrow> (64 word) res" where
  "hits_of s p =
     bindr (getn s p) (\<lambda>n. case hn_stats n of None \<Rightarrow> Inl NullDeref | Some (t, hits) \<Rightarrow> Inr hits)"

definition ListSetNoOfItems :: "'a store \<Rightarrow> addr \<Rightarrow> 64 word \<Rightarrow> 'a store res" where
  "ListSetNoOfItems s a v =
     bindr (ListGetHead s (Some a)) (\<lambda>h.
     bindr (getn s (Some a)) (\<lambda>n.
     bindr (if hn_next n = None then updn s h (\<lambda>m. m\<lparr>hn_prev := Some a\<rparr>) else Inr s) (\<lambda>s1.
     updn s1 h (\<lambda>m. case hn_stats m of None \<Rightarrow> m | Some (t, _) \<Rightarrow> m\<lparr>hn_stats := Some (t, v)\<rparr>))))"

text \<open>
  The counting up (\<open>d = 1\<close>) and down (\<open>d = -1\<close>), which differ in nothing else: the chain the node is the
  head of, the chain the node is in, and the head of that.
\<close>

definition count_items :: "64 word \<Rightarrow> 'a store \<Rightarrow> addr \<Rightarrow> 'a store res" where
  "count_items d s a =
     bindr (getn s (Some a)) (\<lambda>n.
     bindr (if hasflag (hn_flags n) LIST_FLAG_MAP_CHAIN then add_hits s (Some a) d else Inr s) (\<lambda>s1.
     bindr (getn s1 (hn_head n)) (\<lambda>h.
     if hasflag (hn_flags h) LIST_FLAG_MAP_CHAIN
     then bindr (add_hits s1 (hn_head n) d) (\<lambda>s2. add_hits s2 (hn_head h) d)
     else add_hits s1 (hn_head n) d)))"

definition ListIncrNoOfItems :: "'a store \<Rightarrow> addr \<Rightarrow> 'a store res" where
  "ListIncrNoOfItems s a = count_items 1 s a"

definition ListDecrNoOfItems :: "'a store \<Rightarrow> addr \<Rightarrow> 'a store res" where
  "ListDecrNoOfItems s a = count_items (-1) s a"

section \<open>Linking\<close>

definition ListThreadNode :: "'a store \<Rightarrow> addr \<Rightarrow> addr \<Rightarrow> 'a store res" where
  "ListThreadNode s prev node =
     (if prev = node then Inr s else
      bindr (getn s (Some prev)) (\<lambda>p. let nxt = hn_next p in
      bindr (updn s (Some node) (\<lambda>n. n\<lparr>hn_prev := Some prev\<rparr>)) (\<lambda>s1.
      bindr (updn s1 (Some prev) (\<lambda>n. n\<lparr>hn_next := Some node\<rparr>)) (\<lambda>s2.
      bindr (updn s2 (Some node) (\<lambda>n. n\<lparr>hn_next := nxt\<rparr>)) (\<lambda>s3.
      bindr (ListGetHead s3 (Some prev)) (\<lambda>head.
      bindr (updn s3 (Some node) (\<lambda>n. n\<lparr>hn_head := head\<rparr>)) (\<lambda>s4.
      bindr (if nxt \<noteq> None then updn s4 nxt (\<lambda>n. n\<lparr>hn_prev := Some node\<rparr>)
             else updn s4 head (\<lambda>n. n\<lparr>hn_prev := Some node\<rparr>)) (\<lambda>s5.
      ListIncrNoOfItems s5 prev))))))))"

text \<open>What the unlinking does to the head of the list; each test reads what the ones before have written.\<close>

definition unthread_head :: "addr \<Rightarrow> addr \<Rightarrow> addr option \<Rightarrow> addr option \<Rightarrow> 'a hnode \<Rightarrow> 'a hnode" where
  "unthread_head head node prev nxt h =
     (let h1 = (if hn_prev h = Some node
                then h\<lparr>hn_prev := (if prev = Some head then None else prev)\<rparr> else h);
          h2 = (if hn_side h1 = Some node then h1\<lparr>hn_side := None\<rparr> else h1);
          h3 = (if hn_next h2 = Some node then h2\<lparr>hn_next := nxt\<rparr> else h2)
      in if hn_prev h3 = Some node then h3\<lparr>hn_prev := prev\<rparr> else h3)"

definition ListUnThreadNode :: "'a store \<Rightarrow> addr \<Rightarrow> 'a store res" where
  "ListUnThreadNode s node =
     bindr (ListDecrNoOfItems s node) (\<lambda>s1.
     bindr (getn s1 (Some node)) (\<lambda>n. let prev = hn_prev n; nxt = hn_next n in
     bindr (if prev \<noteq> None then updn s1 prev (\<lambda>m. m\<lparr>hn_next := nxt\<rparr>) else Inr s1) (\<lambda>s2.
     bindr (if nxt \<noteq> None then updn s2 nxt (\<lambda>m. m\<lparr>hn_prev := prev\<rparr>) else Inr s2) (\<lambda>s3.
     bindr (ListGetHead s3 (Some node)) (\<lambda>head.
     bindr (case head of None \<Rightarrow> Inr s3 | Some h \<Rightarrow> updn s3 head (unthread_head h node prev nxt)) (\<lambda>s4.
     updn s4 (Some node) (\<lambda>m. m\<lparr>hn_head := None, hn_prev := None, hn_next := None, hn_side := None\<rparr>)))))))"

definition ListDeleteNode :: "'a store \<Rightarrow> addr option \<Rightarrow> ('a option \<times> 'a store) res" where
  "ListDeleteNode s p =
     (case p of None \<Rightarrow> Inr (None, s)
      | Some a \<Rightarrow>
          bindr (ListUnThreadNode s a) (\<lambda>s1.
          bindr (getn s1 p) (\<lambda>n.
          bindr (freen s1 p) (\<lambda>s2. Inr (hn_item n, s2)))))"

section \<open>Maps\<close>

definition FNV_INIT_VAL :: "32 word" where "FNV_INIT_VAL = 2166136261"

definition fnv_hash :: "string \<Rightarrow> nat \<Rightarrow> nat res" where
  "fnv_hash key n =
     (let h = foldl (\<lambda>h c. (h * 16777619) XOR of_nat (of_char c)) FNV_INIT_VAL key
      in if n = 0 then Inl DivideByZero else Inr (unat h mod n))"

text \<open>
  \<open>calloc(Buckets + 1, sizeof(ListNode))\<close>, and the loop that makes all but the last of them chains of
  the map.  The number of buckets is kept in 16 bits.
\<close>

definition chain_node :: "addr \<Rightarrow> addr \<Rightarrow> nat \<Rightarrow> 'a hnode" where
  "chain_node m a flags = calloc_node\<lparr>hn_head := Some m, hn_prev := Some a,
     hn_flags := and (or LIST_FLAG_MAP_CHAIN flags) 0xFFFF, hn_stats := Some (0, 0)\<rparr>"

definition alloc_chains :: "'a store \<Rightarrow> addr \<Rightarrow> nat \<Rightarrow> nat \<Rightarrow> 'a store" where
  "alloc_chains s m buckets flags =
     (let b = st_fresh s in
      s\<lparr>st_nodes := (\<lambda>a. if b \<le> a \<and> a < b + buckets then Some (chain_node m a flags)
                       else if a = b + buckets then Some calloc_node else st_nodes s a),
        st_fresh := b + buckets + 1\<rparr>)"

definition MapCreate :: "'a store \<Rightarrow> nat \<Rightarrow> nat \<Rightarrow> (addr \<times> 'a store) res" where
  "MapCreate s buckets flags0 =
     (let flags = and flags0 (nat (take_bit 32 (NOT (int LIST_FLAG_MAP)))) in
      case ListInit s 0 of (m, s1) \<Rightarrow>
      bindr (updn s1 (Some m) (\<lambda>n. n\<lparr>hn_flags := and (or (hn_flags n) (or LIST_FLAG_MAP_HEAD flags)) 0xFFFF,
               hn_type := buckets mod 2 ^ 16, hn_chains := Some (st_fresh s1, buckets + 1)\<rparr>))
        (\<lambda>s2. Inr (m, alloc_chains s2 m buckets flags)))"

definition MapGetNthChain :: "'a store \<Rightarrow> addr option \<Rightarrow> nat \<Rightarrow> addr option res" where
  "MapGetNthChain s m n =
     bindr (getn s m) (\<lambda>h.
       if hasflag (hn_flags h) LIST_FLAG_MAP_HEAD
       then (case hn_chains h of None \<Rightarrow> Inl NullDeref | Some (b, _) \<Rightarrow> Inr (Some (b + n))) else Inr None)"

definition MapGetChain :: "'a store \<Rightarrow> addr option \<Rightarrow> string option \<Rightarrow> addr option res" where
  "MapGetChain s m key =
     bindr (getn s m) (\<lambda>h.
       if hasflag (hn_flags h) LIST_FLAG_MAP_HEAD
       then (case key of None \<Rightarrow> Inl NullDeref
             | Some k \<Rightarrow> bindr (fnv_hash k (hn_type h)) (\<lambda>i. MapGetNthChain s m i))
       else Inr None)"

section \<open>Walking\<close>

text \<open>The prefetch follows \<open>CurrItem->Next->Next\<close> to its tag.\<close>

definition prefetch :: "'a store \<Rightarrow> addr option \<Rightarrow> unit res" where
  "prefetch s p = bindr (getn s p) (\<lambda>n. if hn_next n = None then Inr () else bindr (getn s (hn_next n)) (\<lambda>_. Inr ()))"

definition MapChainGetNext :: "'a store \<Rightarrow> addr option \<Rightarrow> addr option res" where
  "MapChainGetNext s p =
     (if p = None then Inr None else
      bindr (getn s p) (\<lambda>n.
      if hn_next n \<noteq> None then bindr (prefetch s (hn_next n)) (\<lambda>_. Inr (hn_next n))
      else if hasflag (hn_flags n) LIST_FLAG_MAP_HEAD
      then bindr (getn s (map_option fst (hn_chains n))) (\<lambda>c. Inr (hn_next c))
      else Inr None))"

fun next_chain :: "nat \<Rightarrow> 'a store \<Rightarrow> addr option \<Rightarrow> addr option res" where
  "next_chain 0 s h = Inl OutOfFuel"
| "next_chain (Suc k) s h =
     (case h of None \<Rightarrow> Inr None
      | Some a \<Rightarrow>
          bindr (getn s h) (\<lambda>n.
          if hasflag (hn_flags n) LIST_FLAG_MAP_CHAIN
          then bindr (getn s (Some (Suc a))) (\<lambda>m.
               if hn_next m \<noteq> None then Inr (hn_next m) else next_chain k s (Some (Suc a)))
          else Inr None))"

definition MapGetNext :: "'a store \<Rightarrow> addr option \<Rightarrow> addr option res" where
  "MapGetNext s p =
     (if p = None then Inr None else
      bindr (MapChainGetNext s p) (\<lambda>r.
      if r \<noteq> None then Inr r
      else bindr (ListGetHead s p) (\<lambda>h. next_chain (walk_fuel s) s h)))"

definition ListGetNext :: "'a store \<Rightarrow> addr option \<Rightarrow> addr option res" where
  "ListGetNext s p = (if p = None then Inr None else MapGetNext s p)"

definition ListGetPrev :: "'a store \<Rightarrow> addr option \<Rightarrow> addr option res" where
  "ListGetPrev s p =
     (if p = None then Inr None else
      bindr (getn s p) (\<lambda>n.
      if hn_prev n = None then Inr None
      else bindr (getn s (hn_prev n)) (\<lambda>m.
           Inr (if hn_prev m \<noteq> None \<and> hn_prev n \<noteq> hn_head m then hn_prev n else None))))"

definition ListGetLast :: "'a store \<Rightarrow> addr option \<Rightarrow> addr option res" where
  "ListGetLast s p =
     bindr (ListGetHead s p) (\<lambda>h.
     if h = None then Inr p
     else bindr (getn s h) (\<lambda>n. Inr (if hn_prev n \<noteq> None then hn_prev n else h)))"

fun nth_loop :: "nat \<Rightarrow> 'a store \<Rightarrow> addr option \<Rightarrow> nat \<Rightarrow> addr option res" where
  "nth_loop 0 s p n = Inl OutOfFuel"
| "nth_loop (Suc k) s p n =
     (if p = None then Inr None
      else if n = 0 then Inr p
      else bindr (ListGetNext s p) (\<lambda>q. nth_loop k s q (n - 1)))"

definition ListGetNth :: "'a store \<Rightarrow> addr option \<Rightarrow> nat \<Rightarrow> addr option res" where
  "ListGetNth s h n =
     (if h = None then Inr None else bindr (ListGetNext s h) (\<lambda>p. nth_loop (walk_fuel s) s p n))"

section \<open>Adding\<close>

definition ListInsertTypedItem ::
    "nat \<Rightarrow> 'a store \<Rightarrow> addr option \<Rightarrow> nat \<Rightarrow> string option \<Rightarrow> 'a option \<Rightarrow> (addr option \<times> 'a store) res" where
  "ListInsertTypedItem now s p ty name itm =
     (case p of None \<Rightarrow> Inr (None, s)
      | Some at \<Rightarrow>
          (case alloc s calloc_node of (a, s1) \<Rightarrow>
           bindr (ListThreadNode s1 at a) (\<lambda>s2.
           bindr (updn s2 (Some a) (\<lambda>n. n\<lparr>hn_item := itm, hn_type := ty,
                    hn_tag := (if StrValid name then name else None)\<rparr>)) (\<lambda>s3.
           bindr (getn s3 p) (\<lambda>i.
           bindr (getn s3 (hn_head i)) (\<lambda>h.
           if hasflag (hn_flags h) LIST_FLAG_STATS
           then bindr (updn s3 (Some a) (\<lambda>n. n\<lparr>hn_stats := Some (now, 0)\<rparr>)) (\<lambda>s4. Inr (Some a, s4))
           else Inr (Some a, s3)))))))"

definition ListAddTypedItem ::
    "nat \<Rightarrow> 'a store \<Rightarrow> addr option \<Rightarrow> nat \<Rightarrow> string option \<Rightarrow> 'a option \<Rightarrow> (addr option \<times> 'a store) res" where
  "ListAddTypedItem now s p ty name itm =
     bindr (getn s p) (\<lambda>h.
     bindr (if hasflag (hn_flags h) LIST_FLAG_MAP_HEAD then MapGetChain s p name else Inr p) (\<lambda>start.
     bindr (ListGetLast s start) (\<lambda>cur.
     if cur = None then Inr (None, s) else ListInsertTypedItem now s cur ty name itm)))"

fun append_items ::
    "nat \<Rightarrow> nat \<Rightarrow> 'a store \<Rightarrow> addr option \<Rightarrow> addr option \<Rightarrow> ('a option \<Rightarrow> 'a option) option \<Rightarrow> 'a store res" where
  "append_items 0 now s dest cur cloner = Inl OutOfFuel"
| "append_items (Suc k) now s dest cur cloner =
     (if cur = None then Inr s else
      bindr (getn s cur) (\<lambda>n.
      bindr (ListAddTypedItem now s dest 0 (hn_tag n) (case cloner of None \<Rightarrow> hn_item n | Some f \<Rightarrow> f (hn_item n)))
        (\<lambda>(_, s1).
      bindr (ListGetNext s1 cur) (\<lambda>nxt. append_items k now s1 dest nxt cloner))))"

definition ListAppendItems ::
    "nat \<Rightarrow> 'a store \<Rightarrow> addr option \<Rightarrow> addr option \<Rightarrow> ('a option \<Rightarrow> 'a option) option \<Rightarrow> 'a store res" where
  "ListAppendItems now s dest src cloner =
     bindr (ListGetNext s src) (\<lambda>cur. append_items (walk_fuel s) now s dest cur cloner)"

definition ListClone ::
    "nat \<Rightarrow> 'a store \<Rightarrow> addr option \<Rightarrow> ('a option \<Rightarrow> 'a option) option \<Rightarrow> (addr \<times> 'a store) res" where
  "ListClone now s src cloner =
     (case ListInit s 0 of (a, s1) \<Rightarrow>
      bindr (ListAppendItems now s1 (Some a) src cloner) (\<lambda>s2. Inr (a, s2)))"

section \<open>Swapping and searching\<close>

definition ListSwapItems :: "'a store \<Rightarrow> addr option \<Rightarrow> addr option \<Rightarrow> 'a store res" where
  "ListSwapItems s p1 p2 =
     (if p1 = None \<or> p2 = None then Inr s else
      bindr (ListGetHead s p1) (\<lambda>head.
      if head = p1 \<or> head = p2 then Inr s else
      bindr (getn s p1) (\<lambda>n1. bindr (getn s p2) (\<lambda>n2.
      let prev = hn_prev n1; nxt = hn_next n2 in
      bindr (updn s head (\<lambda>h. if hn_next h = p1 then h\<lparr>hn_next := p2\<rparr> else h)) (\<lambda>s1.
      bindr (updn s1 head (\<lambda>h. if hn_prev h = p1 then h\<lparr>hn_prev := p2\<rparr> else h)) (\<lambda>s2.
      bindr (if prev \<noteq> None then updn s2 prev (\<lambda>n. n\<lparr>hn_next := p2\<rparr>) else Inr s2) (\<lambda>s3.
      bindr (updn s3 p1 (\<lambda>n. n\<lparr>hn_prev := p2, hn_next := nxt\<rparr>)) (\<lambda>s4.
      bindr (if nxt \<noteq> None then updn s4 nxt (\<lambda>n. n\<lparr>hn_prev := p1\<rparr>) else Inr s4) (\<lambda>s5.
      updn s5 p2 (\<lambda>n. n\<lparr>hn_prev := prev, hn_next := p1\<rparr>))))))))))"

definition tag_cmp :: "bool \<Rightarrow> string \<Rightarrow> string \<Rightarrow> int" where
  "tag_cmp case_matters a b = (if case_matters then strcmp a b else strcasecmp a b)"

text \<open>The loop of \<open>ListFindNamedItemInsert\<close>; \<open>f\<close> are the flags of the root.\<close>

fun insert_loop ::
    "nat \<Rightarrow> nat \<Rightarrow> nat \<Rightarrow> string \<Rightarrow> 'a store \<Rightarrow> addr option \<Rightarrow> addr option \<Rightarrow> (addr option \<times> 'a store) res" where
  "insert_loop 0 now f name s prev cur = Inl OutOfFuel"
| "insert_loop (Suc k) now f name s prev cur =
     (if cur = None then Inr (prev, s) else
      bindr (getn s cur) (\<lambda>n. let nxt = hn_next n in
      case hn_tag n of
        None \<Rightarrow> insert_loop k now f name s cur nxt
      | Some t \<Rightarrow>
          (let result = tag_cmp (hasflag f LIST_FLAG_CASE) t name in
           if result = 0 then
             bindr (if hasflag f LIST_FLAG_SELFORG then ListSwapItems s (hn_prev n) cur else Inr s)
               (\<lambda>s1. Inr (cur, s1))
           else if result > 0 \<and> hasflag f LIST_FLAG_ORDERED then Inr (prev, s)
           else if hasflag f LIST_FLAG_TIMEOUT \<and> ListNodeGetTime n > 0 \<and> ListNodeGetTime n < now
           then bindr (ListDeleteNode s cur) (\<lambda>(_, s1). insert_loop k now f name s1 cur nxt)
           else insert_loop k now f name s cur nxt)))"

text \<open>The cached node: the answer, or the node to start at.\<close>

definition cached_start ::
    "nat \<Rightarrow> string \<Rightarrow> 'a store \<Rightarrow> 'a hnode \<Rightarrow> addr option \<Rightarrow> (addr option + addr option) res" where
  "cached_start f name s head cur =
     (if hasflag f LIST_FLAG_CACHE \<and> hn_side head \<noteq> None then
        bindr (getn s (hn_side head)) (\<lambda>c.
        case hn_tag c of
          None \<Rightarrow> Inr (Inr cur)
        | Some t \<Rightarrow>
            (let result = tag_cmp (hasflag f LIST_FLAG_CASE) t name in
             if result = 0 then Inr (Inl (hn_side head))
             else if hasflag f LIST_FLAG_ORDERED \<and> result < 0 then Inr (Inr (hn_side head))
             else Inr (Inr cur)))
      else Inr (Inr cur))"

text \<open>Whether the last node is the answer.\<close>

definition last_matches :: "string \<Rightarrow> 'a store \<Rightarrow> addr option \<Rightarrow> 'a hnode \<Rightarrow> bool res" where
  "last_matches name s hp head =
     (if hn_prev head = None \<or> hn_prev head = hp then Inr False else
      bindr (getn s (hn_prev head)) (\<lambda>l.
      case hn_tag l of
        None \<Rightarrow> Inr False
      | Some t \<Rightarrow>
          (let result = tag_cmp (hasflag (hn_flags head) LIST_FLAG_CASE) t name in
           Inr (result = 0 \<or> hasflag (hn_flags head) LIST_FLAG_ORDERED \<and> result < 1))))"

definition ListFindNamedItemInsert ::
    "nat \<Rightarrow> 'a store \<Rightarrow> addr option \<Rightarrow> string option \<Rightarrow> (addr option \<times> 'a store) res" where
  "ListFindNamedItemInsert now s root name0 =
     (if root = None \<or> \<not> StrValid name0 then Inr (root, s) else
      bindr (getn s root) (\<lambda>r. let name = the name0; f = hn_flags r in
      bindr (if hasflag f LIST_FLAG_MAP_HEAD then MapGetChain s root name0 else Inr root) (\<lambda>hp.
      bindr (getn s hp) (\<lambda>head.
      if hn_next head = None then Inr (hp, s) else
      bindr (cached_start f name s head (hn_next head)) (\<lambda>start. case start of
        Inl found \<Rightarrow> Inr (found, s)
      | Inr cur \<Rightarrow>
          bindr (last_matches name s hp head) (\<lambda>is_last.
          if is_last then Inr (hn_prev head, s)
          else insert_loop (walk_fuel s) now f name s hp cur))))))"

text \<open>The loop of \<open>ListFindTypedItem\<close>; \<open>hp\<close> is the head.\<close>

fun typed_loop ::
    "nat \<Rightarrow> 'a store \<Rightarrow> addr option \<Rightarrow> want_type \<Rightarrow> string option \<Rightarrow> addr option \<Rightarrow> (addr option \<times> 'a store) res" where
  "typed_loop 0 s hp ty name p = Inl OutOfFuel"
| "typed_loop (Suc k) s hp ty name p =
     (if p = None then Inr (None, s) else
      bindr (getn s p) (\<lambda>n. bindr (getn s hp) (\<lambda>h.
      case (hn_tag n, name) of
        (Some t, Some nm) \<Rightarrow>
          (let result = tag_cmp (hasflag (hn_flags h) LIST_FLAG_CASE) t nm in
           if result = 0 \<and> type_matches ty (hn_type n) then
             bindr (if hasflag (hn_flags h) LIST_FLAG_CACHE then updn s hp (\<lambda>m. m\<lparr>hn_side := p\<rparr>) else Inr s) (\<lambda>s1.
             bindr (updn s1 p (\<lambda>m. case hn_stats m of None \<Rightarrow> m
                      | Some (t, hits) \<Rightarrow> m\<lparr>hn_stats := Some (t, hits + 1)\<rparr>)) (\<lambda>s2. Inr (p, s2)))
           else if hasflag (hn_flags h) LIST_FLAG_UNIQ then Inr (None, s)
           else if hasflag (hn_flags h) LIST_FLAG_ORDERED \<and> result \<noteq> 0 then Inr (None, s)
           else bindr (ListGetNext s p) (\<lambda>q. typed_loop k s hp ty name q))
      | _ \<Rightarrow> Inl NullDeref)))"

definition ListFindTypedItem ::
    "nat \<Rightarrow> 'a store \<Rightarrow> addr option \<Rightarrow> want_type \<Rightarrow> string option \<Rightarrow> (addr option \<times> 'a store) res" where
  "ListFindTypedItem now s root ty name =
     (if root = None then Inr (None, s) else
      bindr (ListFindNamedItemInsert now s root name) (\<lambda>(p, s1).
      if p = None then Inr (None, s1) else
      bindr (getn s1 p) (\<lambda>n.
      if p = hn_head n \<or> hn_tag n = None then Inr (None, s1)
      else if hn_head n = None then Inr (None, s1)
      else typed_loop (walk_fuel s1) s1 (hn_head n) ty name p)))"

definition ListFindNamedItem :: "nat \<Rightarrow> 'a store \<Rightarrow> addr option \<Rightarrow> string option \<Rightarrow> (addr option \<times> 'a store) res" where
  "ListFindNamedItem now s root name = ListFindTypedItem now s root ANYTYPE name"

definition OrderedListAddNamedItem ::
    "nat \<Rightarrow> 'a store \<Rightarrow> addr option \<Rightarrow> string option \<Rightarrow> 'a option \<Rightarrow> (addr option \<times> 'a store) res" where
  "OrderedListAddNamedItem now s p name itm =
     bindr (ListFindNamedItemInsert now s p name) (\<lambda>(at, s1). ListInsertTypedItem now s1 at 0 name itm)"

section \<open>Clearing\<close>

text \<open>The items handed to the destroyer, in the order of its calls; \<open>destroys\<close>: there is one.\<close>

fun clear_items :: "nat \<Rightarrow> bool \<Rightarrow> 'a store \<Rightarrow> addr option \<Rightarrow> 'a list \<Rightarrow> ('a list \<times> 'a store) res" where
  "clear_items 0 destroys s cur out = Inl OutOfFuel"
| "clear_items (Suc k) destroys s cur out =
     (if cur = None then Inr (out, s) else
      bindr (getn s cur) (\<lambda>n.
      bindr (freen s cur) (\<lambda>s1.
      clear_items k destroys s1 (hn_next n)
        (case hn_item n of Some i \<Rightarrow> if destroys then out @ [i] else out | None \<Rightarrow> out))))"

text \<open>
  \<open>ListClear\<close> calls \<open>MapClear\<close> for a map head, which calls \<open>ListClear\<close> for every chain.  The fuel is for
  the chains, of which the array has finitely many.
\<close>

fun ListClear :: "nat \<Rightarrow> bool \<Rightarrow> 'a store \<Rightarrow> addr option \<Rightarrow> 'a list \<Rightarrow> ('a list \<times> 'a store) res"
  and MapClear :: "nat \<Rightarrow> bool \<Rightarrow> 'a store \<Rightarrow> addr option \<Rightarrow> 'a list \<Rightarrow> ('a list \<times> 'a store) res" where
  "ListClear 0 destroys s p out = Inl OutOfFuel"
| "MapClear 0 destroys s c out = Inl OutOfFuel"
| "ListClear (Suc k) destroys s p out =
     (case p of None \<Rightarrow> Inr (out, s)
      | Some a \<Rightarrow>
          bindr (getn s p) (\<lambda>h.
          bindr (if hasflag (hn_flags h) LIST_FLAG_MAP_HEAD
                 then MapClear k destroys s (map_option fst (hn_chains h)) out else Inr (out, s)) (\<lambda>(out1, s1).
          bindr (getn s1 p) (\<lambda>h1.
          bindr (clear_items (walk_fuel s1) destroys s1 (hn_next h1) out1) (\<lambda>(out2, s2).
          bindr (updn s2 p (\<lambda>n. n\<lparr>hn_next := None, hn_head := p, hn_prev := p\<rparr>)) (\<lambda>s3.
          bindr (ListSetNoOfItems s3 a 0) (\<lambda>s4. Inr (out2, s4))))))))"
| "MapClear (Suc k) destroys s c out =
     bindr (getn s c) (\<lambda>n.
       if hasflag (hn_flags n) LIST_FLAG_MAP_CHAIN
       then bindr (ListClear k destroys s c out) (\<lambda>(out1, s1). MapClear k destroys s1 (map_option Suc c) out1)
       else Inr (out, s))"

fun free_block :: "'a store \<Rightarrow> addr \<Rightarrow> nat \<Rightarrow> 'a store res" where
  "free_block s b 0 = Inr s"
| "free_block s b (Suc n) = bindr (freen s (Some b)) (\<lambda>s1. free_block s1 (Suc b) n)"

definition ListDestroy :: "bool \<Rightarrow> 'a store \<Rightarrow> addr option \<Rightarrow> ('a list \<times> 'a store) res" where
  "ListDestroy destroys s p =
     (if p = None then Inr ([], s) else
      bindr (ListClear (walk_fuel s) destroys s p []) (\<lambda>(out, s1).
      bindr (getn s1 p) (\<lambda>h.
      bindr (case hn_chains h of None \<Rightarrow> Inr s1 | Some (b, n) \<Rightarrow> free_block s1 b n) (\<lambda>s2.
      bindr (freen s2 p) (\<lambda>s3. Inr (out, s3))))))"

section \<open>Sorting and joining\<close>

fun sorted_place ::
    "nat \<Rightarrow> 'a store \<Rightarrow> ('a option \<Rightarrow> 'a option \<Rightarrow> bool) \<Rightarrow> 'a option \<Rightarrow> addr option \<Rightarrow> addr option \<Rightarrow> addr option res" where
  "sorted_place 0 s lt itm prev cur = Inl OutOfFuel"
| "sorted_place (Suc k) s lt itm prev cur =
     (if cur = None then Inr prev else
      bindr (getn s cur) (\<lambda>n.
      if lt (hn_item n) itm then sorted_place k s lt itm cur (hn_next n) else Inr prev))"

definition InsertItemIntoSortedList ::
    "nat \<Rightarrow> 'a store \<Rightarrow> addr option \<Rightarrow> 'a option \<Rightarrow> ('a option \<Rightarrow> 'a option \<Rightarrow> bool) \<Rightarrow> (addr option \<times> 'a store) res" where
  "InsertItemIntoSortedList now s p itm lt =
     bindr (getn s p) (\<lambda>h.
     bindr (sorted_place (walk_fuel s) s lt itm p (hn_next h)) (\<lambda>prev.
     ListInsertTypedItem now s prev 0 (Some []) itm))"

fun last_by_next :: "nat \<Rightarrow> 'a store \<Rightarrow> addr option \<Rightarrow> addr option res" where
  "last_by_next 0 s p = Inl OutOfFuel"
| "last_by_next (Suc k) s p =
     bindr (getn s p) (\<lambda>n. if hn_next n = None then Inr p else last_by_next k s (hn_next n))"

definition ListJoin :: "'a store \<Rightarrow> addr option \<Rightarrow> addr option \<Rightarrow> (addr option \<times> 'a store) res" where
  "ListJoin s l1 l2 =
     bindr (getn s l2) (\<lambda>h2. let start = hn_next h2 in
     bindr (last_by_next (walk_fuel s) s l1) (\<lambda>cur.
     bindr (updn s cur (\<lambda>n. n\<lparr>hn_next := start\<rparr>)) (\<lambda>s1.
     bindr (updn s1 start (\<lambda>n. n\<lparr>hn_prev := cur\<rparr>)) (\<lambda>s2.
     bindr (last_by_next (walk_fuel s2) s2 cur) (\<lambda>r. Inr (r, s2))))))"

text \<open>
  One pass of the sort over the list: \<open>swap p c\<close> tells whether two neighbours are to be exchanged.  The
  result is whether nothing was, and the memory.
\<close>

fun sort_pass ::
    "nat \<Rightarrow> ('a hnode \<Rightarrow> 'a hnode \<Rightarrow> bool res) \<Rightarrow> bool \<Rightarrow> 'a store \<Rightarrow> addr option \<Rightarrow> addr option \<Rightarrow> (bool \<times> 'a store) res" where
  "sort_pass 0 swap srt s prev cur = Inl OutOfFuel"
| "sort_pass (Suc k) swap srt s prev cur =
     (if cur = None then Inr (srt, s) else
      bindr (if prev = None then Inr (srt, s)
             else bindr (getn s cur) (\<lambda>c. bindr (getn s prev) (\<lambda>p. bindr (swap p c) (\<lambda>b.
                  if b then bindr (ListSwapItems s prev cur) (\<lambda>s1. Inr (False, s1)) else Inr (srt, s)))))
        (\<lambda>(srt1, s1).
      bindr (ListGetNext s1 cur) (\<lambda>nxt. sort_pass k swap srt1 s1 cur nxt)))"

fun sort_loop :: "nat \<Rightarrow> nat \<Rightarrow> ('a hnode \<Rightarrow> 'a hnode \<Rightarrow> bool res) \<Rightarrow> 'a store \<Rightarrow> addr option \<Rightarrow> 'a store res" where
  "sort_loop 0 inner swap s p = Inl OutOfFuel"
| "sort_loop (Suc k) inner swap s p =
     bindr (ListGetNext s p) (\<lambda>cur.
     bindr (sort_pass inner swap True s None cur) (\<lambda>(srt, s1).
     if srt then Inr s1 else sort_loop k inner swap s1 p))"

text \<open>
  The fuel of a pass is for two steps per node, because an exchange steps back.  How many passes there
  are depends on the comparison; \<open>k\<close> bounds them.
\<close>

definition ListSort :: "nat \<Rightarrow> 'a store \<Rightarrow> addr option \<Rightarrow> ('a option \<Rightarrow> 'a option \<Rightarrow> bool) \<Rightarrow> 'a store res" where
  "ListSort k s p lt =
     sort_loop k (2 * walk_fuel s) (\<lambda>p c. Inr (lt (hn_item c) (hn_item p))) s p"

definition ListSortNamedItems :: "nat \<Rightarrow> 'a store \<Rightarrow> addr option \<Rightarrow> 'a store res" where
  "ListSortNamedItems k s p =
     sort_loop k (2 * walk_fuel s)
       (\<lambda>p c. case (hn_tag p, hn_tag c) of (Some a, Some b) \<Rightarrow> Inr (strcmp a b < 0) | _ \<Rightarrow> Inl NullDeref) s p"

fun item_search :: "nat \<Rightarrow> 'a store \<Rightarrow> addr option \<Rightarrow> 'a \<Rightarrow> addr option \<Rightarrow> (addr option \<times> 'a store) res" where
  "item_search 0 s head itm cur = Inl OutOfFuel"
| "item_search (Suc k) s head itm cur =
     (if cur = None then Inr (None, s) else
      bindr (getn s cur) (\<lambda>n.
      if hn_item n = Some itm then
        bindr (getn s head) (\<lambda>h.
        bindr (if hasflag (hn_flags h) LIST_FLAG_SELFORG then ListSwapItems s (hn_prev n) cur else Inr s)
          (\<lambda>s1. Inr (cur, s1)))
      else bindr (ListGetNext s cur) (\<lambda>nxt. item_search k s head itm nxt)))"

definition ListFindItem :: "'a store \<Rightarrow> addr option \<Rightarrow> 'a option \<Rightarrow> (addr option \<times> 'a store) res" where
  "ListFindItem s head itm =
     (case itm of None \<Rightarrow> Inr (None, s)
      | Some i \<Rightarrow> bindr (ListGetNext s head) (\<lambda>cur. item_search (walk_fuel s) s head i cur))"

end
