(* ===== verification/ListRefinement.thy ===== *)
theory ListRefinement
  imports ListHeap
begin

text \<open>
  The pointer structures of \<open>ListHeap\<close> implement the sequences of \<open>ListNodes\<close>: \<open>dlist s h as\<close> says that in the
  memory \<open>s\<close> the head \<open>h\<close> leads through exactly the nodes \<open>as\<close>, back and forth, that it knows the last of them
  and how many there are; \<open>contents s as\<close> is the sequence.  The lemmas \<open>..._dlist\<close> say what an operation does to
  both, and that no other memory changes.
\<close>

section \<open>Memory\<close>

definition nod :: "'a store \<Rightarrow> addr \<Rightarrow> 'a hnode" where
  "nod s a = the (st_nodes s a)"

definition alive :: "'a store \<Rightarrow> addr \<Rightarrow> bool" where
  "alive s a \<longleftrightarrow> st_nodes s a \<noteq> None"

lemma getn_alive [simp]: "alive s a \<Longrightarrow> getn s (Some a) = Inr (nod s a)"
  by (auto simp: getn_def nod_def alive_def)

lemma updn_alive [simp]: "alive s a \<Longrightarrow> updn s (Some a) f = Inr (setn s a (f (nod s a)))"
  by (simp add: updn_def)

lemma freen_alive [simp]: "alive s a \<Longrightarrow> freen s (Some a) = Inr (s\<lparr>st_nodes := (st_nodes s)(a := None)\<rparr>)"
  by (simp add: freen_def)

lemma nod_setn [simp]: "nod (setn s a n) b = (if b = a then n else nod s b)"
  by (simp add: nod_def setn_def)

lemma alive_setn [simp]: "alive (setn s a n) b \<longleftrightarrow> b = a \<or> alive s b"
  by (simp add: alive_def setn_def)

lemma fresh_setn [simp]: "st_fresh (setn s a n) = st_fresh s"
  by (simp add: setn_def)

fun linked :: "'a store \<Rightarrow> addr list \<Rightarrow> bool" where
  "linked s [] = True"
| "linked s [x] = True"
| "linked s (x # y # zs) \<longleftrightarrow> hn_next (nod s x) = Some y \<and> hn_prev (nod s y) = Some x \<and> linked s (y # zs)"

lemma linked_append: "linked s (xs @ x # ys) \<longleftrightarrow> linked s (xs @ [x]) \<and> linked s (x # ys)"
proof (induction xs)
  case (Cons z xs)
  then show ?case by (cases xs) auto
qed simp

lemma linked_cong:
  "(\<And>a. a \<in> set (butlast zs) \<Longrightarrow> hn_next (nod s' a) = hn_next (nod s a)) \<Longrightarrow>
   (\<And>a. a \<in> set (tl zs) \<Longrightarrow> hn_prev (nod s' a) = hn_prev (nod s a)) \<Longrightarrow> linked s' zs = linked s zs"
proof (induction s zs rule: linked.induct)
  case (3 s x y zs)
  have "linked s' (y # zs) = linked s (y # zs)"
    by (rule "3.IH") (use 3(2) 3(3) in \<open>auto dest: list.set_sel(2)\<close>)
  then show ?case using 3(2) [of x] 3(3) [of y] by auto
qed simp_all

text \<open>A plain list, as \<open>ListCreate()\<close> makes it: the head \<open>h\<close>, the nodes \<open>as\<close> in their order.\<close>

definition chain :: "'a store \<Rightarrow> addr \<Rightarrow> addr list \<Rightarrow> bool" where
  "chain s h as \<longleftrightarrow> distinct (h # as) \<and> (\<forall>a \<in> set (h # as). alive s a) \<and> linked s (h # as) \<and>
     hn_next (nod s (last (h # as))) = None \<and>
     (\<forall>a \<in> set (h # as). hn_head (nod s a) = Some h \<and> \<not> hasflag (hn_flags (nod s a)) LIST_FLAG_MAP) \<and>
     (\<forall>a. alive s a \<longrightarrow> a < st_fresh s)"

definition dlist :: "'a store \<Rightarrow> addr \<Rightarrow> addr list \<Rightarrow> bool" where
  "dlist s h as \<longleftrightarrow> chain s h as \<and>
     (if as = [] then hn_prev (nod s h) \<in> {None, Some h} else hn_prev (nod s h) = Some (last as)) \<and>
     (\<exists>t. hn_stats (nod s h) = Some (t, of_nat (length as)))"

lemma no_map [simp]:
  "\<not> hasflag f LIST_FLAG_MAP \<Longrightarrow> \<not> hasflag f LIST_FLAG_MAP_CHAIN"
  "\<not> hasflag f LIST_FLAG_MAP \<Longrightarrow> \<not> hasflag f LIST_FLAG_MAP_HEAD"
  by (simp_all add: LIST_FLAG_MAP_def hasflag_or_mask)

lemma ListInit_dlist:
  assumes "\<forall>a. alive s a \<longrightarrow> a < st_fresh s" "\<not> hasflag (and f 0xFFFF) LIST_FLAG_MAP"
  shows "case ListInit s f of (h, s') \<Rightarrow> h = st_fresh s \<and> dlist s' h []"
  using assms
  by (auto simp: ListInit_def alloc_def Let_def dlist_def chain_def nod_def alive_def calloc_node_def less_Suc_eq)

lemma chain_next:
  "chain s h (xs @ ys) \<Longrightarrow> hn_next (nod s (last (h # xs))) = (case ys of [] \<Rightarrow> None | y # _ \<Rightarrow> Some y)"
proof -
  assume c: "chain s h (xs @ ys)"
  obtain zs x where z: "h # xs = zs @ [x]" by (cases "h # xs" rule: rev_cases) auto
  show ?thesis
  proof (cases ys)
    case Nil
    with c show ?thesis by (simp add: chain_def)
  next
    case (Cons y ys')
    have "linked s ((h # xs) @ ys)" using c by (simp add: chain_def)
    then have "linked s (zs @ x # ys)" by (simp only: z append_assoc append_Cons append_Nil)
    then have "linked s (x # ys)" using linked_append [of s zs x ys] by blast
    with Cons z show ?thesis by simp
  qed
qed

lemma chain_prev:
  assumes "chain s h (xs @ y # ys)"
  shows "hn_prev (nod s y) = Some (last (h # xs))"
proof -
  obtain zs x where z: "h # xs = zs @ [x]" by (cases "h # xs" rule: rev_cases) auto
  have "linked s ((h # xs) @ y # ys)" using assms by (simp add: chain_def)
  then have "linked s (zs @ x # y # ys)" by (simp only: z append_assoc append_Cons append_Nil)
  then have "linked s (x # y # ys)" using linked_append [of s zs x "y # ys"] by blast
  with z show ?thesis by simp
qed

lemma linked_split: "linked s (xs @ ys) \<Longrightarrow> linked s xs \<and> linked s ys"
proof (induction s xs rule: linked.induct)
  case (2 s x)
  then show ?case by (cases ys) auto
qed auto

lemma linked_join:
  "xs \<noteq> [] \<Longrightarrow> ys \<noteq> [] \<Longrightarrow> linked s (xs @ ys) \<longleftrightarrow>
     linked s xs \<and> hn_next (nod s (last xs)) = Some (hd ys) \<and> hn_prev (nod s (hd ys)) = Some (last xs) \<and> linked s ys"
proof (induction s xs rule: linked.induct)
  case (2 s x)
  then show ?case by (cases ys) auto
qed auto

lemma dlist_chain: "dlist s h as \<Longrightarrow> chain s h as"
  by (simp add: dlist_def)

text \<open>Putting a node between two others; \<open>t\<close> is the memory with the links set.\<close>

lemma linked_insert:
  assumes "linked s (xs @ ys)" "xs \<noteq> []" "distinct (xs @ ys)" "a \<notin> set (xs @ ys)"
    and "hn_next (nod t (last xs)) = Some a" "hn_prev (nod t a) = Some (last xs)"
    and "ys \<noteq> [] \<Longrightarrow> hn_next (nod t a) = Some (hd ys) \<and> hn_prev (nod t (hd ys)) = Some a"
    and "\<And>b. b \<noteq> a \<Longrightarrow> b \<noteq> last xs \<Longrightarrow> hn_next (nod t b) = hn_next (nod s b)"
    and "\<And>b. b \<in> set (xs @ ys) \<Longrightarrow> ys = [] \<or> b \<noteq> hd ys \<Longrightarrow> b \<noteq> hd xs \<Longrightarrow> hn_prev (nod t b) = hn_prev (nod s b)"
  shows "linked t (xs @ a # ys)"
proof -
  obtain zs x where z: "xs = zs @ [x]" using assms(2) by (cases xs rule: rev_cases) auto
  have "linked t xs = linked s xs"
  proof (rule linked_cong)
    fix b assume "b \<in> set (butlast xs)"
    with assms(3,4) z show "hn_next (nod t b) = hn_next (nod s b)" by (intro assms(8)) auto
  next
    fix b assume b: "b \<in> set (tl xs)"
    with assms(3) have "b \<noteq> hd xs" "b \<in> set xs" by (cases xs; auto)+
    with assms(3) show "hn_prev (nod t b) = hn_prev (nod s b)" by (intro assms(9)) (cases ys; auto)+
  qed
  moreover have "linked t ys = linked s ys"
  proof (rule linked_cong)
    fix b assume "b \<in> set (butlast ys)"
    then have "b \<in> set ys" by (rule in_set_butlastD)
    with assms(3,4) z show "hn_next (nod t b) = hn_next (nod s b)" by (intro assms(8)) auto
  next
    fix b assume b: "b \<in> set (tl ys)"
    with assms(3) have "b \<noteq> hd ys" "b \<in> set ys" by (cases ys; auto)+
    moreover have "b \<noteq> hd xs" using assms(2,3) \<open>b \<in> set ys\<close> by (cases xs) auto
    ultimately show "hn_prev (nod t b) = hn_prev (nod s b)" by (intro assms(9)) auto
  qed
  moreover have "linked s xs" "linked s ys" using assms(1) linked_split by blast+
  ultimately show ?thesis
    using assms(2,5,6,7) linked_join [of xs "a # ys" t] by (cases ys) auto
qed

lemma ListThreadNode_dlist:
  assumes d: "dlist s h (xs @ ys)" and at: "at = last (h # xs)" and a: "alive s a" "a \<notin> set (h # xs @ ys)"
    "hn_flags (nod s a) = 0"
  shows "\<exists>s'. ListThreadNode s at a = Inr s' \<and> dlist s' h (xs @ a # ys) \<and>
    (\<forall>b. alive s' b = alive s b) \<and> st_fresh s' = st_fresh s \<and>
    (\<forall>b. hn_tag (nod s' b) = hn_tag (nod s b) \<and> hn_type (nod s' b) = hn_type (nod s b) \<and>
         hn_item (nod s' b) = hn_item (nod s b) \<and> hn_flags (nod s' b) = hn_flags (nod s b)) \<and>
    (\<forall>b. b \<notin> set (h # xs @ a # ys) \<longrightarrow> nod s' b = nod s b)"
proof -
  have c: "chain s h (xs @ ys)" using d by (rule dlist_chain)
  have at_in: "at \<in> set (h # xs)" using at last_in_set [of "h # xs"] by simp
  then have at_ok: "alive s at" "at \<noteq> a" "hn_head (nod s at) = Some h" "\<not> hasflag (hn_flags (nod s at)) LIST_FLAG_MAP"
    using c a(2) by (auto simp: chain_def)
  have h_ok: "alive s h" "h \<noteq> a" "hn_head (nod s h) = Some h" "\<not> hasflag (hn_flags (nod s h)) LIST_FLAG_MAP"
    using c a(2) by (auto simp: chain_def)
  obtain st where st: "hn_stats (nod s h) = Some (st, of_nat (length (xs @ ys)))" using d by (auto simp: dlist_def)
  have nx: "hn_next (nod s at) = (case ys of [] \<Rightarrow> None | y # _ \<Rightarrow> Some y)"
    using chain_next [OF c] at by simp
  have y_ok: "ys = y # ys' \<Longrightarrow> alive s y \<and> y \<noteq> a \<and> y \<noteq> at \<and> y \<noteq> h" for y ys'
    using c a(2) at_in by (auto simp: chain_def)
  define upd where "upd b = (if b = a then (nod s a)\<lparr>hn_prev := Some at, hn_next := hn_next (nod s at), hn_head := Some h\<rparr>
     else (nod s b)\<lparr>hn_next := (if b = at then Some a else hn_next (nod s b)),
        hn_prev := (if b = (if ys = [] then h else hd ys) then Some a else hn_prev (nod s b)),
        hn_stats := (if b = h then Some (st, of_nat (Suc (length (xs @ ys)))) else hn_stats (nod s b))\<rparr>)" for b
  have "\<exists>s'. ListThreadNode s at a = Inr s' \<and> (\<forall>b. nod s' b = upd b) \<and> (\<forall>b. alive s' b = alive s b) \<and>
      st_fresh s' = st_fresh s"
  proof (cases ys)
    case Nil
    with at_ok h_ok a nx st show ?thesis
      by (auto simp: ListThreadNode_def ListGetHead_def MapChainGetHead_def ListIncrNoOfItems_def count_items_def
          add_hits_def upd_def Let_def)
  next
    case (Cons y ys')
    with at_ok h_ok a nx st y_ok show ?thesis
      by (auto simp: ListThreadNode_def ListGetHead_def MapChainGetHead_def ListIncrNoOfItems_def count_items_def
          add_hits_def upd_def Let_def)
  qed
  then obtain s' where s': "ListThreadNode s at a = Inr s'" and nod: "\<And>b. nod s' b = upd b"
    and al: "\<And>b. alive s' b = alive s b" and fr: "st_fresh s' = st_fresh s" by blast
  have dist: "distinct ((h # xs) @ ys)" and lk: "linked s ((h # xs) @ ys)" using c by (simp_all add: chain_def)
  have "linked s' ((h # xs) @ a # ys)"
  proof (rule linked_insert [OF lk _ dist])
    show "a \<notin> set ((h # xs) @ ys)" using a(2) by simp
    show "hn_next (nod s' (last (h # xs))) = Some a" "hn_prev (nod s' a) = Some (last (h # xs))"
      using at at_ok by (auto simp: nod upd_def)
    show "ys \<noteq> [] \<Longrightarrow> hn_next (nod s' a) = Some (hd ys) \<and> hn_prev (nod s' (hd ys)) = Some a"
      using nx a(2) by (cases ys) (auto simp: nod upd_def)
    show "hn_next (nod s' b) = hn_next (nod s b)" if "b \<noteq> a" "b \<noteq> last (h # xs)" for b
      using that at by (simp add: nod upd_def)
    show "hn_prev (nod s' b) = hn_prev (nod s b)"
      if "b \<in> set ((h # xs) @ ys)" "ys = [] \<or> b \<noteq> hd ys" "b \<noteq> hd (h # xs)" for b
      using that a(2) by (auto simp: nod upd_def)
  qed simp
  moreover have "hn_next (nod s' (last (h # xs @ a # ys))) = None"
  proof (cases ys rule: rev_cases)
    case Nil
    with nx show ?thesis by (simp add: nod upd_def)
  next
    case (snoc zs z)
    have "hn_next (nod s (last (h # xs @ ys))) = None" using c by (simp add: chain_def)
    moreover have "z \<noteq> a" "z \<noteq> at" using snoc a(2) at_in dist by auto
    ultimately show ?thesis using snoc by (simp add: nod upd_def)
  qed
  ultimately have "chain s' h (xs @ a # ys)"
    using c a unfolding chain_def by (auto simp: al fr nod upd_def)
  moreover have "hn_prev (nod s' h) = Some (last (xs @ a # ys))"
  proof (cases ys)
    case (Cons y ys')
    with d y_ok [of y ys'] h_ok show ?thesis by (auto simp: dlist_def nod upd_def)
  qed (use h_ok in \<open>simp add: nod upd_def\<close>)
  moreover have "hn_stats (nod s' h) = Some (st, of_nat (length (xs @ a # ys)))"
    using h_ok by (simp add: nod upd_def)
  ultimately have "dlist s' h (xs @ a # ys)" unfolding dlist_def by simp
  moreover have "nod s' b = nod s b" if "b \<notin> set (h # xs @ a # ys)" for b
  proof -
    have "b \<noteq> at" "b \<noteq> a" "b \<noteq> h" "ys = [] \<or> b \<noteq> hd ys" using that at_in by (auto simp: hd_in_set dest: hd_in_set)
    then show ?thesis by (auto simp: nod upd_def)
  qed
  moreover have "hn_tag (nod s' b) = hn_tag (nod s b) \<and> hn_type (nod s' b) = hn_type (nod s b) \<and>
         hn_item (nod s' b) = hn_item (nod s b) \<and> hn_flags (nod s' b) = hn_flags (nod s b)" for b
    by (simp add: nod upd_def)
  ultimately show ?thesis using s' al fr by blast
qed

section \<open>Contents\<close>

text \<open>What is not a link: the sequence of nodes as \<open>ListNodes\<close> sees it.\<close>

definition node_view :: "'a hnode \<Rightarrow> 'a option lnode" where
  "node_view n = \<lparr>ln_tag = hn_tag n, ln_type = hn_type n, ln_item = hn_item n\<rparr>"

definition contents :: "'a store \<Rightarrow> addr list \<Rightarrow> 'a option lnode list" where
  "contents s as = map (\<lambda>a. node_view (nod s a)) as"

definition same_links :: "'a hnode \<Rightarrow> 'a hnode \<Rightarrow> bool" where
  "same_links m n \<longleftrightarrow> hn_next m = hn_next n \<and> hn_prev m = hn_prev n \<and> hn_head m = hn_head n \<and> hn_flags m = hn_flags n"

lemma dlist_cong:
  assumes "dlist s h as" "\<forall>b \<in> set (h # as). alive t b \<and> same_links (nod t b) (nod s b)"
    "hn_stats (nod t h) = hn_stats (nod s h)" "\<forall>b. alive t b \<longrightarrow> b < st_fresh t"
  shows "dlist t h as"
proof -
  have "linked t (h # as) = linked s (h # as)"
  proof (rule linked_cong)
    fix b assume "b \<in> set (butlast (h # as))"
    then have "b \<in> set (h # as)" by (rule in_set_butlastD)
    then show "hn_next (nod t b) = hn_next (nod s b)" using assms(2) by (auto simp: same_links_def)
  qed (use assms(2) in \<open>simp add: same_links_def\<close>)
  moreover have "hn_next (nod t (last (h # as))) = hn_next (nod s (last (h # as)))"
    using assms(2) last_in_set [of "h # as"] by (auto simp: same_links_def)
  ultimately show ?thesis
    using assms by (auto simp: dlist_def chain_def same_links_def)
qed

lemma contents_append [simp]: "contents s (xs @ ys) = contents s xs @ contents s ys"
  by (simp add: contents_def)

lemma contents_Cons [simp]: "contents s (a # as) = node_view (nod s a) # contents s as"
  by (simp add: contents_def)

lemma contents_Nil [simp]: "contents s [] = []"
  by (simp add: contents_def)

lemma length_contents [simp]: "length (contents s as) = length as"
  by (simp add: contents_def)

lemma contents_cong: "(\<And>a. a \<in> set as \<Longrightarrow> node_view (nod t a) = node_view (nod s a)) \<Longrightarrow> contents t as = contents s as"
  by (simp add: contents_def)

text \<open>The memory other lists are in is left alone.\<close>

definition unchanged :: "'a store \<Rightarrow> 'a store \<Rightarrow> addr set \<Rightarrow> bool" where
  "unchanged s t A \<longleftrightarrow> (\<forall>b. b \<notin> A \<longrightarrow> alive t b = alive s b \<and> nod t b = nod s b)"

lemma ListInsertTypedItem_dlist:
  assumes d: "dlist s h (xs @ ys)" and at: "at = last (h # xs)"
  shows "\<exists>s'. ListInsertTypedItem now s (Some at) ty name itm = Inr (Some (st_fresh s), s') \<and>
    dlist s' h (xs @ st_fresh s # ys) \<and>
    contents s' (xs @ st_fresh s # ys) = contents s xs @ new_node ty name itm # contents s ys \<and>
    unchanged s s' (set (h # xs @ st_fresh s # ys)) \<and> st_fresh s' = Suc (st_fresh s) \<and>
    hn_flags (nod s' h) = hn_flags (nod s h)"
proof -
  let ?a = "st_fresh s"
  have c: "chain s h (xs @ ys)" using d by (rule dlist_chain)
  have fresh: "?a \<notin> set (h # xs @ ys)" "\<forall>b. alive s b \<longrightarrow> b < ?a" using c by (auto simp: chain_def)
  obtain s1 where s1: "alloc s calloc_node = (?a, s1)" by (simp add: alloc_def)
  have n1: "nod s1 b = (if b = ?a then calloc_node else nod s b)" "alive s1 b = (b = ?a \<or> alive s b)" for b
    using s1 by (auto simp: alloc_def nod_def alive_def)
  have f1: "st_fresh s1 = Suc ?a" using s1 by (auto simp: alloc_def)
  have d1: "dlist s1 h (xs @ ys)"
    by (rule dlist_cong [OF d]) (use c fresh in \<open>auto simp: n1 f1 chain_def same_links_def less_Suc_eq\<close>)
  obtain s2 where s2: "ListThreadNode s1 at ?a = Inr s2" "dlist s2 h (xs @ ?a # ys)"
      "\<And>b. alive s2 b = alive s1 b" "st_fresh s2 = st_fresh s1"
      "\<And>b. hn_tag (nod s2 b) = hn_tag (nod s1 b) \<and> hn_type (nod s2 b) = hn_type (nod s1 b) \<and>
         hn_item (nod s2 b) = hn_item (nod s1 b) \<and> hn_flags (nod s2 b) = hn_flags (nod s1 b)"
      "\<And>b. b \<notin> set (h # xs @ ?a # ys) \<Longrightarrow> nod s2 b = nod s1 b"
    using ListThreadNode_dlist [OF d1 at, of ?a] fresh(1) n1 by (auto simp: calloc_node_def)
  define s3 where "s3 = setn s2 ?a ((nod s2 ?a)\<lparr>hn_item := itm, hn_type := ty,
      hn_tag := (if StrValid name then name else None)\<rparr>)"
  define s4 where "s4 = setn s3 ?a ((nod s3 ?a)\<lparr>hn_stats := Some (now, 0)\<rparr>)"
  have at_in: "at \<in> set (h # xs)" using at last_in_set [of "h # xs"] by simp
  have c2: "chain s2 h (xs @ ?a # ys)" using s2(2) by (rule dlist_chain)
  have ok: "alive s2 ?a" "alive s2 at" "alive s2 h" "hn_head (nod s2 at) = Some h" "at \<noteq> ?a"
    using c2 at_in fresh(1) by (auto simp: chain_def)
  have fin: "dlist t h (xs @ ?a # ys) \<and> contents t (xs @ ?a # ys) = contents s xs @ new_node ty name itm # contents s ys \<and>
      unchanged s t (set (h # xs @ ?a # ys)) \<and> st_fresh t = Suc ?a \<and> hn_flags (nod t h) = hn_flags (nod s h)"
    if t: "t = s3 \<or> t = s4" for t
  proof (intro conjI)
    show "dlist t h (xs @ ?a # ys)"
      by (rule dlist_cong [OF s2(2)])
        (use t c2 fresh(1) in \<open>auto simp: s3_def s4_def chain_def same_links_def\<close>)
    have "node_view (nod t b) = node_view (nod s b)" if "b \<noteq> ?a" for b
      using t that s2(5) [of b] n1 by (auto simp: s3_def s4_def node_view_def)
    moreover have "node_view (nod t ?a) = new_node ty name itm"
      using t by (auto simp: s3_def s4_def node_view_def new_node_def)
    moreover have "contents t zs = contents s zs" if "?a \<notin> set zs" for zs
      by (rule contents_cong) (metis calculation(1) that)
    ultimately show "contents t (xs @ ?a # ys) = contents s xs @ new_node ty name itm # contents s ys"
      using fresh(1) by simp
    show "unchanged s t (set (h # xs @ ?a # ys))"
      using t s2(3,6) n1 by (auto simp: unchanged_def s3_def s4_def)
    show "st_fresh t = Suc ?a" "hn_flags (nod t h) = hn_flags (nod s h)"
      using t s2(4) s2(5) [of h] n1 f1 fresh(1) by (auto simp: s3_def s4_def)
  qed
  have "ListInsertTypedItem now s (Some at) ty name itm = Inr (Some ?a, s3) \<or>
      ListInsertTypedItem now s (Some at) ty name itm = Inr (Some ?a, s4)"
    using ok s2(1) by (auto simp: ListInsertTypedItem_def s1 s3_def s4_def)
  then show ?thesis using fin by blast
qed

lemma ListGetLast_dlist: "dlist s h as \<Longrightarrow> ListGetLast s (Some h) = Inr (Some (last (h # as)))"
  by (auto simp: ListGetLast_def ListGetHead_def MapChainGetHead_def dlist_def chain_def split: if_splits)

lemma ListAddTypedItem_dlist:
  assumes d: "dlist s h as"
  shows "\<exists>s'. ListAddTypedItem now s (Some h) ty name itm = Inr (Some (st_fresh s), s') \<and>
    dlist s' h (as @ [st_fresh s]) \<and>
    contents s' (as @ [st_fresh s]) = seq_add_typed (contents s as) ty name itm \<and>
    unchanged s s' (set (h # as @ [st_fresh s])) \<and> st_fresh s' = Suc (st_fresh s) \<and>
    hn_flags (nod s' h) = hn_flags (nod s h)"
proof -
  have "ListAddTypedItem now s (Some h) ty name itm = ListInsertTypedItem now s (Some (last (h # as))) ty name itm"
    using d ListGetLast_dlist [OF d] by (simp add: ListAddTypedItem_def dlist_def chain_def)
  then show ?thesis
    using ListInsertTypedItem_dlist [of s h as "[]" "last (h # as)" now ty name itm] d
    by (cases "as = []") (simp_all add: seq_add_typed_def)
qed

section \<open>Deleting\<close>

lemma linked_delete:
  assumes "linked s (xs @ a # ys)" "xs \<noteq> []" "distinct (xs @ a # ys)"
    and "ys \<noteq> [] \<Longrightarrow> hn_next (nod t (last xs)) = Some (hd ys) \<and> hn_prev (nod t (hd ys)) = Some (last xs)"
    and "\<And>b. b \<noteq> a \<Longrightarrow> b \<noteq> last xs \<Longrightarrow> hn_next (nod t b) = hn_next (nod s b)"
    and "\<And>b. b \<in> set (xs @ ys) \<Longrightarrow> ys = [] \<or> b \<noteq> hd ys \<Longrightarrow> b \<noteq> hd xs \<Longrightarrow> hn_prev (nod t b) = hn_prev (nod s b)"
  shows "linked t (xs @ ys)"
proof -
  obtain zs x where z: "xs = zs @ [x]" using assms(2) by (cases xs rule: rev_cases) auto
  have "linked t xs = linked s xs"
  proof (rule linked_cong)
    fix b assume "b \<in> set (butlast xs)"
    with assms(3) z show "hn_next (nod t b) = hn_next (nod s b)" by (intro assms(5)) auto
  next
    fix b assume b: "b \<in> set (tl xs)"
    with assms(3) have "b \<noteq> hd xs" "b \<in> set xs" by (cases xs; auto)+
    with assms(3) show "hn_prev (nod t b) = hn_prev (nod s b)" by (intro assms(6)) (cases ys; auto)+
  qed
  moreover have "linked t ys = linked s ys"
  proof (rule linked_cong)
    fix b assume "b \<in> set (butlast ys)"
    then have "b \<in> set ys" by (rule in_set_butlastD)
    with assms(3) z show "hn_next (nod t b) = hn_next (nod s b)" by (intro assms(5)) auto
  next
    fix b assume b: "b \<in> set (tl ys)"
    with assms(3) have "b \<noteq> hd ys" "b \<in> set ys" by (cases ys; auto)+
    moreover have "b \<noteq> hd xs" using assms(2,3) \<open>b \<in> set ys\<close> by (cases xs) auto
    ultimately show "hn_prev (nod t b) = hn_prev (nod s b)" by (intro assms(6)) auto
  qed
  moreover have "linked s xs" "linked s (a # ys)" using assms(1) linked_split by blast+
  moreover have "linked s ys" using calculation(4) by (cases ys) auto
  ultimately show ?thesis
    using assms(2,4) linked_join [of xs ys t] by (cases "ys = []") auto
qed

lemma ListUnThreadNode_effect:
  assumes d: "dlist s h (xs @ a # ys)"
  defines "prev \<equiv> last (h # xs)"
  defines "upd b \<equiv> (nod s b)\<lparr>
      hn_next := (if b = prev then case ys of [] \<Rightarrow> None | y # _ \<Rightarrow> Some y else hn_next (nod s b)),
      hn_prev := (if ys \<noteq> [] \<and> b = hd ys then Some prev
                  else if ys = [] \<and> b = h then (if xs = [] then None else Some prev) else hn_prev (nod s b)),
      hn_side := (if b = h \<and> hn_side (nod s b) = Some a then None else hn_side (nod s b)),
      hn_stats := (if b = h then Some (fst (stats_of (nod s h)), of_nat (length (xs @ ys))) else hn_stats (nod s b))\<rparr>"
  shows "\<exists>s'. ListUnThreadNode s a = Inr s' \<and> (\<forall>b. b \<noteq> a \<longrightarrow> nod s' b = upd b) \<and>
    hn_item (nod s' a) = hn_item (nod s a) \<and> (\<forall>b. alive s' b = alive s b) \<and> st_fresh s' = st_fresh s"
proof -
  have c: "chain s h (xs @ a # ys)" using d by (rule dlist_chain)
  obtain st where st: "hn_stats (nod s h) = Some (st, of_nat (length (xs @ a # ys)))" using d by (auto simp: dlist_def)
  have p: "prev \<in> set (h # xs)" unfolding prev_def using last_in_set [of "h # xs"] by simp
  have ok: "alive s a" "alive s h" "alive s prev" "a \<noteq> h" "a \<noteq> prev" "hn_head (nod s a) = Some h"
      "\<not> hasflag (hn_flags (nod s a)) LIST_FLAG_MAP" "hn_head (nod s h) = Some h"
      "\<not> hasflag (hn_flags (nod s h)) LIST_FLAG_MAP"
    using c p by (auto simp: chain_def)
  have nx: "hn_next (nod s a) = (case ys of [] \<Rightarrow> None | y # _ \<Rightarrow> Some y)"
    using chain_next [of s h "xs @ [a]" ys] c by simp
  have pv: "hn_prev (nod s a) = Some prev" using chain_prev [OF c] by (simp add: prev_def)
  have hx: "prev = h \<longleftrightarrow> xs = []"
    using c by (auto simp: prev_def chain_def)
  have hn: "prev \<noteq> h \<Longrightarrow> hn_next (nod s h) \<noteq> Some a"
  proof -
    assume "prev \<noteq> h"
    with hx obtain x xs' where x: "xs = x # xs'" by (cases xs) auto
    have "hn_next (nod s h) = Some x" using c x by (simp add: chain_def)
    with c x show "hn_next (nod s h) \<noteq> Some a" by (auto simp: chain_def)
  qed
  have st': "(of_nat (length (xs @ a # ys)) :: 64 word) + (-1) = of_nat (length (xs @ ys))" by simp
  have pn: "hn_next (nod s prev) = Some a" using chain_next [OF c] by (simp add: prev_def)
  note run = ListUnThreadNode_def ListDecrNoOfItems_def count_items_def add_hits_def ListGetHead_def
    MapChainGetHead_def unthread_head_def
  consider "ys = []" "xs = []" "prev = h" | "ys = []" "xs \<noteq> []" "prev \<noteq> h"
    | y ys' where "ys = y # ys'" "xs = []" "prev = h" | y ys' where "ys = y # ys'" "xs \<noteq> []" "prev \<noteq> h"
    using hx by (cases ys) blast+
  then show ?thesis
  proof cases
    case 1
    have "hn_prev (nod s h) = Some a" using d 1 by (simp add: dlist_def)
    with 1 ok nx pv st st' show ?thesis by (auto simp: run upd_def stats_of_def Let_def)
  next
    case 2
    have "hn_prev (nod s h) = Some a" using d 2 by (simp add: dlist_def)
    with 2 ok nx pv hn st st' show ?thesis by (auto simp: run upd_def stats_of_def Let_def)
  next
    case (3 y ys')
    have "hn_prev (nod s h) \<noteq> Some a" "alive s y" "y \<noteq> a" "y \<noteq> h"
      using d 3 c last_in_set [of ys] by (auto simp: dlist_def chain_def split: if_splits)
    with 3 ok nx pv st st' show ?thesis by (auto simp: run upd_def stats_of_def Let_def)
  next
    case (4 y ys')
    have "hn_prev (nod s h) \<noteq> Some a" "alive s y" "y \<noteq> a" "y \<noteq> h" "y \<noteq> prev"
      using d 4 c p last_in_set [of ys] by (auto simp: dlist_def chain_def split: if_splits)
    with 4 ok nx pv hn st st' show ?thesis by (auto simp: run upd_def stats_of_def Let_def)
  qed
qed

lemma ListDeleteNode_dlist:
  assumes d: "dlist s h (xs @ a # ys)"
  shows "\<exists>s'. ListDeleteNode s (Some a) = Inr (hn_item (nod s a), s') \<and> dlist s' h (xs @ ys) \<and>
    contents s' (xs @ ys) = delete_at (length xs) (contents s (xs @ a # ys)) \<and> \<not> alive s' a \<and>
    unchanged s s' (set (h # xs @ a # ys)) \<and> st_fresh s' = st_fresh s \<and> hn_flags (nod s' h) = hn_flags (nod s h)"
proof -
  let ?prev = "last (h # xs)"
  let ?upd = "\<lambda>b. (nod s b)\<lparr>
      hn_next := (if b = ?prev then case ys of [] \<Rightarrow> None | y # _ \<Rightarrow> Some y else hn_next (nod s b)),
      hn_prev := (if ys \<noteq> [] \<and> b = hd ys then Some ?prev
                  else if ys = [] \<and> b = h then (if xs = [] then None else Some ?prev) else hn_prev (nod s b)),
      hn_side := (if b = h \<and> hn_side (nod s b) = Some a then None else hn_side (nod s b)),
      hn_stats := (if b = h then Some (fst (stats_of (nod s h)), of_nat (length (xs @ ys))) else hn_stats (nod s b))\<rparr>"
  obtain s1 where s1: "ListUnThreadNode s a = Inr s1" "\<And>b. b \<noteq> a \<Longrightarrow> nod s1 b = ?upd b"
      "hn_item (nod s1 a) = hn_item (nod s a)" "\<And>b. alive s1 b = alive s b" "st_fresh s1 = st_fresh s"
    using ListUnThreadNode_effect [OF d] by blast
  have c: "chain s h (xs @ a # ys)" using d by (rule dlist_chain)
  define s2 where "s2 = s1\<lparr>st_nodes := (st_nodes s1)(a := None)\<rparr>"
  have n2: "nod s2 b = ?upd b" if "b \<noteq> a" for b using s1(2) [OF that] that by (simp add: s2_def nod_def)
  have al: "alive s2 b = (b \<noteq> a \<and> alive s b)" for b using s1(4) [of b] by (auto simp: s2_def alive_def)
  have fr: "st_fresh s2 = st_fresh s" using s1(5) by (simp add: s2_def)
  have run: "ListDeleteNode s (Some a) = Inr (hn_item (nod s a), s2)"
    using s1(1,3,4) c by (simp add: ListDeleteNode_def s2_def chain_def)
  have dist: "distinct ((h # xs) @ a # ys)" and lk: "linked s ((h # xs) @ a # ys)" using c by (simp_all add: chain_def)
  have p: "?prev \<in> set (h # xs)" using last_in_set [of "h # xs"] by (simp del: last.simps)
  have "linked s2 ((h # xs) @ ys)"
  proof (rule linked_delete [OF lk _ dist])
    show "hn_next (nod s2 (last (h # xs))) = Some (hd ys) \<and> hn_prev (nod s2 (hd ys)) = Some (last (h # xs))"
      if "ys \<noteq> []"
    proof -
      have "?prev \<noteq> a" "hd ys \<noteq> a" using p dist that hd_in_set [OF that] by auto
      with that show ?thesis by (cases ys) (simp_all add: n2)
    qed
    show "hn_next (nod s2 b) = hn_next (nod s b)" if "b \<noteq> a" "b \<noteq> last (h # xs)" for b
      using that by (simp add: n2 del: last.simps)
    show "hn_prev (nod s2 b) = hn_prev (nod s b)"
      if "b \<in> set ((h # xs) @ ys)" "ys = [] \<or> b \<noteq> hd ys" "b \<noteq> hd (h # xs)" for b
    proof -
      have "b \<noteq> a" "b \<noteq> h" using that dist by auto
      then show ?thesis using that(2) by (auto simp: n2)
    qed
  qed simp
  moreover have "hn_next (nod s2 (last (h # xs @ ys))) = None"
  proof (cases ys rule: rev_cases)
    case Nil
    have "?prev \<noteq> a" using p dist by auto
    with Nil show ?thesis by (simp add: n2 del: last.simps)
  next
    case (snoc zs z)
    have "hn_next (nod s (last (h # xs @ a # ys))) = None" using c by (simp add: chain_def)
    moreover have "z \<noteq> a" "z \<noteq> ?prev" using snoc p dist by auto
    ultimately show ?thesis using snoc by (simp add: n2)
  qed
  moreover have "hn_head (nod s2 b) = hn_head (nod s b)" "hn_flags (nod s2 b) = hn_flags (nod s b)" "alive s2 b"
    if "b \<in> set (h # xs @ ys)" for b
  proof -
    have "b \<noteq> a" "alive s b" using that c by (auto simp: chain_def)
    then show "hn_head (nod s2 b) = hn_head (nod s b)" "hn_flags (nod s2 b) = hn_flags (nod s b)" "alive s2 b"
      by (simp_all add: n2 al)
  qed
  ultimately have ch: "chain s2 h (xs @ ys)"
    using c unfolding chain_def by (simp add: al fr)
  have "hn_prev (nod s2 h) = (if xs @ ys = [] then None else Some (last (xs @ ys)))"
    using d c by (auto simp: dlist_def chain_def n2)
  moreover have "\<exists>t. hn_stats (nod s2 h) = Some (t, of_nat (length (xs @ ys)))"
    using dist by (simp add: n2)
  ultimately have dl: "dlist s2 h (xs @ ys)" using ch by (simp add: dlist_def)
  have "node_view (nod s2 b) = node_view (nod s b)" if "b \<noteq> a" for b by (simp add: n2 [OF that] node_view_def)
  then have "contents s2 zs = contents s zs" if "a \<notin> set zs" for zs by (rule contents_cong) (use that in auto)
  then have "contents s2 (xs @ ys) = delete_at (length xs) (contents s (xs @ a # ys))"
    using dist by (simp add: delete_at_def)
  moreover have "unchanged s s2 (set (h # xs @ a # ys))"
    using p unfolding unchanged_def by (auto simp: al n2)
  moreover have "\<not> alive s2 a" "st_fresh s2 = st_fresh s" "hn_flags (nod s2 h) = hn_flags (nod s h)"
    using dist by (simp_all add: al n2 fr)
  ultimately show ?thesis using run dl by blast
qed

section \<open>Searching\<close>

lemma chain_length: "chain s h as \<Longrightarrow> length (h # as) \<le> st_fresh s"
proof -
  assume c: "chain s h as"
  then have "set (h # as) \<subseteq> {..< st_fresh s}" by (auto simp: chain_def)
  then have "card (set (h # as)) \<le> card {..< st_fresh s}" by (intro card_mono) simp_all
  moreover have "card (set (h # as)) = length (h # as)" using c by (intro distinct_card) (simp add: chain_def)
  ultimately show "length (h # as) \<le> st_fresh s" by simp
qed

text \<open>The pointer to the first of a sequence of nodes.\<close>

definition first_addr :: "addr list \<Rightarrow> addr option" where
  "first_addr as = (case as of [] \<Rightarrow> None | a # _ \<Rightarrow> Some a)"

lemma first_simps [simp]: "first_addr [] = None" "first_addr (a # as) = Some a"
  by (simp_all add: first_addr_def)

lemma chain_first: "chain s h (xs @ ys) \<Longrightarrow> hn_next (nod s (last (h # xs))) = first_addr ys"
  using chain_next [of s h xs ys] by (cases ys) simp_all

lemma chain_snoc_first: "chain s h (xs @ y # ys) \<Longrightarrow> hn_next (nod s y) = first_addr ys"
  using chain_first [of s h "xs @ [y]" ys] by simp

lemma chain_mem: "chain s h as \<Longrightarrow> a \<in> set (h # as) \<Longrightarrow>
    alive s a \<and> hn_head (nod s a) = Some h \<and> \<not> hasflag (hn_flags (nod s a)) LIST_FLAG_MAP"
  by (auto simp: chain_def)

lemma ListGetNext_chain:
  assumes c: "chain s h (xs @ ys)"
  shows "ListGetNext s (Some (last (h # xs))) = Inr (first_addr ys)"
proof -
  let ?p = "last (h # xs)"
  have p: "alive s ?p" "hn_head (nod s ?p) = Some h" "\<not> hasflag (hn_flags (nod s ?p)) LIST_FLAG_MAP"
    using chain_mem [OF c, of ?p] last_in_set [of "h # xs"] by auto
  have h: "alive s h" "\<not> hasflag (hn_flags (nod s h)) LIST_FLAG_MAP" using chain_mem [OF c, of h] by auto
  have n: "hn_next (nod s ?p) = first_addr ys" by (rule chain_first [OF c])
  show ?thesis
  proof (cases ys)
    case Nil
    with p h n show ?thesis
      by (simp add: ListGetNext_def MapGetNext_def MapChainGetNext_def ListGetHead_def MapChainGetHead_def
          walk_fuel_def del: last.simps)
  next
    case (Cons y ys')
    have y: "alive s y" "hn_next (nod s y) = first_addr ys'"
      using chain_mem [OF c, of y] chain_snoc_first [of s h xs y ys'] c Cons by auto
    have "prefetch s (Some y) = Inr ()"
    proof (cases ys')
      case (Cons z zs)
      then have "alive s z" using chain_mem [OF c, of z] \<open>ys = y # ys'\<close> by simp
      with y Cons show ?thesis by (simp add: prefetch_def)
    qed (use y in \<open>simp add: prefetch_def\<close>)
    with p n Cons show ?thesis
      by (simp add: ListGetNext_def MapGetNext_def MapChainGetNext_def del: last.simps)
  qed
qed

lemma ListGetNext_after: "chain s h (xs @ y # ys) \<Longrightarrow> ListGetNext s (Some y) = Inr (first_addr ys)"
  using ListGetNext_chain [of s h "xs @ [y]" ys] by simp

lemma ListGetNext_head: "chain s h ys \<Longrightarrow> ListGetNext s (Some h) = Inr (first_addr ys)"
  using ListGetNext_chain [of s h "[]" ys] by simp

text \<open>The search, from a node of the list on.\<close>

lemma insert_loop_plain:
  assumes "chain s h (xs @ ys)" "length ys < k"
  shows "insert_loop k now 0 name s (Some (last (h # xs))) (first_addr ys) =
     Inr (Some (case find_tag (contents s ys) name of None \<Rightarrow> last (h # xs @ ys) | Some i \<Rightarrow> ys ! i), s)"
  using assms
proof (induction ys arbitrary: xs k)
  case Nil
  then obtain k' where "k = Suc k'" by (cases k) auto
  then show ?case by simp
next
  case (Cons y ys)
  obtain k' where k: "k = Suc k'" using Cons(3) by (cases k) auto
  have y: "alive s y" "hn_next (nod s y) = first_addr ys"
    using chain_mem [OF Cons(2), of y] chain_snoc_first [OF Cons(2)] by auto
  have IH: "insert_loop k' now 0 name s (Some y) (first_addr ys) =
     Inr (Some (case find_tag (contents s ys) name of None \<Rightarrow> last (h # xs @ y # ys) | Some i \<Rightarrow> ys ! i), s)"
    using Cons.IH [of "xs @ [y]" k'] Cons(2,3) k by (simp cong: option.case_cong)
  show ?case
  proof (cases "hn_tag (nod s y)")
    case None
    with y IH k show ?thesis by (simp add: node_view_def tag_is_def split: option.splits)
  next
    case (Some t)
    with y IH k show ?thesis by (auto simp: node_view_def tag_is_def tag_cmp_def split: option.splits)
  qed
qed

lemma dlist_last: "dlist s h as \<Longrightarrow> as \<noteq> [] \<Longrightarrow> hn_prev (nod s h) = Some (last as)"
  by (simp add: dlist_def)

lemma first_None [simp]: "first_addr as = None \<longleftrightarrow> as = []"
  by (cases as) simp_all

lemma ListFindNamedItemInsert_dlist:
  assumes d: "dlist s h as" and f: "hn_flags (nod s h) = 0"
  shows "ListFindNamedItemInsert now s (Some h) name =
     Inr (Some (case name of None \<Rightarrow> h
       | Some nm \<Rightarrow> (case seq_find_insert (contents s as) nm of None \<Rightarrow> h | Some i \<Rightarrow> as ! i)), s)"
proof (cases "StrValid name \<and> as \<noteq> []")
  case True
  then obtain nm where nm: "name = Some nm" "nm \<noteq> []" "as \<noteq> []" by (auto simp: StrValid_def split: option.splits)
  have c: "chain s h as" using d by (rule dlist_chain)
  have h: "alive s h" "hn_next (nod s h) = first_addr as" "hn_prev (nod s h) = Some (last as)"
    using chain_mem [OF c, of h] chain_first [of s h "[]" as] c dlist_last [OF d nm(3)] by auto
  have l: "last as \<in> set as" "alive s (last as)" "last as \<noteq> h"
    using nm(3) last_in_set [of as] chain_mem [OF c, of "last as"] c by (auto simp: chain_def)
  have lc: "last (contents s as) = node_view (nod s (last as))" "contents s as \<noteq> []"
    using nm(3) by (simp_all add: contents_def last_map)
  have lm: "last_matches nm s (Some h) (nod s h) = Inr (tag_is (ln_tag (last (contents s as))) nm)"
    using h l f by (auto simp: last_matches_def tag_is_def tag_cmp_def lc node_view_def split: option.splits)
  have loop: "insert_loop (walk_fuel s) now 0 nm s (Some h) (first_addr as) =
     Inr (Some (case find_tag (contents s as) nm of None \<Rightarrow> last as | Some i \<Rightarrow> as ! i), s)"
    using insert_loop_plain [of s h "[]" as "walk_fuel s" now nm] c chain_length [OF c] nm(3)
    by (simp add: walk_fuel_def del: insert_loop.simps cong: option.case_cong)
  show ?thesis
    using h f nm lm loop lc
    by (auto simp: ListFindNamedItemInsert_def cached_start_def seq_find_insert_def
        last_conv_nth split: option.splits)
next
  case False
  have c: "chain s h as" using d by (rule dlist_chain)
  have "alive s h" "hn_next (nod s h) = first_addr as" using chain_mem [OF c, of h] chain_first [of s h "[]" as] c by auto
  with False f show ?thesis
    by (auto simp: ListFindNamedItemInsert_def seq_find_insert_def StrValid_def
        split: option.splits)
qed

text \<open>Counting a hit on a node changes neither the list nor its contents.\<close>

definition count_hit :: "'a store \<Rightarrow> addr \<Rightarrow> 'a store" where
  "count_hit s p = setn s p (case hn_stats (nod s p) of None \<Rightarrow> nod s p
     | Some (t, hits) \<Rightarrow> (nod s p)\<lparr>hn_stats := Some (t, hits + 1)\<rparr>)"

lemma hit_links: "same_links (nod (count_hit s p) b) (nod s b)" "node_view (nod (count_hit s p) b) = node_view (nod s b)"
  by (auto simp: count_hit_def same_links_def node_view_def split: option.split)

lemma hit_dlist:
  assumes "dlist s h as" "p \<in> set as"
  shows "dlist (count_hit s p) h as" "contents (count_hit s p) as = contents s as" "unchanged s (count_hit s p) (set as)"
    "hn_flags (nod (count_hit s p) h) = hn_flags (nod s h)"
proof -
  have c: "chain s h as" using assms(1) by (rule dlist_chain)
  then have p: "alive s p" "p \<noteq> h" using assms(2) by (auto simp: chain_def)
  have al: "alive (count_hit s p) b = alive s b" for b using p by (auto simp: count_hit_def)
  show "dlist (count_hit s p) h as"
  proof (rule dlist_cong [OF assms(1)])
    show "hn_stats (nod (count_hit s p) h) = hn_stats (nod s h)" using p by (simp add: count_hit_def)
    show "\<forall>b. alive (count_hit s p) b \<longrightarrow> b < st_fresh (count_hit s p)" using c by (simp add: al chain_def) (simp add: count_hit_def)
  qed (use c in \<open>simp add: al hit_links chain_def\<close>)
  show "contents (count_hit s p) as = contents s as" by (simp add: contents_def hit_links)
  show "unchanged s (count_hit s p) (set as)" using assms(2) by (auto simp: unchanged_def al) (auto simp: count_hit_def)
  show "hn_flags (nod (count_hit s p) h) = hn_flags (nod s h)" using p by (simp add: count_hit_def)
qed

lemma typed_loop_plain:
  assumes "chain s h (xs @ ys)" "length ys < k" "hn_flags (nod s h) = 0"
  shows "typed_loop k s (Some h) ty (Some name) (first_addr ys) =
     (case typed_scan (contents s ys) (length xs) ty name of
        Inl e \<Rightarrow> Inl e
      | Inr None \<Rightarrow> Inr (None, s)
      | Inr (Some i) \<Rightarrow> Inr (Some ((xs @ ys) ! i), count_hit s ((xs @ ys) ! i)))"
  using assms
proof (induction ys arbitrary: xs k)
  case Nil
  then obtain k' where "k = Suc k'" by (cases k) auto
  then show ?case by simp
next
  case (Cons y ys)
  obtain k' where k: "k = Suc k'" using Cons(3) by (cases k) auto
  have y: "alive s y" "ListGetNext s (Some y) = Inr (first_addr ys)" "alive s h" "y \<noteq> h"
    using chain_mem [OF Cons(2), of y] chain_mem [OF Cons(2), of h] ListGetNext_after [OF Cons(2)] Cons(2)
    by (auto simp: chain_def)
  have IH: "typed_loop k' s (Some h) ty (Some name) (first_addr ys) =
     (case typed_scan (contents s ys) (Suc (length xs)) ty name of
        Inl e \<Rightarrow> Inl e
      | Inr None \<Rightarrow> Inr (None, s)
      | Inr (Some i) \<Rightarrow> Inr (Some ((xs @ y # ys) ! i), count_hit s ((xs @ y # ys) ! i)))"
    using Cons.IH [of "xs @ [y]" k', unfolded append_assoc append_Cons append_Nil] Cons(2,3,4) k by simp
  show ?case
  proof (cases "hn_tag (nod s y)")
    case None
    with y k show ?thesis by (simp add: node_view_def)
  next
    case (Some t)
    with y IH k Cons(4) show ?thesis
      by (auto simp: node_view_def tag_cmp_def count_hit_def nth_append Let_def split: option.splits)
  qed
qed

lemma ListFindTypedItem_dlist:
  assumes d: "dlist s h as" and f: "hn_flags (nod s h) = 0"
  shows "ListFindTypedItem now s (Some h) ty name =
     (case name of None \<Rightarrow> Inr (None, s) | Some nm \<Rightarrow>
      (case seq_find_typed (contents s as) ty nm of
         Inl e \<Rightarrow> Inl e
       | Inr None \<Rightarrow> Inr (None, s)
       | Inr (Some i) \<Rightarrow> Inr (Some (as ! i), count_hit s (as ! i))))"
proof -
  have c: "chain s h as" using d by (rule dlist_chain)
  have h: "alive s h" "hn_head (nod s h) = Some h" using chain_mem [OF c, of h] by auto
  note run = ListFindTypedItem_def ListFindNamedItemInsert_dlist [OF d f] seq_find_typed_def
  show ?thesis
  proof (cases name)
    case None
    with h show ?thesis by (simp add: run)
  next
    case (Some nm)
    show ?thesis
    proof (cases "seq_find_insert (contents s as) nm")
      case None
      with h Some show ?thesis by (simp add: run)
    next
      case i: (Some i)
      then have il: "i < length as" using seq_find_insert_less [OF i] by simp
      let ?p = "as ! i"
      have p: "alive s ?p" "hn_head (nod s ?p) = Some h" "?p \<noteq> h"
        using chain_mem [OF c, of ?p] il c by (auto simp: chain_def)
      have tag: "ln_tag (contents s as ! i) = hn_tag (nod s ?p)" using il by (simp add: contents_def node_view_def)
      have drop: "drop i as = ?p # drop (Suc i) as" using il by (simp add: Cons_nth_drop_Suc)
      have "contents s (drop i as) = drop i (contents s as)" by (simp add: contents_def drop_map)
      moreover have "length (drop i as) < walk_fuel s" using chain_length [OF c] by (simp add: walk_fuel_def)
      ultimately have "typed_loop (walk_fuel s) s (Some h) ty (Some nm) (Some ?p) =
         (case typed_scan (drop i (contents s as)) i ty nm of
            Inl e \<Rightarrow> Inl e
          | Inr None \<Rightarrow> Inr (None, s)
          | Inr (Some j) \<Rightarrow> Inr (Some (as ! j), count_hit s (as ! j)))"
        using typed_loop_plain [of s h "take i as" "drop i as" "walk_fuel s" ty nm, unfolded append_take_drop_id] c f il drop
        by (simp del: typed_loop.simps)
      with i Some p tag show ?thesis by (simp add: run del: typed_loop.simps)
    qed
  qed
qed

section \<open>Counting along a list, and clearing it\<close>

lemma nth_loop_chain:
  assumes "chain s h (xs @ ys)" "length ys < k"
  shows "nth_loop k s (first_addr ys) n = Inr (if n < length ys then Some (ys ! n) else None)"
  using assms
proof (induction ys arbitrary: xs k n)
  case Nil
  then obtain k' where "k = Suc k'" by (cases k) auto
  then show ?case by simp
next
  case (Cons y ys)
  obtain k' where k: "k = Suc k'" using Cons(3) by (cases k) auto
  have "nth_loop k' s (first_addr ys) m = Inr (if m < length ys then Some (ys ! m) else None)" for m
    using Cons.IH [of "xs @ [y]" k' m] Cons(2,3) k by simp
  then show ?case using k ListGetNext_after [OF Cons(2)] by (cases n) simp_all
qed

lemma ListGetNth_dlist:
  assumes "dlist s h as"
  shows "ListGetNth s (Some h) n = Inr (if n < length as then Some (as ! n) else None)"
proof -
  have c: "chain s h as" using assms by (rule dlist_chain)
  then show ?thesis
    using nth_loop_chain [of s h "[]" as "walk_fuel s" n] chain_length [OF c] ListGetNext_head [OF c]
    by (simp add: ListGetNth_def walk_fuel_def del: nth_loop.simps)
qed

fun nexts :: "'a store \<Rightarrow> addr list \<Rightarrow> bool" where
  "nexts s [] = True"
| "nexts s (a # as) \<longleftrightarrow> alive s a \<and> hn_next (nod s a) = first_addr as \<and> nexts s as"

lemma nexts_cong: "(\<And>a. a \<in> set as \<Longrightarrow> alive t a = alive s a \<and> nod t a = nod s a) \<Longrightarrow> nexts t as = nexts s as"
  by (induction as) auto

lemma chain_nexts: "chain s h (xs @ ys) \<Longrightarrow> nexts s ys"
proof (induction ys arbitrary: xs)
  case (Cons y ys)
  then show ?case using Cons.IH [of "xs @ [y]"] chain_mem [of s h "xs @ y # ys" y] chain_snoc_first [of s h xs y ys] by auto
qed simp

definition item_list :: "'a hnode list \<Rightarrow> 'a list" where
  "item_list ns = concat (map (\<lambda>n. case hn_item n of None \<Rightarrow> [] | Some i \<Rightarrow> [i]) ns)"

lemma item_list_Cons:
  "item_list (n # ns) = (case hn_item n of None \<Rightarrow> item_list ns | Some i \<Rightarrow> i # item_list ns)"
  by (simp add: item_list_def split: option.split)

definition freed_nodes :: "'a store \<Rightarrow> addr list \<Rightarrow> 'a store" where
  "freed_nodes s as = s\<lparr>st_nodes := (\<lambda>a. if a \<in> set as then None else st_nodes s a)\<rparr>"

lemma clear_items_nexts:
  assumes "nexts s as" "distinct as" "length as < k"
  shows "clear_items k destroys s (first_addr as) out =
     Inr (if destroys then out @ item_list (map (nod s) as) else out, freed_nodes s as)"
  using assms
proof (induction as arbitrary: s k out)
  case Nil
  then obtain k' where "k = Suc k'" by (cases k) auto
  then show ?case by (simp add: item_list_def freed_nodes_def)
next
  case (Cons a as)
  obtain k' where k: "k = Suc k'" using Cons(4) by (cases k) auto
  define t where "t = s\<lparr>st_nodes := (st_nodes s)(a := None)\<rparr>"
  have nod: "nod t b = nod s b" "alive t b = alive s b" if "b \<in> set as" for b
    using that Cons(3) by (auto simp: t_def nod_def alive_def)
  have "nexts t as" using Cons(2) nexts_cong [of as t s] nod by simp
  then have "clear_items k' destroys t (first_addr as) out' =
     Inr (if destroys then out' @ item_list (map (nod t) as) else out', freed_nodes t as)" for out'
    using Cons.IH [of t k' out'] Cons(3,4) k by simp
  moreover have "freed_nodes t as = freed_nodes s (a # as)"
    unfolding freed_nodes_def t_def by (cases s) (auto simp: fun_eq_iff)
  moreover have "map (nod t) as = map (nod s) as" using nod by simp
  ultimately have "clear_items k' destroys t (first_addr as) out' =
     Inr (if destroys then out' @ item_list (map (nod s) as) else out', freed_nodes s (a # as))" for out'
    by (simp only:)
  then show ?case
    using Cons(2) k by (simp add: t_def [symmetric] item_list_Cons split: option.split)
qed

lemma ListClear_dlist:
  assumes d: "dlist s h as"
  shows "\<exists>s'. ListClear (Suc k) destroys s (Some h) [] = Inr (if destroys then item_list (map (nod s) as) else [], s') \<and>
    dlist s' h [] \<and> (\<forall>a \<in> set as. \<not> alive s' a) \<and> unchanged s s' (set (h # as)) \<and> st_fresh s' = st_fresh s \<and>
    hn_flags (nod s' h) = hn_flags (nod s h)"
proof -
  have c: "chain s h as" using d by (rule dlist_chain)
  have h: "alive s h" "hn_head (nod s h) = Some h" "\<not> hasflag (hn_flags (nod s h)) LIST_FLAG_MAP" "h \<notin> set as"
    "hn_next (nod s h) = first_addr as"
    using chain_mem [OF c, of h] chain_first [of s h "[]" as] c by (auto simp: chain_def)
  obtain st where st: "hn_stats (nod s h) = Some (st, of_nat (length as))" using d by (auto simp: dlist_def)
  have clear: "clear_items (walk_fuel s) destroys s (first_addr as) [] =
     Inr (if destroys then item_list (map (nod s) as) else [], freed_nodes s as)"
    using clear_items_nexts [of s as "walk_fuel s" destroys "[]"] chain_nexts [of s h "[]" as] c chain_length [OF c]
    by (simp add: walk_fuel_def chain_def del: clear_items.simps)
  have w: "alive (freed_nodes s as) b = (b \<notin> set as \<and> alive s b)" "b \<notin> set as \<Longrightarrow> nod (freed_nodes s as) b = nod s b"
    "st_fresh (freed_nodes s as) = st_fresh s" for b by (auto simp: freed_nodes_def alive_def nod_def)
  define t where "t = setn (freed_nodes s as) h
    ((nod s h)\<lparr>hn_next := None, hn_head := Some h, hn_prev := Some h, hn_stats := Some (st, 0)\<rparr>)"
  have "\<exists>s'. ListClear (Suc k) destroys s (Some h) [] = Inr (if destroys then item_list (map (nod s) as) else [], s') \<and>
      nod s' h = nod t h \<and> (\<forall>b. b \<noteq> h \<longrightarrow> nod s' b = nod t b) \<and> (\<forall>b. alive s' b = alive t b) \<and> st_fresh s' = st_fresh t"
    using h st clear w
    by (simp add: ListSetNoOfItems_def ListGetHead_def MapChainGetHead_def t_def del: clear_items.simps)
  then obtain s' where s': "ListClear (Suc k) destroys s (Some h) [] =
      Inr (if destroys then item_list (map (nod s) as) else [], s')"
      "\<And>b. nod s' b = nod t b" "\<And>b. alive s' b = alive t b" "st_fresh s' = st_fresh t" by metis
  have "dlist s' h []" using c h by (auto simp: dlist_def chain_def s' t_def w)
  moreover have "\<forall>a \<in> set as. \<not> alive s' a" "unchanged s s' (set (h # as))" "st_fresh s' = st_fresh s"
    "hn_flags (nod s' h) = hn_flags (nod s h)"
    using h(4) by (auto simp: s' t_def w unchanged_def)
  ultimately show ?thesis using s'(1) by blast
qed

end
