(* ===== verification/Simulation.thy ===== *)
theory Simulation
  imports Inv_Prelude
begin

text \<open>
  Two implementations of the same operations that give the same answers: one step relates two states
  whose related successors answer alike, and so does every sequence of steps.
\<close>

text \<open>The answers of a sequence of operations, or the fault that ends it.\<close>

fun run_ops :: "('op \<Rightarrow> 's \<Rightarrow> ('ans \<times> 's) res) \<Rightarrow> 'op list \<Rightarrow> 's \<Rightarrow> 'ans list res" where
  "run_ops step [] s = Inr []"
| "run_ops step (x # xs) s = bindr (step x s) (\<lambda>(ans, t). bindr (run_ops step xs t) (\<lambda>r. Inr (ans # r)))"

definition simulates ::
    "('c \<Rightarrow> 'a \<Rightarrow> bool) \<Rightarrow> ('ans \<times> 'c) res \<Rightarrow> ('ans \<times> 'a) res \<Rightarrow> bool" where
  "simulates rel cr ar \<longleftrightarrow>
     (case ar of Inl e \<Rightarrow> cr = Inl e | Inr (ans, a) \<Rightarrow> \<exists>c. cr = Inr (ans, c) \<and> rel c a)"

lemma simulates_Inl [simp]: "simulates rel cr (Inl e) \<longleftrightarrow> cr = Inl e"
  by (simp add: simulates_def)

lemma simulates_Inr [simp]: "simulates rel cr (Inr (ans, a)) \<longleftrightarrow> (\<exists>c. cr = Inr (ans, c) \<and> rel c a)"
  by (simp add: simulates_def)

locale simulation =
  fixes rel :: "'c \<Rightarrow> 'a \<Rightarrow> bool"
    and cstep :: "'op \<Rightarrow> 'c \<Rightarrow> ('ans \<times> 'c) res"
    and astep :: "'op \<Rightarrow> 'a \<Rightarrow> ('ans \<times> 'a) res"
  assumes step: "rel c a \<Longrightarrow> simulates rel (cstep x c) (astep x a)"
begin

lemma runs: "rel c a \<Longrightarrow> run_ops cstep xs c = run_ops astep xs a"
proof (induction xs arbitrary: c a)
  case (Cons x xs)
  show ?case
  proof (cases "astep x a")
    case (Inl e)
    with step [OF Cons.prems, of x] show ?thesis by simp
  next
    case (Inr r)
    then obtain ans a' where "astep x a = Inr (ans, a')" by (cases r) auto
    with step [OF Cons.prems, of x] Cons.IH show ?thesis by auto
  qed
qed simp

end

end
