(* ===== verification/ListProperties.thy ===== *)
theory ListProperties
  imports ListRefinement Simulation
begin

text \<open>
  Any number of lists in one memory, used in any order, answer as sequences do.
\<close>

section \<open>Operations on lists\<close>

datatype 'a list_op =
  Add nat "string option" "'a option" | Find want_type "string option" | Nth nat | DeleteNth nat | Count | Clear

datatype 'a list_cmd = NewList | On nat "'a list_op"

datatype 'a list_answer = NodeAns "'a option lnode option" | ItemAns "'a option" | NumberAns "64 word" | ItemsAns "'a list" | HeadAns nat

definition node_at :: "'a store \<Rightarrow> addr option \<Rightarrow> 'a list_answer res" where
  "node_at s p = (case p of None \<Rightarrow> Inr (NodeAns None) | Some _ \<Rightarrow> bindr (getn s p) (\<lambda>n. Inr (NodeAns (Some (node_view n)))))"

text \<open>In memory, through the head at \<open>h\<close>.\<close>

fun heap_op :: "nat \<Rightarrow> addr \<Rightarrow> 'a list_op \<Rightarrow> 'a store \<Rightarrow> ('a list_answer \<times> 'a store) res" where
  "heap_op now h (Add ty name itm) s =
     bindr (ListAddTypedItem now s (Some h) ty name itm) (\<lambda>(p, t). bindr (node_at t p) (\<lambda>r. Inr (r, t)))"
| "heap_op now h (Find ty name) s =
     bindr (ListFindTypedItem now s (Some h) ty name) (\<lambda>(p, t). bindr (node_at t p) (\<lambda>r. Inr (r, t)))"
| "heap_op now h (Nth n) s = bindr (ListGetNth s (Some h) n) (\<lambda>p. bindr (node_at s p) (\<lambda>r. Inr (r, s)))"
| "heap_op now h (DeleteNth n) s =
     bindr (ListGetNth s (Some h) n) (\<lambda>p. bindr (ListDeleteNode s p) (\<lambda>(i, t). Inr (ItemAns i, t)))"
| "heap_op now h Count s = bindr (ListSize s (Some h)) (\<lambda>n. Inr (NumberAns n, s))"
| "heap_op now h Clear s = bindr (ListClear 1 True s (Some h) []) (\<lambda>(out, t). Inr (ItemsAns out, t))"

text \<open>On sequences.\<close>

fun seq_op :: "'a list_op \<Rightarrow> 'a option lnode list \<Rightarrow> ('a list_answer \<times> 'a option lnode list) res" where
  "seq_op (Add ty name itm) xs = Inr (NodeAns (Some (new_node ty name itm)), seq_add_typed xs ty name itm)"
| "seq_op (Find ty name) xs =
     (case name of None \<Rightarrow> Inr (NodeAns None, xs)
      | Some nm \<Rightarrow> bindr (seq_find_typed xs ty nm) (\<lambda>r. Inr (NodeAns (map_option (\<lambda>i. xs ! i) r), xs)))"
| "seq_op (Nth n) xs = Inr (NodeAns (if n < length xs then Some (xs ! n) else None), xs)"
| "seq_op (DeleteNth n) xs =
     Inr (if n < length xs then (ItemAns (ln_item (xs ! n)), delete_at n xs) else (ItemAns None, xs))"
| "seq_op Count xs = Inr (NumberAns (of_nat (length xs)), xs)"
| "seq_op Clear xs =
     Inr (ItemsAns (concat (map (\<lambda>x. case ln_item x of None \<Rightarrow> [] | Some i \<Rightarrow> [i]) xs)), [])"

definition plain_list :: "'a store \<Rightarrow> addr \<Rightarrow> addr list \<Rightarrow> bool" where
  "plain_list s h as \<longleftrightarrow> dlist s h as \<and> hn_flags (nod s h) = 0"

lemma plain_list_chain: "plain_list s h as \<Longrightarrow> chain s h as"
  by (simp add: plain_list_def dlist_def)

text \<open>What one operation on one list does, and what it leaves alone.\<close>

definition list_step :: "'a store \<Rightarrow> addr \<Rightarrow> addr list \<Rightarrow> 'a store \<Rightarrow> 'a option lnode list \<Rightarrow> bool" where
  "list_step s h as t xs \<longleftrightarrow> (\<exists>bs. plain_list t h bs \<and> contents t bs = xs \<and>
     unchanged s t (set (h # as) \<union> {st_fresh s}) \<and> set bs \<subseteq> set as \<union> {st_fresh s})"

lemma list_step_same: "plain_list s h as \<Longrightarrow> list_step s h as s (contents s as)"
  unfolding list_step_def by (intro exI [of _ as]) (auto simp: unchanged_def)

lemma unchanged_mono: "unchanged s t A \<Longrightarrow> A \<subseteq> B \<Longrightarrow> unchanged s t B"
  by (auto simp: unchanged_def)

lemma heap_op_step:
  assumes p: "plain_list s h as"
  shows "simulates (list_step s h as) (heap_op now h x s) (seq_op x (contents s as))"
proof -
  have d: "dlist s h as" and f: "hn_flags (nod s h) = 0" using p by (simp_all add: plain_list_def)
  have c: "chain s h as" using d by (rule dlist_chain)
  note same = list_step_same [OF p]
  have nth: "contents s as ! i = node_view (nod s (as ! i))" if "i < length as" for i
    using that by (simp add: contents_def)
  show ?thesis
  proof (cases x)
    case (Add ty name itm)
    let ?a = "st_fresh s"
    obtain t where t: "ListAddTypedItem now s (Some h) ty name itm = Inr (Some ?a, t)"
        "dlist t h (as @ [?a])" "contents t (as @ [?a]) = seq_add_typed (contents s as) ty name itm"
        "unchanged s t (set (h # as @ [?a]))" "hn_flags (nod t h) = hn_flags (nod s h)"
      using ListAddTypedItem_dlist [OF d, of now ty name itm] by blast
    have "node_view (nod t ?a) = new_node ty name itm" using t(3) by (simp add: seq_add_typed_def)
    moreover have "alive t ?a" using chain_mem [OF dlist_chain [OF t(2)], of ?a] by simp
    moreover have "list_step s h as t (seq_add_typed (contents s as) ty name itm)"
      unfolding list_step_def
      by (intro exI [of _ "as @ [?a]"] conjI unchanged_mono [OF t(4)]) (use t f in \<open>auto simp: plain_list_def\<close>)
    ultimately show ?thesis using t(1) Add by (simp add: node_at_def)
  next
    case (Find ty name)
    show ?thesis
    proof (cases name)
      case None
      with Find same show ?thesis by (simp add: ListFindTypedItem_dlist [OF d f] node_at_def)
    next
      case (Some nm)
      show ?thesis
      proof (cases "seq_find_typed (contents s as) ty nm")
        case (Inl e)
        with Find Some show ?thesis by (simp add: ListFindTypedItem_dlist [OF d f])
      next
        case (Inr r)
        show ?thesis
        proof (cases r)
          case None
          with Find Some Inr same show ?thesis by (simp add: ListFindTypedItem_dlist [OF d f] node_at_def)
        next
          case i: (Some i)
          have il: "i < length as" using seq_find_typed_less [of "contents s as" ty nm i] Inr i by simp
          let ?p = "as ! i"
          have pin: "?p \<in> set as" using il by simp
          note hd = hit_dlist [OF d pin]
          have "alive (count_hit s ?p) ?p" using chain_mem [OF dlist_chain [OF hd(1)], of ?p] pin by simp
          moreover have "list_step s h as (count_hit s ?p) (contents s as)"
            unfolding list_step_def
            by (intro exI [of _ as] conjI unchanged_mono [OF hd(3)]) (use hd f in \<open>auto simp: plain_list_def\<close>)
          ultimately show ?thesis
            using Find Some Inr i nth [OF il] by (simp add: ListFindTypedItem_dlist [OF d f] node_at_def hit_links)
        qed
      qed
    qed
  next
    case (Nth n)
    show ?thesis
    proof (cases "n < length as")
      case True
      then have "alive s (as ! n)" using chain_mem [OF c, of "as ! n"] by simp
      with Nth True same show ?thesis by (simp add: ListGetNth_dlist [OF d] node_at_def nth)
    qed (use Nth same in \<open>simp add: ListGetNth_dlist [OF d] node_at_def\<close>)
  next
    case (DeleteNth n)
    show ?thesis
    proof (cases "n < length as")
      case True
      let ?a = "as ! n"
      have split: "as = take n as @ ?a # drop (Suc n) as" using True by (simp add: id_take_nth_drop)
      have len: "length (take n as) = n" using True by simp
      obtain t where t: "ListDeleteNode s (Some ?a) = Inr (hn_item (nod s ?a), t)"
          "dlist t h (take n as @ drop (Suc n) as)" "unchanged s t (set (h # as))" "hn_flags (nod t h) = hn_flags (nod s h)"
          "contents t (take n as @ drop (Suc n) as) = delete_at n (contents s as)"
        using ListDeleteNode_dlist [of s h "take n as" ?a "drop (Suc n) as", folded split, OF d, unfolded len] by blast
      have sub: "set (take n as @ drop (Suc n) as) \<subseteq> set as" using set_take_subset set_drop_subset by fastforce
      have "list_step s h as t (delete_at n (contents s as))"
        unfolding list_step_def
        by (intro exI [of _ "take n as @ drop (Suc n) as"] conjI unchanged_mono [OF t(3)])
          (use t f sub in \<open>auto simp: plain_list_def\<close>)
      with DeleteNth True t(1) show ?thesis by (simp add: ListGetNth_dlist [OF d] nth node_view_def)
    qed (use DeleteNth same in \<open>simp add: ListGetNth_dlist [OF d] ListDeleteNode_def\<close>)
  next
    case Count
    obtain st where "hn_stats (nod s h) = Some (st, of_nat (length as))" using d by (auto simp: dlist_def)
    with Count same chain_mem [OF c, of h] show ?thesis
      by (simp add: ListSize_def ListGetHead_def MapChainGetHead_def)
  next
    case Clear
    obtain t where t: "ListClear 1 True s (Some h) [] = Inr (item_list (map (nod s) as), t)" "dlist t h []"
        "unchanged s t (set (h # as))" "hn_flags (nod t h) = hn_flags (nod s h)"
      using ListClear_dlist [OF d, of 0 True] by auto
    have "item_list (map (nod s) as) = concat (map (\<lambda>x. case ln_item x of None \<Rightarrow> [] | Some i \<Rightarrow> [i]) (contents s as))"
      by (simp add: item_list_def contents_def node_view_def o_def)
    moreover have "list_step s h as t []"
      unfolding list_step_def
      by (intro exI [of _ "[]"] conjI unchanged_mono [OF t(3)]) (use t f in \<open>auto simp: plain_list_def\<close>)
    ultimately show ?thesis using t(1) Clear by simp
  qed
qed

section \<open>Many lists in one memory\<close>

fun heap_cmd :: "nat \<Rightarrow> 'a list_cmd \<Rightarrow> 'a store \<times> addr list \<Rightarrow> ('a list_answer \<times> 'a store \<times> addr list) res" where
  "heap_cmd now NewList (s, hs) = (case ListInit s 0 of (h, t) \<Rightarrow> Inr (HeadAns (length hs), t, hs @ [h]))"
| "heap_cmd now (On i x) (s, hs) =
     (if i < length hs then bindr (heap_op now (hs ! i) x s) (\<lambda>(r, t). Inr (r, t, hs)) else Inl BadPointer)"

fun seq_cmd :: "'a list_cmd \<Rightarrow> 'a option lnode list list \<Rightarrow> ('a list_answer \<times> 'a option lnode list list) res" where
  "seq_cmd NewList xss = Inr (HeadAns (length xss), xss @ [[]])"
| "seq_cmd (On i x) xss =
     (if i < length xss then bindr (seq_op x (xss ! i)) (\<lambda>(r, xs). Inr (r, xss[i := xs])) else Inl BadPointer)"

definition lists_in :: "'a store \<times> addr list \<Rightarrow> 'a option lnode list list \<Rightarrow> bool" where
  "lists_in sh xss \<longleftrightarrow> (case sh of (s, hs) \<Rightarrow>
     (\<forall>a. alive s a \<longrightarrow> a < st_fresh s) \<and>
     (\<exists>ass. length ass = length hs \<and> xss = map (contents s) ass \<and>
        (\<forall>i < length hs. plain_list s (hs ! i) (ass ! i)) \<and>
        (\<forall>i < length hs. \<forall>j < length hs. i \<noteq> j \<longrightarrow> set (hs ! i # ass ! i) \<inter> set (hs ! j # ass ! j) = {})))"

lemma plain_list_frame:
  assumes "plain_list s h as" "unchanged s t A" "A \<inter> set (h # as) = {}" "\<forall>a. alive t a \<longrightarrow> a < st_fresh t"
  shows "plain_list t h as" "contents t as = contents s as"
proof -
  have c: "chain s h as" using assms(1) by (rule plain_list_chain)
  have eq: "alive t b" "nod t b = nod s b" if "b \<in> set (h # as)" for b
    using that assms(2,3) chain_mem [OF c that] by (auto simp: unchanged_def)
  have "dlist t h as"
  proof (rule dlist_cong [of s])
    show "dlist s h as" using assms(1) by (simp add: plain_list_def)
    show "\<forall>b \<in> set (h # as). alive t b \<and> same_links (nod t b) (nod s b)" using eq by (simp add: same_links_def)
    show "hn_stats (nod t h) = hn_stats (nod s h)" using eq(2) [of h] by simp
  qed (rule assms(4))
  then show "plain_list t h as" using assms(1) eq [of h] by (simp add: plain_list_def)
  show "contents t as = contents s as" by (rule contents_cong) (use eq in simp)
qed

lemma plain_list_alive: "plain_list s h as \<Longrightarrow> a \<in> set (h # as) \<Longrightarrow> a < st_fresh s"
  using plain_list_chain [of s h as] by (auto simp: chain_def)

lemma new_list_step:
  assumes l: "lists_in (s, hs) xss"
  shows "simulates lists_in (heap_cmd now NewList (s, hs)) (seq_cmd NewList xss)"
proof -
  obtain ass where wf: "\<forall>a. alive s a \<longrightarrow> a < st_fresh s" and ass: "length ass = length hs" "xss = map (contents s) ass"
      "\<forall>i < length hs. plain_list s (hs ! i) (ass ! i)"
      "\<forall>i < length hs. \<forall>j < length hs. i \<noteq> j \<longrightarrow> set (hs ! i # ass ! i) \<inter> set (hs ! j # ass ! j) = {}"
    using l by (auto simp: lists_in_def)
  obtain h t where t: "ListInit s 0 = (h, t)" by (cases "ListInit s 0")
  have h: "h = st_fresh s" "dlist t h []" using ListInit_dlist [OF wf, of 0] t by (auto simp: hasflag_def)
  have u: "unchanged s t {h}" "hn_flags (nod t h) = 0"
    using t by (auto simp: ListInit_def alloc_def unchanged_def nod_def alive_def Let_def calloc_node_def)
  have wft: "\<forall>a. alive t a \<longrightarrow> a < st_fresh t" using h(2) by (auto simp: dlist_def chain_def)
  have new: "plain_list t h []" using h(2) u(2) by (simp add: plain_list_def)
  have old: "plain_list t (hs ! i) (ass ! i)" "contents t (ass ! i) = contents s (ass ! i)"
      "h \<notin> set (hs ! i # ass ! i)" if "i < length hs" for i
  proof -
    have "plain_list s (hs ! i) (ass ! i)" using ass(3) that by blast
    moreover show "h \<notin> set (hs ! i # ass ! i)" using plain_list_alive [OF calculation, of h] h(1) by auto
    ultimately show "plain_list t (hs ! i) (ass ! i)" "contents t (ass ! i) = contents s (ass ! i)"
      using plain_list_frame [OF _ u(1) _ wft] by auto
  qed
  have "map (contents t) ass = map (contents s) ass"
    using old(2) ass(1) by (intro nth_equalityI) auto
  moreover have "plain_list t ((hs @ [h]) ! i) ((ass @ [[]]) ! i)" if "i < length (hs @ [h])" for i
    using that old(1) new ass(1) by (cases "i < length hs") (auto simp: nth_append less_Suc_eq)
  moreover have "set ((hs @ [h]) ! i # (ass @ [[]]) ! i) \<inter> set ((hs @ [h]) ! j # (ass @ [[]]) ! j) = {}"
    if ij: "i < length (hs @ [h])" "j < length (hs @ [h])" "i \<noteq> j" for i j
  proof (cases "i < length hs \<and> j < length hs")
    case True
    then show ?thesis using ass(1,4) ij(3) by (simp add: nth_append)
  next
    case False
    then have "i = length hs \<and> j < length hs \<or> j = length hs \<and> i < length hs" using ij by (auto simp: less_Suc_eq)
    then show ?thesis
    proof
      assume "i = length hs \<and> j < length hs"
      then show ?thesis using old(3) [of j] ass(1) by (simp add: nth_append)
    next
      assume "j = length hs \<and> i < length hs"
      then show ?thesis using old(3) [of i] ass(1) by (simp add: nth_append)
    qed
  qed
  ultimately have "lists_in (t, hs @ [h]) (xss @ [[]])"
    unfolding lists_in_def prod.case using wft ass(1,2)
    by (intro conjI exI [of _ "ass @ [[]]"]) simp_all
  then show ?thesis using t ass(1,2) by simp
qed

lemma on_list_step:
  assumes l: "lists_in (s, hs) xss"
  shows "simulates lists_in (heap_cmd now (On i x) (s, hs)) (seq_cmd (On i x) xss)"
proof (cases "i < length hs")
  case False
  then show ?thesis using l by (auto simp: lists_in_def)
next
  case i: True
  obtain ass where wf: "\<forall>a. alive s a \<longrightarrow> a < st_fresh s" and ass: "length ass = length hs" "xss = map (contents s) ass"
      "\<forall>i < length hs. plain_list s (hs ! i) (ass ! i)"
      "\<forall>i < length hs. \<forall>j < length hs. i \<noteq> j \<longrightarrow> set (hs ! i # ass ! i) \<inter> set (hs ! j # ass ! j) = {}"
    using l by (auto simp: lists_in_def)
  have p: "plain_list s (hs ! i) (ass ! i)" using ass(3) i by blast
  note st = heap_op_step [OF p, of now x]
  show ?thesis
  proof (cases "seq_op x (contents s (ass ! i))")
    case (Inl e)
    with st i ass(1,2) show ?thesis by simp
  next
    case (Inr r)
    then obtain ans xs where r: "seq_op x (contents s (ass ! i)) = Inr (ans, xs)" by (cases r) auto
    then obtain t bs where t: "heap_op now (hs ! i) x s = Inr (ans, t)" "plain_list t (hs ! i) bs" "contents t bs = xs"
        "unchanged s t (set (hs ! i # ass ! i) \<union> {st_fresh s})" "set bs \<subseteq> set (ass ! i) \<union> {st_fresh s}"
      using st by (auto simp: list_step_def)
    have wft: "\<forall>a. alive t a \<longrightarrow> a < st_fresh t" using plain_list_chain [OF t(2)] by (simp add: chain_def)
    have fr: "st_fresh s \<notin> set (hs ! j # ass ! j)" if "j < length hs" for j
      using plain_list_alive [of s "hs ! j" "ass ! j" "st_fresh s"] ass(3) that by auto
    have other: "plain_list t (hs ! j) (ass ! j)" "contents t (ass ! j) = contents s (ass ! j)"
      if j: "j < length hs" "j \<noteq> i" for j
    proof -
      have "(set (hs ! i # ass ! i) \<union> {st_fresh s}) \<inter> set (hs ! j # ass ! j) = {}"
        using ass(4) i j fr [OF j(1)] by blast
      moreover have "plain_list s (hs ! j) (ass ! j)" using ass(3) j by blast
      ultimately show "plain_list t (hs ! j) (ass ! j)" "contents t (ass ! j) = contents s (ass ! j)"
        using plain_list_frame [OF _ t(4) _ wft] by blast+
    qed
    have "map (contents t) (ass[i := bs]) = (map (contents s) ass)[i := xs]"
      by (rule nth_equalityI) (use t(3) other(2) ass(1) i in \<open>simp_all add: nth_list_update\<close>)
    moreover have "plain_list t (hs ! j) (ass[i := bs] ! j)" if "j < length hs" for j
      using that t(2) other(1) ass(1) by (cases "j = i") auto
    moreover have "set (hs ! j # ass[i := bs] ! j) \<inter> set (hs ! k # ass[i := bs] ! k) = {}"
      if "j < length hs" "k < length hs" "j \<noteq> k" for j k
    proof -
      have sub: "set (hs ! m # ass[i := bs] ! m) \<subseteq> set (hs ! m # ass ! m) \<union> (if m = i then {st_fresh s} else {})"
        if "m < length hs" for m using t(5) that ass(1) by (auto simp: nth_list_update)
      show ?thesis using sub [OF that(1)] sub [OF that(2)] ass(4) fr [OF that(1)] fr [OF that(2)] that
        by (fastforce split: if_splits)
    qed
    ultimately have "lists_in (t, hs) (xss[i := xs])"
      unfolding lists_in_def prod.case using wft ass(1,2)
      by (intro conjI exI [of _ "ass[i := bs]"]) simp_all
    with t(1) r i ass(1,2) show ?thesis by simp
  qed
qed

interpretation lists: simulation lists_in "heap_cmd now" seq_cmd
proof
  fix c :: "'a store \<times> addr list" and a x
  assume l: "lists_in c a"
  show "simulates lists_in (heap_cmd now x c) (seq_cmd x a)"
    using l by (cases c; cases x) (simp_all only: new_list_step on_list_step)
qed

text \<open>C23: Lists linked by pointers in one memory, made and used in any order, answer every operation as
  sequences of nodes do, faults included.\<close>

theorem linked_lists_are_sequences:
  "run_ops (heap_cmd now) cmds (empty_store, []) = run_ops seq_cmd cmds []"
  by (rule lists.runs) (simp add: lists_in_def empty_store_def alive_def)

end
