(* ===== verification/OrderedLists.thy ===== *)
theory OrderedLists
  imports ListRefinement "HOL-Library.Multiset"
begin

text \<open>
  Lists with the flag \<open>LIST_FLAG_ORDERED\<close>: adding named items keeps them sorted by name, and what the
  operations do to lists in which nodes were exchanged or expired.
\<close>

section \<open>The order of names\<close>

lemma strcmp_refl [simp]: "strcmp a a = 0"
  by (simp only: strcmp_0_iff)

lemma strcmp_antisym: "strcmp b a = - strcmp a b"
  by (induction a b rule: strcmp.induct) auto

lemma strcmp_trans: "strcmp a b \<le> 0 \<Longrightarrow> strcmp b c \<le> 0 \<Longrightarrow> strcmp a c \<le> 0"
proof (induction a b arbitrary: c rule: strcmp.induct)
  case (1 c)
  then show ?case by simp
next
  case (2 d ds c)
  then show ?case by (cases c) auto
next
  case (4 x xs y ys c)
  show ?case
  proof (cases c)
    case Nil
    with 4 show ?thesis by simp
  next
    case (Cons z zs)
    with 4 show ?thesis by (auto split: if_splits)
  qed
qed simp

definition name_le :: "string \<Rightarrow> string \<Rightarrow> bool" where
  "name_le a b \<longleftrightarrow> strcasecmp a b \<le> 0"

lemma name_le_trans: "name_le a b \<Longrightarrow> name_le b c \<Longrightarrow> name_le a c"
  unfolding name_le_def strcasecmp_def by (rule strcmp_trans)

lemma name_le_total: "strcasecmp a b > 0 \<Longrightarrow> name_le b a"
  using strcmp_antisym [of "map tolower a" "map tolower b"] by (simp add: name_le_def strcasecmp_def)

lemma name_le_eq: "strcasecmp a b = 0 \<Longrightarrow> name_le a b \<and> name_le b a"
  using strcmp_antisym [of "map tolower a" "map tolower b"] by (simp add: name_le_def strcasecmp_def)

text \<open>Every node has a name, and the names are in order.\<close>

definition named_list :: "'a option lnode list \<Rightarrow> bool" where
  "named_list xs \<longleftrightarrow> (\<forall>x \<in> set xs. ln_tag x \<noteq> None)"

definition name_of :: "'a option lnode \<Rightarrow> string" where
  "name_of x = the (ln_tag x)"

definition ordered :: "'a option lnode list \<Rightarrow> bool" where
  "ordered xs \<longleftrightarrow> named_list xs \<and> sorted_wrt (\<lambda>x y. name_le (name_of x) (name_of y)) xs"

lemma ordered_insert:
  assumes "ordered (xs @ ys)" "ln_tag n \<noteq> None"
    "\<forall>x \<in> set xs. name_le (name_of x) (name_of n)" "\<forall>y \<in> set ys. name_le (name_of n) (name_of y)"
  shows "ordered (xs @ n # ys)"
  using assms by (auto simp: ordered_def named_list_def sorted_wrt_append)

section \<open>The place of a name\<close>

lemma ORDERED_flags [simp]:
  "hasflag LIST_FLAG_ORDERED LIST_FLAG_ORDERED" "\<not> hasflag LIST_FLAG_ORDERED LIST_FLAG_CASE"
  "\<not> hasflag LIST_FLAG_ORDERED LIST_FLAG_SELFORG" "\<not> hasflag LIST_FLAG_ORDERED LIST_FLAG_TIMEOUT"
  "\<not> hasflag LIST_FLAG_ORDERED LIST_FLAG_CACHE" "\<not> hasflag LIST_FLAG_ORDERED LIST_FLAG_MAP"
  "\<not> hasflag LIST_FLAG_ORDERED LIST_FLAG_STATS" "\<not> hasflag LIST_FLAG_ORDERED LIST_FLAG_UNIQ"
  "\<not> hasflag LIST_FLAG_ORDERED LIST_FLAG_MAP_HEAD"
  by (simp_all add: hasflag_def list_flag_defs)

text \<open>\<open>i\<close> nodes are before the place: no later than the name; and the others no earlier.\<close>

definition place :: "'a option lnode list \<Rightarrow> string \<Rightarrow> nat \<Rightarrow> bool" where
  "place xs name i \<longleftrightarrow> i \<le> length xs \<and> (\<forall>x \<in> set (take i xs). name_le (name_of x) name) \<and>
     (\<forall>y \<in> set (drop i xs). name_le name (name_of y))"

lemma insert_loop_ordered:
  assumes "chain s h (xs @ ys)" "length ys < k" "ordered (contents s (xs @ ys))"
    and "\<forall>x \<in> set (contents s xs). name_le (name_of x) name"
  shows "\<exists>i. place (contents s (xs @ ys)) name i \<and>
     insert_loop k now LIST_FLAG_ORDERED name s (Some (last (h # xs))) (first_addr ys) =
       Inr (Some (last (h # take i (xs @ ys))), s)"
  using assms
proof (induction ys arbitrary: xs k)
  case Nil
  then obtain k' where "k = Suc k'" by (cases k) auto
  then show ?case using Nil by (intro exI [of _ "length xs"]) (simp add: place_def)
next
  case (Cons y ys)
  obtain k' where k: "k = Suc k'" using Cons.prems(2) by (cases k) auto
  have y: "alive s y" "hn_next (nod s y) = first_addr ys"
    using chain_mem [OF Cons.prems(1), of y] chain_snoc_first [OF Cons.prems(1)] by auto
  obtain t where t: "hn_tag (nod s y) = Some t" using Cons.prems(3) by (auto simp: ordered_def named_list_def node_view_def)
  have nm: "name_of (node_view (nod s y)) = t" by (simp add: name_of_def node_view_def t)
  have later: "\<forall>z \<in> set (contents s ys). name_le t (name_of z)"
    using Cons.prems(3) nm by (auto simp: ordered_def sorted_wrt_append)
  have IH: "\<exists>i. place (contents s (xs @ y # ys)) name i \<and>
     insert_loop k' now LIST_FLAG_ORDERED name s (Some y) (first_addr ys) =
       Inr (Some (last (h # take i (xs @ y # ys))), s)" if "name_le t name"
    using Cons.IH [of "xs @ [y]" k', unfolded append_assoc append_Cons append_Nil] Cons.prems k that nm by auto
  consider "strcasecmp t name = 0" | "strcasecmp t name > 0" | "strcasecmp t name < 0" by linarith
  then show ?case
  proof cases
    case 1
    then have le: "name_le t name" "name_le name t" using name_le_eq by auto
    have "place (contents s (xs @ y # ys)) name (Suc (length xs))"
      using Cons.prems(4) le nm later name_le_trans [OF le(2)] by (auto simp: place_def)
    moreover have "insert_loop k now LIST_FLAG_ORDERED name s (Some (last (h # xs))) (first_addr (y # ys)) = Inr (Some y, s)"
      using 1 y t k by (simp add: tag_cmp_def del: last.simps)
    ultimately show ?thesis by (intro exI [of _ "Suc (length xs)"]) simp
  next
    case 2
    then have le: "name_le name t" by (rule name_le_total)
    have "place (contents s (xs @ y # ys)) name (length xs)"
      using Cons.prems(4) le nm later name_le_trans [OF le] by (auto simp: place_def)
    moreover have "insert_loop k now LIST_FLAG_ORDERED name s (Some (last (h # xs))) (first_addr (y # ys)) =
        Inr (Some (last (h # xs)), s)"
      using 2 y t k by (simp add: tag_cmp_def del: last.simps)
    ultimately show ?thesis by (intro exI [of _ "length xs"]) simp
  next
    case 3
    then have "name_le t name" by (simp add: name_le_def)
    moreover have "insert_loop k now LIST_FLAG_ORDERED name s (Some (last (h # xs))) (first_addr (y # ys)) =
        insert_loop k' now LIST_FLAG_ORDERED name s (Some y) (first_addr ys)"
      using 3 y t k by (simp add: tag_cmp_def del: last.simps)
    ultimately show ?thesis using IH by simp
  qed
qed

lemma ListFindNamedItemInsert_ordered:
  assumes d: "dlist s h as" and f: "hn_flags (nod s h) = LIST_FLAG_ORDERED" and o: "ordered (contents s as)"
    and nm: "name \<noteq> []"
  shows "\<exists>i. place (contents s as) name i \<and>
     ListFindNamedItemInsert now s (Some h) (Some name) = Inr (Some (last (h # take i as)), s)"
proof (cases "as = []")
  case True
  have c: "chain s h as" using d by (rule dlist_chain)
  have "alive s h" "hn_next (nod s h) = None" using chain_mem [OF c, of h] chain_first [of s h "[]" as] c True by auto
  with True nm f show ?thesis
    by (simp add: ListFindNamedItemInsert_def StrValid_def place_def)
next
  case ne: False
  have c: "chain s h as" using d by (rule dlist_chain)
  have h: "alive s h" "hn_next (nod s h) = first_addr as" "hn_prev (nod s h) = Some (last as)"
    using chain_mem [OF c, of h] chain_first [of s h "[]" as] c dlist_last [OF d ne] by auto
  have l: "alive s (last as)" "last as \<noteq> h"
    using ne last_in_set [of as] chain_mem [OF c, of "last as"] c by (auto simp: chain_def)
  have lc: "last (contents s as) = node_view (nod s (last as))" "contents s as \<noteq> []" using ne by (simp_all add: contents_def last_map)
  have "last (contents s as) \<in> set (contents s as)" using lc(2) by simp
  then obtain t where t: "hn_tag (nod s (last as)) = Some t"
    using o unfolding lc(1) by (auto simp: ordered_def named_list_def node_view_def)
  have nmt: "name_of (last (contents s as)) = t" by (simp add: name_of_def lc(1) node_view_def t)
  have lm: "last_matches name s (Some h) (nod s h) = Inr (strcasecmp t name \<le> 0)"
    using h l f t by (auto simp: last_matches_def tag_cmp_def Let_def)
  obtain i where i: "place (contents s as) name i"
      "insert_loop (walk_fuel s) now LIST_FLAG_ORDERED name s (Some h) (first_addr as) = Inr (Some (last (h # take i as)), s)"
    using insert_loop_ordered [of s h "[]" as "walk_fuel s" name now] c chain_length [OF c] o
    by (auto simp: walk_fuel_def simp del: insert_loop.simps)
  have run: "ListFindNamedItemInsert now s (Some h) (Some name) =
      (if strcasecmp t name \<le> 0 then Inr (Some (last as), s) else Inr (Some (last (h # take i as)), s))"
    using h f nm lm i(2) ne
    by (simp add: ListFindNamedItemInsert_def cached_start_def StrValid_def)
  show ?thesis
  proof (cases "strcasecmp t name \<le> 0")
    case True
    have "name_le (name_of x) name" if "x \<in> set (contents s as)" for x
    proof -
      have "contents s as = butlast (contents s as) @ [last (contents s as)]" using lc(2) by simp
      then have "x = last (contents s as) \<or> name_le (name_of x) t"
        using o that nmt unfolding ordered_def by (metis (no_types, lifting) append_butlast_last_id in_set_conv_decomp
            lc(2) list.set_intros(1) rotate1.simps(2) set_ConsD set_rotate1 sorted_wrt_append)
      with True nmt show ?thesis using name_le_trans name_le_def by blast
    qed
    then have "place (contents s as) name (length as)" by (simp add: place_def)
    with run True ne show ?thesis by (intro exI [of _ "length as"]) simp
  next
    case False
    with run i(1) show ?thesis by (intro exI [of _ i]) (simp del: last.simps)
  qed
qed

section \<open>Adding in order\<close>

lemma OrderedListAddNamedItem_dlist:
  assumes d: "dlist s h as" and f: "hn_flags (nod s h) = LIST_FLAG_ORDERED" and o: "ordered (contents s as)"
    and nm: "name \<noteq> []"
  shows "\<exists>t bs. OrderedListAddNamedItem now s (Some h) (Some name) itm = Inr (Some (st_fresh s), t) \<and>
    dlist t h bs \<and> hn_flags (nod t h) = LIST_FLAG_ORDERED \<and> ordered (contents t bs) \<and>
    mset (contents t bs) = add_mset (new_node 0 (Some name) itm) (mset (contents s as))"
proof -
  obtain i where i: "place (contents s as) name i"
      "ListFindNamedItemInsert now s (Some h) (Some name) = Inr (Some (last (h # take i as)), s)"
    using ListFindNamedItemInsert_ordered [OF assms] by blast
  obtain t where t: "ListInsertTypedItem now s (Some (last (h # take i as))) 0 (Some name) itm = Inr (Some (st_fresh s), t)"
      "dlist t h (take i as @ st_fresh s # drop i as)"
      "contents t (take i as @ st_fresh s # drop i as) =
         contents s (take i as) @ new_node 0 (Some name) itm # contents s (drop i as)"
      "hn_flags (nod t h) = hn_flags (nod s h)"
    using ListInsertTypedItem_dlist [of s h "take i as" "drop i as" "last (h # take i as)" now 0 "Some name" itm] d
    by (auto simp del: last.simps)
  have split: "contents s (take i as) = take i (contents s as)" "contents s (drop i as) = drop i (contents s as)"
    by (simp_all add: contents_def take_map drop_map)
  let ?n = "new_node 0 (Some name) itm"
  have n: "ln_tag ?n = Some name" "name_of ?n = name" using nm by (simp_all add: new_node_def StrValid_def name_of_def)
  have "ordered (take i (contents s as) @ ?n # drop i (contents s as))"
    by (rule ordered_insert) (use o i(1) n in \<open>auto simp: place_def\<close>)
  moreover have "mset (take i (contents s as) @ ?n # drop i (contents s as)) = add_mset ?n (mset (contents s as))"
  proof -
    have "mset (take i (contents s as)) + mset (drop i (contents s as)) = mset (contents s as)"
      by (metis append_take_drop_id mset_append)
    then show ?thesis by simp
  qed
  ultimately show ?thesis
    using t f i(2) split by (intro exI [of _ t] exI [of _ "take i as @ st_fresh s # drop i as"])
      (simp add: OrderedListAddNamedItem_def del: contents_append contents_Cons last.simps)
qed

fun add_in_order :: "nat \<Rightarrow> addr \<Rightarrow> (string \<times> 'a option) list \<Rightarrow> 'a store \<Rightarrow> 'a store res" where
  "add_in_order now h [] s = Inr s"
| "add_in_order now h ((name, itm) # xs) s =
     bindr (OrderedListAddNamedItem now s (Some h) (Some name) itm) (\<lambda>(_, t). add_in_order now h xs t)"

lemma add_in_order_dlist:
  assumes "dlist s h as" "hn_flags (nod s h) = LIST_FLAG_ORDERED" "ordered (contents s as)"
    "list_all (\<lambda>(n, _). n \<noteq> []) xs"
  shows "\<exists>t bs. add_in_order now h xs s = Inr t \<and> dlist t h bs \<and> ordered (contents t bs) \<and>
    mset (contents t bs) = mset (contents s as) + mset (map (\<lambda>(n, i). new_node 0 (Some n) i) xs)"
  using assms
proof (induction xs arbitrary: s as)
  case Nil
  then show ?case by (intro exI [of _ s] exI [of _ as]) simp
next
  case (Cons x xs)
  obtain name itm where x: "x = (name, itm)" by (cases x)
  then have "name \<noteq> []" using Cons.prems(4) by simp
  then obtain t bs where t: "OrderedListAddNamedItem now s (Some h) (Some name) itm = Inr (Some (st_fresh s), t)"
      "dlist t h bs" "hn_flags (nod t h) = LIST_FLAG_ORDERED" "ordered (contents t bs)"
      "mset (contents t bs) = add_mset (new_node 0 (Some name) itm) (mset (contents s as))"
    using OrderedListAddNamedItem_dlist [OF Cons.prems(1-3), of name now itm] by blast
  then obtain u cs where "add_in_order now h xs t = Inr u" "dlist u h cs" "ordered (contents u cs)"
      "mset (contents u cs) = mset (contents t bs) + mset (map (\<lambda>(n, i). new_node 0 (Some n) i) xs)"
    using Cons.IH [of t bs] Cons.prems(4) by auto
  then show ?case using t(1,5) x by (intro exI [of _ u] exI [of _ cs]) simp
qed

text \<open>C24: Whatever names are added to an empty ordered list, the list is then sorted by name without regard to
  case, and holds exactly what was added.\<close>

theorem ordered_lists_stay_ordered:
  fixes xs :: "(string \<times> 'a option) list"
  assumes "list_all (\<lambda>(n, _). n \<noteq> []) xs"
  shows "\<exists>t bs. (case ListInit empty_store LIST_FLAG_ORDERED of (h, s) \<Rightarrow> add_in_order now h xs s) = Inr t \<and>
    dlist t 0 bs \<and> ordered (contents t bs) \<and>
    mset (contents t bs) = mset (map (\<lambda>(n, i). new_node 0 (Some n) i) xs)"
proof -
  have fl: "and LIST_FLAG_ORDERED 0xFFFF = LIST_FLAG_ORDERED" by (simp add: LIST_FLAG_ORDERED_def)
  obtain s :: "'a store" where s: "ListInit empty_store LIST_FLAG_ORDERED = (0, s)"
    by (simp add: ListInit_def alloc_def empty_store_def)
  have "\<forall>a. alive (empty_store :: 'a store) a \<longrightarrow> a < st_fresh (empty_store :: 'a store)" by (simp add: alive_def empty_store_def)
  then have "dlist s 0 []" using ListInit_dlist [of "empty_store :: 'a store" LIST_FLAG_ORDERED] by (simp add: fl s)
  moreover have "hn_flags (nod s 0) = LIST_FLAG_ORDERED"
    using s by (auto simp: ListInit_def alloc_def empty_store_def nod_def fl calloc_node_def)
  moreover have "ordered (contents s [])" by (simp add: ordered_def named_list_def)
  ultimately show ?thesis using add_in_order_dlist [of s 0 "[]" xs now] assms s by simp
qed

theorem ordered_lists_stay_ordered_witness:
  "\<exists>t bs. (case ListInit empty_store LIST_FLAG_ORDERED of (h, s) \<Rightarrow>
       add_in_order 0 h [(''b'', Some True), (''A'', None), (''a'', None)] s) = Inr t \<and>
    dlist t 0 bs \<and> ordered (contents t bs) \<and>
    mset (contents t bs) = mset (map (\<lambda>(n, i). new_node 0 (Some n) i) [(''b'', Some True), (''A'', None), (''a'', None)])"
  by (rule ordered_lists_stay_ordered) simp

section \<open>Exchanged and expired nodes\<close>

text \<open>For evaluating the operations on concrete memories.\<close>

lemmas heap_eval = ListAddTypedItem_def ListInsertTypedItem_def ListThreadNode_def ListIncrNoOfItems_def
  count_items_def add_hits_def ListGetHead_def MapChainGetHead_def ListGetLast_def alloc_def updn_def getn_def setn_def
  ListInit_def empty_store_def calloc_node_def Let_def hasflag_def list_flag_defs ListSwapItems_def ListGetNext_def
  MapGetNext_def MapChainGetNext_def prefetch_def walk_fuel_def StrValid_def MapCreate_def alloc_chains_def chain_node_def
  MapGetChain_def MapGetNthChain_def ListSize_def fnv_hash_def FNV_INIT_VAL_def
  ListFindTypedItem_def ListFindNamedItemInsert_def cached_start_def last_matches_def tag_cmp_def
  ListSetNoOfItems_def freen_def ListDeleteNode_def ListUnThreadNode_def ListDecrNoOfItems_def unthread_head_def
  ListNodeSetTime_def ListNodeGetTime_def stats_of_def ListFindNamedItem_def strcasecmp_def tolower_def isupper_def

lemmas loop_eval = typed_loop.simps(2) [of "pred_numeral w" for w, folded numeral_eq_Suc]
  next_chain.simps(2) [of "pred_numeral w" for w, folded numeral_eq_Suc]
  insert_loop.simps(2) [of "pred_numeral w" for w, folded numeral_eq_Suc]
  clear_items.simps(2) [of "pred_numeral w" for w, folded numeral_eq_Suc]

text \<open>The names in a list as a walk along it finds them.\<close>

fun walk_names :: "nat \<Rightarrow> 'a store \<Rightarrow> addr option \<Rightarrow> string option list res" where
  "walk_names 0 s p = Inl OutOfFuel"
| "walk_names (Suc k) s p =
     bindr (ListGetNext s p) (\<lambda>q. if q = None then Inr [] else
     bindr (getn s q) (\<lambda>n. bindr (walk_names k s q) (\<lambda>r. Inr (hn_tag n # r))))"

definition list_of_two :: "string \<Rightarrow> string \<Rightarrow> (addr \<times> addr option \<times> addr option \<times> unit store) res" where
  "list_of_two a b =
     (case ListInit empty_store 0 of (h, s) \<Rightarrow>
      bindr (ListAddTypedItem 0 s (Some h) 0 (Some a) None) (\<lambda>(p, s1).
      bindr (ListAddTypedItem 0 s1 (Some h) 0 (Some b) None) (\<lambda>(q, s2). Inr (h, p, q, s2))))"

text \<open>After the last two nodes of a list were exchanged, what is added next is put before the last node and
  not behind it: the head still points to the node that was last.\<close>

theorem exchanging_the_last_node_misleads_adding:
  "bindr (list_of_two ''one'' ''two'') (\<lambda>(h, p, q, s).
   bindr (ListSwapItems s p q) (\<lambda>s1.
   bindr (ListAddTypedItem 0 s1 (Some h) 0 (Some ''three'') None)
     (\<lambda>(_, s2). walk_names (Suc (Suc (Suc (Suc 0)))) s2 (Some h)))) =
   Inr [Some ''two'', Some ''three'', Some ''one'']"
  by (simp add: list_of_two_def heap_eval loop_eval)

text \<open>When a search in a list with \<open>LIST_FLAG_TIMEOUT\<close> finds nothing and the last node had expired, the node is
  freed and then read.\<close>

theorem expired_nodes_are_read:
  "(case ListInit empty_store LIST_FLAG_TIMEOUT of (h, s) \<Rightarrow>
    bindr (ListAddTypedItem 5 s (Some h) 0 (Some ''old'') (None :: unit option)) (\<lambda>(p, s1).
    bindr (ListNodeSetTime s1 p 5) (\<lambda>s2. ListFindNamedItem 10 s2 (Some h) (Some ''new'')))) = Inl BadPointer"
  by (simp add: heap_eval loop_eval)

end
