(* ===== verification/MapSearch.thy ===== *)
theory MapSearch
  imports OrderedLists
begin

text \<open>
  Maps of \<open>List.c\<close> with an item in them, for any number of chains and any names: which names find it, and
  which walks meet it.  The chain is chosen by a hash of the bytes of a name, the search in the chain ignores
  case, and a walk that starts at the map itself looks at the first chain only.
\<close>

definition map_with :: "nat \<Rightarrow> string \<Rightarrow> (addr \<times> unit store) res" where
  "map_with buckets name = bindr (MapCreate empty_store buckets 0) (\<lambda>(m, s).
     bindr (ListAddTypedItem 0 s (Some m) 0 (Some name) None) (\<lambda>(_, s1). Inr (m, s1)))"

definition bucket_of :: "string \<Rightarrow> nat \<Rightarrow> nat" where
  "bucket_of name n = unat (foldl (\<lambda>h c. (h * 16777619) XOR of_nat (of_char c)) FNV_INIT_VAL name) mod n"

lemma fnv_hash_bucket: "0 < n \<Longrightarrow> fnv_hash name n = Inr (bucket_of name n)"
  by (simp add: fnv_hash_def bucket_of_def)

lemma bucket_below: "0 < n \<Longrightarrow> bucket_of name n < n"
  by (simp add: bucket_of_def)

text \<open>The memory with the item: the head at 0, the chains behind it, the end of their array, and the item.\<close>

definition map_head :: "nat \<Rightarrow> unit hnode" where
  "map_head n = calloc_node\<lparr>hn_head := Some 0, hn_prev := Some 0, hn_flags := 64, hn_type := n,
     hn_chains := Some (1, Suc n), hn_stats := Some (0, 1)\<rparr>"

definition map_chain :: "nat \<Rightarrow> nat \<Rightarrow> nat \<Rightarrow> unit hnode" where
  "map_chain n i a = (if a = Suc i
     then calloc_node\<lparr>hn_head := Some 0, hn_prev := Some (n + 2), hn_next := Some (n + 2), hn_flags := 128, hn_stats := Some (0, 1)\<rparr>
     else calloc_node\<lparr>hn_head := Some 0, hn_prev := Some a, hn_flags := 128, hn_stats := Some (0, 0)\<rparr>)"

definition map_item :: "string \<Rightarrow> nat \<Rightarrow> unit hnode" where
  "map_item name i = calloc_node\<lparr>hn_head := Some (Suc i), hn_prev := Some (Suc i), hn_tag := Some name\<rparr>"

definition map_memory :: "nat \<Rightarrow> string \<Rightarrow> unit store" where
  "map_memory n name =
     \<lparr>st_nodes = (\<lambda>a. if a = 0 then Some (map_head n) else if a \<le> n then Some (map_chain n (bucket_of name n) a)
        else if a = Suc n then Some calloc_node else if a = n + 2 then Some (map_item name (bucket_of name n)) else None),
      st_fresh = n + 3\<rparr>"

lemma map_memory_nodes:
  "getn (map_memory n name) (Some 0) = Inr (map_head n)"
  "0 < a \<Longrightarrow> a \<le> n \<Longrightarrow> getn (map_memory n name) (Some a) = Inr (map_chain n (bucket_of name n) a)"
  "getn (map_memory n name) (Some (Suc n)) = Inr calloc_node"
  "getn (map_memory n name) (Some (Suc (Suc n))) = Inr (map_item name (bucket_of name n))"
  by (simp_all add: getn_def map_memory_def)

lemmas heap_steps = ListAddTypedItem_def ListInsertTypedItem_def ListThreadNode_def ListIncrNoOfItems_def
  count_items_def add_hits_def ListGetHead_def MapChainGetHead_def ListGetLast_def alloc_def updn_def getn_def setn_def
  ListInit_def empty_store_def calloc_node_def Let_def hasflag_def list_flag_defs StrValid_def MapCreate_def
  alloc_chains_def chain_node_def MapGetChain_def MapGetNthChain_def

lemma map_with_memory:
  assumes "0 < n" "n < 2 ^ 16" "name \<noteq> []"
  shows "map_with n name = Inr (0, map_memory n name)"
proof -
  note b = bucket_below [OF assms(1), of name]
  have n: "n mod 65536 = n" using assms(2) by simp
  show ?thesis
    using assms b n fnv_hash_bucket [OF assms(1)]
    by (simp add: map_with_def heap_steps)
      (auto simp: map_memory_def map_head_def map_chain_def map_item_def chain_node_def calloc_node_def list_flag_defs)
qed

text \<open>The chains behind the one with the item are empty.\<close>

lemma no_next_chain:
  assumes "bucket_of name n < n"
  shows "a \<le> Suc n \<Longrightarrow> bucket_of name n < a \<Longrightarrow> Suc n - a < k \<Longrightarrow> next_chain k (map_memory n name) (Some a) = Inr None"
proof (induction k arbitrary: a)
  case (Suc k)
  show ?case
  proof (cases "a = Suc n")
    case True
    then show ?thesis by (simp add: map_memory_nodes calloc_node_def hasflag_def list_flag_defs)
  next
    case False
    then have "next_chain k (map_memory n name) (Some (Suc a)) = Inr None" using Suc by simp
    moreover obtain m where "getn (map_memory n name) (Some (Suc a)) = Inr m" "hn_next m = None"
    proof (cases "a = n")
      case True
      then show ?thesis using that [of calloc_node] by (simp add: map_memory_nodes calloc_node_def)
    next
      case neq: False
      with False Suc.prems that [of "map_chain n (bucket_of name n) (Suc a)"] show ?thesis
        by (simp add: map_memory_nodes map_chain_def calloc_node_def)
    qed
    ultimately show ?thesis
      using False Suc.prems by (simp add: map_memory_nodes map_chain_def calloc_node_def hasflag_def list_flag_defs)
  qed
qed simp

lemma no_next_item:
  assumes "0 < n"
  shows "ListGetNext (map_memory n name) (Some (Suc (Suc n))) = Inr None"
proof -
  note b = bucket_below [OF assms, of name]
  have "next_chain (walk_fuel (map_memory n name)) (map_memory n name) (Some (Suc (bucket_of name n))) = Inr None"
    using b by (intro no_next_chain) (simp_all add: walk_fuel_def map_memory_def)
  then show ?thesis
    using b by (simp add: ListGetNext_def MapGetNext_def MapChainGetNext_def map_memory_nodes map_item_def calloc_node_def
        hasflag_def list_flag_defs ListGetHead_def MapChainGetHead_def)
qed

text \<open>Walking from the map.\<close>

lemma walk_from_map:
  assumes "0 < n"
  shows "ListGetNext (map_memory n name) (Some 0) = Inr (if bucket_of name n = 0 then Some (n + 2) else None)"
  using assms bucket_below [OF assms, of name]
  by (simp add: ListGetNext_def MapGetNext_def MapChainGetNext_def map_memory_nodes map_head_def map_chain_def calloc_node_def
      hasflag_def list_flag_defs ListGetHead_def MapChainGetHead_def walk_fuel_def)

text \<open>Searching.\<close>

lemma search_result:
  assumes "0 < n" "n < 2 ^ 16" "name' \<noteq> []"
  shows "ListFindNamedItemInsert now (map_memory n name) (Some 0) (Some name') =
    Inr (if bucket_of name' n = bucket_of name n then Some (n + 2) else Some (Suc (bucket_of name' n)), map_memory n name)"
proof -
  note b = bucket_below [OF assms(1)]
  have "walk_fuel (map_memory n name) = Suc (Suc (n + 2))" by (simp add: walk_fuel_def map_memory_def)
  then show ?thesis
    using assms b [of name] b [of name'] fnv_hash_bucket [OF assms(1)]
    by (simp add: ListFindNamedItemInsert_def StrValid_def map_memory_nodes map_head_def map_chain_def calloc_node_def hasflag_def
        list_flag_defs MapGetChain_def MapGetNthChain_def cached_start_def last_matches_def map_item_def ListNodeGetTime_def)
qed

text \<open>In a map with one item, for any number of chains, a search finds the item exactly when the name is the same without
  regard to case and its bytes have the hash of the same chain; a walk from the map finds it exactly when it is in the
  first chain.\<close>

theorem maps_find_by_the_hash_of_the_bytes:
  assumes "0 < n" "n < 2 ^ 16" "name \<noteq> []" "name' \<noteq> []"
  shows "\<exists>s. map_with n name = Inr (0, s) \<and>
    bindr (ListFindNamedItem now s (Some 0) (Some name')) (\<lambda>(p, _). Inr p) =
      Inr (if strcasecmp name name' = 0 \<and> bucket_of name' n = bucket_of name n then Some (n + 2) else None) \<and>
    ListGetNext s (Some 0) = Inr (if bucket_of name n = 0 then Some (n + 2) else None)"
proof -
  note b = bucket_below [OF assms(1)] and next_item = no_next_item [OF assms(1), of name]
  have "walk_fuel (map_memory n name) = Suc (Suc (n + 2))" by (simp add: walk_fuel_def map_memory_def)
  then have "bindr (ListFindNamedItem now (map_memory n name) (Some 0) (Some name')) (\<lambda>(p, _). Inr p) =
      Inr (if strcasecmp name name' = 0 \<and> bucket_of name' n = bucket_of name n then Some (n + 2) else None)"
    using search_result [OF assms(1,2,4), of now name] next_item b [of name] b [of name']
    by (simp add: ListFindNamedItem_def ListFindTypedItem_def map_memory_nodes map_chain_def map_item_def calloc_node_def
        tag_cmp_def hasflag_def list_flag_defs updn_def)
  then show ?thesis
    using map_with_memory [OF assms(1-3)] walk_from_map [OF assms(1), of name] by blast
qed

theorem maps_find_by_the_hash_of_the_bytes_witness:
  "bindr (map_with 64 ''A'') (\<lambda>(m, s). bindr (ListFindNamedItem 0 s (Some m) (Some ''a'')) (\<lambda>(p, _). Inr p)) = Inr None \<and>
   strcasecmp ''A'' ''a'' = 0"
proof -
  have "bucket_of ''A'' 64 \<noteq> bucket_of ''a'' 64" by (simp add: bucket_of_def FNV_INIT_VAL_def)
  moreover have "strcasecmp ''A'' ''a'' = 0" by code_simp
  ultimately show ?thesis using maps_find_by_the_hash_of_the_bytes [of 64 "''A''" "''a''" 0] by auto
qed

end
