(* ===== verification/Streams.thy ===== *)
theory Streams
  imports AppDB Expect
begin

text \<open>
  The buffers of \<open>libUseful-4/Stream.c\<close>: reading bytes, lines and documents from a file descriptor through
  \<open>InputBuff\<close>, writing through \<open>OutputBuff\<close>, and \<open>STREAMSendFile\<close> between two streams, for streams without
  TLS, datagrams and processing modules.  The rest of the development reads lines from byte sequences
  (\<open>read_line\<close>); the theory \<open>StreamProperties\<close> shows that this is what the buffers amount to.

  What the other end of a descriptor does is a list of events.  For reading: bytes that arrive together, or a
  silence as long as the timeout; after the last event the stream is at its end.  For writing: how many bytes
  a call to \<open>write\<close> takes, or how it fails; after the last event everything is taken.
\<close>

datatype arrival = Bytes string | Silence

datatype acceptance = Took nat | Interrupted | WouldBlock | Broken | NotReady

text \<open>
  \<open>STREAM\<close>.  \<open>io_in\<close> is \<open>InputBuff\<close> up to \<open>InEnd\<close>, \<open>io_start\<close> is \<open>InStart\<close>, \<open>io_out\<close> is \<open>OutputBuff\<close> up to
  \<open>OutEnd\<close>.  \<open>io_sent\<close> is what \<open>write\<close> has taken.
\<close>

record stream =
  io_in :: string
  io_start :: nat
  io_size :: nat
  io_out :: string
  io_point :: nat
  io_block :: nat
  io_flags :: nat
  io_state :: nat
  io_timeout :: nat
  io_out_open :: bool
  io_bytes_read :: nat
  io_bytes_written :: nat
  io_arrivals :: "arrival list"
  io_accepts :: "acceptance list"
  io_sent :: string

definition STREAM_TIMEOUT :: int where "STREAM_TIMEOUT = 0"
definition STREAM_CLOSED :: int where "STREAM_CLOSED = -1"
definition STREAM_NODATA :: int where "STREAM_NODATA = -2"
definition FLUSH_LINE :: nat where "FLUSH_LINE = 1"
definition FLUSH_BLOCK :: nat where "FLUSH_BLOCK = 2"
definition FLUSH_ALWAYS :: nat where "FLUSH_ALWAYS = 4"
definition SF_MMAP :: nat where "SF_MMAP = 512"
definition SF_NONBLOCK :: nat where "SF_NONBLOCK = 16384"
definition SS_DATA_ERROR :: nat where "SS_DATA_ERROR = 16"
definition SS_WRITE_ERROR :: nat where "SS_WRITE_ERROR = 32"
definition SS_EMBARGOED :: nat where "SS_EMBARGOED = 64"
definition SENDFILE_LOOP :: nat where "SENDFILE_LOOP = 2"
definition SENDFILE_NOREAD :: nat where "SENDFILE_NOREAD = 4"
definition SENDFILE_FLUSH :: nat where "SENDFILE_FLUSH = 8"
definition BUFSIZ :: nat where "BUFSIZ = 8192"

lemmas stream_codes = STREAM_TIMEOUT_def STREAM_CLOSED_def STREAM_NODATA_def

section \<open>Reading\<close>

text \<open>\<open>read(fd, buf, n)\<close>: no bytes are the end of the file, or an error.\<close>

fun fd_read :: "nat \<Rightarrow> arrival list \<Rightarrow> string \<times> arrival list" where
  "fd_read n [] = ([], [])"
| "fd_read n (Silence # r) = fd_read n r"
| "fd_read n (Bytes b # r) = (take n b, if length b \<le> n then r else Bytes (drop n b) # r)"

text \<open>\<open>select\<close> with the timeout of the stream, and \<open>FDCheckForBytes\<close>, which does not wait.\<close>

definition fd_select :: "stream \<Rightarrow> bool \<times> stream" where
  "fd_select S = (case io_arrivals S of Silence # r \<Rightarrow> (False, S\<lparr>io_arrivals := r\<rparr>) | _ \<Rightarrow> (True, S))"

definition FDCheckForBytes :: "stream \<Rightarrow> bool" where
  "FDCheckForBytes S = (case io_arrivals S of Silence # _ \<Rightarrow> False | _ \<Rightarrow> True)"

text \<open>Making room in the buffer.\<close>

definition compact_input :: "stream \<Rightarrow> stream" where
  "compact_input S =
     (let S1 = (if io_start S < length (io_in S) then S else S\<lparr>io_in := [], io_start := 0\<rparr>)
      in if io_size S1 div 2 < io_start S1 \<or> io_size S1 \<le> length (io_in S1) \<and> 0 < io_start S1
         then S1\<lparr>io_in := drop (io_start S1) (io_in S1), io_start := 0\<rparr> else S1)"

text \<open>Without modules, \<open>STREAMReadThroughProcessors\<close> puts the bytes into the buffer, unless there was a data error.\<close>

definition STREAMReadThroughProcessors :: "stream \<Rightarrow> string \<Rightarrow> int \<times> stream" where
  "STREAMReadThroughProcessors S b =
     (if b = [] then (STREAM_CLOSED, S)
      else (1, if hasflag (io_state S) SS_DATA_ERROR then S
               else S\<lparr>io_in := io_in S @ b, io_size := max (io_size S) (length (io_in S) + length b)\<rparr>))"

definition STREAMReadCharsToBuffer :: "stream \<Rightarrow> int \<times> stream" where
  "STREAMReadCharsToBuffer S =
     (if hasflag (io_state S) SS_EMBARGOED then (0, S)
      else if hasflag (io_flags S) SF_MMAP then (if io_start S < length (io_in S) then (1, S) else (STREAM_CLOSED, S))
      else let S1 = compact_input S in
        if io_size S1 \<le> length (io_in S1) then (1, S1)
        else (case (if 0 < io_timeout S1 then fd_select S1 else (True, S1)) of (ready, S2) \<Rightarrow>
          if \<not> ready then (STREAM_TIMEOUT, S2)
          else (case fd_read (io_size S2 - length (io_in S2)) (io_arrivals S2) of (b, r) \<Rightarrow>
            STREAMReadThroughProcessors (S2\<lparr>io_arrivals := r, io_bytes_read := io_bytes_read S2 + length b\<rparr>) b)))"

definition STREAMTransferBytesOut :: "stream \<Rightarrow> nat \<Rightarrow> string \<times> stream" where
  "STREAMTransferBytesOut S n =
     (let b = take n (drop (io_start S) (io_in S)) in (b, S\<lparr>io_start := io_start S + length b\<rparr>))"

text \<open>The number of steps the loops are given: only a stream that makes no progress uses them up.\<close>

fun weight :: "arrival list \<Rightarrow> nat" where
  "weight [] = 0"
| "weight (Silence # r) = Suc (weight r)"
| "weight (Bytes b # r) = Suc (length b) + weight r"

definition io_fuel :: "stream \<Rightarrow> nat" where
  "io_fuel S = Suc (Suc (Suc (2 * weight (io_arrivals S) + length (io_in S))))"

primrec bytes_loop :: "nat \<Rightarrow> stream \<Rightarrow> nat \<Rightarrow> string \<Rightarrow> (int \<times> string \<times> stream) res" where
  "bytes_loop 0 S n got = Inl OutOfFuel"
| "bytes_loop (Suc k) S n got =
     (if n \<le> length got then Inr (int (length got), got, S)
      else (case STREAMTransferBytesOut S (n - length got) of (b, S1) \<Rightarrow>
        let got1 = got @ b in
        if io_start S1 < length (io_in S1) then bytes_loop k S1 n got1
        else if hasflag (io_flags S1) SF_MMAP
        then Inr (if got1 = [] then STREAM_CLOSED else int (length got1), got1, S1)
        else if \<not> FDCheckForBytes S1 then Inr (int (length got1), got1, S1)
        else (case STREAMReadCharsToBuffer S1 of (r, S2) \<Rightarrow>
          if r < 1 then Inr (if got1 \<noteq> [] then int (length got1) else r, got1, S2)
          else bytes_loop k S2 n got1)))"

definition STREAMReadBytes :: "stream \<Rightarrow> nat \<Rightarrow> (int \<times> string \<times> stream) res" where
  "STREAMReadBytes S n =
     (if io_start S < length (io_in S) then bytes_loop (io_fuel S + n) S n []
      else (case STREAMReadCharsToBuffer S of (r, S1) \<Rightarrow>
        if length (io_in S1) \<le> io_start S1 \<and> (r = STREAM_CLOSED \<or> r = STREAM_TIMEOUT) then Inr (r, [], S1)
        else bytes_loop (io_fuel S1 + n) S1 n []))"

text \<open>The character, or a negative code.\<close>

definition STREAMReadChar :: "stream \<Rightarrow> (int \<times> stream) res" where
  "STREAMReadChar S =
     bindr (STREAMReadBytes S 1) (\<lambda>(r, b, S1).
       Inr (if r < 0 then r else if r = 0 then STREAM_NODATA else of_char (hd b), S1))"

definition STREAMPeekChar :: "stream \<Rightarrow> int \<times> stream" where
  "STREAMPeekChar S =
     (if io_start S < length (io_in S) then (of_char (io_in S ! io_start S), S)
      else (case STREAMReadCharsToBuffer S of (r, S1) \<Rightarrow>
        if r < 1 then (r, S1) else (of_char (io_in S1 ! io_start S1), S1)))"

definition STREAMPeekBytes :: "stream \<Rightarrow> nat \<Rightarrow> int \<times> string \<times> stream" where
  "STREAMPeekBytes S n =
     (case (if io_start S < length (io_in S) then (1, S) else STREAMReadCharsToBuffer S) of (r, S1) \<Rightarrow>
      if length (io_in S1) \<le> io_start S1 \<and> (r = STREAM_CLOSED \<or> r = STREAM_TIMEOUT) then (r, [], S1)
      else let b = take n (drop (io_start S1) (io_in S1)) in (int (length b), b, S1))"

text \<open>
  The bytes that wait are to be moved behind the new ones, but \<open>memmove\<close> is called with source and
  destination exchanged: unless nothing waits or nothing has to move, it takes them from behind \<open>InEnd\<close>.
\<close>

definition STREAMInsertBytes :: "stream \<Rightarrow> string \<Rightarrow> stream res" where
  "STREAMInsertBytes S b =
     (let rest = drop (io_start S) (io_in S) in
      if length b < io_start S
      then Inr (S\<lparr>io_start := io_start S - length b,
             io_in := take (io_start S - length b) (io_in S) @ b @ rest\<rparr>)
      else if rest = [] \<or> length b = io_start S
      then Inr (S\<lparr>io_in := b @ rest, io_start := 0, io_size := max (io_size S) (length b + length rest)\<rparr>)
      else Inl BadPointer)"

text \<open>How many of the waiting bytes \<open>STREAMReadToTerminator\<close> takes out of the buffer; none when it has to read.\<close>

definition bytes_to_take :: "stream \<Rightarrow> char \<Rightarrow> bool \<Rightarrow> nat" where
  "bytes_to_take S t closed =
     (let avail = drop (io_start S) (io_in S) in
      if t \<in> set avail then Suc (length (takeWhile (\<lambda>c. c \<noteq> t) avail))
      else if closed then length avail
      else if io_start S = 0 \<and> io_size S \<le> length (io_in S) then length avail
      else 0)"

text \<open>The loop of \<open>STREAMReadToTerminator\<close>: whether the stream is known to be closed, and what was read.\<close>

primrec to_terminator :: "nat \<Rightarrow> stream \<Rightarrow> char \<Rightarrow> bool \<Rightarrow> string \<Rightarrow> (string option \<times> stream) res" where
  "to_terminator 0 S t closed got = Inl OutOfFuel"
| "to_terminator (Suc k) S t closed got =
     (if length (io_in S) \<le> io_start S \<and> closed then Inr (if got \<noteq> [] then Some got else None, S)
      else if bytes_to_take S t closed = 0 then
        (case STREAMReadCharsToBuffer S of (r, S1) \<Rightarrow>
           if r = STREAM_CLOSED then to_terminator k S1 t True got
           else if r = STREAM_TIMEOUT then Inr (Some got, S1)
           else to_terminator k S1 t closed got)
      else (case STREAMTransferBytesOut S (bytes_to_take S t closed) of (b, S1) \<Rightarrow>
           if t \<in> set (drop (io_start S) (io_in S)) then Inr (Some (got @ b), S1)
           else to_terminator k S1 t closed (got @ b)))"

text \<open>The bytes that were read; the string the caller sees ends at the first NUL among them.\<close>

definition STREAMReadToTerminator :: "stream \<Rightarrow> char \<Rightarrow> (string option \<times> stream) res" where
  "STREAMReadToTerminator S t = to_terminator (io_fuel S) S t False []"

definition STREAMReadLine :: "stream \<Rightarrow> (string option \<times> stream) res" where
  "STREAMReadLine S = bindr (STREAMReadToTerminator S LF) (\<lambda>(l, S1). Inr (map_option cut_at_NUL l, S1))"

primrec read_document :: "nat \<Rightarrow> stream \<Rightarrow> string \<Rightarrow> (string \<times> stream) res" where
  "read_document 0 S doc = Inl OutOfFuel"
| "read_document (Suc k) S doc =
     bindr (STREAMReadLine S) (\<lambda>(l, S1).
       case l of None \<Rightarrow> Inr (doc, S1) | Some t \<Rightarrow> read_document k S1 (doc @ t))"

text \<open>\<open>STREAMReadDocument\<close> for a stream whose size is not known.\<close>

definition STREAMReadDocument :: "stream \<Rightarrow> (string \<times> stream) res" where
  "STREAMReadDocument S = read_document (io_fuel S) S []"

text \<open>Reading character by character: until one of the terminators, leaving out NULs.\<close>

primrec to_multi_terminator :: "nat \<Rightarrow> stream \<Rightarrow> string \<Rightarrow> string \<Rightarrow> (string option \<times> stream) res" where
  "to_multi_terminator 0 S terms got = Inl OutOfFuel"
| "to_multi_terminator (Suc k) S terms got =
     bindr (STREAMReadChar S) (\<lambda>(c, S1).
       if c < 0 then Inr (if c = STREAM_CLOSED \<and> got = [] then None else Some got, S1)
       else if c = 0 then to_multi_terminator k S1 terms got
       else if char_of c \<in> set terms then Inr (Some (got @ [char_of c]), S1)
       else to_multi_terminator k S1 terms (got @ [char_of c]))"

definition STREAMReadToMultiTerminator :: "stream \<Rightarrow> string \<Rightarrow> (string option \<times> stream) res" where
  "STREAMReadToMultiTerminator S terms = to_multi_terminator (io_fuel S) S terms []"

primrec bytes_to_term :: "nat \<Rightarrow> stream \<Rightarrow> nat \<Rightarrow> char \<Rightarrow> string \<Rightarrow> (int \<times> string \<times> stream) res" where
  "bytes_to_term 0 S n t got = Inl OutOfFuel"
| "bytes_to_term (Suc k) S n t got =
     bindr (STREAMReadChar S) (\<lambda>(c, S1).
       if c = STREAM_CLOSED then Inr (if got = [] then STREAM_CLOSED else int (length got), got, S1)
       else if c < 0 then bytes_to_term k S1 n t got
       else let got1 = got @ [char_of c] in
         if c = of_char t \<or> length got1 = n then Inr (int (length got1), got1, S1) else bytes_to_term k S1 n t got1)"

definition STREAMReadBytesToTerm :: "stream \<Rightarrow> nat \<Rightarrow> char \<Rightarrow> (int \<times> string \<times> stream) res" where
  "STREAMReadBytesToTerm S n t = bytes_to_term (io_fuel S) S n t []"

text \<open>
  One character (\<open>char\<close> is signed) of \<open>STREAMReadToString\<close>, with \<open>m\<close> characters of the terminator matched; a character that does
  not go on with the match is only tried as the first one.
\<close>

definition match_char :: "string \<Rightarrow> nat \<Rightarrow> int \<Rightarrow> nat" where
  "match_char term m c =
     (let m1 = (if schar (term ! m) \<noteq> c then 0 else m) in if schar (term ! m1) = c then Suc m1 else m1)"

primrec read_to_string :: "nat \<Rightarrow> stream \<Rightarrow> string \<Rightarrow> nat \<Rightarrow> string \<Rightarrow> (bool \<times> string \<times> stream) res" where
  "read_to_string 0 S term m got = Inl OutOfFuel"
| "read_to_string (Suc k) S term m got =
     bindr (STREAMReadChar S) (\<lambda>(c, S1).
       if c = STREAM_CLOSED then Inr (False, got, S1)
       else let got1 = (if c < 0 then got else got @ [char_of c]);
                m1 = (if term = [] then 0 else match_char term m c)
            in if term \<noteq> [] \<and> m1 = length term then Inr (True, got1, S1)
               else read_to_string k S1 term m1 got1)"

definition STREAMReadToString :: "stream \<Rightarrow> string \<Rightarrow> (bool \<times> string \<times> stream) res" where
  "STREAMReadToString S term = read_to_string (io_fuel S) S term 0 []"

text \<open>\<open>strstr\<close>: the string from the first occurrence on.\<close>

fun strstr :: "string \<Rightarrow> string \<Rightarrow> string option" where
  "strstr [] x = (if x = [] then Some [] else None)"
| "strstr (c # s) x = (if take (length x) (c # s) = x then Some (c # s) else strstr s x)"

text \<open>\<open>STREAMFind\<close> in a stream that is not sorted; the delimiter ends the part of the line that is compared.\<close>

definition STREAMFindCompare :: "string \<Rightarrow> string \<Rightarrow> string option \<Rightarrow> bool" where
  "STREAMFindCompare line item delim =
     (case (if StrValid delim then strstr line (the delim) else None) of
        Some rest \<Rightarrow> (let n = length line - length rest in take n item = take n line)
      | None \<Rightarrow> item = line)"

primrec find_loop :: "nat \<Rightarrow> stream \<Rightarrow> string \<Rightarrow> string option \<Rightarrow> (string option \<times> stream) res" where
  "find_loop 0 S item delim = Inl OutOfFuel"
| "find_loop (Suc k) S item delim =
     bindr (STREAMReadLine S) (\<lambda>(l, S1).
       case l of None \<Rightarrow> Inr (None, S1)
       | Some t \<Rightarrow> if STREAMFindCompare (StripTrailingWhitespace t) item delim
                  then Inr (Some (StripTrailingWhitespace t), S1) else find_loop k S1 item delim)"

definition STREAMFind :: "stream \<Rightarrow> string \<Rightarrow> string option \<Rightarrow> (string option \<times> stream) res" where
  "STREAMFind S item delim = find_loop (io_fuel S) S item delim"

text \<open>What is there without waiting.\<close>

definition STREAMCheckForBytes :: "stream \<Rightarrow> bool" where
  "STREAMCheckForBytes S \<longleftrightarrow> \<not> hasflag (io_state S) SS_EMBARGOED \<and> (io_start S < length (io_in S) \<or> FDCheckForBytes S)"

definition STREAMCountWaitingBytes :: "stream \<Rightarrow> int \<times> stream" where
  "STREAMCountWaitingBytes S =
     (if hasflag (io_state S) SS_EMBARGOED then (0, S)
      else case (if FDCheckForBytes S then STREAMReadCharsToBuffer S else (0, S)) of (r, S1) \<Rightarrow>
        (if io_start S1 < length (io_in S1) then int (length (io_in S1) - io_start S1)
         else if r = STREAM_CLOSED then STREAM_CLOSED else 0, S1))"

definition STREAMCheckForWaitingChar :: "stream \<Rightarrow> char \<Rightarrow> int \<times> stream" where
  "STREAMCheckForWaitingChar S c =
     (if hasflag (io_state S) SS_EMBARGOED then (0, S)
      else case (if FDCheckForBytes S then STREAMReadCharsToBuffer S else (0, S)) of (r, S1) \<Rightarrow>
        (if c \<in> set (drop (io_start S1) (io_in S1)) then 1 else if r = STREAM_CLOSED then STREAM_CLOSED else 0, S1))"

text \<open>
  Another size for the buffers of a stream whose buffers are not locked into memory.  The bytes of a buffer that
  is too full for the new size are forgotten.
\<close>

definition STREAMReAllocBuffer :: "stream \<Rightarrow> nat \<Rightarrow> stream" where
  "STREAMReAllocBuffer S n =
     (if hasflag (io_flags S) SF_MMAP then S
      else S\<lparr>io_size := n, io_start := (if n < io_start S then 0 else io_start S),
             io_in := (if n < length (io_in S) then [] else io_in S),
             io_out := (if n < length (io_out S) then [] else io_out S)\<rparr>)"

definition STREAMSetFlushType :: "stream \<Rightarrow> nat \<Rightarrow> nat \<Rightarrow> nat \<Rightarrow> stream" where
  "STREAMSetFlushType S kind point block =
     S\<lparr>io_flags := or (io_flags S div 16 * 16) kind, io_point := point, io_block := block\<rparr>"

text \<open>\<open>STREAMFromFD\<close>: a new stream on a descriptor.\<close>

definition STREAMFromFD :: "arrival list \<Rightarrow> acceptance list \<Rightarrow> stream" where
  "STREAMFromFD arrivals accepts =
     \<lparr>io_in = [], io_start = 0, io_size = BUFSIZ, io_out = [], io_point = 0, io_block = 0, io_flags = FLUSH_ALWAYS,
      io_state = 0, io_timeout = 3000, io_out_open = True, io_bytes_read = 0, io_bytes_written = 0,
      io_arrivals = arrivals, io_accepts = accepts, io_sent = []\<rparr>"

section \<open>Writing\<close>

text \<open>
  The loop of \<open>STREAMInternalFinalWriteBytes\<close> over the first \<open>n\<close> bytes of the output buffer, of which \<open>count\<close> have
  been taken: the last result and the count.  \<open>WouldBlock\<close> and \<open>Interrupted\<close> are results of \<open>write\<close> that make the
  loop try again; \<open>NotReady\<close> is what \<open>select\<close> says, which is asked when there is a timeout.
\<close>

function write_loop :: "nat \<Rightarrow> int \<Rightarrow> nat \<Rightarrow> stream \<Rightarrow> int \<times> nat \<times> stream" where
  "write_loop n result count S =
     (if n \<le> count then (result, count, S)
      else (case io_accepts S of
              [] \<Rightarrow> (int (n - count), n, S\<lparr>io_sent := io_sent S @ take (n - count) (drop count (io_out S))\<rparr>)
            | x # r \<Rightarrow>
                (let S1 = S\<lparr>io_accepts := r\<rparr>;
                     again = (\<lambda>result. if hasflag (io_flags S) SF_NONBLOCK then (result, count, S1)
                                      else write_loop n result count S1)
                 in case x of
                      Took m \<Rightarrow>
                        (let k = min m (n - count);
                             S2 = S1\<lparr>io_sent := io_sent S @ take k (drop count (io_out S))\<rparr>
                         in if hasflag (io_flags S) SF_NONBLOCK then (int k, count + k, S2)
                            else write_loop n (int k) (count + k) S2)
                    | Interrupted \<Rightarrow> again 0
                    | WouldBlock \<Rightarrow> again STREAM_TIMEOUT
                    | Broken \<Rightarrow> (STREAM_CLOSED, count, S1)
                    | NotReady \<Rightarrow> if 0 < io_timeout S then (STREAM_TIMEOUT, count, S1) else again 0)))"
  by pat_completeness auto
termination
  by (relation "measure (\<lambda>(_, _, _, S). length (io_accepts S))") auto

declare write_loop.simps [simp del]

definition STREAMInternalFinalWriteBytes :: "stream \<Rightarrow> nat \<Rightarrow> int \<times> stream" where
  "STREAMInternalFinalWriteBytes S len0 =
     (if \<not> io_out_open S then (STREAM_CLOSED, S) else
      let n = (if hasflag (io_flags S) FLUSH_BLOCK then min (io_block S) (length (io_out S)) else len0)
      in case write_loop n 0 0 S of (result, count, S1) \<Rightarrow>
         (if result < 0 then result else int count,
          S1\<lparr>io_bytes_written := io_bytes_written S1 + count, io_out := drop count (io_out S1)\<rparr>))"

definition STREAMFlush :: "stream \<Rightarrow> int \<times> stream" where
  "STREAMFlush S = STREAMInternalFinalWriteBytes S (length (io_out S))"

definition STREAMClear :: "stream \<Rightarrow> stream" where
  "STREAMClear S = (snd (STREAMFlush S))\<lparr>io_in := [], io_start := 0\<rparr>"

definition STREAMSetTimeout :: "stream \<Rightarrow> nat \<Rightarrow> stream" where
  "STREAMSetTimeout S v = S\<lparr>io_timeout := v\<rparr>"

text \<open>Whether the output buffer is to be written now.\<close>

definition must_write :: "stream \<Rightarrow> bool" where
  "must_write S \<longleftrightarrow> io_point S < length (io_out S) \<and>
     (io_size S \<le> length (io_out S) \<or> hasflag (io_flags S) FLUSH_ALWAYS \<or>
      hasflag (io_flags S) FLUSH_BLOCK \<and> io_block S < length (io_out S))"

text \<open>
  The loop of \<open>STREAMInternalQueueBytes\<close>: the bytes left, the number queued.  A step that neither queues nor
  writes repeats for ever: fuel.
\<close>

primrec queue_loop :: "nat \<Rightarrow> stream \<Rightarrow> string \<Rightarrow> nat \<Rightarrow> (int \<times> stream) res" where
  "queue_loop 0 S b queued = Inl OutOfFuel"
| "queue_loop (Suc k) S b queued =
     (let m = min (io_size S - length (io_out S)) (length b);
          S1 = S\<lparr>io_out := io_out S @ take m b\<rparr>;
          rest = drop m b
      in if must_write S1 then
           (case STREAMInternalFinalWriteBytes S1 (length (io_out S1)) of (r, S2) \<Rightarrow>
              if r < 1 then Inr (if r < 0 \<and> r \<noteq> STREAM_TIMEOUT then r else int (queued + m), S2)
              else if rest = [] then Inr (int (queued + m), S2\<lparr>io_point := 0\<rparr>)
              else queue_loop k (S2\<lparr>io_point := 0\<rparr>) rest (queued + m))
         else if rest = [] then Inr (int (queued + m), S1)
         else queue_loop k S1 rest (queued + m))"

text \<open>Every turn but the first takes bytes when the one before wrote some.\<close>

definition STREAMInternalQueueBytes :: "stream \<Rightarrow> string \<Rightarrow> (int \<times> stream) res" where
  "STREAMInternalQueueBytes S b = queue_loop (Suc (Suc (length b))) S b 0"

definition STREAMWriteBytes :: "stream \<Rightarrow> string \<Rightarrow> (int \<times> stream) res" where
  "STREAMWriteBytes S b =
     (if \<not> io_out_open S \<or> hasflag (io_state S) SS_WRITE_ERROR then Inr (STREAM_CLOSED, S)
      else bindr (if b \<noteq> [] then STREAMInternalQueueBytes S b
                  else if io_point S < length (io_out S)
                  then Inr (STREAMInternalFinalWriteBytes S (length (io_out S))) else Inr (0, S))
        (\<lambda>(r, S1). Inr (if r < 0 then r else int (length b), S1)))"

definition STREAMWriteString :: "string option \<Rightarrow> stream \<Rightarrow> (int \<times> stream) res" where
  "STREAMWriteString s S = (if StrValid s then STREAMWriteBytes S (the s) else Inr (0, S))"

definition STREAMWriteLine :: "string option \<Rightarrow> stream \<Rightarrow> (int \<times> stream) res" where
  "STREAMWriteLine s S =
     (if \<not> StrValid s then Inr (0, S)
      else bindr (STREAMWriteBytes S (the s)) (\<lambda>(r, S1).
        Inr (if r < 0 then (r, S1) else if hasflag (io_flags S1) FLUSH_LINE then STREAMFlush S1 else (r, S1))))"

definition STREAMWriteChar :: "stream \<Rightarrow> char \<Rightarrow> (int \<times> stream) res" where
  "STREAMWriteChar S c = STREAMWriteBytes S [c]"

section \<open>Copying between streams\<close>

text \<open>
  \<open>STREAMSendFile\<close> without the \<open>sendfile\<close> system call: \<open>len\<close> bytes are still wanted in this turn, \<open>sent\<close> were
  transferred.  \<open>mx\<close> is \<open>Max\<close>, zero for everything.
\<close>

text \<open>
  \<open>Max\<close> is an \<open>unsigned long\<close>, what is left to copy a \<open>long\<close>: for \<open>Max\<close> of \<open>2^63\<close> or more it is negative.
\<close>

primrec send_loop :: "nat \<Rightarrow> stream \<Rightarrow> stream \<Rightarrow> nat \<Rightarrow> nat \<Rightarrow> int \<Rightarrow> nat \<Rightarrow> (nat \<times> stream \<times> stream) res" where
  "send_loop 0 In Out mx flags len sent = Inl OutOfFuel"
| "send_loop (Suc k) In Out mx flags len sent =
     (if len \<le> 0 then Inr (sent, In, Out) else
      let read = int (length (io_in In) - io_start In) < len \<and> \<not> hasflag flags SENDFILE_NOREAD;
          rc = (if read then STREAMReadCharsToBuffer In else (1, In));
          In1 = snd rc;
          avail = length (io_in In1) - io_start In1
      in if read \<and> fst rc = STREAM_CLOSED \<and> avail = 0 then Inr (sent, In1, snd (STREAMFlush Out)) else
      let Out1 = (if io_size Out \<le> length (io_out Out)
                  then snd (STREAMInternalFinalWriteBytes Out (min BUFSIZ (length (io_out Out)))) else Out);
          towrite = min (min avail (nat len)) (io_size Out1 - length (io_out Out1))
      in bindr (STREAMWriteBytes Out1 (take towrite (drop (io_start In1) (io_in In1)))) (\<lambda>(r, Out2).
         if r = STREAM_CLOSED then Inr (sent, In1, Out2) else
         let In2 = In1\<lparr>io_start := io_start In1 + nat r\<rparr>;
             Out3 = (if hasflag flags SENDFILE_FLUSH then snd (STREAMFlush Out2) else Out2);
             sent1 = sent + nat r
         in if \<not> hasflag flags SENDFILE_LOOP then Inr (sent1, In2, Out3)
            else send_loop k In2 Out3 mx flags (if mx = 0 then int BUFSIZ else int64_of (int mx - int sent1)) sent1))"

definition STREAMSendFile :: "stream \<Rightarrow> stream \<Rightarrow> nat \<Rightarrow> nat \<Rightarrow> (nat \<times> stream \<times> stream) res" where
  "STREAMSendFile In Out mx flags = send_loop (io_fuel In) In Out mx flags (if mx = 0 then int BUFSIZ else int64_of (int mx)) 0"

end
