(* ===== verification/StreamProperties.thy ===== *)
theory StreamProperties
  imports Streams Simulation
begin

text \<open>
  However the bytes of the other end arrive, reading through the buffer gives the lines of their sequence;
  writing through the buffer neither loses nor reorders what it accepted; and where the buffers do lose bytes.
\<close>

section \<open>Reading\<close>

definition bytes_of :: "arrival list \<Rightarrow> string" where
  "bytes_of as = concat (map (\<lambda>a. case a of Bytes b \<Rightarrow> b | Silence \<Rightarrow> []) as)"

lemma bytes_of_simps [simp]:
  "bytes_of [] = []" "bytes_of (Bytes b # as) = b @ bytes_of as" "bytes_of (Silence # as) = bytes_of as"
  by (simp_all add: bytes_of_def)

text \<open>What waits in the buffer, and everything that is still to be read.\<close>

definition waiting :: "stream \<Rightarrow> string" where
  "waiting S = drop (io_start S) (io_in S)"

definition pending :: "stream \<Rightarrow> string" where
  "pending S = waiting S @ bytes_of (io_arrivals S)"

text \<open>A stream that is read from a file, a pipe or a socket, without silences longer than its timeout.\<close>

definition steady :: "nat \<Rightarrow> arrival \<Rightarrow> bool" where
  "steady timeout a = (case a of Bytes b \<Rightarrow> b \<noteq> [] | Silence \<Rightarrow> timeout = 0)"

definition plain_stream :: "stream \<Rightarrow> bool" where
  "plain_stream S \<longleftrightarrow> \<not> hasflag (io_state S) SS_EMBARGOED \<and> \<not> hasflag (io_state S) SS_DATA_ERROR \<and>
     \<not> hasflag (io_flags S) SF_MMAP \<and> 0 < io_size S \<and> io_start S \<le> length (io_in S) \<and> length (io_in S) \<le> io_size S \<and>
     list_all (steady (io_timeout S)) (io_arrivals S)"

lemma fd_read_steady:
  "fd_read n as = (b, r) \<Longrightarrow> 0 < n \<Longrightarrow> list_all (steady t) as \<Longrightarrow>
     b @ bytes_of r = bytes_of as \<and> length b \<le> n \<and> weight r + length b \<le> weight as \<and> list_all (steady t) r \<and>
     (b = [] \<longrightarrow> r = [])"
proof (induction n as rule: fd_read.induct)
  case (3 n x as)
  then show ?case by (auto simp: steady_def split: if_splits)
qed (auto simp: steady_def)

lemma compact_input_plain:
  assumes "plain_stream S"
  shows "plain_stream (compact_input S)" "waiting (compact_input S) = waiting S"
    "io_arrivals (compact_input S) = io_arrivals S" "io_size (compact_input S) = io_size S"
    "io_timeout (compact_input S) = io_timeout S"
    "0 < io_start S \<or> length (io_in S) < io_size S \<Longrightarrow> length (io_in (compact_input S)) < io_size S"
  using assms by (auto simp: compact_input_def plain_stream_def waiting_def Let_def)

lemma STREAMReadCharsToBuffer_plain:
  assumes p: "plain_stream S" and room: "0 < io_start S \<or> length (io_in S) < io_size S"
  obtains b S1 where "b \<noteq> []" "STREAMReadCharsToBuffer S = (1, S1)" "plain_stream S1" "waiting S1 = waiting S @ b"
      "pending S1 = pending S" "weight (io_arrivals S1) + length b \<le> weight (io_arrivals S)"
  | S1 where "STREAMReadCharsToBuffer S = (STREAM_CLOSED, S1)" "plain_stream S1" "waiting S1 = waiting S"
      "pending S = waiting S" "io_arrivals S1 = []" "weight (io_arrivals S1) \<le> weight (io_arrivals S)"
proof -
  define C where "C = compact_input S"
  note C = compact_input_plain [OF p, folded C_def]
  define n where "n = io_size C - length (io_in C)"
  have n: "0 < n" using C(4) C(6) [OF room] by (simp add: n_def)
  obtain b r where br: "fd_read n (io_arrivals C) = (b, r)" by (cases "fd_read n (io_arrivals C)")
  have st: "list_all (steady (io_timeout S)) (io_arrivals C)" using p C(3) by (simp add: plain_stream_def)
  note rd = fd_read_steady [OF br n st]
  have nosel: "(if 0 < io_timeout C then fd_select C else (True, C)) = (True, C)"
    using st C(5) by (auto simp: fd_select_def steady_def split: list.split arrival.split)
  define D where "D = C\<lparr>io_arrivals := r, io_bytes_read := io_bytes_read C + length b\<rparr>"
  have run: "STREAMReadCharsToBuffer S = STREAMReadThroughProcessors D b"
    using p n nosel br C(4) by (auto simp: STREAMReadCharsToBuffer_def plain_stream_def C_def [symmetric] n_def D_def)
  have D: "plain_stream D" "waiting D = waiting S"
    using C(1,2,4,5) rd by (simp_all add: plain_stream_def D_def waiting_def)
  show ?thesis
  proof (cases "b = []")
    case True
    then have "STREAMReadCharsToBuffer S = (STREAM_CLOSED, D)" using run by (simp add: STREAMReadThroughProcessors_def)
    moreover have "bytes_of (io_arrivals S) = []" using True rd C(3) by auto
    then have "io_arrivals D = []" "pending S = waiting S" using True rd by (simp_all add: D_def pending_def)
    ultimately show ?thesis using D that(2) [of D] by simp
  next
    case False
    define E where "E = D\<lparr>io_in := io_in D @ b, io_size := max (io_size D) (length (io_in D) + length b)\<rparr>"
    have "STREAMReadCharsToBuffer S = (1, E)"
      using False run D(1) by (simp add: STREAMReadThroughProcessors_def E_def plain_stream_def)
    moreover have "plain_stream E" using D(1) by (auto simp: plain_stream_def E_def)
    moreover have "waiting E = waiting S @ b" using D by (simp add: waiting_def E_def plain_stream_def)
    moreover have "pending E = pending S"
      using calculation(3) rd C(3) by (simp add: pending_def) (simp add: E_def D_def)
    moreover have "weight (io_arrivals E) + length b \<le> weight (io_arrivals S)"
      using rd C(3) by (simp add: E_def D_def)
    ultimately show ?thesis using False that(1) by blast
  qed
qed

text \<open>The first line of a byte sequence, with its end, and what follows.\<close>

definition cut_line :: "char \<Rightarrow> string \<Rightarrow> string option \<times> string" where
  "cut_line t p = (if t \<in> set p then (Some (takeWhile (\<lambda>c. c \<noteq> t) p @ [t]), tl (dropWhile (\<lambda>c. c \<noteq> t) p))
     else (if p = [] then None else Some p, []))"

lemma cut_line_append: "t \<in> set a \<Longrightarrow> cut_line t (a @ b) = (Some (takeWhile (\<lambda>c. c \<noteq> t) a @ [t]), tl (dropWhile (\<lambda>c. c \<noteq> t) a) @ b)"
  by (induction a) (auto simp: cut_line_def)

lemma take_line: "t \<in> set a \<Longrightarrow> take (Suc (length (takeWhile (\<lambda>c. c \<noteq> t) a))) a = takeWhile (\<lambda>c. c \<noteq> t) a @ [t]"
  by (induction a) auto

lemma drop_line: "t \<in> set a \<Longrightarrow> drop (Suc (length (takeWhile (\<lambda>c. c \<noteq> t) a))) a = tl (dropWhile (\<lambda>c. c \<noteq> t) a)"
  by (induction a) auto

lemma skip_absent:
  "t \<notin> set a \<Longrightarrow> takeWhile (\<lambda>c. c \<noteq> t) (a @ b) = a @ takeWhile (\<lambda>c. c \<noteq> t) b \<and>
     dropWhile (\<lambda>c. c \<noteq> t) (a @ b) = dropWhile (\<lambda>c. c \<noteq> t) b"
  by (induction a) auto

lemma STREAMTransferBytesOut_plain:
  assumes "plain_stream S"
  shows "\<exists>S1. STREAMTransferBytesOut S n = (take n (waiting S), S1) \<and> plain_stream S1 \<and> waiting S1 = drop n (waiting S) \<and>
    io_arrivals S1 = io_arrivals S"
  using assms by (auto simp: STREAMTransferBytesOut_def waiting_def plain_stream_def Let_def min_def add.commute)

lemma to_terminator_plain:
  assumes "plain_stream S" "closed \<Longrightarrow> bytes_of (io_arrivals S) = []"
    "2 * weight (io_arrivals S) + length (waiting S) + (if closed then 0 else 1) < k"
  shows "\<exists>S1. to_terminator k S t closed got =
      Inr (case cut_line t (pending S) of (l, _) \<Rightarrow>
             (case l of Some b \<Rightarrow> Some (got @ b) | None \<Rightarrow> if got \<noteq> [] then Some got else None), S1) \<and>
    plain_stream S1 \<and> pending S1 = snd (cut_line t (pending S))"
  using assms
proof (induction k arbitrary: S closed got)
  case 0
  then show ?case by simp
next
  case (Suc k)
  note p = Suc.prems(1)
  have w: "waiting S = drop (io_start S) (io_in S)" by (simp add: waiting_def)
  have "io_start S = 0 \<and> io_size S \<le> length (io_in S) \<or> 0 < io_start S \<or> length (io_in S) < io_size S" by linarith
  then consider (ended) "waiting S = []" "closed" | (found) "t \<in> set (waiting S)"
    | (rest) "waiting S \<noteq> []" "t \<notin> set (waiting S)" "closed \<or> io_start S = 0 \<and> io_size S \<le> length (io_in S)"
    | (more) "t \<notin> set (waiting S)" "\<not> closed" "waiting S = [] \<or> 0 < io_start S \<or> length (io_in S) < io_size S"
    by (cases "waiting S = []"; cases closed; cases "t \<in> set (waiting S)") auto
  then show ?case
  proof cases
    case ended
    then have "pending S = []" using Suc.prems(2) by (simp add: pending_def)
    with ended p show ?thesis by (intro exI [of _ S]) (simp add: w cut_line_def)
  next
    case found
    then have ne: "\<not> length (io_in S) \<le> io_start S" by (auto simp: w)
    obtain S1 where S1: "STREAMTransferBytesOut S (Suc (length (takeWhile (\<lambda>c. c \<noteq> t) (waiting S)))) =
          (takeWhile (\<lambda>c. c \<noteq> t) (waiting S) @ [t], S1)" "plain_stream S1"
        "waiting S1 = tl (dropWhile (\<lambda>c. c \<noteq> t) (waiting S))" "io_arrivals S1 = io_arrivals S"
      using STREAMTransferBytesOut_plain [OF p] take_line [OF found] drop_line [OF found] by metis
    have "to_terminator (Suc k) S t closed got = Inr (Some (got @ takeWhile (\<lambda>c. c \<noteq> t) (waiting S) @ [t]), S1)"
      using found S1(1) ne by (simp add: w [symmetric] bytes_to_take_def Let_def)
    then show ?thesis
      using S1 cut_line_append [OF found, of "bytes_of (io_arrivals S)"] by (simp add: pending_def)
  next
    case rest
    obtain S1 where S1: "STREAMTransferBytesOut S (length (waiting S)) = (waiting S, S1)" "plain_stream S1"
        "waiting S1 = []" "io_arrivals S1 = io_arrivals S"
      using STREAMTransferBytesOut_plain [OF p, of "length (waiting S)"] by auto
    have "to_terminator (Suc k) S t closed got = to_terminator k S1 t closed (got @ waiting S)"
      using rest S1(1) by (auto simp: bytes_to_take_def w Let_def)
    moreover have "cut_line t (waiting S @ b) = (case cut_line t b of (l, r) \<Rightarrow>
        (case l of Some x \<Rightarrow> Some (waiting S @ x) | None \<Rightarrow> Some (waiting S), r))" for b
      using rest(1,2) skip_absent [OF rest(2), of b] by (auto simp: cut_line_def)
    moreover have "2 * weight (io_arrivals S1) + length (waiting S1) + (if closed then 0 else 1) < k"
      using Suc.prems(3) S1(3,4) rest(1) by (cases "waiting S") auto
    moreover have "bytes_of (io_arrivals S1) = []" if closed using Suc.prems(2) [OF that] S1(4) by simp
    ultimately show ?thesis
      using Suc.IH [of S1 closed "got @ waiting S"] S1(2,3,4) rest(1)
      by (cases "cut_line t (bytes_of (io_arrivals S))") (auto simp: pending_def split: option.split)
  next
    case more
    have room: "0 < io_start S \<or> length (io_in S) < io_size S"
      using more(3) p by (auto simp: waiting_def plain_stream_def)
    have step: "to_terminator (Suc k) S t closed got = (case STREAMReadCharsToBuffer S of (r, S1) \<Rightarrow>
              if r = STREAM_CLOSED then to_terminator k S1 t True got
              else if r = STREAM_TIMEOUT then Inr (Some got, S1)
              else to_terminator k S1 t closed got)"
      using more(1,2) room by (auto simp: bytes_to_take_def w split: prod.split)
    from p room show ?thesis
    proof (cases rule: STREAMReadCharsToBuffer_plain)
      case (1 b S1)
      obtain c d where "b = c # d" using 1(1) by (cases b) auto
      then have "2 * weight (io_arrivals S1) + length (waiting S1) + (if closed then 0 else 1) < k"
        using Suc.prems(3) 1(4,6) more(2) by simp
      moreover have "to_terminator (Suc k) S t closed got = to_terminator k S1 t closed got"
        using step 1(2) by (simp add: stream_codes)
      ultimately show ?thesis using Suc.IH [of S1 closed got] 1(3,5) more(2) by metis
    next
      case (2 S1)
      have "pending S1 = pending S" using 2 by (simp add: pending_def)
      then show ?thesis
        using Suc.IH [of S1 True got] Suc.prems(3) 2 more(2) step
        by (simp add: stream_codes del: to_terminator.simps)
    qed
  qed
qed


lemma STREAMReadToTerminator_plain:
  assumes "plain_stream S"
  shows "\<exists>S1. STREAMReadToTerminator S t = Inr (fst (cut_line t (pending S)), S1) \<and> plain_stream S1 \<and>
    pending S1 = snd (cut_line t (pending S))"
proof -
  have "length (waiting S) \<le> length (io_in S)" by (simp add: waiting_def)
  then show ?thesis
    using to_terminator_plain [OF assms, of False "io_fuel S" t "[]"]
    by (auto simp: STREAMReadToTerminator_def io_fuel_def split: prod.splits option.splits simp del: to_terminator.simps)
qed

lemma cut_line_read_line: "map_prod (map_option cut_at_NUL) id (cut_line LF p) = read_line p"
proof (cases "LF \<in> set p")
  case True
  then obtain c r where c: "dropWhile (\<lambda>c. c \<noteq> LF) p = c # r" by (cases "dropWhile (\<lambda>c. c \<noteq> LF) p") auto
  then have "c = LF" using hd_dropWhile [of "\<lambda>c. c \<noteq> LF" p] by auto
  with True c show ?thesis by (cases p) (auto simp: cut_line_def read_line_def)
next
  case False
  then have "dropWhile (\<lambda>c. c \<noteq> LF) p = []" by (auto simp: dropWhile_eq_Nil_conv)
  with False show ?thesis by (cases p) (auto simp: cut_line_def read_line_def)
qed

section \<open>Lines\<close>

datatype read_op = ReadLine | ReadTo char

fun stream_read :: "read_op \<Rightarrow> stream \<Rightarrow> (string option \<times> stream) res" where
  "stream_read ReadLine S = STREAMReadLine S"
| "stream_read (ReadTo t) S = STREAMReadToTerminator S t"

fun bytes_read :: "read_op \<Rightarrow> string \<Rightarrow> (string option \<times> string) res" where
  "bytes_read ReadLine p = Inr (read_line p)"
| "bytes_read (ReadTo t) p = Inr (cut_line t p)"

definition reads_as :: "stream \<Rightarrow> string \<Rightarrow> bool" where
  "reads_as S p \<longleftrightarrow> plain_stream S \<and> pending S = p"

interpretation reading: simulation reads_as stream_read bytes_read
proof
  fix S p x
  assume "reads_as S p"
  then have p: "plain_stream S" "pending S = p" by (simp_all add: reads_as_def)
  show "simulates reads_as (stream_read x S) (bytes_read x p)"
  proof (cases x)
    case ReadLine
    then show ?thesis
      using STREAMReadToTerminator_plain [OF p(1), of LF] p(2) cut_line_read_line [of p]
      by (cases "cut_line LF p") (auto simp: STREAMReadLine_def reads_as_def simulates_def split: prod.splits)
  next
    case (ReadTo t)
    then show ?thesis
      using STREAMReadToTerminator_plain [OF p(1), of t] p(2)
      by (cases "cut_line t p") (auto simp: reads_as_def)
  qed
qed

text \<open>C34: In whatever pieces the bytes of the other end arrive, and whatever the size of the buffer, the lines that
  are read are those of the sequence of the bytes.\<close>

theorem lines_do_not_depend_on_chunks:
  assumes "plain_stream S"
  shows "run_ops stream_read ops S = run_ops bytes_read ops (pending S)"
  by (rule reading.runs) (simp add: reads_as_def assms)


definition sample_stream :: "nat \<Rightarrow> nat \<Rightarrow> arrival list \<Rightarrow> acceptance list \<Rightarrow> stream" where
  "sample_stream sz timeout arrivals accepts =
     \<lparr>io_in = [], io_start = 0, io_size = sz, io_out = [], io_point = 0, io_block = 0, io_flags = FLUSH_ALWAYS,
      io_state = 0, io_timeout = timeout, io_out_open = True, io_bytes_read = 0, io_bytes_written = 0,
      io_arrivals = arrivals, io_accepts = accepts, io_sent = []\<rparr>"

theorem lines_do_not_depend_on_chunks_witness:
  "run_ops stream_read [ReadLine, ReadLine, ReadTo (CHR ''c'')]
     (sample_stream 4 3000 [Bytes ''ab'', Bytes ([LF] @ ''second'' @ [LF] @ ''xx''), Bytes ''yycz''] []) =
   run_ops bytes_read [ReadLine, ReadLine, ReadTo (CHR ''c'')] (''ab'' @ [LF] @ ''second'' @ [LF] @ ''xxyycz'')"
  using lines_do_not_depend_on_chunks [of "sample_stream 4 3000 [Bytes ''ab'', Bytes ([LF] @ ''second'' @ [LF] @ ''xx''), Bytes ''yycz''] []"
      "[ReadLine, ReadLine, ReadTo (CHR ''c'')]"]
  by (simp add: plain_stream_def sample_stream_def pending_def waiting_def steady_def hasflag_def SF_MMAP_def FLUSH_ALWAYS_def)

section \<open>Silences\<close>

text \<open>Streams whose other end may be silent for longer than the timeout.\<close>

definition open_stream :: "stream \<Rightarrow> bool" where
  "open_stream S \<longleftrightarrow> \<not> hasflag (io_state S) SS_DATA_ERROR \<and> list_all (\<lambda>a. a \<noteq> Bytes []) (io_arrivals S)"

lemma fd_read_open:
  "fd_read n as = (b, r) \<Longrightarrow> 0 < n \<Longrightarrow> list_all (\<lambda>a. a \<noteq> Bytes []) as \<Longrightarrow>
     b @ bytes_of r = bytes_of as \<and> list_all (\<lambda>a. a \<noteq> Bytes []) r \<and> (b = [] \<longrightarrow> r = [])"
  by (induction n as rule: fd_read.induct) (auto split: if_splits)

lemma compact_input_open:
  assumes "open_stream S"
  shows "open_stream (compact_input S)" "waiting (compact_input S) = waiting S"
    "io_arrivals (compact_input S) = io_arrivals S" "io_state (compact_input S) = io_state S"
  using assms by (auto simp: compact_input_def open_stream_def waiting_def Let_def)

lemma STREAMReadCharsToBuffer_open:
  assumes "open_stream S" "STREAMReadCharsToBuffer S = (r, S1)"
  shows "open_stream S1 \<and> pending S1 = pending S \<and>
    (r = STREAM_CLOSED \<longrightarrow> hasflag (io_flags S) SF_MMAP \<and> waiting S = [] \<and> S1 = S \<or> io_arrivals S1 = [])"
proof (cases "hasflag (io_state S) SS_EMBARGOED \<or> hasflag (io_flags S) SF_MMAP")
  case True
  with assms show ?thesis
    by (auto simp: STREAMReadCharsToBuffer_def waiting_def stream_codes split: if_splits)
next
  case False
  define C where "C = compact_input S"
  note C = compact_input_open [OF assms(1), folded C_def]
  have pC: "pending C = pending S" using C by (simp add: pending_def)
  have "STREAMReadCharsToBuffer S = (if io_size C \<le> length (io_in C) then (1, C)
        else (case (if 0 < io_timeout C then fd_select C else (True, C)) of (ready, S2) \<Rightarrow>
          if \<not> ready then (STREAM_TIMEOUT, S2)
          else (case fd_read (io_size S2 - length (io_in S2)) (io_arrivals S2) of (b, r) \<Rightarrow>
            STREAMReadThroughProcessors (S2\<lparr>io_arrivals := r, io_bytes_read := io_bytes_read S2 + length b\<rparr>) b)))"
    using False by (simp add: STREAMReadCharsToBuffer_def C_def [symmetric] Let_def)
  note run = this [symmetric, unfolded assms(2)]
  show ?thesis
  proof (cases "io_size C \<le> length (io_in C)")
    case True
    with run C(1) pC show ?thesis by (auto simp: stream_codes)
  next
    case room: False
    obtain ready S2 where S2: "(if 0 < io_timeout C then fd_select C else (True, C)) = (ready, S2)"
      by (cases "if 0 < io_timeout C then fd_select C else (True, C)")
    have same: "open_stream S2" "pending S2 = pending S" "ready \<Longrightarrow> S2 = C" "io_in S2 = io_in C" "io_start S2 = io_start C"
      using S2 C(1) pC
      by (auto simp: fd_select_def open_stream_def pending_def waiting_def split: if_splits list.splits arrival.splits)
    show ?thesis
    proof (cases ready)
      case False
      with run room S2 same(1,2) show ?thesis by (auto simp: stream_codes)
    next
      case True
      then have [simp]: "S2 = C" by (rule same(3))
      obtain b as where br: "fd_read (io_size C - length (io_in C)) (io_arrivals C) = (b, as)"
        by (cases "fd_read (io_size C - length (io_in C)) (io_arrivals C)")
      have rd: "b @ bytes_of as = bytes_of (io_arrivals C)" "list_all (\<lambda>a. a \<noteq> Bytes []) as" "b = [] \<longrightarrow> as = []"
        using fd_read_open [OF br] room C(1) by (auto simp: open_stream_def)
      define D where "D = C\<lparr>io_arrivals := as, io_bytes_read := io_bytes_read C + length b\<rparr>"
      have D: "STREAMReadThroughProcessors D b = (r, S1)" using run room S2 br True by (simp add: D_def)
      have st: "\<not> hasflag (io_state C) SS_DATA_ERROR" using C(1) by (simp add: open_stream_def)
      show ?thesis
      proof (cases "b = []")
        case True
        with D have "S1 = D" by (simp add: STREAMReadThroughProcessors_def)
        then show ?thesis using rd True C pC st by (auto simp: D_def open_stream_def pending_def waiting_def)
      next
        case b: False
        with D st have S1: "r = 1" "S1 = D\<lparr>io_in := io_in D @ b, io_size := max (io_size D) (length (io_in D) + length b)\<rparr>"
          by (simp_all add: STREAMReadThroughProcessors_def D_def)
        have "waiting S1 = waiting C @ b" if "io_start C \<le> length (io_in C)"
          using that by (simp add: S1 D_def waiting_def)
        moreover have "io_start C \<le> length (io_in C)"
          by (auto simp: C_def compact_input_def Let_def)
        ultimately show ?thesis
          using rd C(1) pC st by (auto simp: S1 D_def open_stream_def pending_def stream_codes)
      qed
    qed
  qed
qed

definition taken :: "string option \<Rightarrow> string" where
  "taken l = (case l of Some b \<Rightarrow> b | None \<Rightarrow> [])"

lemma taken_simps [simp]: "taken None = []" "taken (Some b) = b"
  by (simp_all add: taken_def)

lemma STREAMTransferBytesOut_open:
  assumes "open_stream S" "STREAMTransferBytesOut S n = (b, S1)"
  shows "open_stream S1" "b @ pending S1 = pending S"
  using assms append_take_drop_id [of n "drop (io_start S) (io_in S)"]
  by (auto simp: STREAMTransferBytesOut_def open_stream_def pending_def waiting_def Let_def min_def add.commute
      simp del: append_take_drop_id)

lemma to_terminator_open:
  assumes "open_stream S" "to_terminator k S t closed got = Inr (l, S1)"
  shows "open_stream S1 \<and> got @ pending S = taken l @ pending S1"
  using assms
proof (induction k arbitrary: S closed got)
  case 0
  then show ?case by simp
next
  case (Suc k)
  define len where "len = bytes_to_take S t closed"
  obtain r S2 where rd: "STREAMReadCharsToBuffer S = (r, S2)" by (cases "STREAMReadCharsToBuffer S")
  note rd' = STREAMReadCharsToBuffer_open [OF Suc.prems(1) rd]
  obtain b S3 where tr: "STREAMTransferBytesOut S len = (b, S3)" by (cases "STREAMTransferBytesOut S len")
  note tr' = STREAMTransferBytesOut_open [OF Suc.prems(1) tr]
  have run: "to_terminator (Suc k) S t closed got = (if waiting S = [] \<and> closed then Inr (if got \<noteq> [] then Some got else None, S)
         else if len = 0 then
           (if r = STREAM_CLOSED then to_terminator k S2 t True got
              else if r = STREAM_TIMEOUT then Inr (Some got, S2)
              else to_terminator k S2 t closed got)
         else (if t \<in> set (waiting S) then Inr (Some (got @ b), S3)
              else to_terminator k S3 t closed (got @ b)))"
    unfolding to_terminator.simps len_def [symmetric] rd tr waiting_def by simp
  note res = Suc.prems(2) [unfolded run]
  show ?case
  proof (cases "waiting S = [] \<and> closed")
    case True
    then show ?thesis using res Suc.prems(1) by (cases "got = []") auto
  next
    case a: False
    show ?thesis
    proof (cases "len = 0")
      case True
      then consider closed1 where "to_terminator k S2 t closed1 got = Inr (l, S1)" | "l = Some got" "S1 = S2"
        using res a by (cases "r = STREAM_CLOSED"; cases "r = STREAM_TIMEOUT") auto
      then show ?thesis using Suc.IH [of S2] rd' by cases simp_all
    next
      case False
      then show ?thesis
        using res a tr' Suc.IH [of S3 closed "got @ b"] by (cases "t \<in> set (waiting S)") auto
    qed
  qed
qed

text \<open>A stream that is not mapped into memory, with a buffer.\<close>

definition buffered :: "stream \<Rightarrow> bool" where
  "buffered S \<longleftrightarrow> \<not> hasflag (io_flags S) SF_MMAP \<and> 0 < io_size S \<and> io_start S \<le> length (io_in S) \<and>
     length (io_in S) \<le> io_size S"

lemma fd_read_weight:
  "fd_read n as = (b, r) \<Longrightarrow> length b \<le> n \<and> weight r + length b \<le> weight as"
  by (induction n as arbitrary: b r rule: fd_read.induct) (auto split: if_splits)

lemma compact_input_buffered:
  assumes "buffered S" "0 < io_start S \<or> length (io_in S) < io_size S"
  shows "buffered (compact_input S)" "length (io_in (compact_input S)) < io_size (compact_input S)"
  using assms by (auto simp: compact_input_def buffered_def Let_def)

text \<open>A read into a buffer with room reports a silence, or the end, or makes progress.\<close>

lemma STREAMReadCharsToBuffer_buffered:
  assumes b: "buffered S" and o: "open_stream S" and room: "0 < io_start S \<or> length (io_in S) < io_size S"
    and rd: "STREAMReadCharsToBuffer S = (r, S1)"
  shows "buffered S1 \<and> (r = STREAM_TIMEOUT \<or>
     r = STREAM_CLOSED \<and> waiting S1 = waiting S \<and> weight (io_arrivals S1) \<le> weight (io_arrivals S) \<or>
     r = 1 \<and> length (waiting S) < length (waiting S1) \<and>
       weight (io_arrivals S1) + length (waiting S1) \<le> weight (io_arrivals S) + length (waiting S))"
proof (cases "hasflag (io_state S) SS_EMBARGOED")
  case True
  with b rd show ?thesis by (simp add: STREAMReadCharsToBuffer_def stream_codes)
next
  case False
  define C where "C = compact_input S"
  note C = compact_input_open [OF o, folded C_def] and Cb = compact_input_buffered [OF b room, folded C_def]
  obtain ready S2 where S2: "(if 0 < io_timeout C then fd_select C else (True, C)) = (ready, S2)"
    by (cases "if 0 < io_timeout C then fd_select C else (True, C)")
  have run: "(r, S1) = (if \<not> ready then (STREAM_TIMEOUT, S2)
          else (case fd_read (io_size S2 - length (io_in S2)) (io_arrivals S2) of (b, r) \<Rightarrow>
            STREAMReadThroughProcessors (S2\<lparr>io_arrivals := r, io_bytes_read := io_bytes_read S2 + length b\<rparr>) b))"
    using False b Cb(2) S2 rd by (simp add: STREAMReadCharsToBuffer_def C_def [symmetric] Let_def buffered_def)
  have same: "buffered S2" "ready \<Longrightarrow> S2 = C"
    using S2 Cb(1) by (auto simp: fd_select_def buffered_def split: if_splits list.splits arrival.splits)
  show ?thesis
  proof (cases ready)
    case False
    with run same show ?thesis by simp
  next
    case True
    obtain d as where da: "fd_read (io_size C - length (io_in C)) (io_arrivals C) = (d, as)" by fastforce
    note w = fd_read_weight [OF da]
    have st: "\<not> hasflag (io_state C) SS_DATA_ERROR" using C(1) by (simp add: open_stream_def)
    have le: "io_start C \<le> length (io_in C)" using Cb(1) by (simp add: buffered_def)
    have "(r, S1) = (if d = [] then (STREAM_CLOSED, C\<lparr>io_arrivals := as, io_bytes_read := io_bytes_read C + length d\<rparr>)
        else (1, C\<lparr>io_arrivals := as, io_bytes_read := io_bytes_read C + length d, io_in := io_in C @ d,
                   io_size := max (io_size C) (length (io_in C) + length d)\<rparr>))"
      using run True same(2) da st by (simp add: STREAMReadThroughProcessors_def)
    then show ?thesis
      using w C(2,3) Cb(1) le by (cases "d = []") (auto simp: buffered_def waiting_def)
  qed
qed

lemma to_terminator_returns:
  "buffered S \<Longrightarrow> open_stream S \<Longrightarrow> (closed \<longrightarrow> bytes_of (io_arrivals S) = []) \<Longrightarrow>
     2 * weight (io_arrivals S) + length (waiting S) + (if closed then 0 else 1) < k \<Longrightarrow>
     \<exists>l S1. to_terminator k S t closed got = Inr (l, S1) \<and> buffered S1 \<and> (l = None \<longrightarrow> pending S1 = [])"
proof (induction k arbitrary: S closed got)
  case (Suc k)
  define len where "len = bytes_to_take S t closed"
  obtain r S2 where rd: "STREAMReadCharsToBuffer S = (r, S2)" by (cases "STREAMReadCharsToBuffer S")
  obtain b S3 where tr: "STREAMTransferBytesOut S len = (b, S3)" by (cases "STREAMTransferBytesOut S len")
  have run: "to_terminator (Suc k) S t closed got = (if waiting S = [] \<and> closed then Inr (if got \<noteq> [] then Some got else None, S)
         else if len = 0 then
           (if r = STREAM_CLOSED then to_terminator k S2 t True got
              else if r = STREAM_TIMEOUT then Inr (Some got, S2)
              else to_terminator k S2 t closed got)
         else (if t \<in> set (waiting S) then Inr (Some (got @ b), S3)
              else to_terminator k S3 t closed (got @ b)))"
    unfolding to_terminator.simps len_def [symmetric] rd tr waiting_def by simp
  have len: "waiting S = [] \<Longrightarrow> len = 0" "closed \<Longrightarrow> len = 0 \<Longrightarrow> waiting S = []"
    by (auto simp: len_def bytes_to_take_def waiting_def [symmetric] Let_def split: if_splits)
  consider (ended) "waiting S = []" closed | (reads) "len = 0" "\<not> closed" | (takes) "len \<noteq> 0" "waiting S \<noteq> []"
    using len by blast
  then show ?case
  proof cases
    case ended
    then have "pending S = []" using Suc.prems(3) by (simp add: pending_def)
    with ended run Suc.prems(1) show ?thesis by (cases "got = []") simp_all
  next
    case reads
    then have "\<not> (io_start S = 0 \<and> io_size S \<le> length (io_in S))"
      using Suc.prems(1) by (auto simp: len_def bytes_to_take_def buffered_def Let_def split: if_splits)
    then have room: "0 < io_start S \<or> length (io_in S) < io_size S" by linarith
    note got = STREAMReadCharsToBuffer_buffered [OF Suc.prems(1,2) room rd] and op = STREAMReadCharsToBuffer_open [OF Suc.prems(2) rd]
    from got consider "r = STREAM_TIMEOUT"
      | "r = STREAM_CLOSED" "waiting S2 = waiting S" "weight (io_arrivals S2) \<le> weight (io_arrivals S)"
      | "r = 1" "length (waiting S) < length (waiting S2)"
        "weight (io_arrivals S2) + length (waiting S2) \<le> weight (io_arrivals S) + length (waiting S)" by blast
    then show ?thesis
    proof cases
      case 1
      with reads run got show ?thesis by (simp add: stream_codes)
    next
      case 2
      have "bytes_of (io_arrivals S2) = []" using op 2(1) Suc.prems(1) by (auto simp: buffered_def)
      with 2 reads run got op Suc.prems(4) Suc.IH [of S2 True got] show ?thesis by simp
    next
      case 3
      with reads run got op Suc.prems(4) Suc.IH [of S2 closed got] show ?thesis by (simp add: stream_codes)
    qed
  next
    case takes
    have S3: "buffered S3" "io_arrivals S3 = io_arrivals S" "length (waiting S3) = length (waiting S) - len"
      using tr Suc.prems(1) by (auto simp: STREAMTransferBytesOut_def buffered_def waiting_def Let_def)
    note op = STREAMTransferBytesOut_open [OF Suc.prems(2) tr]
    show ?thesis
    proof (cases "t \<in> set (waiting S)")
      case True
      with takes run S3 show ?thesis by simp
    next
      case False
      have "length (waiting S3) < length (waiting S)" using S3(3) takes by simp
      then have "2 * weight (io_arrivals S3) + length (waiting S3) + (if closed then 0 else 1) < k"
        using Suc.prems(4) S3(2) by simp
      moreover have "closed \<longrightarrow> bytes_of (io_arrivals S3) = []" using Suc.prems(3) S3(2) by simp
      ultimately show ?thesis
        using False takes run Suc.IH [OF S3(1) op(1), of closed "got @ b"] by simp
    qed
  qed
qed simp

text \<open>C35: When the other end of a stream is silent for longer than the timeout, reading up to a terminator returns a
  part of the bytes, and the following ones come with the next call: every call returns, none of the bytes is lost,
  doubled or moved, and the end is only reported when there is nothing left.\<close>

theorem silences_lose_nothing:
  assumes "open_stream S" "buffered S"
  shows "\<exists>l S1. STREAMReadToTerminator S t = Inr (l, S1) \<and> taken l @ pending S1 = pending S \<and>
    (l = None \<longrightarrow> pending S = []) \<and> open_stream S1 \<and> buffered S1"
proof -
  have "2 * weight (io_arrivals S) + length (waiting S) + 1 < io_fuel S" by (simp add: io_fuel_def waiting_def)
  then obtain l S1 where r: "STREAMReadToTerminator S t = Inr (l, S1)" "buffered S1" "l = None \<longrightarrow> pending S1 = []"
    using to_terminator_returns [OF assms(2,1), of False "io_fuel S" t "[]"] by (auto simp: STREAMReadToTerminator_def)
  with to_terminator_open [OF assms(1), of "io_fuel S" t False "[]" l S1] show ?thesis
    by (auto simp: STREAMReadToTerminator_def)
qed

theorem silences_lose_nothing_witness:
  "\<exists>l S1. STREAMReadToTerminator (sample_stream 4 3000 [Bytes ''abcdef'', Silence, Bytes ''gh''] []) LF = Inr (l, S1) \<and>
     taken l @ pending S1 = ''abcdefgh'' \<and> l \<noteq> None"
proof -
  let ?S = "sample_stream 4 3000 [Bytes ''abcdef'', Silence, Bytes ''gh''] []"
  have "open_stream ?S" "buffered ?S" "pending ?S = ''abcdefgh''"
    by (simp_all add: open_stream_def buffered_def sample_stream_def pending_def waiting_def hasflag_def SF_MMAP_def
        FLUSH_ALWAYS_def)
  with silences_lose_nothing [of ?S LF] show ?thesis by auto
qed

section \<open>Writing\<close>

text \<open>
  A blocking stream, not in block mode, whose other end takes bytes in whatever portions, and is never slower
  than the timeout.
\<close>

definition takes :: "nat \<Rightarrow> acceptance \<Rightarrow> bool" where
  "takes timeout a = (case a of Broken \<Rightarrow> False | NotReady \<Rightarrow> timeout = 0 | _ \<Rightarrow> True)"

definition willing :: "stream \<Rightarrow> bool" where
  "willing S \<longleftrightarrow> io_out_open S \<and> \<not> hasflag (io_flags S) SF_NONBLOCK \<and> \<not> hasflag (io_flags S) FLUSH_BLOCK \<and>
     \<not> hasflag (io_state S) SS_WRITE_ERROR \<and> 0 < io_size S \<and> io_point S = 0 \<and>
     list_all (takes (io_timeout S)) (io_accepts S)"

lemma write_loop_willing:
  assumes "willing S" "count \<le> n" "n \<le> length (io_out S)" "0 < result \<or> count < n"
  shows "\<exists>r S1. write_loop n result count S = (r, n, S1) \<and> 0 < r \<and> willing S1 \<and>
     io_sent S1 = io_sent S @ take (n - count) (drop count (io_out S)) \<and> io_out S1 = io_out S \<and> io_size S1 = io_size S"
  using assms
proof (induction "length (io_accepts S)" arbitrary: S count result)
  case 0
  then show ?case by (cases "n \<le> count") (auto simp: write_loop.simps [of n] willing_def)
next
  case (Suc k)
  then obtain x rest where acc: "io_accepts S = x # rest" by (cases "io_accepts S") auto
  define S2 where "S2 = S\<lparr>io_accepts := rest\<rparr>"
  have x: "takes (io_timeout S) x" and S2: "willing S2" "k = length (io_accepts S2)"
    using Suc.prems(1) Suc.hyps(2) acc by (auto simp: willing_def S2_def)
  show ?case
  proof (cases "n \<le> count")
    case True
    then show ?thesis using Suc.prems by (subst write_loop.simps) auto
  next
    case False
    have nb: "\<not> hasflag (io_flags S) SF_NONBLOCK" using Suc.prems(1) by (simp add: willing_def)
    have again: ?thesis if "write_loop n result count S = write_loop n q count S2" for q
      using Suc.hyps(1) [OF S2(2,1), of count q] Suc.prems False that by (auto simp: S2_def)
    show ?thesis
    proof (cases x)
      case (Took m)
      define j where "j = min m (n - count)"
      define S3 where "S3 = S2\<lparr>io_sent := io_sent S @ take j (drop count (io_out S))\<rparr>"
      have S3: "willing S3" "k = length (io_accepts S3)" "io_out S3 = io_out S" "io_size S3 = io_size S"
        using S2 by (auto simp: S3_def willing_def) (simp_all add: S2_def)
      have run: "write_loop n result count S = write_loop n (int j) (count + j) S3"
        using False acc nb Took by (simp add: write_loop.simps [of n result] j_def S3_def S2_def Let_def)
      have j: "count + j \<le> n" "0 < int j \<or> count + j < n" using False by (auto simp: j_def)
      have "take j (drop count (io_out S)) @ take (n - (count + j)) (drop (count + j) (io_out S)) =
          take (n - count) (drop count (io_out S))"
        using j(1) take_add [of j "n - (count + j)" "drop count (io_out S)"] by (simp add: add.commute)
      then show ?thesis
        using Suc.hyps(1) [OF S3(2,1) j(1) _ j(2)] Suc.prems(3) S3(3,4) run by (auto simp: S3_def)
    next
      case Interrupted
      then show ?thesis using again [of 0] False acc nb by (simp add: write_loop.simps [of n result] S2_def)
    next
      case WouldBlock
      then show ?thesis using again [of STREAM_TIMEOUT] False acc nb by (simp add: write_loop.simps [of n result] S2_def)
    next
      case Broken
      then show ?thesis using x by (simp add: takes_def)
    next
      case NotReady
      then show ?thesis
        using again [of 0] False acc nb x by (simp add: write_loop.simps [of n result] S2_def takes_def)
    qed
  qed
qed

text \<open>What the writer was given so far: what was sent, and what waits in the output buffer.\<close>

definition outgoing :: "stream \<Rightarrow> string" where
  "outgoing S = io_sent S @ io_out S"

lemma STREAMInternalFinalWriteBytes_willing:
  assumes "willing S" "io_out S \<noteq> []"
  shows "\<exists>r S1. STREAMInternalFinalWriteBytes S (length (io_out S)) = (r, S1) \<and> 0 < r \<and> willing S1 \<and>
     io_sent S1 = outgoing S \<and> io_out S1 = [] \<and> io_size S1 = io_size S"
proof -
  obtain r S1 where "write_loop (length (io_out S)) 0 0 S = (r, length (io_out S), S1)" "0 < r" "willing S1"
      "io_sent S1 = io_sent S @ io_out S" "io_out S1 = io_out S" "io_size S1 = io_size S"
    using write_loop_willing [OF assms(1), of 0 "length (io_out S)" 0] assms(2) by auto
  then show ?thesis
    using assms by (auto simp: STREAMInternalFinalWriteBytes_def outgoing_def) (auto simp: willing_def)
qed

lemma STREAMFlush_willing:
  assumes "willing S"
  shows "\<exists>r S1. STREAMFlush S = (r, S1) \<and> willing S1 \<and> io_sent S1 = outgoing S \<and> io_out S1 = []"
proof (cases "io_out S = []")
  case True
  then show ?thesis
    using assms by (auto simp: STREAMFlush_def STREAMInternalFinalWriteBytes_def outgoing_def write_loop.simps [of 0] willing_def)
next
  case False
  from STREAMInternalFinalWriteBytes_willing [OF assms this] show ?thesis by (auto simp: STREAMFlush_def)
qed

lemma queue_loop_willing:
  assumes "willing S" "length (io_out S) \<le> io_size S" "length b + (if io_size S \<le> length (io_out S) then 1 else 0) < k"
  shows "\<exists>r S1. queue_loop k S b queued = Inr (r, S1) \<and> 0 \<le> r \<and> willing S1 \<and> outgoing S1 = outgoing S @ b \<and>
     length (io_out S1) \<le> io_size S1"
  using assms
proof (induction k arbitrary: S b queued)
  case 0
  then show ?case by simp
next
  case (Suc k)
  define m where "m = min (io_size S - length (io_out S)) (length b)"
  define S1 where "S1 = S\<lparr>io_out := io_out S @ take m b\<rparr>"
  have S1: "willing S1" "outgoing S1 @ drop m b = outgoing S @ b" "length (io_out S1) \<le> io_size S1"
    using Suc.prems(1,2) by (auto simp: S1_def willing_def outgoing_def m_def)
  have full: "must_write S1 \<and> io_out S1 \<noteq> []" if "drop m b \<noteq> []"
    using that Suc.prems(1) by (auto simp: must_write_def S1_def m_def willing_def min_def split: if_splits)
  show ?case
  proof (cases "must_write S1")
    case False
    with full have "drop m b = []" by blast
    then have "queue_loop (Suc k) S b queued = Inr (int (queued + m), S1)"
      using False unfolding queue_loop.simps Let_def m_def [symmetric] S1_def [symmetric] by simp
    then show ?thesis using S1 \<open>drop m b = []\<close> by simp
  next
    case True
    then have "io_out S1 \<noteq> []" by (auto simp: must_write_def)
    from STREAMInternalFinalWriteBytes_willing [OF S1(1) this]
    obtain r S2 where S2: "STREAMInternalFinalWriteBytes S1 (length (io_out S1)) = (r, S2)" "0 < r" "willing S2"
        "io_sent S2 = outgoing S1" "io_out S2 = []" "io_size S2 = io_size S1" by blast
    define S3 where "S3 = S2\<lparr>io_point := 0\<rparr>"
    have S3: "willing S3" "outgoing S3 = outgoing S1" "io_out S3 = []" "0 < io_size S3"
      using S2 by (auto simp: S3_def willing_def outgoing_def)
    have run: "queue_loop (Suc k) S b queued =
        (if drop m b = [] then Inr (int (queued + m), S3) else queue_loop k S3 (drop m b) (queued + m))"
      using True S2(1,2) by (simp add: m_def [symmetric] S1_def [symmetric] S3_def Let_def)
    show ?thesis
    proof (cases "drop m b = []")
      case True
      then show ?thesis using run S3 S1(2) by simp
    next
      case False
      then have "length (drop m b) + 0 < k"
        using Suc.prems(2,3) by (auto simp: m_def min_def split: if_splits)
      then show ?thesis
        using Suc.IH [of S3 "drop m b" "queued + m"] S3 S1(2) run False by auto
    qed
  qed
qed

lemma STREAMWriteBytes_willing:
  assumes "willing S" "length (io_out S) \<le> io_size S"
  shows "\<exists>S1. STREAMWriteBytes S b = Inr (int (length b), S1) \<and> willing S1 \<and> outgoing S1 = outgoing S @ b \<and>
     length (io_out S1) \<le> io_size S1"
proof (cases "b = []")
  case True
  show ?thesis
  proof (cases "io_out S = []")
    case True
    with assms \<open>b = []\<close> show ?thesis by (auto simp: STREAMWriteBytes_def willing_def)
  next
    case False
    from STREAMInternalFinalWriteBytes_willing [OF assms(1) False] show ?thesis
      using assms(1) False True by (auto simp: STREAMWriteBytes_def outgoing_def) (auto simp: willing_def)
  qed
next
  case False
  obtain r S1 where "STREAMInternalQueueBytes S b = Inr (r, S1)" "0 \<le> r" "willing S1" "outgoing S1 = outgoing S @ b"
      "length (io_out S1) \<le> io_size S1"
    using queue_loop_willing [OF assms, of b "Suc (Suc (length b))" 0]
    by (cases "io_size S \<le> length (io_out S)") (auto simp: STREAMInternalQueueBytes_def simp del: queue_loop.simps)
  moreover have "io_out_open S" "\<not> hasflag (io_state S) SS_WRITE_ERROR" using assms(1) by (simp_all add: willing_def)
  ultimately show ?thesis using False by (simp add: STREAMWriteBytes_def)
qed

text \<open>A sequence of writes.\<close>

fun write_all :: "string list \<Rightarrow> stream \<Rightarrow> stream res" where
  "write_all [] S = Inr S"
| "write_all (b # bs) S = bindr (STREAMWriteBytes S b) (\<lambda>(r, S1). write_all bs S1)"

text \<open>C36: What is written to a stream in any pieces arrives at the other end complete and in order with the next flush,
  whatever the size of the buffer and however few bytes the other end takes at a time.\<close>

theorem writes_arrive_in_order:
  assumes "willing S" "length (io_out S) \<le> io_size S"
  shows "\<exists>S1. write_all bs S = Inr S1 \<and> io_sent (snd (STREAMFlush S1)) = io_sent S @ io_out S @ concat bs"
  using assms
proof (induction bs arbitrary: S)
  case Nil
  then show ?case using STREAMFlush_willing [of S] by (auto simp: outgoing_def)
next
  case (Cons b bs)
  then obtain S1 where S1: "STREAMWriteBytes S b = Inr (int (length b), S1)" "willing S1" "outgoing S1 = outgoing S @ b"
      "length (io_out S1) \<le> io_size S1"
    using STREAMWriteBytes_willing by blast
  from Cons.IH [OF S1(2,4)] S1 show ?case by (auto simp: outgoing_def)
qed

lemmas sample_defs = plain_stream_def sample_stream_def pending_def waiting_def steady_def willing_def takes_def
  outgoing_def hasflag_def SF_MMAP_def FLUSH_ALWAYS_def SF_NONBLOCK_def FLUSH_BLOCK_def

theorem writes_arrive_in_order_witness:
  "\<exists>S1. write_all [''abc'', '''', ''defgh''] (sample_stream 3 3000 [] [Took 1, WouldBlock, Took 0, Took 2]) = Inr S1 \<and>
     io_sent (snd (STREAMFlush S1)) = ''abcdefgh''"
  using writes_arrive_in_order [of "sample_stream 3 3000 [] [Took 1, WouldBlock, Took 0, Took 2]" "[''abc'', '''', ''defgh'']"]
  by (simp add: sample_defs)

section \<open>Copying\<close>

lemma STREAMReadCharsToBuffer_full:
  assumes "plain_stream S" "io_start S = 0" "length (io_in S) = io_size S"
  shows "STREAMReadCharsToBuffer S = (1, S)"
  using assms by (simp add: STREAMReadCharsToBuffer_def compact_input_def plain_stream_def Let_def)

text \<open>What is there to be written after a turn's reading; nothing only at the end of the stream.\<close>

definition copy_read :: "stream \<Rightarrow> nat \<Rightarrow> int \<times> stream" where
  "copy_read S len = (if length (waiting S) < len then STREAMReadCharsToBuffer S else (1, S))"

lemma copy_read_plain:
  assumes "plain_stream S" "0 < len" "copy_read S len = (r, S1)"
  shows "plain_stream S1" "pending S1 = pending S"
    "2 * weight (io_arrivals S1) + length (waiting S1) \<le> 2 * weight (io_arrivals S) + length (waiting S)"
    "waiting S1 = [] \<Longrightarrow> r = STREAM_CLOSED \<and> pending S = [] \<and> length (waiting S) < len"
proof -
  consider (enough) "\<not> length (waiting S) < len" | (full) "length (waiting S) < len" "io_start S = 0" "length (io_in S) = io_size S"
    | (reads) "length (waiting S) < len" "0 < io_start S \<or> length (io_in S) < io_size S"
    using assms(1) by (fastforce simp: plain_stream_def)
  then have "plain_stream S1 \<and> pending S1 = pending S \<and>
    2 * weight (io_arrivals S1) + length (waiting S1) \<le> 2 * weight (io_arrivals S) + length (waiting S) \<and>
    (waiting S1 = [] \<longrightarrow> r = STREAM_CLOSED \<and> pending S = [] \<and> length (waiting S) < len)"
  proof cases
    case enough
    then show ?thesis using assms by (auto simp: copy_read_def)
  next
    case full
    then have "waiting S \<noteq> []" using assms(1) by (auto simp: waiting_def plain_stream_def)
    with full show ?thesis using assms STREAMReadCharsToBuffer_full [OF assms(1) full(2,3)] by (simp add: copy_read_def)
  next
    case reads
    from assms(1) reads(2) show ?thesis
    proof (cases rule: STREAMReadCharsToBuffer_plain)
      case (1 b S2)
      then show ?thesis using assms(3) reads(1) by (simp add: copy_read_def)
    next
      case (2 S2)
      then show ?thesis using assms(3) reads(1) by (auto simp: copy_read_def pending_def)
    qed
  qed
  then show "plain_stream S1" "pending S1 = pending S"
    "2 * weight (io_arrivals S1) + length (waiting S1) \<le> 2 * weight (io_arrivals S) + length (waiting S)"
    "waiting S1 = [] \<Longrightarrow> r = STREAM_CLOSED \<and> pending S = [] \<and> length (waiting S) < len"
    by blast+
qed

text \<open>Room in the output buffer for the next turn.\<close>

definition copy_room :: "stream \<Rightarrow> stream" where
  "copy_room S = (if io_size S \<le> length (io_out S)
     then snd (STREAMInternalFinalWriteBytes S (min BUFSIZ (length (io_out S)))) else S)"

lemma copy_room_willing:
  assumes "willing S" "length (io_out S) \<le> io_size S"
  shows "willing (copy_room S)" "outgoing (copy_room S) = outgoing S" "length (io_out (copy_room S)) < io_size (copy_room S)"
proof -
  define n where "n = min BUFSIZ (length (io_out S))"
  have "willing (copy_room S) \<and> outgoing (copy_room S) = outgoing S \<and> length (io_out (copy_room S)) < io_size (copy_room S)"
  proof (cases "io_size S \<le> length (io_out S)")
    case False
    then show ?thesis using assms by (simp add: copy_room_def)
  next
    case True
    then have n: "0 < n" "n \<le> length (io_out S)" using assms by (auto simp: n_def willing_def BUFSIZ_def)
    obtain r S1 where S1: "write_loop n 0 0 S = (r, n, S1)" "willing S1" "io_sent S1 = io_sent S @ take n (io_out S)"
        "io_out S1 = io_out S" "io_size S1 = io_size S"
      using write_loop_willing [OF assms(1), of 0 n 0] n by auto
    have "copy_room S = S1\<lparr>io_bytes_written := io_bytes_written S1 + n, io_out := drop n (io_out S1)\<rparr>"
      using True S1(1) assms(1)
      by (simp add: copy_room_def STREAMInternalFinalWriteBytes_def n_def [symmetric] willing_def)
    then show ?thesis using S1 n assms by (auto simp: willing_def outgoing_def)
  qed
  then show "willing (copy_room S)" "outgoing (copy_room S) = outgoing S"
    "length (io_out (copy_room S)) < io_size (copy_room S)" by blast+
qed

lemma send_loop_unfold:
  assumes "flags = SENDFILE_LOOP" "0 < len"
  shows "send_loop (Suc k) In Out mx flags (int len) sent =
    (case copy_read In len of (r, In1) \<Rightarrow>
       if length (waiting In) < len \<and> r = STREAM_CLOSED \<and> waiting In1 = [] then Inr (sent, In1, snd (STREAMFlush Out))
       else let Out1 = copy_room Out;
                n = min (min (length (waiting In1)) len) (io_size Out1 - length (io_out Out1))
            in bindr (STREAMWriteBytes Out1 (take n (waiting In1))) (\<lambda>(r, Out2).
                 if r = STREAM_CLOSED then Inr (sent, In1, Out2)
                 else send_loop k (In1\<lparr>io_start := io_start In1 + nat r\<rparr>) Out2 mx flags
                        (if mx = 0 then int BUFSIZ else int64_of (int mx - int (sent + nat r))) (sent + nat r)))"
proof -
  have f: "\<not> hasflag flags SENDFILE_NOREAD" "\<not> hasflag flags SENDFILE_FLUSH" "hasflag flags SENDFILE_LOOP"
    using assms(1) by (simp_all add: hasflag_def SENDFILE_LOOP_def SENDFILE_NOREAD_def SENDFILE_FLUSH_def)
  show ?thesis
    using assms(2)
    by (simp add: f copy_read_def copy_room_def waiting_def Let_def split: prod.split cong: if_cong)
qed

definition wanted :: "nat \<Rightarrow> nat \<Rightarrow> string \<Rightarrow> nat" where
  "wanted mx sent p = (if mx = 0 then length p else min (mx - sent) (length p))"

lemma advance_plain:
  assumes "plain_stream S" "n \<le> length (waiting S)"
  shows "plain_stream (S\<lparr>io_start := io_start S + n\<rparr>)" "waiting (S\<lparr>io_start := io_start S + n\<rparr>) = drop n (waiting S)"
    "pending (S\<lparr>io_start := io_start S + n\<rparr>) = drop n (pending S)"
  using assms by (auto simp: plain_stream_def waiting_def pending_def add.commute)

lemma send_loop_copies:
  assumes "plain_stream In" "willing Out" "length (io_out Out) \<le> io_size Out"
    "2 * weight (io_arrivals In) + length (waiting In) < k" "len = (if mx = 0 then BUFSIZ else mx - sent)"
    "mx < 2 ^ 63" "mx = 0 \<or> sent \<le> mx"
  shows "\<exists>In1 Out1. send_loop k In Out mx SENDFILE_LOOP (int len) sent = Inr (sent + wanted mx sent (pending In), In1, Out1) \<and>
    plain_stream In1 \<and> pending In1 = drop (wanted mx sent (pending In)) (pending In) \<and> willing Out1 \<and>
    outgoing Out1 = outgoing Out @ take (wanted mx sent (pending In)) (pending In)"
  using assms
proof (induction k arbitrary: In Out len sent)
  case 0
  then show ?case by simp
next
  case (Suc k)
  show ?case
  proof (cases "len = 0")
    case True
    then show ?thesis using Suc.prems by (auto simp: wanted_def BUFSIZ_def split: if_splits)
  next
    case False
    then have len: "0 < len" by simp
    obtain r In1 where rd: "copy_read In len = (r, In1)" by (cases "copy_read In len")
    note In1 = copy_read_plain [OF Suc.prems(1) len rd]
    define Out1 where "Out1 = copy_room Out"
    note Out1 = copy_room_willing [OF Suc.prems(2,3), folded Out1_def]
    define n where "n = min (min (length (waiting In1)) len) (io_size Out1 - length (io_out Out1))"
    show ?thesis
    proof (cases "waiting In1 = []")
      case True
      obtain q Out2 where "STREAMFlush Out = (q, Out2)" "willing Out2" "io_sent Out2 = outgoing Out" "io_out Out2 = []"
        using STREAMFlush_willing [OF Suc.prems(2)] by blast
      moreover have "pending In1 = []" using In1(2,4) True by simp
      ultimately show ?thesis
        using In1 True send_loop_unfold [OF refl len, of k In Out mx sent] rd
        by (simp add: wanted_def outgoing_def)
    next
      case some: False
      then have n: "0 < n" "n \<le> len" "n \<le> length (waiting In1)" using Out1(3) len by (auto simp: n_def)
      obtain Out2 where Out2: "STREAMWriteBytes Out1 (take n (waiting In1)) = Inr (int n, Out2)" "willing Out2"
          "outgoing Out2 = outgoing Out @ take n (waiting In1)" "length (io_out Out2) \<le> io_size Out2"
        using STREAMWriteBytes_willing [OF Out1(1) less_imp_le [OF Out1(3)], of "take n (waiting In1)"] Out1(2) n(3) by auto
      define In2 where "In2 = In1\<lparr>io_start := io_start In1 + n\<rparr>"
      note In2 = advance_plain [OF In1(1) n(3), folded In2_def]
      have left: "(if mx = 0 then int BUFSIZ else int64_of (int mx - int (sent + n))) =
          int (if mx = 0 then BUFSIZ else mx - (sent + n))" "mx = 0 \<or> sent + n \<le> mx"
        using Suc.prems(5-7) n(2) by (auto simp: int64_of_id of_nat_diff split: if_splits)
      have step: "send_loop (Suc k) In Out mx SENDFILE_LOOP (int len) sent =
          send_loop k In2 Out2 mx SENDFILE_LOOP (int (if mx = 0 then BUFSIZ else mx - (sent + n))) (sent + n)"
        using send_loop_unfold [OF refl len, of k In Out mx sent] rd some Out2(1)
        unfolding left(1) [symmetric]
        by (simp add: Out1_def [symmetric] n_def [symmetric] In2_def stream_codes)
      have fuel: "2 * weight (io_arrivals In2) + length (waiting In2) < k"
        using In1(3) In2(2) n(1,3) Suc.prems(4) by (simp add: In2_def)
      have "pending In = waiting In1 @ bytes_of (io_arrivals In1)" using In1(2) by (simp add: pending_def)
      then have np: "n \<le> length (pending In)" "take n (waiting In1) = take n (pending In)" using n(3) by simp_all
      have w: "wanted mx sent (pending In) = n + wanted mx (sent + n) (pending In2)"
        using np(1) n(2) In2(3) In1(2) Suc.prems(5) by (auto simp: wanted_def min_def split: if_splits)
      show ?thesis
        using Suc.IH [OF In2(1) Out2(2,4) fuel refl Suc.prems(6) left(2)] step Out2(3) In2(3) In1(2) np(2)
        by (auto simp: w take_add add.commute simp del: send_loop.simps)
    qed
  qed
qed

text \<open>The part of the bytes that a copy is asked for: all of them for 0, none when the number is no positive \<open>long\<close>.\<close>

definition requested :: "nat \<Rightarrow> string \<Rightarrow> string" where
  "requested mx p = (if mx = 0 then p else if mx < 2 ^ 63 then take mx p else [])"

text \<open>C37: \<open>STREAMSendFile\<close> in a loop transfers exactly the requested number of bytes, or everything: they arrive
  in order, the count is returned, and the bytes behind them are left to be read.  A number of \<open>2^63\<close> or more, as
  it results from a negative size, transfers nothing.\<close>

theorem copies_are_exact:
  assumes "plain_stream In" "willing Out" "length (io_out Out) \<le> io_size Out" "mx < 2 ^ 64"
  shows "\<exists>In1 Out1. STREAMSendFile In Out mx SENDFILE_LOOP = Inr (length (requested mx (pending In)), In1, Out1) \<and>
    requested mx (pending In) @ pending In1 = pending In \<and>
    io_sent (snd (STREAMFlush Out1)) = outgoing Out @ requested mx (pending In)"
proof (cases "mx < 2 ^ 63")
  case True
  have fuel: "2 * weight (io_arrivals In) + length (waiting In) < io_fuel In" by (simp add: io_fuel_def waiting_def)
  have len: "(if mx = 0 then int BUFSIZ else int64_of (int mx)) = int (if mx = 0 then BUFSIZ else mx - 0)"
    using True by (simp add: int64_of_id)
  obtain In1 Out1 where "STREAMSendFile In Out mx SENDFILE_LOOP = Inr (wanted mx 0 (pending In), In1, Out1)"
      "pending In1 = drop (wanted mx 0 (pending In)) (pending In)" "willing Out1"
      "outgoing Out1 = outgoing Out @ take (wanted mx 0 (pending In)) (pending In)"
    using send_loop_copies [OF assms(1-3) fuel refl True, of 0] unfolding STREAMSendFile_def len by auto
  moreover have "wanted mx 0 (pending In) = length (requested mx (pending In))"
    "take (wanted mx 0 (pending In)) (pending In) = requested mx (pending In)"
    using True by (auto simp: wanted_def requested_def min_def)
  ultimately show ?thesis using STREAMFlush_willing [of Out1] by (metis append_take_drop_id snd_conv)
next
  case False
  then have "int64_of (int mx) \<le> 0" "mx \<noteq> 0" using assms(4) by (auto simp: int64_of_negative)
  then have "STREAMSendFile In Out mx SENDFILE_LOOP = Inr (0, In, Out)" by (simp add: STREAMSendFile_def io_fuel_def)
  with False show ?thesis using STREAMFlush_willing [OF assms(2)] by (auto simp: requested_def)
qed

theorem copies_are_exact_witness:
  "\<exists>In1 Out1. STREAMSendFile (sample_stream 4 3000 [Bytes ''abcdefg'', Bytes ''hij''] [])
      (sample_stream 3 3000 [] [Took 2, WouldBlock, Took 0]) 8 SENDFILE_LOOP = Inr (8, In1, Out1) \<and>
    pending In1 = ''ij'' \<and> io_sent (snd (STREAMFlush Out1)) = ''abcdefgh''"
  using copies_are_exact [of "sample_stream 4 3000 [Bytes ''abcdefg'', Bytes ''hij''] []"
      "sample_stream 3 3000 [] [Took 2, WouldBlock, Took 0]" 8]
  by (auto simp: sample_defs requested_def)

section \<open>What goes wrong\<close>

text \<open>C38: \<open>STREAMWriteBytes\<close> reports all bytes as written also when the other end does not take any before the
  timeout and the buffer has no room for them: those that do not fit in the buffer are gone.\<close>

theorem blocked_writes_are_claimed:
  assumes "io_out_open S" "\<not> hasflag (io_state S) SS_WRITE_ERROR" "\<not> hasflag (io_flags S) FLUSH_BLOCK"
    "io_out S = []" "io_point S = 0" "0 < io_size S" "io_size S < length b" "io_accepts S = NotReady # r" "0 < io_timeout S"
  shows "\<exists>S1. STREAMWriteBytes S b = Inr (int (length b), S1) \<and> outgoing S1 = outgoing S @ take (io_size S) b"
  using assms
  by (simp add: STREAMWriteBytes_def STREAMInternalQueueBytes_def must_write_def Let_def write_loop.simps [of "io_size S"]
      STREAMInternalFinalWriteBytes_def stream_codes outgoing_def min_def)

theorem blocked_writes_are_claimed_witness:
  "\<exists>S1. STREAMWriteBytes (sample_stream 3 3000 [] [NotReady]) ''abcdefgh'' = Inr (8, S1) \<and> outgoing S1 = ''abc''"
  using blocked_writes_are_claimed [of "sample_stream 3 3000 [] [NotReady]" "''abcdefgh''" "[]"]
  by (simp add: sample_defs SS_WRITE_ERROR_def)

text \<open>
  The last line of a file that is mapped into memory, when it has no end and is not the first: the end of the
  file is never noticed.
\<close>

theorem unterminated_mapped_line_never_ends:
  assumes "hasflag (io_flags S) SF_MMAP" "\<not> hasflag (io_state S) SS_EMBARGOED" "0 < io_start S"
    "waiting S \<noteq> []" "t \<notin> set (waiting S)"
  shows "to_terminator k S t False got = Inl OutOfFuel"
proof (induction k)
  case (Suc k)
  have "STREAMReadCharsToBuffer S = (1, S)" "bytes_to_take S t False = 0"
    using assms by (auto simp: STREAMReadCharsToBuffer_def bytes_to_take_def waiting_def Let_def)
  with Suc show ?case by (simp add: stream_codes)
qed simp

text \<open>The terminator of \<open>STREAMReadToString\<close> is missed where it overlaps with a false start.\<close>

theorem overlapping_terminator_missed:
  "map_sum id fst (map_sum id snd (STREAMReadToString (sample_stream 8 3000 [Bytes ''aaab''] []) ''aab'')) = Inr ''aaab''"
  "map_sum id fst (STREAMReadToString (sample_stream 8 3000 [Bytes ''aaab''] []) ''aab'') = Inr False"
  by code_simp+

text \<open>\<open>STREAMFind\<close> takes a line whose key is a proper prefix of what is looked for.\<close>

theorem key_prefix_found:
  "map_sum id fst (STREAMFind (sample_stream 16 3000 [Bytes (''ab=1'' @ [LF] @ ''abc=2'')] []) ''abc'' (Some ''=''))
   = Inr (Some ''ab=1'')"
  by code_simp

end
