(* ===== verification/StrLenCache.thy ===== *)
theory StrLenCache
  imports CString
begin

text \<open>
  The strings of \<open>libUseful-4/String.c\<close> in memory: buffers that are grown with \<open>realloc\<close>, and the cache of the
  lengths of long strings that \<open>CatStr\<close> and its relatives rely on.  The rest of the development works with the
  contents of strings; \<open>StrLenCacheProperties\<close> shows when that is justified, and when not.

  A buffer is an address and the bytes that were allocated there, the terminating NUL among them.  A source
  operand is a string (or \<open>NULL\<close>), the bytes before its NUL: the destination is not one of its sources.
\<close>

text \<open>
  \<open>sm_place\<close> is the allocator: it chooses an address, given those in use, the block that is to grow, and the
  size.  \<open>sm_junk\<close> is what memory that was never written contains, \<open>sm_rand\<close> are the results of \<open>rand\<close>.
\<close>

record strmem =
  sm_bufs :: "(nat \<times> string) list"
  sm_cache :: "(nat option \<times> nat) list"
  sm_rand :: "nat list"
  sm_place :: "nat list \<Rightarrow> nat option \<Rightarrow> nat \<Rightarrow> nat"
  sm_junk :: char

section \<open>Memory\<close>

definition get_buf :: "nat \<Rightarrow> strmem \<Rightarrow> string res" where
  "get_buf a s = (case map_of (sm_bufs s) a of None \<Rightarrow> Inl BadPointer | Some b \<Rightarrow> Inr b)"

definition drop_buf :: "nat \<Rightarrow> strmem \<Rightarrow> strmem" where
  "drop_buf a s = s\<lparr>sm_bufs := filter (\<lambda>(x, _). x \<noteq> a) (sm_bufs s)\<rparr>"

definition set_buf :: "nat \<Rightarrow> string \<Rightarrow> strmem \<Rightarrow> strmem" where
  "set_buf a b s = s\<lparr>sm_bufs := (a, b) # filter (\<lambda>(x, _). x \<noteq> a) (sm_bufs s)\<rparr>"

definition get_string :: "nat \<Rightarrow> strmem \<Rightarrow> string res" where
  "get_string a s = bindr (get_buf a s) (\<lambda>b. if NUL \<in> set b then Inr (cut_at_NUL b) else Inl BadPointer)"

definition put_bytes :: "nat \<Rightarrow> nat \<Rightarrow> string \<Rightarrow> strmem \<Rightarrow> strmem res" where
  "put_bytes a i cs s = bindr (get_buf a s) (\<lambda>b.
     if i + length cs \<le> length b then Inr (set_buf a (take i b @ cs @ drop (i + length cs) b) s) else Inl BadPointer)"

definition realloc :: "nat option \<Rightarrow> nat \<Rightarrow> strmem \<Rightarrow> (nat \<times> strmem) res" where
  "realloc p n s =
     (let a = sm_place s (map fst (sm_bufs s)) p n in
      case p of None \<Rightarrow> Inr (a, set_buf a (replicate n NUL) s)
      | Some q \<Rightarrow> bindr (get_buf q s) (\<lambda>b.
          Inr (a, set_buf a (take n b @ replicate (n - length b) (sm_junk s)) (drop_buf q s))))"

section \<open>The cache\<close>

definition StrLenCacheMinLen :: nat where "StrLenCacheMinLen = 100"

definition StrLenCacheDel :: "nat option \<Rightarrow> strmem \<Rightarrow> strmem" where
  "StrLenCacheDel p s = s\<lparr>sm_cache := map (\<lambda>(q, n). if q = p then (None, n) else (q, n)) (sm_cache s)\<rparr>"

definition StrLenCacheUpdate :: "nat \<Rightarrow> int \<Rightarrow> strmem \<Rightarrow> strmem" where
  "StrLenCacheUpdate a incr s =
     s\<lparr>sm_cache := map (\<lambda>(q, n). if q = Some a then (q, nat (int n + incr)) else (q, n)) (sm_cache s)\<rparr>"

text \<open>The cache with a new length for a string that is in it.\<close>

fun cache_set :: "nat \<Rightarrow> nat \<Rightarrow> (nat option \<times> nat) list \<Rightarrow> (nat option \<times> nat) list option" where
  "cache_set a n [] = None"
| "cache_set a n ((q, m) # r) = (if q = Some a then Some ((q, n) # r) else map_option (Cons (q, m)) (cache_set a n r))"

text \<open>The last empty slot.\<close>

fun last_empty :: "nat \<Rightarrow> (nat option \<times> nat) list \<Rightarrow> nat option" where
  "last_empty i [] = None"
| "last_empty i ((q, m) # r) =
     (case last_empty (Suc i) r of Some k \<Rightarrow> Some k | None \<Rightarrow> if q = None then Some i else None)"

definition StrLenCacheAdd :: "nat \<Rightarrow> nat \<Rightarrow> strmem \<Rightarrow> strmem" where
  "StrLenCacheAdd a len s =
     (let c = (if sm_cache s = [] then replicate 20 (None, 0) else sm_cache s) in
      case cache_set a len c of Some c1 \<Rightarrow> s\<lparr>sm_cache := c1\<rparr>
      | None \<Rightarrow>
         if len \<le> StrLenCacheMinLen then s\<lparr>sm_cache := c\<rparr>
         else case last_empty 0 c of
             Some i \<Rightarrow> s\<lparr>sm_cache := c[i := (Some a, len)]\<rparr>
           | None \<Rightarrow> (case sm_rand s of
               [] \<Rightarrow> s\<lparr>sm_cache := c[0 := (Some a, len)]\<rparr>
             | r # rs \<Rightarrow> s\<lparr>sm_cache := c[r mod length c := (Some a, len)], sm_rand := rs\<rparr>))"

definition StrLenFromCache :: "nat option \<Rightarrow> strmem \<Rightarrow> nat res" where
  "StrLenFromCache p s =
     (case p of None \<Rightarrow> Inr 0
      | Some a \<Rightarrow> bindr (get_buf a s) (\<lambda>b.
          if b \<noteq> [] \<and> hd b = NUL then Inr 0
          else case map_of (sm_cache s) (Some a) of
              Some n \<Rightarrow> if b = [] then Inl BadPointer else Inr n
            | None \<Rightarrow> bindr (get_string a s) (\<lambda>t. Inr (length t))))"

section \<open>Making and growing strings\<close>

definition Destroy :: "nat option \<Rightarrow> strmem \<Rightarrow> strmem res" where
  "Destroy p s =
     (case p of None \<Rightarrow> Inr s
      | Some a \<Rightarrow> bindr (get_buf a s) (\<lambda>_. Inr (drop_buf a (StrLenCacheDel p s))))"

definition SetStrLen :: "nat option \<Rightarrow> nat \<Rightarrow> strmem \<Rightarrow> (nat \<times> strmem) res" where
  "SetStrLen p len s = bindr (realloc p (len + 8) (StrLenCacheDel p s)) (\<lambda>(a, s1).
     Inr (a, if StrLenCacheMinLen < len then StrLenCacheAdd a len s1 else s1))"

text \<open>The text that is written, and its end.\<close>

definition copied :: "string option \<Rightarrow> nat \<Rightarrow> string" where
  "copied src len = take len (CopyStr src) @ [NUL]"

definition CopyStrLen :: "nat option \<Rightarrow> string option \<Rightarrow> nat \<Rightarrow> strmem \<Rightarrow> (nat \<times> strmem) res" where
  "CopyStrLen p src len s = bindr (SetStrLen p len s) (\<lambda>(a, s1).
     bindr (put_bytes a 0 (copied src len) s1) (\<lambda>s2. Inr (a, s2)))"

definition CatStrLen :: "nat option \<Rightarrow> string option \<Rightarrow> nat \<Rightarrow> strmem \<Rightarrow> (nat \<times> strmem) res" where
  "CatStrLen p src len s = bindr (StrLenFromCache p s) (\<lambda>dstlen.
     bindr (SetStrLen p (dstlen + len) s) (\<lambda>(a, s1).
       bindr (put_bytes a dstlen (copied src len) s1) (\<lambda>s2. Inr (a, s2))))"

definition CatStr :: "nat option \<Rightarrow> string option \<Rightarrow> strmem \<Rightarrow> (nat \<times> strmem) res" where
  "CatStr p src s = CatStrLen p src (StrLen src) s"

text \<open>\<open>*Dest=0\<close>, when there is a destination.\<close>

definition make_empty :: "nat option \<Rightarrow> strmem \<Rightarrow> strmem res" where
  "make_empty p s = (case p of None \<Rightarrow> Inr s | Some a \<Rightarrow> put_bytes a 0 [NUL] s)"

definition CopyStr_buf :: "nat option \<Rightarrow> string option \<Rightarrow> strmem \<Rightarrow> (nat \<times> strmem) res" where
  "CopyStr_buf p src s = bindr (make_empty p s) (CatStr p src)"

text \<open>The loop of \<open>VCatStr\<close> over the arguments before the first \<open>NULL\<close>.\<close>

fun vcat_loop :: "nat \<Rightarrow> nat \<Rightarrow> string option list \<Rightarrow> strmem \<Rightarrow> (nat \<times> strmem) res" where
  "vcat_loop a len (Some t # r) s =
     (if t = [] then vcat_loop a len r s
      else bindr (SetStrLen (Some a) (len + length t) s) (\<lambda>(a1, s1).
        bindr (put_bytes a1 len t s1) (\<lambda>s2. vcat_loop a1 (len + length t) r s2)))"
| "vcat_loop a len _ s = bindr (put_bytes a len [NUL] s) (\<lambda>s1. Inr (a, s1))"

definition VCatStr :: "nat option \<Rightarrow> string option list \<Rightarrow> strmem \<Rightarrow> (nat \<times> strmem) res" where
  "VCatStr p strs s =
     bindr (case p of
         Some a \<Rightarrow> bindr (StrLenFromCache p s) (\<lambda>len. Inr (a, len, s))
       | None \<Rightarrow> bindr (SetStrLen None (case strs of Some t # _ \<Rightarrow> length t | _ \<Rightarrow> 0) s) (\<lambda>(a, s1). Inr (a, 0, s1)))
       (\<lambda>(a, len, s1). case strs of Some _ # _ \<Rightarrow> vcat_loop a len strs s1 | _ \<Rightarrow> Inr (a, s1))"

definition InternalMCatStr :: "nat option \<Rightarrow> string option list \<Rightarrow> strmem \<Rightarrow> (nat \<times> strmem) res" where
  "InternalMCatStr p strs s = VCatStr p strs s"

definition InternalMCopyStr :: "nat option \<Rightarrow> string option list \<Rightarrow> strmem \<Rightarrow> (nat \<times> strmem) res" where
  "InternalMCopyStr p strs s = bindr (make_empty p s) (VCatStr p strs)"

definition AddCharToStr_buf :: "nat option \<Rightarrow> char \<Rightarrow> strmem \<Rightarrow> (nat \<times> strmem) res" where
  "AddCharToStr_buf p c s = CatStrLen p (Some (cut_at_NUL [c])) 1 s"

text \<open>The buffer is made as long as the string was before the character was added.\<close>

definition AddCharToBuffer_buf :: "nat option \<Rightarrow> nat \<Rightarrow> char \<Rightarrow> strmem \<Rightarrow> (nat \<times> strmem) res" where
  "AddCharToBuffer_buf p len c s = bindr (SetStrLen p len s) (\<lambda>(a, s1).
     bindr (put_bytes a len [c, NUL] s1) (\<lambda>s2. Inr (a, s2)))"

definition AddBytesToBuffer :: "nat option \<Rightarrow> nat \<Rightarrow> string \<Rightarrow> strmem \<Rightarrow> (nat \<times> strmem) res" where
  "AddBytesToBuffer p len cs s = bindr (SetStrLen p (len + length cs) s) (\<lambda>(a, s1).
     bindr (put_bytes a len cs s1) (\<lambda>s2. Inr (a, s2)))"

section \<open>Shortening strings\<close>

definition StrTrunc_buf :: "nat option \<Rightarrow> nat \<Rightarrow> strmem \<Rightarrow> strmem res" where
  "StrTrunc_buf p n s =
     (case p of None \<Rightarrow> Inr s
      | Some a \<Rightarrow> bindr (get_string a s) (\<lambda>t.
          if n < length t then bindr (put_bytes a n [NUL] s) (\<lambda>s1. Inr (StrLenCacheAdd a n s1)) else Inr s))"

text \<open>
  \<open>StripTrailingWhitespace\<close> and \<open>StripCRLF\<close> overwrite the characters at the end; with the length from the cache,
  the bytes they look at may lie behind the end of the string.
\<close>

fun trailing :: "(char \<Rightarrow> bool) \<Rightarrow> string \<Rightarrow> nat" where
  "trailing P b = length (takeWhile P (rev b))"

definition strip_end :: "(char \<Rightarrow> bool) \<Rightarrow> nat option \<Rightarrow> strmem \<Rightarrow> strmem res" where
  "strip_end P p s = bindr (StrLenFromCache p s) (\<lambda>len.
     if len = 0 then Inr s
     else case p of None \<Rightarrow> Inr s
     | Some a \<Rightarrow> bindr (get_buf a s) (\<lambda>b.
         if length b < len then Inl BadPointer
         else let k = trailing P (take len b) in put_bytes a (len - k) (replicate k NUL) (StrLenCacheDel p s)))"

definition StripTrailingWhitespace_buf :: "nat option \<Rightarrow> strmem \<Rightarrow> strmem res" where
  "StripTrailingWhitespace_buf p s = strip_end isspace p s"

definition StripCRLF_buf :: "nat option \<Rightarrow> strmem \<Rightarrow> strmem res" where
  "StripCRLF_buf p s = strip_end (\<lambda>c. c = LF \<or> c = CR \<or> c = NUL) p s"

definition StripLeadingWhitespace_buf :: "nat option \<Rightarrow> strmem \<Rightarrow> strmem res" where
  "StripLeadingWhitespace_buf p s =
     (case p of None \<Rightarrow> Inr s
      | Some a \<Rightarrow> bindr (get_string a s) (\<lambda>t.
          let r = dropWhile isspace t in
          bindr (put_bytes a 0 (r @ [NUL]) s) (\<lambda>s1. Inr (StrLenCacheAdd a (length r) s1))))"

section \<open>Padding\<close>

fun pad_chars :: "nat \<Rightarrow> nat \<Rightarrow> char \<Rightarrow> nat option \<Rightarrow> strmem \<Rightarrow> (nat option \<times> strmem) res" where
  "pad_chars i 0 c p s = Inr (p, s)"
| "pad_chars i (Suc n) c p s = bindr (AddCharToBuffer_buf p i c s) (\<lambda>(a, s1). pad_chars (Suc i) n c (Some a) s1)"

definition the_string :: "nat option \<Rightarrow> strmem \<Rightarrow> string option res" where
  "the_string p s = (case p of None \<Rightarrow> Inr None | Some a \<Rightarrow> bindr (get_string a s) (\<lambda>t. Inr (Some t)))"

definition PadStr :: "nat option \<Rightarrow> char \<Rightarrow> int \<Rightarrow> strmem \<Rightarrow> (nat option \<times> strmem) res" where
  "PadStr p c n s =
     (if n = 0 then Inr (p, s)
      else bindr (pad_chars 0 (nat \<bar>n\<bar>) c None s) (\<lambda>(q, s1).
        if 0 < n then
          bindr (the_string q s1) (\<lambda>t. bindr (CatStr p t s1) (\<lambda>(a, s2). bindr (Destroy q s2) (\<lambda>s3. Inr (Some a, s3))))
        else
          bindr (the_string p s1) (\<lambda>t. bindr (CatStr q t s1) (\<lambda>(a, s2). bindr (Destroy p s2) (\<lambda>s3. Inr (Some a, s3))))))"

definition PadStrTo :: "nat option \<Rightarrow> char \<Rightarrow> int \<Rightarrow> strmem \<Rightarrow> (nat option \<times> strmem) res" where
  "PadStrTo p c n s =
     (if n = 0 then Inr (p, s)
      else bindr (StrLenFromCache p s) (\<lambda>len.
        if int len < \<bar>n\<bar> then PadStr p c (if 0 < n then n - int len else n + int len) s else Inr (p, s)))"

definition CopyPadStr :: "nat option \<Rightarrow> string option \<Rightarrow> char \<Rightarrow> int \<Rightarrow> strmem \<Rightarrow> (nat option \<times> strmem) res" where
  "CopyPadStr p src c n s = bindr (CopyStr_buf p src s) (\<lambda>(a, s1). PadStr (Some a) c n s1)"

definition CopyPadStrTo :: "nat option \<Rightarrow> string option \<Rightarrow> char \<Rightarrow> int \<Rightarrow> strmem \<Rightarrow> (nat option \<times> strmem) res" where
  "CopyPadStrTo p src c n s = bindr (CopyStr_buf p src s) (\<lambda>(a, s1). PadStrTo (Some a) c n s1)"

end
