(* ===== verification/StrLenCacheProperties.thy ===== *)
theory StrLenCacheProperties
  imports StrLenCache Simulation
begin

text \<open>
  Used through the functions that know about the cache, strings in memory behave as their contents: the cached
  lengths are right whatever the allocator does.  Three functions leave wrong lengths behind.
\<close>

section \<open>The invariant of the cache\<close>

definition cache_keys :: "(nat option \<times> nat) list \<Rightarrow> nat option list" where
  "cache_keys c = filter (\<lambda>q. q \<noteq> None) (map fst c)"

definition cached :: "strmem \<Rightarrow> nat \<Rightarrow> nat \<Rightarrow> bool" where
  "cached s a n \<longleftrightarrow> (Some a, n) \<in> set (sm_cache s)"

text \<open>The allocator does not give out a block that is in use, except to the one who let it grow.\<close>

definition allocator :: "strmem \<Rightarrow> bool" where
  "allocator s \<longleftrightarrow> (\<forall>live p n. sm_place s live p n \<notin> set live \<or> Some (sm_place s live p n) = p)"

text \<open>
  Everything is in order, except for the string at \<open>x\<close>, which is being worked on.  The cached length of an empty
  string does not matter.
\<close>

definition sound_but :: "nat option \<Rightarrow> strmem \<Rightarrow> bool" where
  "sound_but x s \<longleftrightarrow> allocator s \<and> distinct (cache_keys (sm_cache s)) \<and>
     (\<forall>a b. map_of (sm_bufs s) a = Some b \<and> Some a \<noteq> x \<longrightarrow> NUL \<in> set b) \<and>
     (\<forall>a n. cached s a n \<and> Some a \<noteq> x \<longrightarrow> 
       (\<exists>b. map_of (sm_bufs s) a = Some b \<and> (n = length (cut_at_NUL b) \<or> cut_at_NUL b = [])))"

abbreviation sound :: "strmem \<Rightarrow> bool" where "sound \<equiv> sound_but None"

lemma map_of_filter_key: "map_of (filter (\<lambda>(x, _). x \<noteq> a) xs) = (map_of xs)(a := None)"
  by (induction xs) (auto simp: fun_eq_iff)

lemma bufs_simps [simp]:
  "map_of (sm_bufs (set_buf a b s)) = (map_of (sm_bufs s))(a \<mapsto> b)"
  "map_of (sm_bufs (drop_buf a s)) = (map_of (sm_bufs s))(a := None)"
  "sm_cache (set_buf a b s) = sm_cache s" "sm_cache (drop_buf a s) = sm_cache s"
  "sm_place (set_buf a b s) = sm_place s" "sm_place (drop_buf a s) = sm_place s"
  "sm_junk (set_buf a b s) = sm_junk s" "sm_junk (drop_buf a s) = sm_junk s"
  by (simp_all add: set_buf_def drop_buf_def map_of_filter_key)

lemma allocator_cong: "sm_place s = sm_place t \<Longrightarrow> allocator s = allocator t"
  by (simp add: allocator_def)

lemma allocator_simps [simp]:
  "allocator (set_buf a b s) = allocator s" "allocator (drop_buf a s) = allocator s"
  by (simp_all add: allocator_def)

lemma cached_simps [simp]:
  "cached (set_buf a b s) = cached s" "cached (drop_buf a s) = cached s"
  by (simp_all add: cached_def fun_eq_iff)

lemma Del_simps [simp]:
  "sm_bufs (StrLenCacheDel p s) = sm_bufs s" "sm_place (StrLenCacheDel p s) = sm_place s"
  "sm_junk (StrLenCacheDel p s) = sm_junk s" "allocator (StrLenCacheDel p s) = allocator s"
  "cached (StrLenCacheDel p s) a n \<longleftrightarrow> cached s a n \<and> Some a \<noteq> p"
  by (force simp: StrLenCacheDel_def cached_def allocator_def split: if_splits)+

lemma keys_Del:
  "cache_keys (map (\<lambda>(q, n). if q = p then (None, n) else (q, n)) c) = filter (\<lambda>q. q \<noteq> p) (cache_keys c)"
  by (induction c) (auto simp: cache_keys_def)

lemma distinct_keys_Del: "distinct (cache_keys (sm_cache s)) \<Longrightarrow> distinct (cache_keys (sm_cache (StrLenCacheDel p s)))"
  by (simp add: StrLenCacheDel_def keys_Del)

lemma cache_set_Some:
  "cache_set a n c = Some c1 \<Longrightarrow> distinct (cache_keys c) \<Longrightarrow>
     cache_keys c1 = cache_keys c \<and> (\<forall>x m. (Some x, m) \<in> set c1 \<longrightarrow> (x = a \<and> m = n) \<or> (x \<noteq> a \<and> (Some x, m) \<in> set c))"
proof (induction c arbitrary: c1)
  case (Cons e c)
  obtain q m where e: "e = (q, m)" by (cases e)
  show ?case
  proof (cases "q = Some a")
    case True
    then have "(Some a, k) \<notin> set c" for k using Cons.prems(2) e by (force simp: cache_keys_def)
    then show ?thesis using True Cons.prems e by (auto simp: cache_keys_def)
  next
    case False
    then obtain c2 where "cache_set a n c = Some c2" "c1 = (q, m) # c2" using Cons.prems(1) e by auto
    moreover have "distinct (cache_keys c)" using Cons.prems(2) by (auto simp: cache_keys_def split: if_splits)
    ultimately show ?thesis using Cons.IH [of c2] False e by (auto simp: cache_keys_def)
  qed
qed simp

lemma cache_set_None: "cache_set a n c = None \<Longrightarrow> (Some a, m) \<notin> set c"
  by (induction c) (auto split: if_splits)

lemma distinct_filter_update:
  "distinct (filter P xs) \<Longrightarrow> y \<notin> set xs \<Longrightarrow> distinct (filter P (xs[i := y]))"
proof (induction xs arbitrary: i)
  case (Cons x xs)
  have "set (filter P (xs[j := y])) \<subseteq> insert y (set (filter P xs))" for j
    using set_update_subset_insert [of xs j y] by auto
  then show ?case using Cons by (cases i) (auto split: if_splits)
qed simp

lemma cache_put:
  assumes "distinct (cache_keys c)" "cache_set a n c = None"
  shows "distinct (cache_keys (c[i := (Some a, n)])) \<and>
    (\<forall>x m. (Some x, m) \<in> set (c[i := (Some a, n)]) \<longrightarrow> (x = a \<and> m = n) \<or> (x \<noteq> a \<and> (Some x, m) \<in> set c))"
proof -
  have "Some a \<notin> set (map fst c)" using cache_set_None [OF assms(2)] by auto
  then have "distinct (cache_keys (c[i := (Some a, n)]))"
    using assms(1) distinct_filter_update [of "\<lambda>q. q \<noteq> None" "map fst c" "Some a" i]
    by (simp add: cache_keys_def map_update)
  then show ?thesis
    using set_update_subset_insert [of c i "(Some a, n)"] cache_set_None [OF assms(2)] by blast
qed

lemma Add_cache:
  assumes "distinct (cache_keys (sm_cache s))"
  shows "distinct (cache_keys (sm_cache (StrLenCacheAdd a n s)))"
    "cached (StrLenCacheAdd a n s) x m \<Longrightarrow> x = a \<and> m = n \<or> x \<noteq> a \<and> cached s x m"
proof -
  define c where "c = (if sm_cache s = [] then replicate 20 (None, 0 :: nat) else sm_cache s)"
  have c: "distinct (cache_keys c)" "\<And>x m. (Some x, m) \<in> set c \<Longrightarrow> (Some x, m) \<in> set (sm_cache s)"
    using assms by (auto simp: c_def cache_keys_def split: if_splits)
  have "distinct (cache_keys (sm_cache (StrLenCacheAdd a n s))) \<and>
      (\<forall>x m. (Some x, m) \<in> set (sm_cache (StrLenCacheAdd a n s)) \<longrightarrow> (x = a \<and> m = n) \<or> (x \<noteq> a \<and> (Some x, m) \<in> set c))"
  proof (cases "cache_set a n c")
    case (Some c1)
    then show ?thesis using cache_set_Some [OF Some c(1)] c(1) by (simp add: StrLenCacheAdd_def c_def [symmetric])
  next
    case None
    then have "(Some a, m) \<notin> set c" for m by (rule cache_set_None)
    with None c(1) cache_put [OF c(1) None] show ?thesis
      by (auto simp: StrLenCacheAdd_def c_def [symmetric] Let_def split: option.split list.split)
  qed
  then show "distinct (cache_keys (sm_cache (StrLenCacheAdd a n s)))"
    "cached (StrLenCacheAdd a n s) x m \<Longrightarrow> x = a \<and> m = n \<or> x \<noteq> a \<and> cached s x m"
    using c(2) by (auto simp: cached_def)
qed

lemma Add_simps [simp]:
  "sm_bufs (StrLenCacheAdd a n s) = sm_bufs s" "sm_place (StrLenCacheAdd a n s) = sm_place s"
  "sm_junk (StrLenCacheAdd a n s) = sm_junk s" "allocator (StrLenCacheAdd a n s) = allocator s"
  by (auto simp: StrLenCacheAdd_def Let_def allocator_def split: option.split list.split)

section \<open>Steps of the operations\<close>

definition strings :: "strmem \<Rightarrow> nat \<Rightarrow> string option" where
  "strings s a = map_option cut_at_NUL (map_of (sm_bufs s) a)"

definition without :: "nat option \<Rightarrow> (nat \<Rightarrow> 'a option) \<Rightarrow> nat \<Rightarrow> 'a option" where
  "without p m = (case p of None \<Rightarrow> m | Some q \<Rightarrow> m(q := None))"

lemma without_simps [simp]: "without None m = m" "without (Some q) m = m(q := None)"
  by (simp_all add: without_def)

lemma cut_at_NUL_append: "NUL \<notin> set t \<Longrightarrow> cut_at_NUL (t @ NUL # r) = t"
  by (induction t) (auto simp: cut_at_NUL_def)

lemma cut_at_NUL_no_NUL: "NUL \<notin> set (cut_at_NUL b)"
  by (auto simp: cut_at_NUL_def dest: set_takeWhileD)

lemma cut_at_NUL_less: "NUL \<in> set b \<Longrightarrow> length (cut_at_NUL b) < length b"
  by (induction b) (auto simp: cut_at_NUL_def)

lemma take_cut_at_NUL: "take (length (cut_at_NUL b)) b = cut_at_NUL b"
  by (simp add: cut_at_NUL_def takeWhile_eq_take [symmetric] flip: takeWhile_eq_take)

lemma sound_weaken: "sound s \<Longrightarrow> sound_but x s"
  by (auto simp: sound_but_def)

lemma sound_finish:
  assumes "sound_but (Some a) s" "map_of (sm_bufs s) a = Some b" "NUL \<in> set b"
    "\<And>m. cached s a m \<Longrightarrow> cut_at_NUL b \<noteq> [] \<Longrightarrow> m = length (cut_at_NUL b)"
  shows "sound s"
  unfolding sound_but_def
proof (intro conjI allI impI)
  show "\<exists>b. map_of (sm_bufs s) x = Some b \<and> (n = length (cut_at_NUL b) \<or> cut_at_NUL b = [])"
    if "cached s x n \<and> Some x \<noteq> None" for x n
    using assms that by (cases "x = a") (auto simp: sound_but_def)
  show "NUL \<in> set c" if "map_of (sm_bufs s) x = Some c \<and> Some x \<noteq> None" for x c
    using assms that by (cases "x = a") (auto simp: sound_but_def)
qed (use assms in \<open>simp_all add: sound_but_def\<close>)

definition live :: "nat option \<Rightarrow> strmem \<Rightarrow> bool" where
  "live p s \<longleftrightarrow> (case p of None \<Rightarrow> True | Some q \<Rightarrow> map_of (sm_bufs s) q \<noteq> None)"

definition bytes_at :: "nat option \<Rightarrow> strmem \<Rightarrow> string" where
  "bytes_at p s = (case p of None \<Rightarrow> [] | Some q \<Rightarrow> the (map_of (sm_bufs s) q))"

lemma realloc_sound:
  assumes "sound_but p s" "live p s"
  obtains a b s1 where "realloc p n s = Inr (a, s1)" "map_of (sm_bufs s1) = (without p (map_of (sm_bufs s)))(a \<mapsto> b)"
    "length b = n" "\<And>k. k \<le> length (bytes_at p s) \<Longrightarrow> k \<le> n \<Longrightarrow> take k b = take k (bytes_at p s)"
    "Some a = p \<or> map_of (sm_bufs s) a = None" "sm_cache s1 = sm_cache s" "sm_place s1 = sm_place s"
    "p = None \<Longrightarrow> b = replicate n NUL"
proof -
  define a where "a = sm_place s (map fst (sm_bufs s)) p n"
  have "a \<notin> set (map fst (sm_bufs s)) \<or> Some a = p" using assms(1) unfolding sound_but_def allocator_def a_def by blast
  then have fresh: "Some a = p \<or> map_of (sm_bufs s) a = None" by (auto simp: map_of_eq_None_iff)
  show ?thesis
  proof (cases p)
    case None
    show ?thesis
      by (rule that [of a "set_buf a (replicate n NUL) s" "replicate n NUL"])
        (use None fresh in \<open>simp_all add: realloc_def Let_def a_def bytes_at_def\<close>)
  next
    case (Some q)
    then obtain b0 where b0: "map_of (sm_bufs s) q = Some b0" using assms(2) by (auto simp: live_def)
    show ?thesis
      by (rule that [of a "set_buf a (take n b0 @ replicate (n - length b0) (sm_junk s)) (drop_buf q s)"
            "take n b0 @ replicate (n - length b0) (sm_junk s)"])
        (use Some b0 fresh in \<open>simp_all add: realloc_def Let_def a_def bytes_at_def get_buf_def min_def\<close>)
  qed
qed

lemma SetStrLen_sound:
  assumes "sound_but p s" "live p s"
  obtains a b s1 where "SetStrLen p n s = Inr (a, s1)" "map_of (sm_bufs s1) = (without p (map_of (sm_bufs s)))(a \<mapsto> b)"
    "length b = n + 8" "\<And>k. k \<le> length (bytes_at p s) \<Longrightarrow> k \<le> n + 8 \<Longrightarrow> take k b = take k (bytes_at p s)"
    "Some a = p \<or> map_of (sm_bufs s) a = None" "sound_but (Some a) s1" "\<And>m. cached s1 a m \<Longrightarrow> m = n"
    "p = None \<Longrightarrow> b = replicate (n + 8) NUL"
proof -
  have S: "sound_but p (StrLenCacheDel p s)" "live p (StrLenCacheDel p s)"
    "bytes_at p (StrLenCacheDel p s) = bytes_at p s"
    using assms distinct_keys_Del [of s p] by (cases p; auto simp: sound_but_def live_def bytes_at_def)+
  obtain a b s1 where r: "realloc p (n + 8) (StrLenCacheDel p s) = Inr (a, s1)"
      "map_of (sm_bufs s1) = (without p (map_of (sm_bufs s)))(a \<mapsto> b)"
      "length b = n + 8" "\<And>k. k \<le> length (bytes_at p s) \<Longrightarrow> k \<le> n + 8 \<Longrightarrow> take k b = take k (bytes_at p s)"
      "Some a = p \<or> map_of (sm_bufs s) a = None" "sm_cache s1 = sm_cache (StrLenCacheDel p s)" "sm_place s1 = sm_place s"
      "p = None \<Longrightarrow> b = replicate (n + 8) NUL"
    by (rule realloc_sound [OF S(1,2), where n = "n + 8", unfolded S(3) Del_simps(1,2)]) (rule that; assumption)
  have c: "cached s1 x m \<longleftrightarrow> cached s x m \<and> Some x \<noteq> p" for x m
    using r(6) Del_simps(5) [of p s x m] by (simp add: cached_def)
  have al: "allocator s1" using assms(1) r(7) allocator_cong [of s1 s] by (simp add: sound_but_def)
  have no_a: "\<not> cached s1 a m" for m using assms(1) c r(5) by (fastforce simp: sound_but_def)
  have keys: "distinct (cache_keys (sm_cache s1))" using r(6) S(1) by (simp add: sound_but_def)
  have s1: "sound_but (Some a) s1"
    using assms(1) r(2) c al keys by (cases p) (auto simp: sound_but_def split: if_splits)
  show ?thesis
  proof (cases "StrLenCacheMinLen < n")
    case True
    then have run: "SetStrLen p n s = Inr (a, StrLenCacheAdd a n s1)" using r(1) by (simp add: SetStrLen_def)
    have "sound_but (Some a) (StrLenCacheAdd a n s1)"
      using s1 Add_cache [OF keys] by (fastforce simp: sound_but_def)
    then show ?thesis using that [OF run _ r(3,4,5)] r(2,8) Add_cache(2) [OF keys] by auto
  next
    case False
    then have run: "SetStrLen p n s = Inr (a, s1)" using r(1) by (simp add: SetStrLen_def)
    then show ?thesis using that [OF run r(2-5) s1 _ r(8)] no_a by blast
  qed
qed

lemma SetStrLen_keeps:
  assumes "sound_but p s" "live p s" "k \<le> length (bytes_at p s)"
  obtains a b s1 where "SetStrLen p (k + n) s = Inr (a, s1)"
    "map_of (sm_bufs s1) = (without p (map_of (sm_bufs s)))(a \<mapsto> b)" "length b = k + n + 8"
    "take k b = take k (bytes_at p s)" "Some a = p \<or> map_of (sm_bufs s) a = None" "sound_but (Some a) s1"
    "\<And>m. cached s1 a m \<Longrightarrow> m = k + n" "p = None \<Longrightarrow> b = replicate (k + n + 8) NUL"
  by (rule SetStrLen_sound [OF assms(1,2), where n = "k + n"]) (rule that; use assms(3) in simp)

lemma put_bytes_sound:
  assumes "sound_but (Some a) s" "map_of (sm_bufs s) a = Some b" "i + length cs \<le> length b"
  obtains s1 where "put_bytes a i cs s = Inr s1" "sound_but (Some a) s1"
    "map_of (sm_bufs s1) = (map_of (sm_bufs s))(a \<mapsto> take i b @ cs @ drop (i + length cs) b)" "cached s1 = cached s"
proof -
  define s1 where "s1 = set_buf a (take i b @ cs @ drop (i + length cs) b) s"
  have "put_bytes a i cs s = Inr s1" using assms by (simp add: put_bytes_def get_buf_def s1_def)
  moreover have "sound_but (Some a) s1" using assms(1) by (auto simp: sound_but_def s1_def)
  ultimately show ?thesis using that by (simp add: s1_def)
qed

text \<open>Growing the string and writing at its end, as all operations do.\<close>

lemma strings_update:
  "map_of (sm_bufs s1) = (without p (map_of (sm_bufs s)))(a \<mapsto> b) \<Longrightarrow>
     strings s1 = (without p (strings s))(a \<mapsto> cut_at_NUL b)"
  by (cases p) (auto simp: strings_def fun_eq_iff)

lemma grow_and_write:
  assumes "sound_but p s" "live p s" "k \<le> length (bytes_at p s)" "take k (bytes_at p s) = t" "NUL \<notin> set t" "NUL \<notin> set cs"
    "length cs \<le> n"
  obtains a s1 where
    "bindr (SetStrLen p (k + n) s) (\<lambda>(a, s1). bindr (put_bytes a k (cs @ [NUL]) s1) (\<lambda>s2. Inr (a, s2))) = Inr (a, s1)"
    "length cs = n \<Longrightarrow> sound s1" "strings s1 = (without p (strings s))(a \<mapsto> t @ cs)"
    "Some a = p \<or> strings s a = None"
proof -
  obtain a b s1 where S: "SetStrLen p (k + n) s = Inr (a, s1)"
      "map_of (sm_bufs s1) = (without p (map_of (sm_bufs s)))(a \<mapsto> b)" "length b = k + n + 8"
      "take k b = take k (bytes_at p s)" "Some a = p \<or> map_of (sm_bufs s) a = None" "sound_but (Some a) s1"
      "\<And>m. cached s1 a m \<Longrightarrow> m = k + n"
    by (rule SetStrLen_keeps [OF assms(1-3), where n = n]) (rule that; assumption)
  have b: "map_of (sm_bufs s1) a = Some b" "k + length (cs @ [NUL]) \<le> length b" using S(2,3) assms(7) by simp_all
  obtain s2 where P: "put_bytes a k (cs @ [NUL]) s1 = Inr s2" "sound_but (Some a) s2"
      "map_of (sm_bufs s2) = (map_of (sm_bufs s1))(a \<mapsto> take k b @ (cs @ [NUL]) @ drop (k + length (cs @ [NUL])) b)"
      "cached s2 = cached s1"
    using put_bytes_sound [OF S(6) b] by blast
  define b2 where "b2 = take k b @ (cs @ [NUL]) @ drop (k + length (cs @ [NUL])) b"
  have cut: "cut_at_NUL b2 = t @ cs"
    using cut_at_NUL_append [of "t @ cs" "drop (k + length (cs @ [NUL])) b"] assms(4-6) S(4) by (simp add: b2_def)
  have t: "length t = k" using assms(3,4) by auto
  have bufs: "map_of (sm_bufs s2) = (without p (map_of (sm_bufs s)))(a \<mapsto> b2)" using P(3) S(2) by (simp add: b2_def)
  have "sound s2" if "length cs = n"
    by (rule sound_finish [OF P(2), of b2]) (use bufs P(4) S(7) cut t that in \<open>auto simp: b2_def\<close>)
  moreover have "strings s2 = (without p (strings s))(a \<mapsto> t @ cs)" using strings_update [OF bufs] cut by simp
  moreover have "Some a = p \<or> strings s a = None" using S(5) by (auto simp: strings_def)
  ultimately show ?thesis using that [of a s2] S(1) P(1) by simp
qed

lemma StrLenFromCache_sound:
  assumes "sound s" "strings s a = Some t"
  shows "StrLenFromCache (Some a) s = Inr (length t)"
proof -
  obtain b where b: "map_of (sm_bufs s) a = Some b" "t = cut_at_NUL b" using assms(2) by (auto simp: strings_def)
  have N: "NUL \<in> set b" using assms(1) b(1) by (auto simp: sound_but_def)
  then have ne: "b \<noteq> []" by auto
  have c: "n = length t" if "map_of (sm_cache s) (Some a) = Some n" "t \<noteq> []" for n
    using assms(1) b map_of_SomeD [OF that(1)] that(2) by (fastforce simp: sound_but_def cached_def)
  have "hd b = NUL \<longleftrightarrow> t = []" using ne b(2) by (cases b) (auto simp: cut_at_NUL_def)
  then show ?thesis
    using b N ne c by (auto simp: StrLenFromCache_def get_buf_def get_string_def split: option.split)
qed

lemma StrLenFromCache_first_NUL:
  assumes "map_of (sm_bufs s) a = Some (NUL # b)"
  shows "StrLenFromCache (Some a) s = Inr 0"
  using assms by (simp add: StrLenFromCache_def get_buf_def)

definition text_at :: "nat option \<Rightarrow> strmem \<Rightarrow> string" where
  "text_at p s = (case p of None \<Rightarrow> [] | Some q \<Rightarrow> the (strings s q))"

text \<open>The text of a string that is sound, or has just been made empty.\<close>

definition usable :: "nat option \<Rightarrow> strmem \<Rightarrow> string \<Rightarrow> bool" where
  "usable p s t \<longleftrightarrow> sound_but p s \<and> live p s \<and> StrLenFromCache p s = Inr (length t) \<and> NUL \<notin> set t \<and>
     length t \<le> length (bytes_at p s) \<and> take (length t) (bytes_at p s) = t"

lemma usable_sound:
  assumes "sound s" "p = None \<and> t = [] \<or> (\<exists>q. p = Some q \<and> strings s q = Some t)"
  shows "usable p s t"
proof (cases p)
  case None
  then show ?thesis using assms by (simp add: usable_def live_def StrLenFromCache_def)
next
  case (Some q)
  with assms(2) have q: "strings s q = Some t" by auto
  then obtain b where b: "map_of (sm_bufs s) q = Some b" "t = cut_at_NUL b" by (auto simp: strings_def)
  have "NUL \<in> set b" using assms(1) b(1) by (auto simp: sound_but_def)
  then have "length t < length b" using cut_at_NUL_less b(2) by simp
  then show ?thesis
    using Some b sound_weaken [OF assms(1)] StrLenFromCache_sound [OF assms(1) q] cut_at_NUL_no_NUL take_cut_at_NUL
    by (simp add: usable_def live_def bytes_at_def)
qed

lemma make_empty_sound:
  assumes "sound s" "p = None \<or> (\<exists>q t. p = Some q \<and> strings s q = Some t)"
  obtains s1 where "make_empty p s = Inr s1" "sound s1" "p = None \<or> (\<exists>q. p = Some q \<and> strings s1 q = Some [])"
    "without p (strings s1) = without p (strings s)" "\<And>a. strings s1 a = None \<longleftrightarrow> strings s a = None"
proof (cases p)
  case None
  then show ?thesis using that assms(1) by (simp add: make_empty_def)
next
  case (Some q)
  with assms(2) obtain b where b: "map_of (sm_bufs s) q = Some b" by (auto simp: strings_def)
  have "b \<noteq> []" using assms(1) b by (fastforce simp: sound_but_def)
  then obtain c r where cr: "b = c # r" by (cases b) auto
  obtain s1 where P: "put_bytes q 0 [NUL] s = Inr s1" "sound_but (Some q) s1"
      "map_of (sm_bufs s1) = (map_of (sm_bufs s))(q \<mapsto> NUL # r)"
    using put_bytes_sound [OF sound_weaken [OF assms(1)] b, of 0 "[NUL]"] cr by auto
  have "sound s1" by (rule sound_finish [OF P(2), of "NUL # r"]) (simp_all add: P(3) cut_at_NUL_def)
  then show ?thesis
    by (rule that [rotated]) (use Some P b in \<open>auto simp: make_empty_def strings_def cut_at_NUL_def fun_eq_iff\<close>)
qed

text \<open>What an operation makes of the strings: a new text for \<open>p\<close>, which may have moved.\<close>

definition becomes :: "strmem \<Rightarrow> nat option \<Rightarrow> string \<Rightarrow> (nat \<times> strmem) res \<Rightarrow> bool" where
  "becomes s p t r \<longleftrightarrow> (\<exists>a s1. r = Inr (a, s1) \<and> sound s1 \<and> strings s1 = (without p (strings s))(a \<mapsto> t) \<and>
     (Some a = p \<or> strings s a = None))"

lemma CatStrLen_usable:
  assumes "usable p s t" "n = length (CopyStr src)" "NUL \<notin> set (CopyStr src)"
  shows "becomes s p (t @ CopyStr src) (CatStrLen p src n s)"
proof -
  obtain a s1 where g: "bindr (SetStrLen p (length t + n) s) (\<lambda>(a, s1).
        bindr (put_bytes a (length t) (CopyStr src @ [NUL]) s1) (\<lambda>s2. Inr (a, s2))) = Inr (a, s1)"
      "sound s1" "strings s1 = (without p (strings s))(a \<mapsto> t @ CopyStr src)" "Some a = p \<or> strings s a = None"
    using grow_and_write [of p s "length t" t "CopyStr src" n] assms unfolding usable_def by blast
  have "CatStrLen p src n s = Inr (a, s1)"
    using g(1) assms(1,2) by (simp add: CatStrLen_def copied_def usable_def)
  then show ?thesis using g unfolding becomes_def by blast
qed

lemma CatStr_usable:
  assumes "usable p s t" "NUL \<notin> set (CopyStr src)"
  shows "becomes s p (t @ CopyStr src) (CatStr p src s)"
  using CatStrLen_usable [OF assms(1) _ assms(2)] by (cases src) (simp_all add: CatStr_def)

lemma becomes_from:
  assumes "becomes s1 p t r" "without p (strings s1) = without p (strings s)" "\<And>a. strings s1 a = None \<longleftrightarrow> strings s a = None"
  shows "becomes s p t r"
  using assms by (auto simp: becomes_def)

lemma CopyStr_becomes:
  assumes "sound s" "p = None \<or> (\<exists>q t. p = Some q \<and> strings s q = Some t)" "NUL \<notin> set (CopyStr src)"
  shows "becomes s p (CopyStr src) (CopyStr_buf p src s)"
proof -
  obtain s1 where s1: "make_empty p s = Inr s1" "sound s1" "p = None \<or> (\<exists>q. p = Some q \<and> strings s1 q = Some [])"
    "without p (strings s1) = without p (strings s)" "\<And>a. strings s1 a = None \<longleftrightarrow> strings s a = None"
    by (rule make_empty_sound [OF assms(1,2)]) (rule that; assumption)
  have "usable p s1 []" by (rule usable_sound [OF s1(2)]) (use s1(3) in auto)
  then have "becomes s1 p (CopyStr src) (CatStr p src s1)" using CatStr_usable assms(3) by fastforce
  then show ?thesis using s1(1) becomes_from [OF _ s1(4,5)] by (simp add: CopyStr_buf_def)
qed

text \<open>The arguments of \<open>VCatStr\<close> that count.\<close>

fun joined :: "string option list \<Rightarrow> string" where
  "joined (Some t # r) = t @ joined r"
| "joined _ = []"

lemma vcat_end:
  assumes "sound_but (Some a) s" "map_of (sm_bufs s) a = Some b" "len < length b" "take len b = u" "NUL \<notin> set u"
    "(\<forall>m. cached s a m \<longrightarrow> m = len) \<or> u = []"
  shows "becomes s (Some a) u (bindr (put_bytes a len [NUL] s) (\<lambda>s1. Inr (a, s1)))"
proof -
  have "len + length [NUL] \<le> length b" using assms(3) by simp
  then obtain s1 where P: "put_bytes a len [NUL] s = Inr s1" "sound_but (Some a) s1"
      "map_of (sm_bufs s1) = (map_of (sm_bufs s))(a \<mapsto> take len b @ [NUL] @ drop (len + length [NUL]) b)" "cached s1 = cached s"
    using put_bytes_sound [OF assms(1,2)] by blast
  define b1 where "b1 = u @ NUL # drop (len + 1) b"
  have b1: "map_of (sm_bufs s1) a = Some b1" "cut_at_NUL b1 = u" "length u = len"
    using P(3) assms(3,4,5) cut_at_NUL_append by (auto simp: b1_def)
  have "sound s1"
    by (rule sound_finish [OF P(2) b1(1)]) (use P(4) assms(6) b1 in \<open>auto simp: b1_def\<close>)
  moreover have "strings s1 = (without (Some a) (strings s))(a \<mapsto> u)"
    using P(3) b1(1,2) by (auto simp: strings_def fun_eq_iff)
  ultimately show ?thesis using P(1) by (auto simp: becomes_def)
qed

lemma vcat_loop_becomes:
  assumes "sound_but (Some a) s" "map_of (sm_bufs s) a = Some b" "len < length b" "take len b = u" "NUL \<notin> set u"
    "NUL \<notin> set (joined strs)" "(\<forall>m. cached s a m \<longrightarrow> m = len) \<or> u = [] \<or> (\<exists>t r. strs = Some t # r \<and> t \<noteq> [])"
  shows "becomes s (Some a) (u @ joined strs) (vcat_loop a len strs s)"
  using assms
proof (induction a len strs s arbitrary: b u rule: vcat_loop.induct)
  case (1 a len t r s)
  show ?case
  proof (cases "t = []")
    case True
    then have "(\<forall>m. cached s a m \<longrightarrow> m = len) \<or> u = []" using "1.prems"(7) by simp
    then show ?thesis using "1.IH"(1) [OF True "1.prems"(1-5)] "1.prems"(6) True by auto
  next
    case False
    have lv: "live (Some a) s" "len \<le> length (bytes_at (Some a) s)"
      using "1.prems"(2,3) by (simp_all add: live_def bytes_at_def)
    obtain a1 b1 s1 where S: "SetStrLen (Some a) (len + length t) s = Inr (a1, s1)"
        "map_of (sm_bufs s1) = (without (Some a) (map_of (sm_bufs s)))(a1 \<mapsto> b1)" "length b1 = len + length t + 8"
        "take len b1 = take len (bytes_at (Some a) s)" "Some a1 = Some a \<or> map_of (sm_bufs s) a1 = None"
        "sound_but (Some a1) s1" "\<And>m. cached s1 a1 m \<Longrightarrow> m = len + length t"
      by (rule SetStrLen_keeps [OF "1.prems"(1) lv, where n = "length t"]) (rule that; assumption)
    have b1: "map_of (sm_bufs s1) a1 = Some b1" "len + length t \<le> length b1" using S(2,3) by simp_all
    obtain s2 where P: "put_bytes a1 len t s1 = Inr s2" "sound_but (Some a1) s2"
        "map_of (sm_bufs s2) = (map_of (sm_bufs s1))(a1 \<mapsto> take len b1 @ t @ drop (len + length t) b1)" "cached s2 = cached s1"
      using put_bytes_sound [OF S(6) b1] by blast
    have u: "take len b1 = u" "length u = len" using S(3,4) "1.prems"(2,3,4) by (auto simp: bytes_at_def)
    have "becomes s2 (Some a1) ((u @ t) @ joined r) (vcat_loop a1 (len + length t) r s2)"
      by (rule "1.IH"(2) [OF False S(1) refl P(1) P(2)])
        (use P(3,4) S(3,7) u "1.prems"(5,6) in \<open>auto\<close>)
    then obtain a2 s3 where R: "vcat_loop a1 (len + length t) r s2 = Inr (a2, s3)" "sound s3"
        "strings s3 = (without (Some a1) (strings s2))(a2 \<mapsto> (u @ t) @ joined r)" "Some a2 = Some a1 \<or> strings s2 a2 = None"
      unfolding becomes_def by blast
    have str2: "strings s2 = (strings s)(a := None, a1 := strings s2 a1)"
      using P(3) S(2) by (auto simp: strings_def fun_eq_iff)
    have a1: "a1 = a \<or> strings s a1 = None" using S(5) by (auto simp: strings_def)
    then have "(strings s)(a := None, a1 := None) = (strings s)(a := None)" by (auto simp: fun_eq_iff)
    then have "strings s3 = (without (Some a) (strings s))(a2 \<mapsto> (u @ t) @ joined r)"
      using R(3) str2 by (metis fun_upd_upd without_simps(2))
    moreover have "a2 = a \<or> strings s a2 = None"
      using R(4) a1 fun_cong [OF str2, of a2] by (auto split: if_splits)
    ultimately show ?thesis using False S(1) P(1) R(1,2) by (auto simp: becomes_def)
  qed
qed (use vcat_end in simp_all)

lemma VCatStr_None:
  assumes "sound s" "NUL \<notin> set (joined strs)"
  shows "becomes s None (joined strs) (VCatStr None strs s)"
proof -
  define n where "n = (case strs of Some t # _ \<Rightarrow> length t | _ \<Rightarrow> 0)"
  have lv: "live None s" by (simp add: live_def)
  obtain a b s1 where S: "SetStrLen None (0 + n) s = Inr (a, s1)"
      "map_of (sm_bufs s1) = (without None (map_of (sm_bufs s)))(a \<mapsto> b)" "length b = 0 + n + 8"
      "take 0 b = take 0 (bytes_at None s)" "Some a = None \<or> map_of (sm_bufs s) a = None" "sound_but (Some a) s1"
      "\<And>m. cached s1 a m \<Longrightarrow> m = 0 + n" "None = (None :: nat option) \<Longrightarrow> b = replicate (0 + n + 8) NUL"
    by (rule SetStrLen_keeps [OF assms(1) lv le0, where n = n]) (rule that; assumption)
  have b: "map_of (sm_bufs s1) a = Some b" "cut_at_NUL b = []" "NUL \<in> set b"
    using S(2,8) by (simp_all add: cut_at_NUL_def)
  have fresh: "strings s a = None" "strings s1 = (strings s)(a \<mapsto> [])"
    using S(2,5) b(2) by (auto simp: strings_def fun_eq_iff)
  show ?thesis
  proof (cases "\<exists>t r. strs = Some t # r")
    case False
    then have "VCatStr None strs s = Inr (a, s1)" "joined strs = []"
      using S(1) by (cases strs rule: joined.cases; simp add: VCatStr_def n_def)+
    moreover have "sound s1" by (rule sound_finish [OF S(6) b(1,3)]) (simp add: b(2))
    ultimately show ?thesis using fresh by (auto simp: becomes_def)
  next
    case True
    then have run: "VCatStr None strs s = vcat_loop a 0 strs s1"
      using S(1) by (auto simp: VCatStr_def n_def simp del: vcat_loop.simps)
    have "becomes s1 (Some a) ([] @ joined strs) (vcat_loop a 0 strs s1)"
      by (rule vcat_loop_becomes [OF S(6) b(1)]) (use S(3) assms(2) in simp_all)
    moreover have "(strings s1)(a := None) = strings s" using fresh by (auto simp: fun_eq_iff)
    ultimately show ?thesis using run fresh by (fastforce simp: becomes_def split: if_splits)
  qed
qed

lemma sound_string:
  assumes "sound s" "strings s a = Some t"
  obtains b where "map_of (sm_bufs s) a = Some b" "cut_at_NUL b = t" "NUL \<in> set b" "length t < length b"
    "take (length t) b = t" "NUL \<notin> set t" "(\<forall>m. cached s a m \<longrightarrow> m = length t) \<or> t = []"
proof -
  obtain b where b: "map_of (sm_bufs s) a = Some b" "t = cut_at_NUL b" using assms(2) by (auto simp: strings_def)
  moreover have N: "NUL \<in> set b" using assms(1) b(1) by (auto simp: sound_but_def)
  moreover have "(\<forall>m. cached s a m \<longrightarrow> m = length t) \<or> t = []" using assms(1) b by (fastforce simp: sound_but_def)
  ultimately show ?thesis using that cut_at_NUL_less [OF N] cut_at_NUL_no_NUL take_cut_at_NUL by metis
qed

lemma VCatStr_Some:
  assumes "sound s" "strings s q = Some t" "NUL \<notin> set (joined strs)"
  shows "becomes s (Some q) (t @ joined strs) (VCatStr (Some q) strs s)"
proof -
  obtain b where b: "map_of (sm_bufs s) q = Some b" "length t < length b" "take (length t) b = t" "NUL \<notin> set t"
      "(\<forall>m. cached s q m \<longrightarrow> m = length t) \<or> t = []"
    by (rule sound_string [OF assms(1,2)]) (rule that; assumption)
  note len = StrLenFromCache_sound [OF assms(1,2)]
  show ?thesis
  proof (cases "\<exists>x r. strs = Some x # r")
    case True
    then have "VCatStr (Some q) strs s = vcat_loop q (length t) strs s"
      using len by (auto simp: VCatStr_def simp del: vcat_loop.simps)
    moreover have "becomes s (Some q) (t @ joined strs) (vcat_loop q (length t) strs s)"
      by (rule vcat_loop_becomes [OF sound_weaken [OF assms(1)] b(1)]) (use assms(3) b in auto)
    ultimately show ?thesis by simp
  next
    case False
    then have "VCatStr (Some q) strs s = Inr (q, s)" "joined strs = []"
      using len by (cases strs rule: joined.cases; simp add: VCatStr_def)+
    then show ?thesis using assms(1,2) by (auto simp: becomes_def fun_eq_iff)
  qed
qed

lemma InternalMCopyStr_becomes:
  assumes "sound s" "p = None \<or> (\<exists>q t. p = Some q \<and> strings s q = Some t)" "NUL \<notin> set (joined strs)"
  shows "becomes s p (joined strs) (InternalMCopyStr p strs s)"
proof -
  obtain s1 where s1: "make_empty p s = Inr s1" "sound s1" "p = None \<or> (\<exists>q. p = Some q \<and> strings s1 q = Some [])"
    "without p (strings s1) = without p (strings s)" "\<And>a. strings s1 a = None \<longleftrightarrow> strings s a = None"
    by (rule make_empty_sound [OF assms(1,2)]) (rule that; assumption)
  have "becomes s1 p (joined strs) (VCatStr p strs s1)"
    using VCatStr_None [OF s1(2) assms(3)] VCatStr_Some [OF s1(2) _ assms(3)] s1(3) by fastforce
  then show ?thesis using s1(1) becomes_from [OF _ s1(4,5)] by (simp add: InternalMCopyStr_def)
qed

section \<open>Shortening\<close>

lemma finish_add:
  assumes "sound_but (Some a) s" "map_of (sm_bufs s) a = Some b" "NUL \<in> set b" "cut_at_NUL b = u" "n = length u"
  shows "sound (StrLenCacheAdd a n s)" "strings (StrLenCacheAdd a n s) = strings s"
proof -
  have keys: "distinct (cache_keys (sm_cache s))" using assms(1) by (simp add: sound_but_def)
  have "sound_but (Some a) (StrLenCacheAdd a n s)"
    using assms(1) Add_cache [OF keys] by (fastforce simp: sound_but_def)
  then show "sound (StrLenCacheAdd a n s)"
    by (rule sound_finish [of a _ b]) (use assms Add_cache(2) [OF keys] in auto)
qed (simp add: strings_def fun_eq_iff)

lemma StrTrunc_sound:
  assumes "sound s" "strings s a = Some t"
  obtains s1 where "StrTrunc_buf (Some a) n s = Inr s1" "sound s1" "strings s1 = (strings s)(a \<mapsto> take n t)"
proof -
  obtain b where b: "map_of (sm_bufs s) a = Some b" "cut_at_NUL b = t" "NUL \<in> set b" "length t < length b"
      "take (length t) b = t" "NUL \<notin> set t"
    by (rule sound_string [OF assms]) (rule that; assumption)
  have str: "get_string a s = Inr t" using b by (simp add: get_string_def get_buf_def)
  show ?thesis
  proof (cases "n < length t")
    case False
    then show ?thesis using that [of s] str assms by (auto simp: StrTrunc_buf_def fun_eq_iff)
  next
    case True
    then have "n + length [NUL] \<le> length b" using b(4) by simp
    then obtain s1 where P: "put_bytes a n [NUL] s = Inr s1" "sound_but (Some a) s1"
        "map_of (sm_bufs s1) = (map_of (sm_bufs s))(a \<mapsto> take n b @ [NUL] @ drop (n + length [NUL]) b)"
      using put_bytes_sound [OF sound_weaken [OF assms(1)] b(1)] by blast
    define b1 where "b1 = take n b @ [NUL] @ drop (n + length [NUL]) b"
    have "take n b = take n t" using True b(5) by (metis less_imp_le_nat min_def take_take)
    then have b1: "cut_at_NUL b1 = take n t" "NUL \<in> set b1"
      using cut_at_NUL_append [of "take n t" "drop (n + length [NUL]) b"] b(6) set_take_subset [of n t] by (auto simp: b1_def)
    have "map_of (sm_bufs s1) a = Some b1" using P(3) by (simp add: b1_def)
    note fin = finish_add [OF P(2) this b1(2,1), of n]
    have "strings s1 = (strings s)(a \<mapsto> take n t)" using P(3) b1(1) by (auto simp: strings_def b1_def fun_eq_iff)
    then show ?thesis using that [of "StrLenCacheAdd a n s1"] True str P(1) fin by (simp add: StrTrunc_buf_def)
  qed
qed

lemma takeWhile_rev_drop:
  "rev (dropWhile P (rev t)) = take (length t - trailing P t) t"
proof -
  have "t = rev (dropWhile P (rev t)) @ rev (takeWhile P (rev t))"
    by (metis rev_append rev_rev_ident takeWhile_dropWhile_id)
  then show ?thesis
    by (metis (no_types) append_eq_conv_conj diff_add_inverse2 length_append length_rev trailing.simps)
qed

lemma strip_end_sound:
  assumes "sound s" "strings s a = Some t"
  obtains s1 where "strip_end P (Some a) s = Inr s1" "sound s1" "strings s1 = (strings s)(a \<mapsto> rev (dropWhile P (rev t)))"
proof (cases "t = []")
  case True
  then show ?thesis
    using that [of s] assms StrLenFromCache_sound [OF assms] by (auto simp: strip_end_def fun_eq_iff)
next
  case False
  obtain b where b: "map_of (sm_bufs s) a = Some b" "cut_at_NUL b = t" "NUL \<in> set b" "length t < length b"
      "take (length t) b = t" "NUL \<notin> set t"
    by (rule sound_string [OF assms]) (rule that; assumption)
  define k where "k = trailing P t"
  have k: "k \<le> length t" by (simp add: k_def) (metis length_rev length_takeWhile_le)
  define D where "D = StrLenCacheDel (Some a) s"
  have D: "sound_but (Some a) D" "map_of (sm_bufs D) a = Some b" "\<not> cached D a m" for m
    using assms(1) b(1) distinct_keys_Del [of s "Some a"] by (fastforce simp: D_def sound_but_def, simp_all add: D_def)
  have "length t - k + length (replicate k NUL) \<le> length b" using b(4) k by simp
  then obtain s1 where P: "put_bytes a (length t - k) (replicate k NUL) D = Inr s1" "sound_but (Some a) s1"
      "map_of (sm_bufs s1) = (map_of (sm_bufs D))(a \<mapsto> take (length t - k) b @ replicate k NUL @
         drop (length t - k + length (replicate k NUL)) b)" "cached s1 = cached D"
    using put_bytes_sound [OF D(1,2)] by blast
  define b1 where "b1 = take (length t - k) b @ replicate k NUL @ drop (length t - k + length (replicate k NUL)) b"
  have b1: "cut_at_NUL b1 = take (length t - k) t" "NUL \<in> set b1"
  proof -
    have tk: "take (length t - k) b = take (length t - k) t" using b(5) by (metis diff_le_self min.absorb1 take_take)
    show "cut_at_NUL b1 = take (length t - k) t" "NUL \<in> set b1"
    proof (atomize (full), cases k)
      case 0
      then have "b1 = b" by (simp add: b1_def)
      then show "cut_at_NUL b1 = take (length t - k) t \<and> NUL \<in> set b1" using 0 b(2,3) by simp
    next
      case (Suc j)
      then show "cut_at_NUL b1 = take (length t - k) t \<and> NUL \<in> set b1"
        using tk b(6) set_take_subset [of "length t - k" t] cut_at_NUL_append [of "take (length t - k) t"]
        by (auto simp: b1_def)
    qed
  qed
  have at: "map_of (sm_bufs s1) a = Some b1" using P(3) by (simp add: b1_def)
  have "sound s1" by (rule sound_finish [OF P(2) at b1(2)]) (simp add: P(4) D(3))
  moreover have "strings s1 = (strings s)(a \<mapsto> take (length t - k) t)"
    using P(3) b1(1) by (auto simp: strings_def b1_def D_def fun_eq_iff)
  moreover have "strip_end P (Some a) s = Inr s1"
    using False b(1,4,5) P(1) StrLenFromCache_sound [OF assms]
    by (simp add: strip_end_def get_buf_def k_def D_def Let_def)
  ultimately show ?thesis using that [of s1] by (simp add: takeWhile_rev_drop k_def)
qed

lemma StripLeadingWhitespace_sound:
  assumes "sound s" "strings s a = Some t"
  obtains s1 where "StripLeadingWhitespace_buf (Some a) s = Inr s1" "sound s1"
    "strings s1 = (strings s)(a \<mapsto> dropWhile isspace t)"
proof -
  obtain b where b: "map_of (sm_bufs s) a = Some b" "cut_at_NUL b = t" "NUL \<in> set b" "length t < length b"
      "take (length t) b = t" "NUL \<notin> set t"
    by (rule sound_string [OF assms]) (rule that; assumption)
  define r where "r = dropWhile isspace t"
  have r: "length r \<le> length t" "NUL \<notin> set r"
    using b(6) set_dropWhileD [of NUL isspace t] by (auto simp: r_def length_dropWhile_le)
  have "0 + length (r @ [NUL]) \<le> length b" using r(1) b(4) by simp
  then obtain s1 where P: "put_bytes a 0 (r @ [NUL]) s = Inr s1" "sound_but (Some a) s1"
      "map_of (sm_bufs s1) = (map_of (sm_bufs s))(a \<mapsto> take 0 b @ (r @ [NUL]) @ drop (0 + length (r @ [NUL])) b)"
    using put_bytes_sound [OF sound_weaken [OF assms(1)] b(1)] by blast
  define b1 where "b1 = take 0 b @ (r @ [NUL]) @ drop (0 + length (r @ [NUL])) b"
  have b1: "cut_at_NUL b1 = r" "NUL \<in> set b1" using cut_at_NUL_append [OF r(2)] by (simp_all add: b1_def)
  have at: "map_of (sm_bufs s1) a = Some b1" using P(3) by (simp add: b1_def)
  note fin = finish_add [OF P(2) at b1(2,1) refl]
  have "strings s1 = (strings s)(a \<mapsto> r)" using P(3) b1(1) by (auto simp: strings_def b1_def fun_eq_iff)
  moreover have "get_string a s = Inr t" using b by (simp add: get_string_def get_buf_def)
  ultimately show ?thesis
    using that [of "StrLenCacheAdd a (length r) s1"] P(1) fin by (simp add: StripLeadingWhitespace_buf_def r_def Let_def)
qed

lemma Destroy_sound:
  assumes "sound s" "strings s a = Some t"
  obtains s1 where "Destroy (Some a) s = Inr s1" "sound s1" "strings s1 = (strings s)(a := None)"
proof -
  obtain b where "map_of (sm_bufs s) a = Some b" using assms(2) by (auto simp: strings_def)
  then have "Destroy (Some a) s = Inr (drop_buf a (StrLenCacheDel (Some a) s))" by (simp add: Destroy_def get_buf_def)
  then show ?thesis
    by (rule that) (use assms(1) distinct_keys_Del [of s] in \<open>auto simp: sound_but_def strings_def fun_eq_iff\<close>)
qed

section \<open>Programs that work on strings\<close>

text \<open>
  String variables, and the operations on them.  An operand is \<open>NULL\<close>, a literal, or another variable than the
  destination.
\<close>

datatype operand = Null | Given string | Of nat

datatype str_op = CopyTo nat operand | CatTo nat operand | MCopyTo nat "operand list" | MCatTo nat "operand list"
  | TruncAt nat nat | StripEnd nat | StripStart nat | LengthOf nat | TextOf nat | Release nat

fun operand_value :: "(nat \<Rightarrow> string option res) \<Rightarrow> nat \<Rightarrow> operand \<Rightarrow> string option res" where
  "operand_value get v Null = Inr None"
| "operand_value get v (Given t) = Inr (Some (cut_at_NUL t))"
| "operand_value get v (Of w) = (if w = v then Inl BadPointer else get w)"

fun operand_values :: "(nat \<Rightarrow> string option res) \<Rightarrow> nat \<Rightarrow> operand list \<Rightarrow> string option list res" where
  "operand_values get v [] = Inr []"
| "operand_values get v (x # xs) =
     bindr (operand_value get v x) (\<lambda>t. bindr (operand_values get v xs) (\<lambda>ts. Inr (t # ts)))"

type_synonym str_vars = "strmem \<times> (nat \<Rightarrow> nat option)"

definition assigned :: "nat \<Rightarrow> (nat \<Rightarrow> nat option) \<Rightarrow> (nat \<times> strmem) res \<Rightarrow> ((string option \<times> nat) \<times> str_vars) res" where
  "assigned v env r = bindr r (\<lambda>(a, s). Inr ((None, 0), (s, env(v \<mapsto> a))))"

definition edited :: "(nat \<Rightarrow> nat option) \<Rightarrow> strmem res \<Rightarrow> ((string option \<times> nat) \<times> str_vars) res" where
  "edited env r = bindr r (\<lambda>s. Inr ((None, 0), (s, env)))"

fun mem_op :: "str_op \<Rightarrow> str_vars \<Rightarrow> ((string option \<times> nat) \<times> str_vars) res" where
  "mem_op (CopyTo v x) (s, env) =
     bindr (operand_value (\<lambda>w. the_string (env w) s) v x) (\<lambda>t. assigned v env (CopyStr_buf (env v) t s))"
| "mem_op (CatTo v x) (s, env) =
     bindr (operand_value (\<lambda>w. the_string (env w) s) v x) (\<lambda>t. assigned v env (CatStr (env v) t s))"
| "mem_op (MCopyTo v xs) (s, env) =
     bindr (operand_values (\<lambda>w. the_string (env w) s) v xs) (\<lambda>ts. assigned v env (InternalMCopyStr (env v) ts s))"
| "mem_op (MCatTo v xs) (s, env) =
     bindr (operand_values (\<lambda>w. the_string (env w) s) v xs) (\<lambda>ts. assigned v env (InternalMCatStr (env v) ts s))"
| "mem_op (TruncAt v n) (s, env) = edited env (StrTrunc_buf (env v) n s)"
| "mem_op (StripEnd v) (s, env) = edited env (StripTrailingWhitespace_buf (env v) s)"
| "mem_op (StripStart v) (s, env) = edited env (StripLeadingWhitespace_buf (env v) s)"
| "mem_op (LengthOf v) (s, env) = bindr (StrLenFromCache (env v) s) (\<lambda>n. Inr ((None, n), (s, env)))"
| "mem_op (TextOf v) (s, env) = bindr (the_string (env v) s) (\<lambda>t. Inr ((t, 0), (s, env)))"
| "mem_op (Release v) (s, env) = edited (env(v := None)) (Destroy (env v) s)"

text \<open>What the operations are meant to do.\<close>

type_synonym texts = "nat \<Rightarrow> string option"

fun text_op :: "str_op \<Rightarrow> texts \<Rightarrow> ((string option \<times> nat) \<times> texts) res" where
  "text_op (CopyTo v x) A = bindr (operand_value (\<lambda>w. Inr (A w)) v x) (\<lambda>t. Inr ((None, 0), A(v \<mapsto> CopyStr t)))"
| "text_op (CatTo v x) A = bindr (operand_value (\<lambda>w. Inr (A w)) v x) (\<lambda>t. Inr ((None, 0), A(v \<mapsto> CopyStr (A v) @ CopyStr t)))"
| "text_op (MCopyTo v xs) A = bindr (operand_values (\<lambda>w. Inr (A w)) v xs) (\<lambda>ts. Inr ((None, 0), A(v \<mapsto> joined ts)))"
| "text_op (MCatTo v xs) A =
     bindr (operand_values (\<lambda>w. Inr (A w)) v xs) (\<lambda>ts. Inr ((None, 0), A(v \<mapsto> CopyStr (A v) @ joined ts)))"
| "text_op (TruncAt v n) A = Inr ((None, 0), A(v := map_option (\<lambda>t. StrTrunc t n) (A v)))"
| "text_op (StripEnd v) A = Inr ((None, 0), A(v := map_option StripTrailingWhitespace (A v)))"
| "text_op (StripStart v) A = Inr ((None, 0), A(v := map_option StripLeadingWhitespace (A v)))"
| "text_op (LengthOf v) A = Inr ((None, StrLen (A v)), A)"
| "text_op (TextOf v) A = Inr ((A v, 0), A)"
| "text_op (Release v) A = Inr ((None, 0), A(v := None))"

definition holds_texts :: "str_vars \<Rightarrow> texts \<Rightarrow> bool" where
  "holds_texts c A \<longleftrightarrow> (case c of (s, env) \<Rightarrow>
     sound s \<and> (\<forall>v w a. env v = Some a \<and> env w = Some a \<longrightarrow> v = w) \<and>
     (\<forall>v a. env v = Some a \<longrightarrow> strings s a \<noteq> None) \<and>
     (\<forall>v. A v = (case env v of None \<Rightarrow> None | Some a \<Rightarrow> strings s a)))"

lemma holds_textsD:
  assumes "holds_texts (s, env) A"
  shows "sound s" "env v = None \<Longrightarrow> A v = None" "env v = Some a \<Longrightarrow> \<exists>t. A v = Some t \<and> strings s a = Some t \<and> NUL \<notin> set t"
    "the_string (env v) s = Inr (A v)"
proof -
  show s: "sound s" and "env v = None \<Longrightarrow> A v = None" using assms by (simp_all add: holds_texts_def)
  have st: "\<exists>t. A v = Some t \<and> strings s a = Some t \<and> NUL \<notin> set t" if "env v = Some a" for a
  proof -
    have "strings s a \<noteq> None" using assms that by (simp add: holds_texts_def)
    then obtain t where t: "strings s a = Some t" by blast
    moreover have "A v = strings s a" using assms that by (simp add: holds_texts_def)
    ultimately show ?thesis using sound_string [OF s t] by metis
  qed
  then show "env v = Some a \<Longrightarrow> \<exists>t. A v = Some t \<and> strings s a = Some t \<and> NUL \<notin> set t" .
  show "the_string (env v) s = Inr (A v)"
  proof (cases "env v")
    case None
    then show ?thesis using assms by (simp add: the_string_def holds_texts_def)
  next
    case (Some a)
    from st [OF this] obtain t where t: "A v = Some t" "strings s a = Some t" by blast
    obtain b where "map_of (sm_bufs s) a = Some b" "cut_at_NUL b = t" "NUL \<in> set b"
      using sound_string [OF s t(2)] by blast
    then show ?thesis using Some t(1) by (simp add: the_string_def get_string_def get_buf_def)
  qed
qed

lemma assigned_holds:
  assumes "holds_texts (s, env) A" "becomes s (env v) t r"
  shows "simulates holds_texts (assigned v env r) (Inr ((None, 0), A(v \<mapsto> t)))"
proof -
  obtain a s1 where r: "r = Inr (a, s1)" "sound s1" "strings s1 = (without (env v) (strings s))(a \<mapsto> t)"
      "Some a = env v \<or> strings s a = None"
    using assms(2) unfolding becomes_def by blast
  have inj: "\<And>v w a. env v = Some a \<Longrightarrow> env w = Some a \<Longrightarrow> v = w" and
    alive: "\<And>v a. env v = Some a \<Longrightarrow> strings s a \<noteq> None"
    using assms(1) by (auto simp: holds_texts_def)
  have "env w \<noteq> Some a" if "w \<noteq> v" for w using inj alive r(4) that by metis
  then have other: "env w \<noteq> Some a \<and> (\<forall>c. env w = Some c \<longrightarrow> strings s1 c = strings s c)" if "w \<noteq> v" for w
    using r(3) inj that by (cases "env v") auto
  have "holds_texts (s1, env(v \<mapsto> a)) (A(v \<mapsto> t))"
    using assms(1) r(2,3) other by (auto simp: holds_texts_def split: option.splits)
  then show ?thesis using r(1) by (simp add: assigned_def)
qed

lemma edited_holds:
  assumes "holds_texts (s, env) A" "env v = Some a" "r = Inr s1" "sound s1" "strings s1 = (strings s)(a \<mapsto> u)"
  shows "simulates holds_texts (edited env r) (Inr ((None, 0), A(v \<mapsto> u)))"
proof -
  have "env w \<noteq> Some a" if "w \<noteq> v" for w using assms(1,2) that by (auto simp: holds_texts_def)
  then have "holds_texts (s1, env) (A(v \<mapsto> u))"
    using assms(1,2,4,5) by (auto simp: holds_texts_def split: option.splits)
  then show ?thesis using assms(3) by (simp add: edited_def)
qed

lemma operand_value_same:
  assumes "holds_texts (s, env) A"
  shows "operand_value (\<lambda>w. the_string (env w) s) v x = operand_value (\<lambda>w. Inr (A w)) v x"
  using holds_textsD(4) [OF assms] by (cases x) simp_all

lemma operand_values_same:
  assumes "holds_texts (s, env) A"
  shows "operand_values (\<lambda>w. the_string (env w) s) v xs = operand_values (\<lambda>w. Inr (A w)) v xs"
  using operand_value_same [OF assms] by (induction xs) simp_all

lemma operand_value_no_NUL:
  assumes "holds_texts (s, env) A" "operand_value (\<lambda>w. Inr (A w)) v x = Inr t"
  shows "NUL \<notin> set (CopyStr t)"
proof (cases x)
  case (Of w)
  then have t: "t = A w" using assms(2) by (simp split: if_splits)
  show ?thesis
  proof (cases "env w")
    case None
    then show ?thesis using holds_textsD(2) [OF assms(1)] t by simp
  next
    case (Some a)
    then obtain u where "A w = Some u" "NUL \<notin> set u" using holds_textsD(3) [OF assms(1)] by blast
    then show ?thesis using t by simp
  qed
qed (use assms(2) cut_at_NUL_no_NUL in auto)

lemma operand_values_no_NUL:
  assumes "holds_texts (s, env) A"
  shows "operand_values (\<lambda>w. Inr (A w)) v xs = Inr ts \<Longrightarrow> NUL \<notin> set (joined ts)"
proof (induction xs arbitrary: ts)
  case (Cons x xs)
  then obtain t r where t: "operand_value (\<lambda>w. Inr (A w)) v x = Inr t" "operand_values (\<lambda>w. Inr (A w)) v xs = Inr r" "ts = t # r"
    by (auto simp: bindr_Inr_iff)
  then show ?case using operand_value_no_NUL [OF assms t(1)] Cons.IH [OF t(2)] by (cases t) auto
qed simp

lemma destination:
  assumes "holds_texts (s, env) A"
  shows "env v = None \<or> (\<exists>q t. env v = Some q \<and> strings s q = Some t)"
    "env v = None \<and> CopyStr (A v) = [] \<or> (\<exists>q. env v = Some q \<and> strings s q = Some (CopyStr (A v)))"
  using holds_textsD(2,3) [OF assms, of v] by (cases "env v"; auto)+

lemma InternalMCatStr_becomes:
  assumes "holds_texts (s, env) A" "NUL \<notin> set (joined ts)"
  shows "becomes s (env v) (CopyStr (A v) @ joined ts) (InternalMCatStr (env v) ts s)"
  using destination(2) [OF assms(1), of v] VCatStr_None [OF holds_textsD(1) [OF assms(1)] assms(2)]
    VCatStr_Some [OF holds_textsD(1) [OF assms(1)] _ assms(2)]
  by (auto simp: InternalMCatStr_def)

lemma simulates_bindr:
  assumes "\<And>x. r = Inr x \<Longrightarrow> simulates rel (f x) (g x)"
  shows "simulates rel (bindr r f) (bindr r g)"
  using assms by (cases r) simp_all

lemma edit_unset: "holds_texts (s, env) A \<Longrightarrow> env v = None \<Longrightarrow>
    simulates holds_texts (edited env (Inr s)) (Inr ((None, 0), A(v := map_option f (A v))))"
  using holds_textsD(2) [of s env A v] by (simp add: edited_def fun_upd_idem)

interpretation string_memory: simulation holds_texts mem_op text_op
proof
  fix c A x
  assume h: "holds_texts c A"
  obtain s env where c: "c = (s, env)" by (cases c)
  note H = h [unfolded c]
  note sd = holds_textsD(1) [OF H]
  show "simulates holds_texts (mem_op x c) (text_op x A)"
  proof (cases x)
    case (CopyTo v o1)
    show ?thesis unfolding c CopyTo mem_op.simps text_op.simps operand_value_same [OF H]
      by (rule simulates_bindr) (rule assigned_holds [OF H CopyStr_becomes [OF sd destination(1) [OF H] operand_value_no_NUL [OF H]]])
  next
    case (CatTo v o1)
    show ?thesis unfolding c CatTo mem_op.simps text_op.simps operand_value_same [OF H]
      by (rule simulates_bindr)
        (rule assigned_holds [OF H CatStr_usable [OF usable_sound [OF sd destination(2) [OF H]] operand_value_no_NUL [OF H]]])
  next
    case (MCopyTo v os)
    show ?thesis unfolding c MCopyTo mem_op.simps text_op.simps operand_values_same [OF H]
      by (rule simulates_bindr) (rule assigned_holds [OF H InternalMCopyStr_becomes [OF sd destination(1) [OF H] operand_values_no_NUL [OF H]]])
  next
    case (MCatTo v os)
    show ?thesis unfolding c MCatTo mem_op.simps text_op.simps operand_values_same [OF H]
      by (rule simulates_bindr) (rule assigned_holds [OF H InternalMCatStr_becomes [OF H operand_values_no_NUL [OF H]]])
  next
    case (TruncAt v n)
    show ?thesis
    proof (cases "env v")
      case None
      then show ?thesis using edit_unset [OF H None] by (simp add: c TruncAt StrTrunc_buf_def)
    next
      case (Some a)
      then obtain t where t: "A v = Some t" "strings s a = Some t" using holds_textsD(3) [OF H] by blast
      obtain s1 where "StrTrunc_buf (Some a) n s = Inr s1" "sound s1" "strings s1 = (strings s)(a \<mapsto> take n t)"
        by (rule StrTrunc_sound [OF sd t(2), where n = n]) (rule that; assumption)
      moreover have "StrTrunc t n = take n t" by (simp add: StrTrunc_def)
      ultimately show ?thesis using edited_holds [OF H Some] Some t(1) by (simp add: c TruncAt)
    qed
  next
    case (StripEnd v)
    show ?thesis
    proof (cases "env v")
      case None
      then show ?thesis
        using edit_unset [OF H None] by (simp add: c StripEnd StripTrailingWhitespace_buf_def strip_end_def StrLenFromCache_def)
    next
      case (Some a)
      then obtain t where t: "A v = Some t" "strings s a = Some t" using holds_textsD(3) [OF H] by blast
      obtain s1 where "strip_end isspace (Some a) s = Inr s1" "sound s1"
          "strings s1 = (strings s)(a \<mapsto> rev (dropWhile isspace (rev t)))"
        by (rule strip_end_sound [OF sd t(2), where P = isspace]) (rule that; assumption)
      from edited_holds [OF H Some this] show ?thesis
        using Some t(1) by (simp add: c StripEnd StripTrailingWhitespace_buf_def StripTrailingWhitespace_def)
    qed
  next
    case (StripStart v)
    show ?thesis
    proof (cases "env v")
      case None
      then show ?thesis using edit_unset [OF H None] by (simp add: c StripStart StripLeadingWhitespace_buf_def)
    next
      case (Some a)
      then obtain t where t: "A v = Some t" "strings s a = Some t" using holds_textsD(3) [OF H] by blast
      obtain s1 where "StripLeadingWhitespace_buf (Some a) s = Inr s1" "sound s1"
          "strings s1 = (strings s)(a \<mapsto> dropWhile isspace t)"
        by (rule StripLeadingWhitespace_sound [OF sd t(2)]) (rule that; assumption)
      from edited_holds [OF H Some this] show ?thesis using Some t(1) by (simp add: c StripStart StripLeadingWhitespace_def)
    qed
  next
    case (LengthOf v)
    then show ?thesis
      using holds_textsD(2,3) [OF H, of v] StrLenFromCache_sound [OF sd] h c
      by (cases "env v") (auto simp: StrLenFromCache_def)
  next
    case (TextOf v)
    then show ?thesis using holds_textsD(4) [OF H] h c by simp
  next
    case (Release v)
    show ?thesis
    proof (cases "env v")
      case None
      then show ?thesis using edit_unset [OF H None, of id] holds_textsD(2) [OF H None]
        by (simp add: c Release Destroy_def fun_upd_idem)
    next
      case (Some a)
      then obtain t where t: "A v = Some t" "strings s a = Some t" using holds_textsD(3) [OF H] by blast
      obtain s1 where D: "Destroy (Some a) s = Inr s1" "sound s1" "strings s1 = (strings s)(a := None)"
        by (rule Destroy_sound [OF sd t(2)]) (rule that; assumption)
      have "env w \<noteq> Some a" if "w \<noteq> v" for w using H Some that by (auto simp: holds_texts_def)
      then have "holds_texts (s1, env(v := None)) (A(v := None))"
        using H D(2,3) by (auto simp: holds_texts_def split: option.splits)
      then show ?thesis using D(1) Some by (simp add: c Release edited_def)
    qed
  qed
qed

text \<open>C39: Whatever the allocator does, a program that makes, joins, shortens and releases strings with the functions of
  the library sees exactly their texts and lengths: the cached lengths of long strings are never wrong.\<close>

theorem cached_lengths_are_right:
  assumes "allocator s" "sm_bufs s = []" "sm_cache s = []"
  shows "run_ops mem_op ops (s, \<lambda>_. None) = run_ops text_op ops (\<lambda>_. None)"
  by (rule string_memory.runs) (use assms in \<open>simp add: holds_texts_def sound_but_def cache_keys_def cached_def\<close>)

text \<open>An allocator that lets blocks grow where they are.\<close>

definition grow_in_place :: "nat list \<Rightarrow> nat option \<Rightarrow> nat \<Rightarrow> nat" where
  "grow_in_place used p n = (case p of Some q \<Rightarrow> q | None \<Rightarrow> Suc (foldr max used 0))"

definition sample_memory :: strmem where
  "sample_memory = \<lparr>sm_bufs = [], sm_cache = [], sm_rand = [], sm_place = grow_in_place, sm_junk = CHR ''?''\<rparr>"

lemma grow_in_place_allocator: "allocator sample_memory"
proof -
  have le: "x \<le> foldr max used 0" if "x \<in> set used" for used and x :: nat
    using that by (induction used) (auto simp: le_max_iff_disj)
  then show ?thesis by (fastforce simp: allocator_def sample_memory_def grow_in_place_def split: option.split)
qed

theorem cached_lengths_are_right_witness:
  "run_ops mem_op [CopyTo 0 (Given (replicate 150 (CHR ''x''))), CatTo 0 (Given ''y''), LengthOf 0, TruncAt 0 120, CatTo 0 (Given ''y''), LengthOf 0]
     (sample_memory, \<lambda>_. None) = Inr [(None, 0), (None, 0), (None, 151), (None, 0), (None, 0), (None, 121)]"
  using cached_lengths_are_right [OF grow_in_place_allocator,
      of "[CopyTo 0 (Given (replicate 150 (CHR ''x''))), CatTo 0 (Given ''y''), LengthOf 0, TruncAt 0 120, CatTo 0 (Given ''y''), LengthOf 0]"]
  by (simp add: sample_memory_def cut_at_NUL_def StrTrunc_def)

section \<open>Wrong lengths\<close>

lemma last_empty_less: "last_empty i c = Some k \<Longrightarrow> i \<le> k \<and> k < i + length c"
  by (induction c arbitrary: i) (fastforce split: option.splits if_splits)+

lemma map_of_unique: "(k, n) \<in> set c \<Longrightarrow> (\<And>m. (k, m) \<in> set c \<Longrightarrow> m = n) \<Longrightarrow> map_of c k = Some n"
  by (metis map_of_SomeD not_None_eq weak_map_of_SomeI)

lemma cache_set_mem: "cache_set a n c = Some c1 \<Longrightarrow> (Some a, n) \<in> set c1"
  by (induction c arbitrary: c1) (auto split: if_splits)

lemma Add_lookup:
  assumes "distinct (cache_keys (sm_cache s))" "StrLenCacheMinLen < n"
  shows "map_of (sm_cache (StrLenCacheAdd a n s)) (Some a) = Some n"
proof (rule map_of_unique)
  define c where "c = (if sm_cache s = [] then replicate 20 (None, 0 :: nat) else sm_cache s)"
  have c: "0 < length c" by (simp add: c_def)
  have put: "(Some a, n) \<in> set (c[i := (Some a, n)])" if "i < length c" for i
    using that by (metis set_update_memI)
  show "(Some a, n) \<in> set (sm_cache (StrLenCacheAdd a n s))"
  proof (cases "cache_set a n c")
    case (Some c1)
    then show ?thesis using cache_set_mem [OF Some] by (simp add: StrLenCacheAdd_def c_def [symmetric])
  next
    case None
    have "k < length c" if "last_empty 0 c = Some k" for k using last_empty_less [OF that] by simp
    with None assms(2) c put mod_less_divisor [OF c] show ?thesis
      by (auto simp: StrLenCacheAdd_def c_def [symmetric] Let_def split: option.split list.split)
  qed
  show "m = n" if "(Some a, m) \<in> set (sm_cache (StrLenCacheAdd a n s))" for m
    using Add_cache(2) [OF assms(1), of a n a m] that by (simp add: cached_def)
qed

text \<open>After \<open>SetStrLen\<close> the length of a long string is found in the cache, whatever the string is.\<close>

lemma SetStrLen_cached:
  assumes "sound_but p s" "live p s" "StrLenCacheMinLen < n" "SetStrLen p n s = Inr (a, s1)"
  shows "map_of (sm_cache s1) (Some a) = Some n"
proof -
  obtain s0 where r: "realloc p (n + 8) (StrLenCacheDel p s) = Inr (a, s0)" "s1 = StrLenCacheAdd a n s0"
    using assms(3,4) by (auto simp: SetStrLen_def bindr_Inr_iff)
  have "sm_cache s0 = sm_cache (StrLenCacheDel p s)"
    using r(1) by (cases p) (auto simp: realloc_def Let_def bindr_Inr_iff)
  then have "distinct (cache_keys (sm_cache s0))" using assms(1) distinct_keys_Del [of s p] by (simp add: sound_but_def)
  then show ?thesis using r(2) Add_lookup assms(3) by blast
qed

lemma StrLenFromCache_cached:
  assumes "map_of (sm_bufs s) a = Some b" "b \<noteq> []" "hd b \<noteq> NUL" "map_of (sm_cache s) (Some a) = Some n"
  shows "StrLenFromCache (Some a) s = Inr n"
  using assms by (simp add: StrLenFromCache_def get_buf_def)

lemma put_bytes_ok:
  assumes "map_of (sm_bufs s) a = Some b" "i + length cs \<le> length b"
  shows "put_bytes a i cs s = Inr (set_buf a (take i b @ cs @ drop (i + length cs) b) s)"
  using assms by (simp add: put_bytes_def get_buf_def)

text \<open>C40: \<open>CopyStrLen\<close> with a length of more than a hundred that is longer than its source leaves that length in the
  cache, and what is appended next lies behind the end of the string: it is lost.\<close>

theorem text_after_a_long_copy_is_lost:
  assumes "allocator s" "sm_bufs s = []" "sm_cache s = []" "StrLenCacheMinLen < n" "t \<noteq> []" "length t < n"
    "NUL \<notin> set t"
  shows "\<exists>a s1 b s2. CopyStrLen None (Some t) n s = Inr (a, s1) \<and> CatStr (Some a) (Some u) s1 = Inr (b, s2) \<and>
     get_string b s2 = Inr t"
proof -
  have s: "sound s" "live None s"
    using assms(1-3) by (simp_all add: sound_but_def cache_keys_def cached_def live_def)
  have z: "0 \<le> length (bytes_at None s)" by simp
  obtain a b s1 where S: "SetStrLen None (0 + n) s = Inr (a, s1)"
      "map_of (sm_bufs s1) = (without None (map_of (sm_bufs s)))(a \<mapsto> b)" "length b = 0 + n + 8"
      "take 0 b = take 0 (bytes_at None s)" "Some a = None \<or> map_of (sm_bufs s) a = None" "sound_but (Some a) s1"
      "\<And>m. cached s1 a m \<Longrightarrow> m = 0 + n" "None = (None :: nat option) \<Longrightarrow> b = replicate (0 + n + 8) NUL"
    by (rule SetStrLen_keeps [OF s z, where n = n]) (rule that; assumption)
  have look: "map_of (sm_cache s1) (Some a) = Some n"
    using SetStrLen_cached [OF s assms(4)] S(1) by simp
  have ba: "map_of (sm_bufs s1) a = Some b" using S(2) by simp
  define b1 where "b1 = t @ NUL # drop (length t + 1) b"
  define s2 where "s2 = set_buf a b1 s1"
  have copy: "CopyStrLen None (Some t) n s = Inr (a, s2)"
    using S(1,3) put_bytes_ok [OF ba, of 0 "t @ [NUL]"] assms(6) by (simp add: CopyStrLen_def copied_def s2_def b1_def)
  have s2: "sound_but (Some a) s2" "live (Some a) s2" "map_of (sm_bufs s2) a = Some b1" "bytes_at (Some a) s2 = b1"
    using S(6) by (auto simp: s2_def sound_but_def live_def bytes_at_def)
  have b1: "length b1 = n + 8" "hd b1 \<noteq> NUL" "b1 \<noteq> []"
    using S(3) assms(5-7) by (auto simp: b1_def hd_append dest: hd_in_set split: if_splits)
  have len: "StrLenFromCache (Some a) s2 = Inr n"
    using StrLenFromCache_cached [OF s2(3) b1(3,2)] look by (simp add: s2_def)
  have n: "n \<le> length (bytes_at (Some a) s2)" using s2(4) b1(1) by simp
  obtain c b2 s3 where G: "SetStrLen (Some a) (n + length u) s2 = Inr (c, s3)"
      "map_of (sm_bufs s3) = (without (Some a) (map_of (sm_bufs s2)))(c \<mapsto> b2)" "length b2 = n + length u + 8"
      "take n b2 = take n (bytes_at (Some a) s2)"
    by (rule SetStrLen_keeps [OF s2(1,2) n, where n = "length u"]) (rule that; assumption)
  have bc: "map_of (sm_bufs s3) c = Some b2" using G(2) by simp
  define b3 where "b3 = take n b2 @ (u @ [NUL]) @ drop (n + length (u @ [NUL])) b2"
  have cat: "CatStr (Some a) (Some u) s2 = Inr (c, set_buf c b3 s3)"
    using len G(1,3) put_bytes_ok [OF bc, of n "u @ [NUL]"] by (simp add: CatStr_def CatStrLen_def copied_def b3_def)
  have "take n b2 = t @ NUL # take (n - length t - 1) (drop (length t + 1) b)"
    using G(4) s2(4) assms(6) by (cases "n - length t") (simp_all add: b1_def)
  then have "cut_at_NUL b3 = t \<and> NUL \<in> set b3"
    using cut_at_NUL_append [OF assms(7)] by (simp add: b3_def)
  then show ?thesis using copy cat by (auto simp: get_string_def get_buf_def)
qed

theorem text_after_a_long_copy_is_lost_witness:
  "\<exists>a s1 b s2. CopyStrLen None (Some ''user'') 255 sample_memory = Inr (a, s1) \<and>
     CatStr (Some a) (Some ''@host'') s1 = Inr (b, s2) \<and> get_string b s2 = Inr ''user''"
  by (rule text_after_a_long_copy_is_lost [OF grow_in_place_allocator])
    (simp_all add: sample_memory_def StrLenCacheMinLen_def)

text \<open>
  \<open>AddCharToBuffer\<close> leaves the length the string had before: padding in front of a text with more than a hundred
  characters puts one too few, padding behind it does not.
\<close>

theorem padding_in_front_is_one_short:
  "bindr (CopyPadStr None (Some ''ab'') (CHR ''.'') (-102) sample_memory) (\<lambda>(p, s). the_string p s) =
     Inr (Some (replicate 101 (CHR ''.'') @ ''ab''))"
  "bindr (CopyPadStr None (Some ''ab'') (CHR ''.'') 102 sample_memory) (\<lambda>(p, s). the_string p s) =
     Inr (Some (''ab'' @ replicate 102 (CHR ''.'')))"
  by code_simp+

end
