(* ===== verification/BlockHash.thy ===== *)
theory BlockHash
  imports Inv_Prelude "HOL-Library.Word"
begin

text \<open>
  What the block hashes of the library share (\<^verbatim>\<open>sha2.c\<close>, \<^verbatim>\<open>md5c.c\<close>, \<^verbatim>\<open>sha1.c\<close>, \<^verbatim>\<open>jh_ref.c\<close>): words
  laid out as bytes in memory, a buffer written by \<^verbatim>\<open>memcpy\<close> and \<^verbatim>\<open>memset\<close>, the absorption of a
  message block by block, and the interface a streaming hash offers, with what follows from it.
\<close>

unbundle bit_operations_syntax

type_synonym byte = "8 word"

section \<open>Words in memory\<close>

text \<open>The machine is little-endian: the word at an address has its lowest byte first.\<close>

definition le_bytes :: "nat \<Rightarrow> 'w::len word \<Rightarrow> byte list" where
  "le_bytes n w = map (\<lambda>i. ucast (drop_bit (8 * i) w)) [0..<n]"

fun le_word :: "byte list \<Rightarrow> 'w::len word" where
  "le_word [] = 0"
| "le_word (b # bs) = ucast b OR push_bit 8 (le_word bs)"

definition be_bytes :: "nat \<Rightarrow> 'w::len word \<Rightarrow> byte list" where
  "be_bytes n w = rev (le_bytes n w)"

definition be_word :: "byte list \<Rightarrow> 'w::len word" where
  "be_word bs = le_word (rev bs)"

lemma length_le_bytes [simp]: "length (le_bytes n w) = n"
  by (simp add: le_bytes_def)

lemma length_be_bytes [simp]: "length (be_bytes n w) = n"
  by (simp add: be_bytes_def)

lemma bit_le_word:
  "bit (le_word bs :: 'w::len word) i \<longleftrightarrow> i < LENGTH('w) \<and> i < 8 * length bs \<and> bit (bs ! (i div 8)) (i mod 8)"
proof (induction bs arbitrary: i)
  case Nil
  then show ?case by simp
next
  case (Cons b bs)
  show ?case
  proof (cases "i < 8")
    case True
    then show ?thesis by (auto simp: bit_simps dest: bit_imp_le_length)
  next
    case False
    then have "i div 8 = Suc ((i - 8) div 8)" "(i - 8) mod 8 = i mod 8"
      by (simp_all add: le_div_geq le_mod_geq)
    moreover have "\<not> bit b i" using False by (auto dest: bit_imp_le_length)
    ultimately show ?thesis using False by (auto simp: bit_simps Cons.IH)
  qed
qed

lemma bit_le_bytes: "k < n \<Longrightarrow> bit (le_bytes n w ! k) j \<longleftrightarrow> j < 8 \<and> bit w (8 * k + j)"
  by (auto simp: le_bytes_def bit_simps)

lemma le_bytes_le_word:
  assumes "length bs = n" "8 * n \<le> LENGTH('w::len)"
  shows "le_bytes n (le_word bs :: 'w word) = bs"
proof (rule nth_equalityI)
  fix k assume "k < length (le_bytes n (le_word bs :: 'w word))"
  then have k: "k < n" by simp
  show "le_bytes n (le_word bs :: 'w word) ! k = bs ! k"
  proof (rule bit_word_eqI)
    fix j assume "j < LENGTH(8)"
    then have "j < 8" by simp
    moreover from this k have "8 * k + j < 8 * n" by linarith
    ultimately show "bit (le_bytes n (le_word bs :: 'w word) ! k) j = bit (bs ! k) j"
      using k assms by (simp add: bit_le_bytes bit_le_word)
  qed
qed (simp add: assms)

lemma le_word_le_bytes:
  assumes "LENGTH('w::len) = 8 * n"
  shows "le_word (le_bytes n w) = (w :: 'w word)"
proof (rule bit_word_eqI)
  fix i assume i: "i < LENGTH('w)"
  then have "i div 8 < n" using assms by auto
  then show "bit (le_word (le_bytes n w) :: 'w word) i = bit w i"
    using i assms by (simp add: bit_le_word bit_le_bytes)
qed

text \<open>Reading and writing the memory of a buffer seen as an array of words of \<^term>\<open>n\<close> bytes.\<close>

definition get_word :: "nat \<Rightarrow> byte list \<Rightarrow> nat \<Rightarrow> 'w::len word" where
  "get_word n buf i = le_word (take n (drop (n * i) buf))"

definition memcpy :: "byte list \<Rightarrow> nat \<Rightarrow> byte list \<Rightarrow> byte list" where
  "memcpy buf off src = take off buf @ src @ drop (off + length src) buf"

abbreviation memset0 :: "byte list \<Rightarrow> nat \<Rightarrow> nat \<Rightarrow> byte list" where
  "memset0 buf off n \<equiv> memcpy buf off (replicate n 0)"

definition put_word :: "nat \<Rightarrow> byte list \<Rightarrow> nat \<Rightarrow> 'w::len word \<Rightarrow> byte list" where
  "put_word n buf i w = memcpy buf (n * i) (le_bytes n w)"

lemma length_memcpy [simp]: "off + length src \<le> length buf \<Longrightarrow> length (memcpy buf off src) = length buf"
  by (simp add: memcpy_def)

lemma take_memcpy: "off \<le> length buf \<Longrightarrow> take (off + length src) (memcpy buf off src) = take off buf @ src"
  by (simp add: memcpy_def)

lemma nth_memcpy:
  "off + length src \<le> length buf \<Longrightarrow> i < length buf \<Longrightarrow>
   memcpy buf off src ! i = (if i < off then buf ! i else if i < off + length src then src ! (i - off) else buf ! i)"
  by (auto simp: memcpy_def nth_append)

lemma length_put_word [simp]: "n * i + n \<le> length buf \<Longrightarrow> length (put_word n buf i w) = length buf"
  by (simp add: put_word_def)

definition words_in :: "nat \<Rightarrow> byte list \<Rightarrow> 'w::len word list" where
  "words_in n buf = map (get_word n buf) [0..<length buf div n]"

lemma length_words_in [simp]: "length (words_in n buf) = length buf div n"
  by (simp add: words_in_def)

lemma get_word_words_in: "i < length buf div n \<Longrightarrow> get_word n buf i = words_in n buf ! i"
  by (simp add: words_in_def)

lemma room: "i < length buf div n \<Longrightarrow> n * i + n \<le> length (buf :: 'a list)"
proof -
  assume "i < length buf div n"
  then have "Suc i * n \<le> (length buf div n) * n" by (intro mult_le_mono1) simp
  also have "\<dots> \<le> length buf" by simp
  finally show ?thesis by (simp add: mult.commute)
qed

lemma get_put_word:
  assumes "LENGTH('w::len) = 8 * n" "i < length buf div n" "j < length buf div n"
  shows "get_word n (put_word n buf i (w :: 'w word)) j = (if j = i then w else get_word n buf j)"
proof -
  have i: "n * i + n \<le> length buf" and j: "n * j + n \<le> length buf" using room assms(2,3) by blast+
  have eq: "take n (drop (n * j) (put_word n buf i w)) = (if j = i then le_bytes n w else take n (drop (n * j) buf))"
  proof (rule nth_equalityI)
    fix k assume "k < length (take n (drop (n * j) (put_word n buf i w)))"
    then have k: "k < n" "n * j + k < length buf" using i j by auto
    have less: "n * j + k < n * i" if "j < i"
    proof -
      from that have "n * Suc j \<le> n * i" by (intro mult_le_mono2) simp
      then show ?thesis using k(1) by simp
    qed
    have greater: "n * i + n \<le> n * j" if "i < j"
    proof -
      from that have "n * Suc i \<le> n * j" by (intro mult_le_mono2) simp
      then show ?thesis by simp
    qed
    consider "j < i" | "j = i" | "i < j" by linarith
    then show "take n (drop (n * j) (put_word n buf i w)) ! k =
        (if j = i then le_bytes n w else take n (drop (n * j) buf)) ! k"
      using i j k less greater by cases (simp_all add: put_word_def nth_memcpy)
  qed (use i j in auto)
  show ?thesis using eq le_word_le_bytes [OF assms(1), of w] by (simp add: get_word_def)
qed

lemma words_in_put_word:
  assumes "LENGTH('w::len) = 8 * n" "i < length buf div n"
  shows "words_in n (put_word n buf i (w :: 'w word)) = (words_in n buf)[i := w]"
  using assms room [OF assms(2)]
  by (intro nth_equalityI) (simp_all add: words_in_def get_put_word)

section \<open>Bits\<close>

lemma bit_high: "LENGTH('w::len) \<le> n \<Longrightarrow> \<not> bit (w :: 'w word) n"
  using bit_imp_le_length by force

lemma bit_word_of_nat: "bit (word_of_nat n :: 'w::len word) i \<longleftrightarrow> i < LENGTH('w) \<and> bit n i"
proof -
  have "word_of_nat n = (word_of_int (int n) :: 'w word)" by simp
  then show ?thesis by (simp only: bit_word_of_int_iff bit_of_nat_iff) simp
qed

lemma shifts_rotate:
  fixes x :: "'w::len word"
  assumes "0 < b" "b < LENGTH('w)"
  shows "drop_bit b x OR push_bit (LENGTH('w) - b) x = word_rotr b x"
proof (rule bit_word_eqI)
  fix n assume n: "n < LENGTH('w)"
  show "bit (drop_bit b x OR push_bit (LENGTH('w) - b) x) n = bit (word_rotr b x) n"
  proof (cases "n + b < LENGTH('w)")
    case True
    then show ?thesis using n assms by (auto simp: bit_simps bit_word_rotr_iff add.commute)
  next
    case False
    then have "(n + b) mod LENGTH('w) = n - (LENGTH('w) - b)" "LENGTH('w) - b \<le> n" using n assms by (simp_all add: mod_if)
    then show ?thesis using n assms False by (auto simp: bit_simps bit_word_rotr_iff add.commute bit_high)
  qed
qed

lemma shifts_rotate_left:
  fixes x :: "'w::len word"
  assumes "0 < b" "b < LENGTH('w)"
  shows "push_bit b x OR drop_bit (LENGTH('w) - b) x = word_rotl b x"
  using shifts_rotate [of "LENGTH('w) - b" x] assms by (simp add: word_rotl_eq_word_rotr or.commute)

lemma reverse_bytes:
  assumes "length bs = Suc n" "LENGTH('w::len) = 8 * Suc n"
    "\<forall>i\<in>set [0..<LENGTH('w)]. bit (f (le_word bs)) i = bit (le_word bs :: 'w word) (8 * (n - i div 8) + i mod 8)"
  shows "f (le_word bs :: 'w word) = (be_word bs :: 'w word)"
proof (rule bit_word_eqI)
  fix i assume i: "i < LENGTH('w)"
  then have "i div 8 < Suc n" "(8 * (n - i div 8) + i mod 8) < 8 * Suc n" using assms(2) by auto
  moreover have "(8 * (n - i div 8) + i mod 8) div 8 = n - i div 8" "(8 * (n - i div 8) + i mod 8) mod 8 = i mod 8"
    by simp_all
  ultimately show "bit (f (le_word bs)) i = bit (be_word bs :: 'w word) i"
    using i assms by (simp add: bit_le_word be_word_def rev_nth Suc_diff_Suc)
qed

lemma le_bytes_halves:
  assumes "LENGTH('v::len) = 8 * k" "LENGTH('w::len) = 16 * k"
  shows "le_bytes k (word_of_nat n :: 'v word) @ le_bytes k (word_of_nat (n div 2 ^ (8 * k)) :: 'v word) =
    le_bytes (2 * k) (word_of_nat n :: 'w word)"
proof (rule nth_equalityI)
  fix i
  assume "i < length (le_bytes k (word_of_nat n :: 'v word) @ le_bytes k (word_of_nat (n div 2 ^ (8 * k)) :: 'v word))"
  then have i: "i < 2 * k" by simp
  show "(le_bytes k (word_of_nat n :: 'v word) @ le_bytes k (word_of_nat (n div 2 ^ (8 * k)) :: 'v word)) ! i =
      le_bytes (2 * k) (word_of_nat n :: 'w word) ! i"
  proof (rule bit_word_eqI)
    fix j
    assume "j < LENGTH(8)"
    then have j: "j < 8" by simp
    show "bit ((le_bytes k (word_of_nat n :: 'v word) @ le_bytes k (word_of_nat (n div 2 ^ (8 * k)) :: 'v word)) ! i) j =
        bit (le_bytes (2 * k) (word_of_nat n :: 'w word) ! i) j"
    proof (cases "i < k")
      case True
      then show ?thesis using i j assms by (simp add: nth_append bit_le_bytes bit_word_of_nat)
    next
      case False
      then obtain h where h: "i = k + h" "h < k" using i by (metis add_less_cancel_left le_Suc_ex mult_2 not_less)
      moreover have "bit (n div 2 ^ (8 * k)) m = bit n (8 * k + m)" for m
        unfolding drop_bit_eq_div [symmetric] by (simp add: bit_drop_bit_eq)
      ultimately show ?thesis using j assms by (simp add: nth_append bit_le_bytes bit_word_of_nat algebra_simps)
    qed
  qed
qed simp

lemma unat_bits:
  assumes "LENGTH('w::len) = n + 3"
  shows "unat (drop_bit 3 (word_of_nat (8 * k) :: 'w word)) = k mod 2 ^ n"
proof -
  have "unat (drop_bit 3 (word_of_nat (8 * k) :: 'w word)) = (8 * k) mod (8 * 2 ^ n) div 8"
    using assms by (subst unat_drop_bit_eq) (simp add: drop_bit_eq_div unat_of_nat power_add mult.commute del: of_nat_mult)
  then show ?thesis by (simp only: mult_mod_right [symmetric] nonzero_mult_div_cancel_left)
qed

lemma div_mod_carry:
  assumes "t < M" "p < (M :: nat)"
  shows "(M * q + (t + p)) div M = q + (if t + p < M then 0 else 1)"
    and "(M * q + (t + p)) mod M = (if t + p < M then t + p else t + p - M)"
  using assms by (auto simp: div_if [of "t + p"] mod_if [of "t + p"])

text \<open>A counter in two words: adding \<^term>\<open>n\<close> carries exactly when the low word comes out below \<^term>\<open>n\<close>.\<close>

lemma carry_count:
  assumes "n < 2 ^ LENGTH('w::len)"
  shows "(m + n) div 2 ^ LENGTH('w) =
    m div 2 ^ LENGTH('w) + (if unat (word_of_nat (m + n) :: 'w word) < n then 1 else 0)"
proof -
  define B t q where "B = (2 :: nat) ^ LENGTH('w)" and "t = m mod B" and "q = m div B"
  have m: "m = B * q + t" "t < B" "n < B" using assms by (simp_all add: B_def t_def q_def)
  have "unat (word_of_nat (m + n) :: 'w word) = (B * q + (t + n)) mod B" unfolding B_def unat_of_nat add.assoc [symmetric]
    using m(1) by (simp only: B_def)
  then show ?thesis
    using div_mod_carry [OF m(2,3), of q] m by (auto simp: B_def [symmetric] q_def [symmetric] add.assoc)
qed

section \<open>Absorbing a message block by block\<close>

function absorb :: "nat \<Rightarrow> ('h \<Rightarrow> byte list \<Rightarrow> 'h) \<Rightarrow> 'h \<Rightarrow> byte list \<Rightarrow> 'h" where
  "absorb B f h m = (if B = 0 \<or> length m < B then h else absorb B f (f h (take B m)) (drop B m))"
  by pat_completeness auto
termination by (relation "measure (\<lambda>(B, f, h, m). length m)") auto

declare absorb.simps [simp del]

definition left_over :: "nat \<Rightarrow> byte list \<Rightarrow> byte list" where
  "left_over B m = drop (length m - length m mod B) m"

lemma absorb_short [simp]: "length m < B \<Longrightarrow> absorb B f h m = h"
  by (simp add: absorb.simps)

lemma absorb_block: "0 < B \<Longrightarrow> length b = B \<Longrightarrow> absorb B f h (b @ m) = absorb B f (f h b) m"
  by (simp add: absorb.simps [of B f h "b @ m"])

lemma length_left_over [simp]: "length (left_over B m) = length m mod B"
  by (simp add: left_over_def)

lemma left_over_short [simp]: "length m < B \<Longrightarrow> left_over B m = m"
  by (simp add: left_over_def)

lemma left_over_block: "length b = B \<Longrightarrow> left_over B (b @ m) = left_over B m"
proof -
  assume "length b = B"
  moreover have "length m mod B \<le> length m" by simp
  ultimately show ?thesis by (simp add: left_over_def Nat.add_diff_assoc del: mod_less_eq_dividend)
qed

lemma absorb_append:
  assumes "0 < B"
  shows "absorb B f h (m @ d) = absorb B f (absorb B f h m) (left_over B m @ d)"
    and "left_over B (m @ d) = left_over B (left_over B m @ d)"
proof -
  have "absorb B f h (m @ d) = absorb B f (absorb B f h m) (left_over B m @ d) \<and>
    left_over B (m @ d) = left_over B (left_over B m @ d)"
  proof (induction "length m" arbitrary: m h rule: less_induct)
    case less
    show ?case
    proof (cases "length m < B")
      case False
      define b r where "b = take B m" and "r = drop B m"
      have m: "m = b @ r" "length b = B" using False by (simp_all add: b_def r_def)
      then have "length r < length m" using assms by simp
      then show ?thesis using less [of r "f h b"] m assms by (simp add: absorb_block left_over_block)
    qed simp
  qed
  then show "absorb B f h (m @ d) = absorb B f (absorb B f h m) (left_over B m @ d)"
    and "left_over B (m @ d) = left_over B (left_over B m @ d)" by blast+
qed

lemma absorb_fill:
  assumes "0 < B" "length (left_over B m @ d) = B"
  shows "absorb B f h (m @ d) = f (absorb B f h m) (left_over B m @ d)"
    and "left_over B (m @ d) = []" and "length (m @ d) mod B = 0"
proof -
  show "length (m @ d) mod B = 0" using assms by (metis length_append length_left_over mod_add_left_eq mod_self)
  then show "left_over B (m @ d) = []" by (metis length_0_conv length_left_over)
  show "absorb B f h (m @ d) = f (absorb B f h m) (left_over B m @ d)"
    using absorb_append(1) [OF assms(1), of f h m d] absorb_block [OF assms, of f "absorb B f h m" "[]"] assms(1) by simp
qed

lemma absorb_keep:
  assumes "length (left_over B m @ d) < B"
  shows "absorb B f h (m @ d) = absorb B f h m" and "left_over B (m @ d) = left_over B m @ d"
    and "length (m @ d) mod B = length m mod B + length d"
proof -
  have B: "0 < B" using assms by simp
  show "absorb B f h (m @ d) = absorb B f h m" "left_over B (m @ d) = left_over B m @ d"
    using absorb_append(1) [OF B, of f h m d] absorb_append(2) [OF B, of m d] assms by simp_all
  show "length (m @ d) mod B = length m mod B + length d" using assms by (simp flip: mod_add_left_eq [of "length m"])
qed

lemma left_over_full: "length m mod B = 0 \<Longrightarrow> left_over B m = []"
  by (metis length_0_conv length_left_over)

text \<open>The padding of the standards: a one bit, zeros up to the length field, and the length field.\<close>

definition md_pad :: "nat \<Rightarrow> byte list \<Rightarrow> byte list \<Rightarrow> byte list" where
  "md_pad B len_field m =
     m @ [0x80] @ replicate ((2 * B - 1 - length len_field - length m mod B) mod B) 0 @ len_field"

lemma fold_upt_invariant:
  "P a x \<Longrightarrow> a \<le> b \<Longrightarrow> (\<And>j y. a \<le> j \<Longrightarrow> j < b \<Longrightarrow> P j y \<Longrightarrow> P (Suc j) (f j y)) \<Longrightarrow> P b (fold f [a..<b] x)"
proof (induction b)
  case (Suc b)
  then show ?case by (cases "a = Suc b") (simp_all add: upt_conv_Cons [of b] upt_Suc)
qed simp

lemma take_mark: "u < length b \<Longrightarrow> take (u + 1) (b[u := x]) = take u b @ [x]"
  by (simp add: take_Suc_conv_app_nth)

section \<open>Message schedules\<close>

text \<open>A schedule grows word by word, each new word computed from the ones so far.\<close>

primrec grow :: "nat \<Rightarrow> ('a list \<Rightarrow> 'a) \<Rightarrow> 'a list \<Rightarrow> 'a list" where
  "grow 0 g W = W"
| "grow (Suc n) g W = grow n g (W @ [g W])"

lemma length_grow [simp]: "length (grow n g W) = length W + n"
  by (induction n arbitrary: W) simp_all

lemma grow_prefix: "t < length W \<Longrightarrow> grow n g W ! t = W ! t"
  by (induction n arbitrary: W) (simp_all add: nth_append)

lemma take_grow: "take (length W) (grow n g W) = W"
  by (rule nth_equalityI) (simp_all add: grow_prefix)

lemma grow_nth: "length W \<le> t \<Longrightarrow> t < length W + n \<Longrightarrow> grow n g W ! t = g (take t (grow n g W))"
proof (induction n arbitrary: W)
  case (Suc n)
  show ?case
  proof (cases "t = length W")
    case True
    have "take t (grow n g (W @ [g W])) = W"
      using True take_grow [of "W @ [g W]" n g, THEN arg_cong, of "take t"] by simp
    then show ?thesis using True by (simp add: grow_prefix nth_append)
  qed (use Suc in simp)
qed simp

lemma and_15: "(n :: nat) AND 15 = n mod 16"
  using take_bit_eq_mask [of 4 n] by (simp add: take_bit_nat_def mask_eq_exp_minus_1)

section \<open>The interface of a streaming hash\<close>

text \<open>
  \<^term>\<open>holds c m\<close> says that the context \<^term>\<open>c\<close> has taken in the message \<^term>\<open>m\<close>; \<^term>\<open>fits d\<close> that one call
  may hand over the chunk \<^term>\<open>d\<close> (its length fits the parameter).
\<close>

locale streaming_hash =
  fixes holds :: "'c \<Rightarrow> byte list \<Rightarrow> bool"
    and initial :: "'c"
    and update :: "'c \<Rightarrow> byte list \<Rightarrow> 'c"
    and finish :: "'c \<Rightarrow> byte list"
    and digest :: "byte list \<Rightarrow> byte list"
    and fits :: "byte list \<Rightarrow> bool"
  assumes holds_initial: "holds initial []"
    and holds_update: "holds c m \<Longrightarrow> fits d \<Longrightarrow> holds (update c d) (m @ d)"
    and holds_finish: "holds c m \<Longrightarrow> finish c = digest m"
begin

lemma holds_updates: "holds c m \<Longrightarrow> \<forall>d\<in>set ds. fits d \<Longrightarrow> holds (foldl update c ds) (m @ concat ds)"
proof (induction ds arbitrary: c m)
  case (Cons d ds)
  then have "holds (update c d) (m @ d)" using holds_update by simp
  then show ?case using Cons.IH [of "update c d" "m @ d"] Cons.prems(2) by simp
qed simp

lemma finish_chunks: "\<forall>d\<in>set ds. fits d \<Longrightarrow> finish (foldl update initial ds) = digest (concat ds)"
  using holds_updates [OF holds_initial] holds_finish by fastforce

lemma finish_once: "fits d \<Longrightarrow> finish (update initial d) = digest d"
  using finish_chunks [of "[d]"] by simp

end

end
