(* ===== verification/Sha2.thy ===== *)
theory Sha2
  imports BlockHash
begin

text \<open>
  \<^verbatim>\<open>sha2.c\<close>: SHA-256, SHA-384 and SHA-512 on a little-endian machine, as the file is compiled without
  \<^verbatim>\<open>SHA2_UNROLL_TRANSFORM\<close>. The file writes every function once for 32-bit words and once for 64-bit
  words; here the pair is one definition over a record with everything in which the two differ. The
  context keeps its buffer as bytes, and the transform uses that memory for its message schedule.
\<close>

section \<open>Macros\<close>

definition REVERSE32 :: "32 word \<Rightarrow> 32 word" where
  "REVERSE32 w = (let tmp = drop_bit 16 w OR push_bit 16 w
     in drop_bit 8 (tmp AND 0xff00ff00) OR push_bit 8 (tmp AND 0x00ff00ff))"

definition REVERSE64 :: "64 word \<Rightarrow> 64 word" where
  "REVERSE64 w = (let tmp = drop_bit 32 w OR push_bit 32 w;
       tmp = drop_bit 8 (tmp AND 0xff00ff00ff00ff00) OR push_bit 8 (tmp AND 0x00ff00ff00ff00ff)
     in drop_bit 16 (tmp AND 0xffff0000ffff0000) OR push_bit 16 (tmp AND 0x0000ffff0000ffff))"

definition ADDINC128 :: "64 word \<times> 64 word \<Rightarrow> 64 word \<Rightarrow> 64 word \<times> 64 word" where
  "ADDINC128 w n = (let w0 = fst w + n in (w0, if w0 < n then snd w + 1 else snd w))"

definition sha2_R :: "nat \<Rightarrow> 'w::len word \<Rightarrow> 'w word" where
  "sha2_R b x = drop_bit b x"

definition S32 :: "nat \<Rightarrow> 32 word \<Rightarrow> 32 word" where
  "S32 b x = drop_bit b x OR push_bit (32 - b) x"

definition S64 :: "nat \<Rightarrow> 64 word \<Rightarrow> 64 word" where
  "S64 b x = drop_bit b x OR push_bit (64 - b) x"

definition Ch :: "'w::len word \<Rightarrow> 'w word \<Rightarrow> 'w word \<Rightarrow> 'w word" where
  "Ch x y z = (x AND y) XOR (NOT x AND z)"

definition Maj :: "'w::len word \<Rightarrow> 'w word \<Rightarrow> 'w word \<Rightarrow> 'w word" where
  "Maj x y z = (x AND y) XOR (x AND z) XOR (y AND z)"

definition Sigma0_256 :: "32 word \<Rightarrow> 32 word" where "Sigma0_256 x = S32 2 x XOR S32 13 x XOR S32 22 x"
definition Sigma1_256 :: "32 word \<Rightarrow> 32 word" where "Sigma1_256 x = S32 6 x XOR S32 11 x XOR S32 25 x"
definition sigma0_256 :: "32 word \<Rightarrow> 32 word" where "sigma0_256 x = S32 7 x XOR S32 18 x XOR sha2_R 3 x"
definition sigma1_256 :: "32 word \<Rightarrow> 32 word" where "sigma1_256 x = S32 17 x XOR S32 19 x XOR sha2_R 10 x"

definition Sigma0_512 :: "64 word \<Rightarrow> 64 word" where "Sigma0_512 x = S64 28 x XOR S64 34 x XOR S64 39 x"
definition Sigma1_512 :: "64 word \<Rightarrow> 64 word" where "Sigma1_512 x = S64 14 x XOR S64 18 x XOR S64 41 x"
definition sigma0_512 :: "64 word \<Rightarrow> 64 word" where "sigma0_512 x = S64 1 x XOR S64 8 x XOR sha2_R 7 x"
definition sigma1_512 :: "64 word \<Rightarrow> 64 word" where "sigma1_512 x = S64 19 x XOR S64 61 x XOR sha2_R 6 x"

section \<open>Tables\<close>

text \<open>The round constants, in the rows in which \<^verbatim>\<open>sha2.c\<close> has them.\<close>

definition K256 :: "32 word list" where
  "K256 = concat [
    [0x428a2f98, 0x71374491, 0xb5c0fbcf, 0xe9b5dba5],
    [0x3956c25b, 0x59f111f1, 0x923f82a4, 0xab1c5ed5],
    [0xd807aa98, 0x12835b01, 0x243185be, 0x550c7dc3],
    [0x72be5d74, 0x80deb1fe, 0x9bdc06a7, 0xc19bf174],
    [0xe49b69c1, 0xefbe4786, 0x0fc19dc6, 0x240ca1cc],
    [0x2de92c6f, 0x4a7484aa, 0x5cb0a9dc, 0x76f988da],
    [0x983e5152, 0xa831c66d, 0xb00327c8, 0xbf597fc7],
    [0xc6e00bf3, 0xd5a79147, 0x06ca6351, 0x14292967],
    [0x27b70a85, 0x2e1b2138, 0x4d2c6dfc, 0x53380d13],
    [0x650a7354, 0x766a0abb, 0x81c2c92e, 0x92722c85],
    [0xa2bfe8a1, 0xa81a664b, 0xc24b8b70, 0xc76c51a3],
    [0xd192e819, 0xd6990624, 0xf40e3585, 0x106aa070],
    [0x19a4c116, 0x1e376c08, 0x2748774c, 0x34b0bcb5],
    [0x391c0cb3, 0x4ed8aa4a, 0x5b9cca4f, 0x682e6ff3],
    [0x748f82ee, 0x78a5636f, 0x84c87814, 0x8cc70208],
    [0x90befffa, 0xa4506ceb, 0xbef9a3f7, 0xc67178f2]]"

definition sha256_initial_hash_value :: "32 word list" where
  "sha256_initial_hash_value = [
    0x6a09e667, 0xbb67ae85, 0x3c6ef372, 0xa54ff53a, 0x510e527f, 0x9b05688c, 0x1f83d9ab, 0x5be0cd19]"

definition K512 :: "64 word list" where
  "K512 = concat [
    [0x428a2f98d728ae22, 0x7137449123ef65cd], [0xb5c0fbcfec4d3b2f, 0xe9b5dba58189dbbc],
    [0x3956c25bf348b538, 0x59f111f1b605d019], [0x923f82a4af194f9b, 0xab1c5ed5da6d8118],
    [0xd807aa98a3030242, 0x12835b0145706fbe], [0x243185be4ee4b28c, 0x550c7dc3d5ffb4e2],
    [0x72be5d74f27b896f, 0x80deb1fe3b1696b1], [0x9bdc06a725c71235, 0xc19bf174cf692694],
    [0xe49b69c19ef14ad2, 0xefbe4786384f25e3], [0x0fc19dc68b8cd5b5, 0x240ca1cc77ac9c65],
    [0x2de92c6f592b0275, 0x4a7484aa6ea6e483], [0x5cb0a9dcbd41fbd4, 0x76f988da831153b5],
    [0x983e5152ee66dfab, 0xa831c66d2db43210], [0xb00327c898fb213f, 0xbf597fc7beef0ee4],
    [0xc6e00bf33da88fc2, 0xd5a79147930aa725], [0x06ca6351e003826f, 0x142929670a0e6e70],
    [0x27b70a8546d22ffc, 0x2e1b21385c26c926], [0x4d2c6dfc5ac42aed, 0x53380d139d95b3df],
    [0x650a73548baf63de, 0x766a0abb3c77b2a8], [0x81c2c92e47edaee6, 0x92722c851482353b],
    [0xa2bfe8a14cf10364, 0xa81a664bbc423001], [0xc24b8b70d0f89791, 0xc76c51a30654be30],
    [0xd192e819d6ef5218, 0xd69906245565a910], [0xf40e35855771202a, 0x106aa07032bbd1b8],
    [0x19a4c116b8d2d0c8, 0x1e376c085141ab53], [0x2748774cdf8eeb99, 0x34b0bcb5e19b48a8],
    [0x391c0cb3c5c95a63, 0x4ed8aa4ae3418acb], [0x5b9cca4f7763e373, 0x682e6ff3d6b2b8a3],
    [0x748f82ee5defb2fc, 0x78a5636f43172f60], [0x84c87814a1f0ab72, 0x8cc702081a6439ec],
    [0x90befffa23631e28, 0xa4506cebde82bde9], [0xbef9a3f7b2c67915, 0xc67178f2e372532b],
    [0xca273eceea26619c, 0xd186b8c721c0c207], [0xeada7dd6cde0eb1e, 0xf57d4f7fee6ed178],
    [0x06f067aa72176fba, 0x0a637dc5a2c898a6], [0x113f9804bef90dae, 0x1b710b35131c471b],
    [0x28db77f523047d84, 0x32caab7b40c72493], [0x3c9ebe0a15c9bebc, 0x431d67c49c100d4c],
    [0x4cc5d4becb3e42b6, 0x597f299cfc657e2a], [0x5fcb6fab3ad6faec, 0x6c44198c4a475817]]"

definition sha384_initial_hash_value :: "64 word list" where
  "sha384_initial_hash_value = [
    0xcbbb9d5dc1059ed8, 0x629a292a367cd507, 0x9159015a3070dd17, 0x152fecd8f70e5939,
    0x67332667ffc00b31, 0x8eb44a8768581511, 0xdb0c2e0d64f98fa7, 0x47b5481dbefa4fa4]"

definition sha512_initial_hash_value :: "64 word list" where
  "sha512_initial_hash_value = [
    0x6a09e667f3bcc908, 0xbb67ae8584caa73b, 0x3c6ef372fe94f82b, 0xa54ff53a5f1d36f1,
    0x510e527fade682d1, 0x9b05688c2b3e6c1f, 0x1f83d9abfb41bd6b, 0x5be0cd19137e2179]"

section \<open>The transform\<close>

text \<open>
  What the 32-bit and the 64-bit functions differ in: the bytes of a word, the length of a block and of
  a block less its length field, the number of rounds, the byte reversal, the round constants, the
  sigma functions, and the bit counter (how full the buffer is, how it is advanced by a number of
  bytes, and the bytes that the last block gets of it).
\<close>

record ('v, 'n) sha2_width =
  wbytes :: nat
  block_length :: nat
  short_block_length :: nat
  rounds :: nat
  reverse :: "'v \<Rightarrow> 'v"
  Kt :: "'v list"
  Sigma0 :: "'v \<Rightarrow> 'v"
  Sigma1 :: "'v \<Rightarrow> 'v"
  sigma0 :: "'v \<Rightarrow> 'v"
  sigma1 :: "'v \<Rightarrow> 'v"
  usedspace :: "'n \<Rightarrow> nat"
  add_bytes :: "'n \<Rightarrow> nat \<Rightarrow> 'n"
  count_bytes :: "'n \<Rightarrow> byte list"

definition sha256_width :: "(32 word, 64 word) sha2_width" where
  "sha256_width = \<lparr>wbytes = 4, block_length = 64, short_block_length = 64 - 8, rounds = 64,
     reverse = REVERSE32, Kt = K256, Sigma0 = Sigma0_256, Sigma1 = Sigma1_256,
     sigma0 = sigma0_256, sigma1 = sigma1_256,
     usedspace = (\<lambda>n. unat (drop_bit 3 n) mod 64),
     add_bytes = (\<lambda>n len. n + push_bit 3 (word_of_nat len)),
     count_bytes = (\<lambda>n. le_bytes 8 (REVERSE64 n))\<rparr>"

definition sha512_width :: "(64 word, 64 word \<times> 64 word) sha2_width" where
  "sha512_width = \<lparr>wbytes = 8, block_length = 128, short_block_length = 128 - 16, rounds = 80,
     reverse = REVERSE64, Kt = K512, Sigma0 = Sigma0_512, Sigma1 = Sigma1_512,
     sigma0 = sigma0_512, sigma1 = sigma1_512,
     usedspace = (\<lambda>n. unat (drop_bit 3 (fst n)) mod 128),
     add_bytes = (\<lambda>n len. ADDINC128 n (push_bit 3 (word_of_nat len))),
     count_bytes = (\<lambda>n. le_bytes 8 (REVERSE64 (snd n)) @ le_bytes 8 (REVERSE64 (fst n)))\<rparr>"

record ('v, 'n) sha2_ctx =
  state :: "'v list"
  bitcount :: 'n
  buffer :: "byte list"

type_synonym sha256_ctx = "(32 word, 64 word) sha2_ctx"
type_synonym sha512_ctx = "(64 word, 64 word \<times> 64 word) sha2_ctx"

text \<open>The transform reads its data from the buffer of the context itself or from the caller's memory.\<close>

datatype block_source = In_buffer | Elsewhere "byte list"

type_synonym 'v regs = "'v \<times> 'v \<times> 'v \<times> 'v \<times> 'v \<times> 'v \<times> 'v \<times> 'v"

fun sha2_round :: "('w::len word, 'n) sha2_width \<Rightarrow> nat \<Rightarrow> 'w word \<Rightarrow> 'w word regs \<Rightarrow> 'w word regs" where
  "sha2_round A j w (a, b, c, d, e, f, g, h) =
     (let T1 = h + Sigma1 A e + Ch e f g + Kt A ! j + w; T2 = Sigma0 A a + Maj a b c
      in (T1 + T2, a, b, c, d + T1, e, f, g))"

definition load_round :: "('w::len word, 'n) sha2_width \<Rightarrow> block_source \<Rightarrow> nat \<Rightarrow>
    byte list \<times> 'w word regs \<Rightarrow> byte list \<times> 'w word regs" where
  "load_round A src j br = (case br of (buf, regs) \<Rightarrow>
     let data = (case src of In_buffer \<Rightarrow> buf | Elsewhere d \<Rightarrow> d);
         buf = put_word (wbytes A) buf j (reverse A (get_word (wbytes A) data j))
     in (buf, sha2_round A j (get_word (wbytes A) buf j) regs))"

definition expand_round :: "('w::len word, 'n) sha2_width \<Rightarrow> nat \<Rightarrow>
    byte list \<times> 'w word regs \<Rightarrow> byte list \<times> 'w word regs" where
  "expand_round A j br = (case br of (buf, regs) \<Rightarrow>
     let s0 = sigma0 A (get_word (wbytes A) buf ((j + 1) AND 0x0f));
         s1 = sigma1 A (get_word (wbytes A) buf ((j + 14) AND 0x0f));
         w = get_word (wbytes A) buf (j AND 0x0f) + (s1 + get_word (wbytes A) buf ((j + 9) AND 0x0f) + s0);
         buf = put_word (wbytes A) buf (j AND 0x0f) w
     in (buf, sha2_round A j w regs))"

definition state_regs :: "'v list \<Rightarrow> 'v regs" where
  "state_regs s = (s ! 0, s ! 1, s ! 2, s ! 3, s ! 4, s ! 5, s ! 6, s ! 7)"

fun add_regs :: "'w::len word list \<Rightarrow> 'w word regs \<Rightarrow> 'w word list" where
  "add_regs s (a, b, c, d, e, f, g, h) =
     [s ! 0 + a, s ! 1 + b, s ! 2 + c, s ! 3 + d, s ! 4 + e, s ! 5 + f, s ! 6 + g, s ! 7 + h]"

definition sha2_Transform :: "('w::len word, 'n) sha2_width \<Rightarrow> ('w word, 'n) sha2_ctx \<Rightarrow> block_source \<Rightarrow>
    ('w word, 'n) sha2_ctx" where
  "sha2_Transform A c src =
     (let br = fold (load_round A src) [0..<16] (buffer c, state_regs (state c));
          (buf, regs) = fold (expand_round A) [16..<rounds A] br
      in c\<lparr>state := add_regs (state c) regs, buffer := buf\<rparr>)"

section \<open>Feeding data\<close>

function sha2_blocks :: "('w::len word, 'n) sha2_width \<Rightarrow> ('w word, 'n) sha2_ctx \<Rightarrow> byte list \<Rightarrow>
    ('w word, 'n) sha2_ctx" where
  "sha2_blocks A c data =
     (if block_length A \<noteq> 0 \<and> block_length A \<le> length data then
        (let c = sha2_Transform A c (Elsewhere (take (block_length A) data));
             c = c\<lparr>bitcount := add_bytes A (bitcount c) (block_length A)\<rparr>
         in sha2_blocks A c (drop (block_length A) data))
      else if 0 < length data then
        c\<lparr>buffer := memcpy (buffer c) 0 data, bitcount := add_bytes A (bitcount c) (length data)\<rparr>
      else c)"
  by pat_completeness auto
termination by (relation "measure (\<lambda>(A, c, data). length data)") auto

declare sha2_blocks.simps [simp del]

definition sha2_Update :: "('w::len word, 'n) sha2_width \<Rightarrow> ('w word, 'n) sha2_ctx \<Rightarrow> byte list \<Rightarrow>
    ('w word, 'n) sha2_ctx" where
  "sha2_Update A c data =
     (if length data = 0 then c
      else let used = usedspace A (bitcount c) in
        if 0 < used then
          (let free = block_length A - used in
           if free \<le> length data then
             (let c = c\<lparr>buffer := memcpy (buffer c) used (take free data),
                        bitcount := add_bytes A (bitcount c) free\<rparr>
              in sha2_blocks A (sha2_Transform A c In_buffer) (drop free data))
           else c\<lparr>buffer := memcpy (buffer c) used data, bitcount := add_bytes A (bitcount c) (length data)\<rparr>)
        else sha2_blocks A c data)"

section \<open>Padding and the digest\<close>

text \<open>
  \<^verbatim>\<open>zeroed\<close> is the number of bytes the code clears after a second-to-last transform: the short block in
  SHA-256, the block less two bytes in SHA-512.
\<close>

definition sha2_Last :: "('w::len word, 'n) sha2_width \<Rightarrow> nat \<Rightarrow> ('w word, 'n) sha2_ctx \<Rightarrow> ('w word, 'n) sha2_ctx" where
  "sha2_Last A zeroed c =
     (let used = usedspace A (bitcount c);
          short = short_block_length A;
          c = (if 0 < used then
                 (let buf = (buffer c)[used := 0x80]; used = used + 1 in
                  if used \<le> short then c\<lparr>buffer := memset0 buf used (short - used)\<rparr>
                  else
                    (let buf = (if used < block_length A then memset0 buf used (block_length A - used) else buf);
                         c = sha2_Transform A (c\<lparr>buffer := buf\<rparr>) In_buffer
                     in c\<lparr>buffer := memset0 (buffer c) 0 zeroed\<rparr>))
               else c\<lparr>buffer := (memset0 (buffer c) 0 short)[0 := 0x80]\<rparr>);
          c = c\<lparr>buffer := memcpy (buffer c) short (count_bytes A (bitcount c))\<rparr>
      in sha2_Transform A c In_buffer)"

definition sha2_digest :: "('w::len word, 'n) sha2_width \<Rightarrow> nat \<Rightarrow> 'w word list \<Rightarrow> byte list" where
  "sha2_digest A n s = concat (map (\<lambda>j. le_bytes (wbytes A) (reverse A (s ! j))) [0..<n])"

section \<open>The functions of the three hashes\<close>

definition SHA2_SHA256_Init :: sha256_ctx where
  "SHA2_SHA256_Init = \<lparr>state = sha256_initial_hash_value, bitcount = 0, buffer = replicate 64 0\<rparr>"

definition SHA2_SHA256_Update :: "sha256_ctx \<Rightarrow> byte list \<Rightarrow> sha256_ctx" where
  "SHA2_SHA256_Update = sha2_Update sha256_width"

definition SHA2_SHA256_Final :: "sha256_ctx \<Rightarrow> byte list" where
  "SHA2_SHA256_Final c = sha2_digest sha256_width 8 (state (sha2_Last sha256_width (64 - 8) c))"

definition SHA2_SHA512_Init :: sha512_ctx where
  "SHA2_SHA512_Init = \<lparr>state = sha512_initial_hash_value, bitcount = (0, 0), buffer = replicate 128 0\<rparr>"

definition SHA2_SHA512_Update :: "sha512_ctx \<Rightarrow> byte list \<Rightarrow> sha512_ctx" where
  "SHA2_SHA512_Update = sha2_Update sha512_width"

definition SHA2_SHA512_Last :: "sha512_ctx \<Rightarrow> sha512_ctx" where
  "SHA2_SHA512_Last = sha2_Last sha512_width (128 - 2)"

definition SHA2_SHA512_Final :: "sha512_ctx \<Rightarrow> byte list" where
  "SHA2_SHA512_Final c = sha2_digest sha512_width 8 (state (SHA2_SHA512_Last c))"

definition SHA2_SHA384_Init :: sha512_ctx where
  "SHA2_SHA384_Init = \<lparr>state = sha384_initial_hash_value, bitcount = (0, 0), buffer = replicate 128 0\<rparr>"

definition SHA2_SHA384_Update :: "sha512_ctx \<Rightarrow> byte list \<Rightarrow> sha512_ctx" where
  "SHA2_SHA384_Update = SHA2_SHA512_Update"

definition SHA2_SHA384_Final :: "sha512_ctx \<Rightarrow> byte list" where
  "SHA2_SHA384_Final c = sha2_digest sha512_width 6 (state (SHA2_SHA512_Last c))"

text \<open>\<^verbatim>\<open>SHA2_SHA256_End\<close> and \<^verbatim>\<open>SHA2_SHA256_Data\<close> write the digest in hexadecimal.\<close>

definition sha2_hex_digits :: string where "sha2_hex_digits = ''0123456789abcdef''"

definition hex_string :: "byte list \<Rightarrow> string" where
  "hex_string digest = concat (map (\<lambda>d.
     [sha2_hex_digits ! unat (drop_bit 4 (d AND 0xf0)), sha2_hex_digits ! unat (d AND 0x0f)]) digest)"

definition SHA2_SHA256_End :: "sha256_ctx \<Rightarrow> string" where
  "SHA2_SHA256_End c = hex_string (SHA2_SHA256_Final c)"

definition SHA2_SHA256_Data :: "byte list \<Rightarrow> string" where
  "SHA2_SHA256_Data data = SHA2_SHA256_End (SHA2_SHA256_Update SHA2_SHA256_Init data)"

definition SHA2_SHA512_End :: "sha512_ctx \<Rightarrow> string" where
  "SHA2_SHA512_End c = hex_string (SHA2_SHA512_Final c)"

definition SHA2_SHA512_Data :: "byte list \<Rightarrow> string" where
  "SHA2_SHA512_Data data = SHA2_SHA512_End (SHA2_SHA512_Update SHA2_SHA512_Init data)"

definition SHA2_SHA384_End :: "sha512_ctx \<Rightarrow> string" where
  "SHA2_SHA384_End c = hex_string (SHA2_SHA384_Final c)"

definition SHA2_SHA384_Data :: "byte list \<Rightarrow> string" where
  "SHA2_SHA384_Data data = SHA2_SHA384_End (SHA2_SHA384_Update SHA2_SHA384_Init data)"

end
