(* ===== verification/Md5.thy ===== *)
theory Md5
  imports BlockHash
begin

text \<open>
  \<^verbatim>\<open>md5c.c\<close>: the MD5 hash, on a little-endian machine (where \<^verbatim>\<open>byteReverse\<close> is compiled too, and changes
  nothing).
\<close>

record md5_ctx =
  md5_buf :: "32 word list"
  md5_bits :: "32 word \<times> 32 word"
  md5_in :: "byte list"

section \<open>Bytes and words\<close>

definition swapped_word :: "byte list \<Rightarrow> 32 word" where
  "swapped_word b = push_bit 16 (push_bit 8 (ucast (b ! 3)) OR ucast (b ! 2)) OR
     (push_bit 8 (ucast (b ! 1)) OR ucast (b ! 0))"

definition byteReverse :: "byte list \<Rightarrow> nat \<Rightarrow> byte list" where
  "byteReverse buf longs = fold (\<lambda>i buf. put_word 4 buf i (swapped_word (drop (4 * i) buf))) [0..<longs] buf"

section \<open>The transform\<close>

definition md5_F1 :: "32 word \<Rightarrow> 32 word \<Rightarrow> 32 word \<Rightarrow> 32 word" where
  "md5_F1 x y z = (z XOR (x AND (y XOR z)))"

definition md5_F2 :: "32 word \<Rightarrow> 32 word \<Rightarrow> 32 word \<Rightarrow> 32 word" where
  "md5_F2 x y z = md5_F1 z x y"

definition md5_F3 :: "32 word \<Rightarrow> 32 word \<Rightarrow> 32 word \<Rightarrow> 32 word" where
  "md5_F3 x y z = (x XOR y XOR z)"

definition md5_F4 :: "32 word \<Rightarrow> 32 word \<Rightarrow> 32 word \<Rightarrow> 32 word" where
  "md5_F4 x y z = (y XOR (x OR NOT z))"

definition MD5STEP :: "(32 word \<Rightarrow> 32 word \<Rightarrow> 32 word \<Rightarrow> 32 word) \<Rightarrow> 32 word \<Rightarrow> 32 word \<Rightarrow> 32 word \<Rightarrow> 32 word \<Rightarrow>
    32 word \<Rightarrow> nat \<Rightarrow> 32 word" where
  "MD5STEP f w x y z data s = (let w = w + (f x y z + data); w = push_bit s w OR drop_bit (32 - s) w in w + x)"

text \<open>
  The sixty-four calls of the macro: the function, the word of the block, the constant and the rotation.
  The register a call assigns is the last argument of the next call, so the four names go round.
\<close>

definition MD5_steps :: "((32 word \<Rightarrow> 32 word \<Rightarrow> 32 word \<Rightarrow> 32 word) \<times> nat \<times> 32 word \<times> nat) list" where
  "MD5_steps = [
    (md5_F1, 0, 0xd76aa478, 7), (md5_F1, 1, 0xe8c7b756, 12),
    (md5_F1, 2, 0x242070db, 17), (md5_F1, 3, 0xc1bdceee, 22),
    (md5_F1, 4, 0xf57c0faf, 7), (md5_F1, 5, 0x4787c62a, 12),
    (md5_F1, 6, 0xa8304613, 17), (md5_F1, 7, 0xfd469501, 22),
    (md5_F1, 8, 0x698098d8, 7), (md5_F1, 9, 0x8b44f7af, 12),
    (md5_F1, 10, 0xffff5bb1, 17), (md5_F1, 11, 0x895cd7be, 22),
    (md5_F1, 12, 0x6b901122, 7), (md5_F1, 13, 0xfd987193, 12),
    (md5_F1, 14, 0xa679438e, 17), (md5_F1, 15, 0x49b40821, 22),
    (md5_F2, 1, 0xf61e2562, 5), (md5_F2, 6, 0xc040b340, 9),
    (md5_F2, 11, 0x265e5a51, 14), (md5_F2, 0, 0xe9b6c7aa, 20),
    (md5_F2, 5, 0xd62f105d, 5), (md5_F2, 10, 0x02441453, 9),
    (md5_F2, 15, 0xd8a1e681, 14), (md5_F2, 4, 0xe7d3fbc8, 20),
    (md5_F2, 9, 0x21e1cde6, 5), (md5_F2, 14, 0xc33707d6, 9),
    (md5_F2, 3, 0xf4d50d87, 14), (md5_F2, 8, 0x455a14ed, 20),
    (md5_F2, 13, 0xa9e3e905, 5), (md5_F2, 2, 0xfcefa3f8, 9),
    (md5_F2, 7, 0x676f02d9, 14), (md5_F2, 12, 0x8d2a4c8a, 20),
    (md5_F3, 5, 0xfffa3942, 4), (md5_F3, 8, 0x8771f681, 11),
    (md5_F3, 11, 0x6d9d6122, 16), (md5_F3, 14, 0xfde5380c, 23),
    (md5_F3, 1, 0xa4beea44, 4), (md5_F3, 4, 0x4bdecfa9, 11),
    (md5_F3, 7, 0xf6bb4b60, 16), (md5_F3, 10, 0xbebfbc70, 23),
    (md5_F3, 13, 0x289b7ec6, 4), (md5_F3, 0, 0xeaa127fa, 11),
    (md5_F3, 3, 0xd4ef3085, 16), (md5_F3, 6, 0x04881d05, 23),
    (md5_F3, 9, 0xd9d4d039, 4), (md5_F3, 12, 0xe6db99e5, 11),
    (md5_F3, 15, 0x1fa27cf8, 16), (md5_F3, 2, 0xc4ac5665, 23),
    (md5_F4, 0, 0xf4292244, 6), (md5_F4, 7, 0x432aff97, 10),
    (md5_F4, 14, 0xab9423a7, 15), (md5_F4, 5, 0xfc93a039, 21),
    (md5_F4, 12, 0x655b59c3, 6), (md5_F4, 3, 0x8f0ccc92, 10),
    (md5_F4, 10, 0xffeff47d, 15), (md5_F4, 1, 0x85845dd1, 21),
    (md5_F4, 8, 0x6fa87e4f, 6), (md5_F4, 15, 0xfe2ce6e0, 10),
    (md5_F4, 6, 0xa3014314, 15), (md5_F4, 13, 0x4e0811a1, 21),
    (md5_F4, 4, 0xf7537e82, 6), (md5_F4, 11, 0xbd3af235, 10),
    (md5_F4, 2, 0x2ad7d2bb, 15), (md5_F4, 9, 0xeb86d391, 21)]"

fun md5_call :: "32 word list \<Rightarrow> (32 word \<Rightarrow> 32 word \<Rightarrow> 32 word \<Rightarrow> 32 word) \<times> nat \<times> 32 word \<times> nat \<Rightarrow>
    32 word \<times> 32 word \<times> 32 word \<times> 32 word \<Rightarrow> 32 word \<times> 32 word \<times> 32 word \<times> 32 word" where
  "md5_call inw (f, k, t, s) (w, x, y, z) = (z, MD5STEP f w x y z (inw ! k + t) s, x, y)"

definition MD5Transform :: "32 word list \<Rightarrow> 32 word list \<Rightarrow> 32 word list" where
  "MD5Transform buf inw =
     (case fold (md5_call inw) MD5_steps (buf ! 0, buf ! 1, buf ! 2, buf ! 3) of
        (a, b, c, d) \<Rightarrow> [buf ! 0 + a, buf ! 1 + b, buf ! 2 + c, buf ! 3 + d])"

section \<open>Contexts\<close>

text \<open>\<^verbatim>\<open>MD5Init\<close> leaves the input buffer as it finds it; \<^verbatim>\<open>HashInitMD5\<close> allocates the context zeroed.\<close>

definition MD5Init :: "md5_ctx \<Rightarrow> md5_ctx" where
  "MD5Init c = c\<lparr>md5_buf := [0x67452301, 0xefcdab89, 0x98badcfe, 0x10325476], md5_bits := (0, 0)\<rparr>"

text \<open>The block in the buffer is put in word order and absorbed.\<close>

definition md5_block :: "md5_ctx \<Rightarrow> md5_ctx" where
  "md5_block c = (let b = byteReverse (md5_in c) 16 in c\<lparr>md5_in := b, md5_buf := MD5Transform (md5_buf c) (words_in 4 b)\<rparr>)"

function md5_blocks :: "md5_ctx \<Rightarrow> byte list \<Rightarrow> md5_ctx" where
  "md5_blocks c buf =
     (if 64 \<le> length buf then md5_blocks (md5_block (c\<lparr>md5_in := memcpy (md5_in c) 0 (take 64 buf)\<rparr>)) (drop 64 buf)
      else c\<lparr>md5_in := memcpy (md5_in c) 0 buf\<rparr>)"
  by pat_completeness auto
termination by (relation "measure (\<lambda>(c, buf). length buf)") auto

declare md5_blocks.simps [simp del]

definition md5_count :: "32 word \<times> 32 word \<Rightarrow> 32 word \<Rightarrow> 32 word \<times> 32 word" where
  "md5_count bits len =
     (let t = fst bits; lo = t + push_bit 3 len; hi = (if lo < t then snd bits + 1 else snd bits)
      in (lo, hi + drop_bit 29 len))"

definition MD5Update :: "md5_ctx \<Rightarrow> byte list \<Rightarrow> md5_ctx" where
  "MD5Update c buf =
     (let t = unat (drop_bit 3 (fst (md5_bits c)) AND 0x3f);
          c = c\<lparr>md5_bits := md5_count (md5_bits c) (word_of_nat (length buf))\<rparr>
      in if t \<noteq> 0 then
           (if length buf < 64 - t then c\<lparr>md5_in := memcpy (md5_in c) t buf\<rparr>
            else md5_blocks (md5_block (c\<lparr>md5_in := memcpy (md5_in c) t (take (64 - t) buf)\<rparr>)) (drop (64 - t) buf))
         else md5_blocks c buf)"

definition MD5Final :: "md5_ctx \<Rightarrow> byte list" where
  "MD5Final c =
     (let count = unat (drop_bit 3 (fst (md5_bits c)) AND 0x3F);
          buf = (md5_in c)[count := 0x80];
          p = count + 1;
          count = 64 - 1 - count;
          c = (if count < 8 then
                 (let c = md5_block (c\<lparr>md5_in := memset0 buf p count\<rparr>) in c\<lparr>md5_in := memset0 (md5_in c) 0 56\<rparr>)
               else c\<lparr>md5_in := memset0 buf p (count - 8)\<rparr>);
          b = byteReverse (md5_in c) 14;
          b = put_word 4 (put_word 4 b 14 (fst (md5_bits c))) 15 (snd (md5_bits c));
          buf = MD5Transform (md5_buf c) (words_in 4 b)
      in byteReverse (concat (map (le_bytes 4) buf)) 4)"

end
