(* ===== verification/Sha1.thy ===== *)
theory Sha1
  imports BlockHash
begin

text \<open>
  \<^verbatim>\<open>sha1.c\<close>: the SHA-1 hash, on a little-endian machine. The context has room for two blocks, counts bytes
  rather than bits, and the number of bytes waiting in it may be a whole block.
\<close>

type_synonym sha1_regs = "32 word \<times> 32 word \<times> 32 word \<times> 32 word \<times> 32 word"

record sha1_ctx =
  ABCDE :: sha1_regs
  totals :: "32 word \<times> 32 word"
  buflen :: nat
  sbuffer :: "byte list"

definition SWAP :: "32 word \<Rightarrow> 32 word" where
  "SWAP n = push_bit 24 n OR push_bit 8 (n AND 0xff00) OR (drop_bit 8 n AND 0xff00) OR drop_bit 24 n"

definition rol :: "32 word \<Rightarrow> nat \<Rightarrow> 32 word" where
  "rol x n = push_bit n x OR drop_bit (32 - n) x"

text \<open>\<^verbatim>\<open>sha1_init_ctx\<close> leaves the buffer as it finds it.\<close>

definition sha1_init_ctx :: "sha1_ctx \<Rightarrow> sha1_ctx" where
  "sha1_init_ctx c = c\<lparr>ABCDE := (0x67452301, 0xefcdab89, 0x98badcfe, 0x10325476, 0xc3d2e1f0),
     totals := (0, 0), buflen := 0\<rparr>"

section \<open>Blocks\<close>

definition sha1_F1 :: "32 word \<Rightarrow> 32 word \<Rightarrow> 32 word \<Rightarrow> 32 word" where
  "sha1_F1 b c d = d XOR (b AND (c XOR d))"

definition sha1_F2 :: "32 word \<Rightarrow> 32 word \<Rightarrow> 32 word \<Rightarrow> 32 word" where
  "sha1_F2 b c d = b XOR c XOR d"

definition sha1_F3 :: "32 word \<Rightarrow> 32 word \<Rightarrow> 32 word \<Rightarrow> 32 word" where
  "sha1_F3 b c d = (b AND c) OR (d AND (b OR c))"

definition sha1_F4 :: "32 word \<Rightarrow> 32 word \<Rightarrow> 32 word \<Rightarrow> 32 word" where
  "sha1_F4 b c d = b XOR c XOR d"

definition sha1_K1 :: "32 word" where "sha1_K1 = 0x5a827999"
definition sha1_K2 :: "32 word" where "sha1_K2 = 0x6ed9eba1"
definition sha1_K3 :: "32 word" where "sha1_K3 = 0x8f1bbcdc"
definition sha1_K4 :: "32 word" where "sha1_K4 = 0xca62c1d6"

text \<open>The macro \<^verbatim>\<open>M\<close>: a new word of the schedule, kept in the slot of the word it replaces.\<close>

definition sha1_M :: "32 word list \<Rightarrow> nat \<Rightarrow> 32 word" where
  "sha1_M x i = rol (x ! (i AND 0x0f) XOR x ! ((i - 14) AND 0x0f) XOR x ! ((i - 8) AND 0x0f) XOR x ! ((i - 3) AND 0x0f)) 1"

text \<open>
  The macro \<^verbatim>\<open>R\<close> assigns its fifth and its second register; the call after it has the fifth register
  first, so that the names go round.
\<close>

fun sha1_R :: "(32 word \<Rightarrow> 32 word \<Rightarrow> 32 word \<Rightarrow> 32 word) \<Rightarrow> 32 word \<Rightarrow> 32 word \<Rightarrow> sha1_regs \<Rightarrow> sha1_regs" where
  "sha1_R F K m (a, b, c, d, e) = (e + (rol a 5 + F b c d + K + m), a, rol b 30, c, d)"

text \<open>The eighty calls: sixteen on the words of the block, the others on new words.\<close>

definition R_call :: "nat \<Rightarrow> 32 word list \<times> sha1_regs \<Rightarrow> 32 word list \<times> sha1_regs" where
  "R_call t xr = (case xr of (x, regs) \<Rightarrow>
     let x = (if t < 16 then x else x[t AND 0x0f := sha1_M x t]); m = x ! (t AND 0x0f) in
     (x, if t < 20 then sha1_R sha1_F1 sha1_K1 m regs
         else if t < 40 then sha1_R sha1_F2 sha1_K2 m regs
         else if t < 60 then sha1_R sha1_F3 sha1_K3 m regs
         else sha1_R sha1_F4 sha1_K4 m regs))"

definition sha1_block :: "sha1_regs \<Rightarrow> byte list \<Rightarrow> sha1_regs" where
  "sha1_block regs words =
     (let x = map (\<lambda>t. SWAP (get_word 4 words t)) [0..<16]
      in case (regs, snd (fold R_call [0..<80] (x, regs))) of
           ((A, B, C, D, E), (a, b, c, d, e)) \<Rightarrow> (A + a, B + b, C + c, D + d, E + e))"

text \<open>The byte count is a double word; the length of the data is a \<^verbatim>\<open>size_t\<close>.\<close>

definition add_total :: "32 word \<times> 32 word \<Rightarrow> nat \<Rightarrow> 32 word \<times> 32 word" where
  "add_total z len = (let lo = fst z + word_of_nat len in (lo, if unat lo < len then snd z + 1 else snd z))"

text \<open>All callers pass whole blocks.\<close>

definition sha1_process_block :: "byte list \<Rightarrow> sha1_ctx \<Rightarrow> sha1_ctx" where
  "sha1_process_block data c =
     c\<lparr>totals := add_total (totals c) (length data), ABCDE := absorb 64 sha1_block (ABCDE c) data\<rparr>"

section \<open>Feeding data\<close>

definition flush_whole :: "sha1_ctx \<Rightarrow> sha1_ctx" where
  "flush_whole c =
     (if 64 < buflen c then
        (let whole = 64 * (buflen c div 64);
             c = sha1_process_block (take whole (sbuffer c)) c;
             n = buflen c mod 64
         in c\<lparr>buflen := n, sbuffer := memcpy (sbuffer c) 0 (take n (drop whole (sbuffer c)))\<rparr>)
      else c)"

definition take_in :: "sha1_ctx \<Rightarrow> byte list \<Rightarrow> sha1_ctx \<times> byte list" where
  "take_in c data =
     (if buflen c \<noteq> 0 then
        (let left_over = buflen c;
             add = (if length data < 128 - left_over then length data else 128 - left_over);
             c = c\<lparr>sbuffer := memcpy (sbuffer c) left_over (take add data), buflen := left_over + add\<rparr>
         in (flush_whole c, drop add data))
      else (c, data))"

text \<open>When the data is not aligned, each block goes through the buffer, and the last one waits.\<close>

function unaligned_blocks :: "sha1_ctx \<Rightarrow> byte list \<Rightarrow> sha1_ctx \<times> byte list" where
  "unaligned_blocks c data =
     (if 64 < length data then
        (let c = c\<lparr>sbuffer := memcpy (sbuffer c) 0 (take 64 data)\<rparr>
         in unaligned_blocks (sha1_process_block (take 64 (sbuffer c)) c) (drop 64 data))
      else (c, data))"
  by pat_completeness auto
termination by (relation "measure (\<lambda>(c, data). length data)") auto

declare unaligned_blocks.simps [simp del]

definition whole_blocks :: "bool \<Rightarrow> sha1_ctx \<Rightarrow> byte list \<Rightarrow> sha1_ctx \<times> byte list" where
  "whole_blocks aligned c data =
     (if 64 \<le> length data then
        (if \<not> aligned then unaligned_blocks c data
         else (let whole = 64 * (length data div 64) in (sha1_process_block (take whole data) c, drop whole data)))
      else (c, data))"

definition keep_rest :: "sha1_ctx \<Rightarrow> byte list \<Rightarrow> sha1_ctx" where
  "keep_rest c data =
     (if 0 < length data then
        (let left_over = buflen c + length data;
             c = c\<lparr>sbuffer := memcpy (sbuffer c) (buflen c) data\<rparr>
         in if 64 \<le> left_over then
              (let c = sha1_process_block (take 64 (sbuffer c)) c
               in c\<lparr>sbuffer := memcpy (sbuffer c) 0 (take (left_over - 64) (drop 64 (sbuffer c))), buflen := left_over - 64\<rparr>)
            else c\<lparr>buflen := left_over\<rparr>)
      else c)"

text \<open>The pointer is aligned or not; when it is not at first, it may be after the buffer has been filled.\<close>

definition sha1_process_bytes :: "(byte list \<Rightarrow> bool) \<Rightarrow> byte list \<Rightarrow> sha1_ctx \<Rightarrow> sha1_ctx" where
  "sha1_process_bytes aligned data c =
     (case take_in c data of (c, data) \<Rightarrow> case whole_blocks (aligned data) c data of (c, data) \<Rightarrow> keep_rest c data)"

section \<open>The digest\<close>

definition fillbuf :: "byte list" where
  "fillbuf = 0x80 # replicate 63 0"

definition sha1_read_ctx :: "sha1_ctx \<Rightarrow> byte list" where
  "sha1_read_ctx c = (case ABCDE c of (A, B, C, D, E) \<Rightarrow>
     le_bytes 4 (SWAP A) @ le_bytes 4 (SWAP B) @ le_bytes 4 (SWAP C) @ le_bytes 4 (SWAP D) @ le_bytes 4 (SWAP E))"

definition sha1_finish_ctx :: "sha1_ctx \<Rightarrow> byte list" where
  "sha1_finish_ctx c =
     (let bytes = buflen c;
          words = (if bytes < 56 then 64 div 4 else 64 * 2 div 4);
          z = add_total (totals c) bytes;
          b = put_word 4 (sbuffer c) (words - 2) (SWAP (push_bit 3 (snd z) OR drop_bit 29 (fst z)));
          b = put_word 4 b (words - 1) (SWAP (push_bit 3 (fst z)));
          b = memcpy b bytes (take ((words - 2) * 4 - bytes) fillbuf)
      in sha1_read_ctx (sha1_process_block (take (words * 4) b) (c\<lparr>totals := z, sbuffer := b\<rparr>)))"

end
