(* ===== verification/Jh.thy ===== *)
theory Jh
  imports BlockHash
begin

text \<open>
  \<^verbatim>\<open>jh_ref.c\<close>: the JH hashes. The lengths that \<^verbatim>\<open>JHUpdate\<close> takes are in bits, and its memory copies may read
  more of the data than the caller has: the model gives no result then.
\<close>

record jh_ctx =
  hashbitlen :: nat
  databitlen :: "64 word"
  datasize_in_buffer :: nat
  jh_H :: "byte list"
  jh_A :: "byte list"
  roundconstant :: "byte list"
  jh_buffer :: "byte list"

definition roundconstant_zero :: "byte list" where
  "roundconstant_zero = [0x6,0xa,0x0,0x9,0xe,0x6,0x6,0x7,0xf,0x3,0xb,0xc,0xc,0x9,0x0,0x8,
    0xb,0x2,0xf,0xb,0x1,0x3,0x6,0x6,0xe,0xa,0x9,0x5,0x7,0xd,0x3,0xe,
    0x3,0xa,0xd,0xe,0xc,0x1,0x7,0x5,0x1,0x2,0x7,0x7,0x5,0x0,0x9,0x9,
    0xd,0xa,0x2,0xf,0x5,0x9,0x0,0xb,0x0,0x6,0x6,0x7,0x3,0x2,0x2,0xa]"

definition jh_S :: "byte list list" where
  "jh_S = [[9,0,4,11,13,12,3,15,1,10,2,6,7,5,8,14], [3,12,6,13,5,7,1,9,15,2,0,4,11,10,14,8]]"

section \<open>The rounds\<close>

definition jh_L :: "byte \<times> byte \<Rightarrow> byte \<times> byte" where
  "jh_L ab = (case ab of (a, b) \<Rightarrow>
     let b = b XOR ((push_bit 1 a XOR drop_bit 3 a XOR (drop_bit 2 a AND 2)) AND 0xf);
         a = a XOR ((push_bit 1 b XOR drop_bit 3 b XOR (drop_bit 2 b AND 2)) AND 0xf)
     in (a, b))"

text \<open>The layers of a round on \<^term>\<open>n\<close> elements: the code of L on neighbours, and the permutation in three steps.\<close>

definition mds_layer :: "nat \<Rightarrow> byte list \<Rightarrow> byte list" where
  "mds_layer n tem = concat (map (\<lambda>i. case jh_L (tem ! (2 * i), tem ! (2 * i + 1)) of (a, b) \<Rightarrow> [a, b]) [0..<n div 2])"

definition initial_swap :: "nat \<Rightarrow> byte list \<Rightarrow> byte list" where
  "initial_swap n tem = concat (map (\<lambda>i. [tem ! (4 * i), tem ! (4 * i + 1), tem ! (4 * i + 3), tem ! (4 * i + 2)]) [0..<n div 4])"

definition permutation_P :: "nat \<Rightarrow> byte list \<Rightarrow> byte list" where
  "permutation_P n tem = map (\<lambda>i. tem ! (2 * i)) [0..<n div 2] @ map (\<lambda>i. tem ! (2 * i + 1)) [0..<n div 2]"

definition final_swap :: "nat \<Rightarrow> byte list \<Rightarrow> byte list" where
  "final_swap n a = take (n div 2) a @ concat (map (\<lambda>i. [a ! (n div 2 + 2 * i + 1), a ! (n div 2 + 2 * i)]) [0..<n div 4])"

definition R8 :: "jh_ctx \<Rightarrow> jh_ctx" where
  "R8 c =
     (let expanded = map (\<lambda>i. drop_bit (3 - i mod 4) (roundconstant c ! (i div 4)) AND 1) [0..<256];
          tem = map (\<lambda>i. jh_S ! unat (expanded ! i) ! unat (jh_A c ! i)) [0..<256]
      in c\<lparr>jh_A := final_swap 256 (permutation_P 256 (initial_swap 256 (mds_layer 256 tem)))\<rparr>)"

definition update_roundconstant :: "jh_ctx \<Rightarrow> jh_ctx" where
  "update_roundconstant c =
     (let tem = map (\<lambda>i. jh_S ! 0 ! unat (roundconstant c ! i)) [0..<64]
      in c\<lparr>roundconstant := final_swap 64 (permutation_P 64 (initial_swap 64 (mds_layer 64 tem)))\<rparr>)"

section \<open>Grouping\<close>

definition H_bit :: "byte list \<Rightarrow> nat \<Rightarrow> byte" where
  "H_bit h i = drop_bit (7 - i mod 8) (h ! (i div 8)) AND 1"

definition E8_initialgroup :: "jh_ctx \<Rightarrow> jh_ctx" where
  "E8_initialgroup c =
     (let tem = map (\<lambda>i. push_bit 3 (H_bit (jh_H c) i) OR push_bit 2 (H_bit (jh_H c) (i + 256)) OR
            push_bit 1 (H_bit (jh_H c) (i + 512)) OR H_bit (jh_H c) (i + 768)) [0..<256]
      in c\<lparr>jh_A := concat (map (\<lambda>i. [tem ! i, tem ! (i + 128)]) [0..<128])\<rparr>)"

definition or_bit :: "nat \<Rightarrow> byte \<Rightarrow> byte list \<Rightarrow> byte list" where
  "or_bit i t h = h[i div 8 := h ! (i div 8) OR push_bit (7 - i mod 8) t]"

definition E8_finaldegroup :: "jh_ctx \<Rightarrow> jh_ctx" where
  "E8_finaldegroup c =
     (let tem = map (\<lambda>i. jh_A c ! (2 * i)) [0..<128] @ map (\<lambda>i. jh_A c ! (2 * i + 1)) [0..<128]
      in c\<lparr>jh_H := fold (\<lambda>i h. or_bit (i + 768) (tem ! i AND 1)
             (or_bit (i + 512) (drop_bit 1 (tem ! i) AND 1)
             (or_bit (i + 256) (drop_bit 2 (tem ! i) AND 1)
             (or_bit i (drop_bit 3 (tem ! i) AND 1) h)))) [0..<256] (replicate 128 0)\<rparr>)"

definition E8 :: "jh_ctx \<Rightarrow> jh_ctx" where
  "E8 c = E8_finaldegroup (((update_roundconstant \<circ> R8) ^^ 42) (E8_initialgroup (c\<lparr>roundconstant := roundconstant_zero\<rparr>)))"

definition F8 :: "jh_ctx \<Rightarrow> jh_ctx" where
  "F8 c =
     (let c = c\<lparr>jh_H := map2 (XOR) (take 64 (jh_H c)) (jh_buffer c) @ drop 64 (jh_H c)\<rparr>;
          c = E8 c
      in c\<lparr>jh_H := take 64 (jh_H c) @ map2 (XOR) (drop 64 (jh_H c)) (jh_buffer c)\<rparr>)"

section \<open>The interface\<close>

definition JHInit :: "jh_ctx \<Rightarrow> nat \<Rightarrow> jh_ctx" where
  "JHInit c bits = F8 (c\<lparr>databitlen := 0, datasize_in_buffer := 0, hashbitlen := bits, jh_buffer := replicate 64 0,
     jh_H := [word_of_nat (bits div 256), word_of_nat bits] @ replicate 126 0\<rparr>)"

text \<open>\<^verbatim>\<open>memcpy\<close> of \<^term>\<open>n\<close> bytes of the data from the position \<^term>\<open>i\<close>.\<close>

definition copy_data :: "nat \<Rightarrow> nat \<Rightarrow> byte list \<Rightarrow> nat \<Rightarrow> jh_ctx \<Rightarrow> jh_ctx option" where
  "copy_data off n data i c =
     (if i + n \<le> length data \<and> off + n \<le> length (jh_buffer c)
      then Some (c\<lparr>jh_buffer := memcpy (jh_buffer c) off (take n (drop i data))\<rparr>) else None)"

fun jh_blocks :: "nat \<Rightarrow> byte list \<Rightarrow> nat \<Rightarrow> jh_ctx \<Rightarrow> (jh_ctx \<times> nat \<times> nat) option" where
  "jh_blocks len data index c =
     (if 512 \<le> len then
        (case copy_data 0 64 data index c of None \<Rightarrow> None | Some c \<Rightarrow> jh_blocks (len - 512) data (index + 64) (F8 c))
      else Some (c, index, len))"

declare jh_blocks.simps [simp del]

text \<open>The copy into a buffer that stays incomplete is of the space that is left, whatever the length of the data.\<close>

definition JHUpdate :: "jh_ctx \<Rightarrow> byte list \<Rightarrow> nat \<Rightarrow> jh_ctx option" where
  "JHUpdate c data len =
     (let c = c\<lparr>databitlen := databitlen c + word_of_nat len\<rparr>; s = datasize_in_buffer c in
      case (if 0 < s \<and> s + len < 512 then
              (case copy_data (s div 8) (if len mod 8 = 0 then 64 - s div 8 else 64 - s div 8 + 1) data 0 c of
                 None \<Rightarrow> None | Some c \<Rightarrow> Some (c\<lparr>datasize_in_buffer := s + len\<rparr>, 0, 0))
            else if 0 < s then
              (case copy_data (s div 8) (64 - s div 8) data 0 c of
                 None \<Rightarrow> None | Some c \<Rightarrow> Some ((F8 c)\<lparr>datasize_in_buffer := 0\<rparr>, 64 - s div 8, len - (512 - s)))
            else Some (c, 0, len)) of
        None \<Rightarrow> None
      | Some (c, index, len) \<Rightarrow>
          (case jh_blocks len data index c of
             None \<Rightarrow> None
           | Some (c, index, len) \<Rightarrow>
               if 0 < len then
                 (case copy_data 0 (if len mod 8 = 0 then len div 8 else len div 8 + 1) data index c of
                    None \<Rightarrow> None | Some c \<Rightarrow> Some (c\<lparr>datasize_in_buffer := len\<rparr>))
               else Some c))"

definition length_block :: "64 word \<Rightarrow> byte list" where
  "length_block n = replicate 56 0 @ be_bytes 8 n"

definition JHFinal :: "jh_ctx \<Rightarrow> byte list" where
  "JHFinal c =
     (let used = unat (databitlen c AND 0x1ff);
          c = (if used = 0 then F8 (c\<lparr>jh_buffer := (length_block (databitlen c))[0 := 0x80]\<rparr>)
               else
                 (let start = (if datasize_in_buffer c mod 8 = 0 then used div 8 else used div 8 + 1);
                      buf = memset0 (jh_buffer c) start (64 - start);
                      buf = buf[used div 8 := buf ! (used div 8) OR push_bit (7 - unat (databitlen c AND 7)) 1];
                      c = F8 (c\<lparr>jh_buffer := buf\<rparr>)
                  in F8 (c\<lparr>jh_buffer := length_block (databitlen c)\<rparr>)))
      in if hashbitlen c = 224 then take 28 (drop 100 (jh_H c))
         else if hashbitlen c = 256 then take 32 (drop 96 (jh_H c))
         else if hashbitlen c = 384 then take 48 (drop 80 (jh_H c))
         else if hashbitlen c = 512 then take 64 (drop 64 (jh_H c))
         else [])"

end
