(* ===== verification/Hashes.thy ===== *)
theory Hashes
  imports Sha2 Md5 Sha1 Jh Whirlpool Encodings TokenizerModes Streams
begin

text \<open>
  \<^verbatim>\<open>Hash.c\<close>: the hashes of the library behind one type. A \<^verbatim>\<open>HASH\<close> carries the name it was made for, a
  context, and the functions that work on that context; the functions are told by the constructor of the
  context here. A name may list further types, which hash the digest of the one before, and may ask for
  an HMAC. Since functions of all types call \<^verbatim>\<open>HashBytes\<close>, which calls them, they carry a bound for the
  depth of the calls. A result that a function leaves in an argument is its value here.

  Whether the data handed to SHA-1 is aligned is a parameter. Calling a function of an object that has none
  (\<^verbatim>\<open>NullDeref\<close>), writing past a buffer or reading past the data (\<^verbatim>\<open>OutOfBounds\<close>), and using memory that
  was never written (\<^verbatim>\<open>BadPointer\<close>) are faults.
\<close>

section \<open>Names of encodings\<close>

fun encoding_named :: "(string \<times> int) list \<Rightarrow> string \<Rightarrow> int" where
  "encoding_named [] s = ENCODE_HEX"
| "encoding_named ((name, enc) # r) s = (if strcasecmp s name = 0 then enc else encoding_named r s)"

definition HashEncodingFromStr :: "string option \<Rightarrow> int" where
  "HashEncodingFromStr str =
     (if \<not> StrValid str then ENCODE_HEX
      else let s = the str; c = hd s in
        if c = CHR ''1'' then encoding_named [(''16'', ENCODE_HEX), (''10'', ENCODE_DECIMAL)] s
        else if c \<in> set ''68'' then encoding_named [(''64'', ENCODE_BASE64), (''8'', ENCODE_OCTAL)] s
        else if c \<in> set ''aA'' then
          encoding_named [(''a85'', ENCODE_ASCII85), (''ascii85'', ENCODE_ASCII85), (''asci85'', ENCODE_ASCII85)] s
        else if c \<in> set ''bB'' then encoding_named [(''base64'', ENCODE_BASE64), (''b64'', ENCODE_BASE64)] s
        else if c \<in> set ''dhoDHO'' then
          encoding_named [(''hex'', ENCODE_HEX), (''hexupper'', ENCODE_HEXUPPER), (''oct'', ENCODE_OCTAL),
            (''octal'', ENCODE_OCTAL), (''dec'', ENCODE_DECIMAL), (''decimal'', ENCODE_DECIMAL)] s
        else if c \<in> set ''iI'' then encoding_named [(''ibase64'', ENCODE_IBASE64), (''i64'', ENCODE_IBASE64)] s
        else if c \<in> set ''pP'' then encoding_named [(''pbase64'', ENCODE_PBASE64), (''p64'', ENCODE_PBASE64)] s
        else if c \<in> set ''uU'' then
          encoding_named [(''uu'', ENCODE_UUENC), (''uuencode'', ENCODE_UUENC), (''uuenc'', ENCODE_UUENC)] s
        else if c \<in> set ''xX'' then
          encoding_named [(''xx'', ENCODE_XXENC), (''xxencode'', ENCODE_XXENC), (''xxenc'', ENCODE_XXENC)] s
        else if c \<in> set ''zZ'' then encoding_named [(''z85'', ENCODE_Z85)] s
        else ENCODE_HEX)"

section \<open>Objects\<close>

text \<open>
  An HMAC holds the object of the inner hash, which is \<^verbatim>\<open>NULL\<close> when its type is not supported, and whether
  \<^verbatim>\<open>HMACPrepare\<close> has run. A key that was never set is empty; the second key has no contents before.
  \<^verbatim>\<open>has_functions\<close>: the pointers to the functions are set.
\<close>

datatype hash_ctx =
    MD5_CTX md5_ctx
  | SHA1_CTX sha1_ctx
  | SHA256_CTX sha256_ctx
  | SHA512_CTX sha512_ctx
  | WHIRLPOOL_CTX whirlpool_ctx
  | JH_CTX jh_ctx
  | HMAC_CTX bool "HASH option"
and HASH =
  HASH (hash_type: string) (Key1: "byte list") (Key2: "byte list option") (has_functions: bool) (Ctx: hash_ctx)

definition new_hash :: "string \<Rightarrow> hash_ctx \<Rightarrow> HASH" where
  "new_hash ty c = HASH ty [] None True c"

definition set_ctx :: "HASH \<Rightarrow> hash_ctx \<Rightarrow> HASH" where
  "set_ctx h c = HASH (hash_type h) (Key1 h) (Key2 h) (has_functions h) c"

definition HashInitMD5 :: "string \<Rightarrow> HASH" where
  "HashInitMD5 ty = new_hash ty (MD5_CTX (MD5Init \<lparr>md5_buf = [0, 0, 0, 0], md5_bits = (0, 0), md5_in = replicate 64 0\<rparr>))"

definition HashInitSHA :: "string \<Rightarrow> nat \<Rightarrow> HASH" where
  "HashInitSHA ty len = new_hash ty
     (if len = 512 then SHA512_CTX SHA2_SHA512_Init
      else if len = 256 then SHA256_CTX SHA2_SHA256_Init
      else SHA1_CTX (sha1_init_ctx \<lparr>ABCDE = (0, 0, 0, 0, 0), totals = (0, 0), buflen = 0, sbuffer = replicate 128 0\<rparr>))"

definition HashInitWhirlpool :: "string \<Rightarrow> HASH" where
  "HashInitWhirlpool ty = new_hash ty (WHIRLPOOL_CTX (WHIRLPOOLinit
     \<lparr>bitLength = replicate 32 0, wbuffer = replicate 64 0, bufferBits = 0, bufferPos = 0, whash = replicate 8 0\<rparr>))"

definition HashInitJH :: "string \<Rightarrow> nat \<Rightarrow> HASH option" where
  "HashInitJH ty len =
     (if len \<in> {224, 256, 384, 512} then
        Some (new_hash ty (JH_CTX (JHInit \<lparr>hashbitlen = 0, databitlen = 0, datasize_in_buffer = 0, jh_H = replicate 128 0,
          jh_A = replicate 256 0, roundconstant = replicate 64 0, jh_buffer = replicate 64 0\<rparr> len)))
      else None)"

definition strncasecmp :: "string \<Rightarrow> string \<Rightarrow> nat \<Rightarrow> int" where
  "strncasecmp a b n = strcasecmp (take n a) (take n b)"

lemma length_strrep: "length (strrep s a b) \<le> length s"
  by (simp add: strrep_def cut_at_NUL_def length_takeWhile_le [THEN order_trans])

text \<open>\<^verbatim>\<open>HMACInit\<close> makes the inner hash of what follows \<^verbatim>\<open>hmac-\<close> in the whole name.\<close>

function HashInit :: "string \<Rightarrow> HASH option" where
  "HashInit name =
     (let ty = strrep name (CHR '','') (CHR '' ''); t = snd (GetToken (Some ty) WS_PATTERN 0) in
      if strcasecmp t ''md5'' = 0 then Some (HashInitMD5 ty)
      else if strcasecmp t ''sha'' = 0 then Some (HashInitSHA ty 0)
      else if strcasecmp t ''sha1'' = 0 then Some (HashInitSHA ty 0)
      else if strcasecmp t ''sha256'' = 0 then Some (HashInitSHA ty 256)
      else if strcasecmp t ''sha512'' = 0 then Some (HashInitSHA ty 512)
      else if strcasecmp t ''sha-256'' = 0 then Some (HashInitSHA ty 256)
      else if strcasecmp t ''sha-512'' = 0 then Some (HashInitSHA ty 512)
      else if strcasecmp t ''whirl'' = 0 then Some (HashInitWhirlpool ty)
      else if strcasecmp t ''whirlpool'' = 0 then Some (HashInitWhirlpool ty)
      else if strcasecmp t ''jh224'' = 0 then HashInitJH ty 224
      else if strcasecmp t ''jh256'' = 0 then HashInitJH ty 256
      else if strcasecmp t ''jh384'' = 0 then HashInitJH ty 384
      else if strcasecmp t ''jh512'' = 0 then HashInitJH ty 512
      else if strcasecmp t ''jh-224'' = 0 then HashInitJH ty 224
      else if strcasecmp t ''jh-256'' = 0 then HashInitJH ty 256
      else if strcasecmp t ''jh-384'' = 0 then HashInitJH ty 384
      else if strcasecmp t ''jh-512'' = 0 then HashInitJH ty 512
      else if strncasecmp t ''hmac-'' 5 = 0 \<and> name \<noteq> [] then Some (new_hash ty (HMAC_CTX False (HashInit (drop 5 ty))))
      else None)"
  by pat_completeness auto
termination
proof (relation "measure length", goal_cases)
  case (2 name ty t)
  then have "0 < length name" by auto
  moreover have "length ty \<le> length name" using 2(1) length_strrep by simp
  ultimately have "length ty - 5 < length name" by linarith
  then show ?case by simp
qed simp

declare HashInit.simps [simp del]

section \<open>Feeding and finishing\<close>

text \<open>\<^verbatim>\<open>HashUpdateWhirlpool\<close> passes eight times the length; \<^verbatim>\<open>HashUpdateJH\<close> passes the length, and \<^verbatim>\<open>JHUpdate\<close> takes bits.\<close>

definition HashUpdateMD5 :: "md5_ctx \<Rightarrow> byte list \<Rightarrow> md5_ctx" where "HashUpdateMD5 c d = MD5Update c d"
definition HashUpdateSHA1 :: "(byte list \<Rightarrow> bool) \<Rightarrow> sha1_ctx \<Rightarrow> byte list \<Rightarrow> sha1_ctx" where
  "HashUpdateSHA1 aligned c d = sha1_process_bytes aligned d c"
definition HashUpdateSHA256 :: "sha256_ctx \<Rightarrow> byte list \<Rightarrow> sha256_ctx" where "HashUpdateSHA256 c d = SHA2_SHA256_Update c d"
definition HashUpdateSHA512 :: "sha512_ctx \<Rightarrow> byte list \<Rightarrow> sha512_ctx" where "HashUpdateSHA512 c d = SHA2_SHA512_Update c d"
definition HashUpdateWhirlpool :: "whirlpool_ctx \<Rightarrow> byte list \<Rightarrow> whirlpool_ctx" where
  "HashUpdateWhirlpool c d = WHIRLPOOLadd d (length d * 8) c"
definition HashUpdateJH :: "jh_ctx \<Rightarrow> byte list \<Rightarrow> jh_ctx option" where "HashUpdateJH c d = JHUpdate c d (length d)"

definition HashFinishMD5 :: "md5_ctx \<Rightarrow> byte list" where "HashFinishMD5 c = MD5Final c"
definition HashFinishSHA1 :: "sha1_ctx \<Rightarrow> byte list" where "HashFinishSHA1 c = sha1_finish_ctx c"
definition HashFinishSHA256 :: "sha256_ctx \<Rightarrow> byte list" where "HashFinishSHA256 c = SHA2_SHA256_Final c"
definition HashFinishSHA512 :: "sha512_ctx \<Rightarrow> byte list" where "HashFinishSHA512 c = SHA2_SHA512_Final c"
definition HashFinishWhirlpool :: "whirlpool_ctx \<Rightarrow> byte list" where "HashFinishWhirlpool c = WHIRLPOOLfinalize c"
definition HashFinishJH :: "jh_ctx \<Rightarrow> byte list" where "HashFinishJH c = JHFinal c"

definition HMAC_BLOCKSIZE :: nat where "HMAC_BLOCKSIZE = 64"

definition HMACSetKey :: "HASH \<Rightarrow> byte list \<Rightarrow> HASH" where
  "HMACSetKey h key = HASH (hash_type h) key (Key2 h) (has_functions h) (Ctx h)"

text \<open>The key buffer of \<^verbatim>\<open>HMACPrepare\<close> has eight bytes more than a block.\<close>

definition padded_key :: "byte list \<Rightarrow> byte list res" where
  "padded_key k = (if HMAC_BLOCKSIZE + 8 < length k then Inl OutOfBounds
     else Inr (take HMAC_BLOCKSIZE (k @ replicate HMAC_BLOCKSIZE 0)))"

text \<open>
  \<^term>\<open>upd\<close> and \<^term>\<open>fin\<close> are the functions of the inner object, \<^term>\<open>hb\<close> is \<^verbatim>\<open>HashBytes\<close> without an encoding.
\<close>

definition HMACUpdate :: "(HASH \<Rightarrow> byte list \<Rightarrow> HASH res) \<Rightarrow> HASH \<Rightarrow> byte list \<Rightarrow> HASH res" where
  "HMACUpdate upd h d =
     (case Ctx h of
        HMAC_CTX prepared (Some i) \<Rightarrow> bindr (upd i d) (\<lambda>i. Inr (set_ctx h (HMAC_CTX prepared (Some i))))
      | HMAC_CTX prepared None \<Rightarrow> Inl NullDeref
      | _ \<Rightarrow> Inl TypeConfusion)"

definition HMACPrepare :: "(HASH \<Rightarrow> byte list \<Rightarrow> HASH res) \<Rightarrow> (string \<Rightarrow> byte list \<Rightarrow> byte list option res) \<Rightarrow>
    HASH \<Rightarrow> byte list \<Rightarrow> HASH res" where
  "HMACPrepare upd hb h d =
     bindr (if HMAC_BLOCKSIZE < length d then
              bindr (hb (hash_type h) (Key1 h)) (\<lambda>r. padded_key (case r of None \<Rightarrow> [] | Some k \<Rightarrow> k))
            else padded_key (Key1 h)) (\<lambda>key.
     let k1 = map (\<lambda>b. b XOR 0x36) key; k2 = map (\<lambda>b. b XOR 0x5c) key;
         h = HASH (hash_type h) k1 (Some k2) (has_functions h) (Ctx h)
     in bindr (HMACUpdate upd h k1) (\<lambda>h. bindr (HMACUpdate upd h d) (\<lambda>h.
        case Ctx h of HMAC_CTX _ i \<Rightarrow> Inr (set_ctx h (HMAC_CTX True i)) | _ \<Rightarrow> Inl TypeConfusion)))"

primrec hash_update :: "nat \<Rightarrow> (string \<Rightarrow> byte list \<Rightarrow> byte list option res) \<Rightarrow> (byte list \<Rightarrow> bool) \<Rightarrow>
    HASH \<Rightarrow> byte list \<Rightarrow> HASH res" where
  "hash_update 0 hb al h d = Inl OutOfFuel"
| "hash_update (Suc n) hb al h d =
     (if \<not> has_functions h then Inl NullDeref
      else case Ctx h of
        MD5_CTX c \<Rightarrow> Inr (set_ctx h (MD5_CTX (HashUpdateMD5 c d)))
      | SHA1_CTX c \<Rightarrow> Inr (set_ctx h (SHA1_CTX (HashUpdateSHA1 al c d)))
      | SHA256_CTX c \<Rightarrow> Inr (set_ctx h (SHA256_CTX (HashUpdateSHA256 c d)))
      | SHA512_CTX c \<Rightarrow> Inr (set_ctx h (SHA512_CTX (HashUpdateSHA512 c d)))
      | WHIRLPOOL_CTX c \<Rightarrow> Inr (set_ctx h (WHIRLPOOL_CTX (HashUpdateWhirlpool c d)))
      | JH_CTX c \<Rightarrow> (case HashUpdateJH c d of None \<Rightarrow> Inl OutOfBounds | Some c \<Rightarrow> Inr (set_ctx h (JH_CTX c)))
      | HMAC_CTX prepared inner \<Rightarrow>
          if prepared then HMACUpdate (hash_update n hb al) h d else HMACPrepare (hash_update n hb al) hb h d)"

definition HMACFinish :: "(HASH \<Rightarrow> byte list res) \<Rightarrow> (string \<Rightarrow> byte list \<Rightarrow> byte list option res) \<Rightarrow>
    HASH \<Rightarrow> byte list res" where
  "HMACFinish fin hb h =
     (case Ctx h of
        HMAC_CTX prepared (Some i) \<Rightarrow>
          bindr (fin i) (\<lambda>inner.
            case Key2 h of
              None \<Rightarrow> Inl BadPointer
            | Some k2 \<Rightarrow> bindr (hb (hash_type i) (k2 @ inner)) (\<lambda>r. Inr (case r of None \<Rightarrow> [] | Some b \<Rightarrow> b)))
      | HMAC_CTX prepared None \<Rightarrow> Inl NullDeref
      | _ \<Rightarrow> Inl TypeConfusion)"

primrec hash_finish :: "nat \<Rightarrow> (string \<Rightarrow> byte list \<Rightarrow> byte list option res) \<Rightarrow> HASH \<Rightarrow> byte list res" where
  "hash_finish 0 hb h = Inl OutOfFuel"
| "hash_finish (Suc n) hb h =
     (if \<not> has_functions h then Inl NullDeref
      else case Ctx h of
        MD5_CTX c \<Rightarrow> Inr (HashFinishMD5 c)
      | SHA1_CTX c \<Rightarrow> Inr (HashFinishSHA1 c)
      | SHA256_CTX c \<Rightarrow> Inr (HashFinishSHA256 c)
      | SHA512_CTX c \<Rightarrow> Inr (HashFinishSHA512 c)
      | WHIRLPOOL_CTX c \<Rightarrow> Inr (HashFinishWhirlpool c)
      | JH_CTX c \<Rightarrow> Inr (HashFinishJH c)
      | HMAC_CTX prepared inner \<Rightarrow> HMACFinish (hash_finish n hb) hb h)"

text \<open>The types after the first one; one that is not supported leaves no bytes.\<close>

primrec further_types :: "nat \<Rightarrow> (string \<Rightarrow> byte list \<Rightarrow> byte list option res) \<Rightarrow> string option \<Rightarrow> byte list \<Rightarrow>
    byte list res" where
  "further_types 0 hb ptr b = Inl OutOfFuel"
| "further_types (Suc n) hb ptr b =
     (if StrValid ptr then
        (case GetToken ptr WS_PATTERN 0 of (ptr, t) \<Rightarrow>
           bindr (hb t b) (\<lambda>r. further_types n hb ptr (case r of None \<Rightarrow> [] | Some b \<Rightarrow> b)))
      else Inr b)"

definition hash_end :: "nat \<Rightarrow> (string \<Rightarrow> byte list \<Rightarrow> byte list option res) \<Rightarrow> HASH \<Rightarrow> int \<Rightarrow> byte list res" where
  "hash_end n hb h enc =
     (case GetToken (Some (hash_type h)) WS_PATTERN 0 of (ptr, t) \<Rightarrow>
        bindr (hash_finish n hb h) (\<lambda>b. bindr (further_types (Suc (length (hash_type h))) hb ptr b) (\<lambda>b.
          Inr (if 0 < enc then map char_byte (EncodeBytes b enc) else b))))"

primrec HashBytes :: "nat \<Rightarrow> (byte list \<Rightarrow> bool) \<Rightarrow> string \<Rightarrow> byte list \<Rightarrow> int \<Rightarrow> byte list option res" where
  "HashBytes 0 al name d enc = Inl OutOfFuel"
| "HashBytes (Suc n) al name d enc =
     (let hb = (\<lambda>t b. HashBytes n al t b 0) in
      case HashInit name of
        None \<Rightarrow> Inr None
      | Some h \<Rightarrow> bindr (hash_update (Suc n) hb al h d) (\<lambda>h. bindr (hash_end (Suc n) hb h enc) (\<lambda>b. Inr (Some b))))"

text \<open>The operations on an object, with the depth of calls \<^term>\<open>n\<close>.\<close>

definition HashUpdate :: "nat \<Rightarrow> (byte list \<Rightarrow> bool) \<Rightarrow> HASH \<Rightarrow> byte list \<Rightarrow> HASH res" where
  "HashUpdate n al = hash_update (Suc n) (\<lambda>t b. HashBytes n al t b 0) al"

definition HashFinish :: "nat \<Rightarrow> (byte list \<Rightarrow> bool) \<Rightarrow> HASH \<Rightarrow> int \<Rightarrow> byte list res" where
  "HashFinish n al = hash_end (Suc n) (\<lambda>t b. HashBytes n al t b 0)"

definition HashBytes2 :: "nat \<Rightarrow> (byte list \<Rightarrow> bool) \<Rightarrow> string \<Rightarrow> int \<Rightarrow> byte list \<Rightarrow> byte list option res" where
  "HashBytes2 n al name enc d = HashBytes n al name d enc"

section \<open>Copies\<close>

text \<open>Only \<^verbatim>\<open>HashCloneMD5\<close> copies the pointers to the functions; an HMAC has no function to copy it.\<close>

definition HashCloneMD5 :: "HASH \<Rightarrow> HASH" where "HashCloneMD5 h = HASH (hash_type h) [] None (has_functions h) (Ctx h)"
definition HashCloneSHA1 :: "HASH \<Rightarrow> HASH" where "HashCloneSHA1 h = HASH (hash_type h) [] None False (Ctx h)"
definition HashCloneSHA256 :: "HASH \<Rightarrow> HASH" where "HashCloneSHA256 h = HASH (hash_type h) [] None False (Ctx h)"
definition HashCloneSHA512 :: "HASH \<Rightarrow> HASH" where "HashCloneSHA512 h = HASH (hash_type h) [] None False (Ctx h)"

definition hash_clone :: "HASH \<Rightarrow> HASH res" where
  "hash_clone h =
     (if \<not> has_functions h then Inl NullDeref
      else case Ctx h of
        MD5_CTX c \<Rightarrow> Inr (HashCloneMD5 h)
      | SHA1_CTX c \<Rightarrow> Inr (HashCloneSHA1 h)
      | SHA256_CTX c \<Rightarrow> Inr (HashCloneSHA256 h)
      | SHA512_CTX c \<Rightarrow> Inr (HashCloneSHA512 h)
      | HMAC_CTX prepared inner \<Rightarrow> Inl NullDeref
      | _ \<Rightarrow> Inl BadPointer)"

section \<open>Key derivation, streams and files\<close>

definition HashTypes :: "string list" where
  "HashTypes = [''md5'', ''sha1'', ''sha256'', ''sha512'', ''whirlpool'', ''jh-224'', ''jh-256'', ''jh-384'', ''jh-512'']"

definition HashAvailableTypes :: string where
  "HashAvailableTypes = concat (map (\<lambda>t. t @ '','') HashTypes)"

primrec pbk_rounds :: "nat \<Rightarrow> nat \<Rightarrow> (byte list \<Rightarrow> bool) \<Rightarrow> string \<Rightarrow> byte list \<Rightarrow> byte list \<Rightarrow> byte list option \<Rightarrow> byte list option res" where
  "pbk_rounds 0 n al ty bytes buf hash = Inr hash"
| "pbk_rounds (Suc k) n al ty bytes buf hash =
     bindr (HashBytes n al ty buf 0) (\<lambda>r.
       let hash = (case r of None \<Rightarrow> [] | Some b \<Rightarrow> b) in pbk_rounds k n al ty bytes (bytes @ hash) (Some hash))"

definition PBK2DF2 :: "nat \<Rightarrow> (byte list \<Rightarrow> bool) \<Rightarrow> string \<Rightarrow> byte list \<Rightarrow> byte list \<Rightarrow> 32 word \<Rightarrow> int \<Rightarrow> string res" where
  "PBK2DF2 n al ty bytes salt nrounds enc =
     bindr (pbk_rounds (unat nrounds) n al ty bytes (bytes @ salt @ be_bytes 4 nrounds) None) (\<lambda>hash.
       case hash of None \<Rightarrow> Inl BadPointer | Some h \<Rightarrow> Inr (EncodeBytes h enc))"

text \<open>
  \<^verbatim>\<open>HashSTREAM\<close> reads portions of 4096 bytes until the end of the stream (\<^verbatim>\<open>EOF\<close> is \<^verbatim>\<open>STREAM_CLOSED\<close>); any
  other result is taken as a length.
\<close>

primrec hash_portions :: "nat \<Rightarrow> nat \<Rightarrow> (byte list \<Rightarrow> bool) \<Rightarrow> HASH \<Rightarrow> stream \<Rightarrow> (HASH \<times> stream) res" where
  "hash_portions 0 n al h S = Inl OutOfFuel"
| "hash_portions (Suc k) n al h S =
     bindr (STREAMReadBytes S 4096) (\<lambda>(r, b, S).
       if r = STREAM_CLOSED then Inr (h, S)
       else if r < 0 then Inl OutOfBounds
       else bindr (HashUpdate n al h (map char_byte b)) (\<lambda>h. hash_portions k n al h S))"

definition HashSTREAM :: "nat \<Rightarrow> (byte list \<Rightarrow> bool) \<Rightarrow> string \<Rightarrow> stream \<Rightarrow> int \<Rightarrow> byte list option res" where
  "HashSTREAM n al name S enc =
     (case HashInit name of
        None \<Rightarrow> Inr None
      | Some h \<Rightarrow> bindr (hash_portions (io_fuel S) n al h S) (\<lambda>(h, S).
          bindr (HashFinish n al h enc) (\<lambda>b. Inr (Some b))))"

text \<open>\<^verbatim>\<open>STREAMOpen\<close> is a parameter: the stream of the file with a path, if it can be opened.\<close>

definition HashFile :: "nat \<Rightarrow> (byte list \<Rightarrow> bool) \<Rightarrow> (string \<Rightarrow> stream option) \<Rightarrow> string \<Rightarrow> string \<Rightarrow> int \<Rightarrow> byte list option res" where
  "HashFile n al STREAMOpen name path enc =
     (case STREAMOpen path of None \<Rightarrow> Inr None | Some S \<Rightarrow> HashSTREAM n al name S enc)"

end
