(* ===== verification/Sha2Properties.thy ===== *)
theory Sha2Properties
  imports Sha2
begin

text \<open>
  The hashes of \<^verbatim>\<open>sha2.c\<close> against the standard they implement (FIPS 180-4): the functions of the
  standard, the circular message schedule kept in the buffer of the context against the schedule of
  the standard, and the digest of a message fed in any pieces. \<^verbatim>\<open>sha2_laws\<close> is what the two widths have
  to satisfy; it is interpreted for the 32-bit and for the 64-bit functions.
\<close>

section \<open>The standard\<close>

record 'v fips =
  f_word :: nat
  f_rounds :: nat
  f_K :: "'v list"
  f_Sigma0 :: "'v \<Rightarrow> 'v"
  f_Sigma1 :: "'v \<Rightarrow> 'v"
  f_sigma0 :: "'v \<Rightarrow> 'v"
  f_sigma1 :: "'v \<Rightarrow> 'v"

definition fips256 :: "32 word fips" where
  "fips256 = \<lparr>f_word = 4, f_rounds = 64, f_K = K256,
     f_Sigma0 = (\<lambda>x. word_rotr 2 x XOR word_rotr 13 x XOR word_rotr 22 x),
     f_Sigma1 = (\<lambda>x. word_rotr 6 x XOR word_rotr 11 x XOR word_rotr 25 x),
     f_sigma0 = (\<lambda>x. word_rotr 7 x XOR word_rotr 18 x XOR drop_bit 3 x),
     f_sigma1 = (\<lambda>x. word_rotr 17 x XOR word_rotr 19 x XOR drop_bit 10 x)\<rparr>"

definition fips512 :: "64 word fips" where
  "fips512 = \<lparr>f_word = 8, f_rounds = 80, f_K = K512,
     f_Sigma0 = (\<lambda>x. word_rotr 28 x XOR word_rotr 34 x XOR word_rotr 39 x),
     f_Sigma1 = (\<lambda>x. word_rotr 14 x XOR word_rotr 18 x XOR word_rotr 41 x),
     f_sigma0 = (\<lambda>x. word_rotr 1 x XOR word_rotr 8 x XOR drop_bit 7 x),
     f_sigma1 = (\<lambda>x. word_rotr 19 x XOR word_rotr 61 x XOR drop_bit 6 x)\<rparr>"

definition next_word :: "'w::len word fips \<Rightarrow> 'w word list \<Rightarrow> 'w word" where
  "next_word F W = (let t = length W in
     f_sigma1 F (W ! (t - 2)) + W ! (t - 7) + f_sigma0 F (W ! (t - 15)) + W ! (t - 16))"

fun fips_round :: "'w::len word fips \<Rightarrow> 'w word \<Rightarrow> 'w word \<Rightarrow> 'w word regs \<Rightarrow> 'w word regs" where
  "fips_round F k w (a, b, c, d, e, f, g, h) =
     (let T1 = h + f_Sigma1 F e + ((e AND f) XOR (NOT e AND g)) + k + w;
          T2 = f_Sigma0 F a + ((a AND b) XOR (a AND c) XOR (b AND c))
      in (T1 + T2, a, b, c, d + T1, e, f, g))"

definition fips_compress :: "'w::len word fips \<Rightarrow> 'w word list \<Rightarrow> byte list \<Rightarrow> 'w word list" where
  "fips_compress F H block =
     (let W = grow (f_rounds F - 16) (next_word F) (map (\<lambda>i. be_word (take (f_word F) (drop (f_word F * i) block))) [0..<16])
      in case fold (\<lambda>t. fips_round F (f_K F ! t) (W ! t)) [0..<f_rounds F] (state_regs H) of
           (a, b, c, d, e, f, g, h) \<Rightarrow> map2 (+) H [a, b, c, d, e, f, g, h])"

definition fips_hash :: "'w::len word fips \<Rightarrow> 'w word list \<Rightarrow> nat \<Rightarrow> byte list \<Rightarrow> byte list \<Rightarrow> byte list" where
  "fips_hash F H0 n len_field m = concat (map (be_bytes (f_word F))
     (take n (absorb (16 * f_word F) (fips_compress F) H0 (md_pad (16 * f_word F) len_field m))))"

definition fips_sha256 :: "byte list \<Rightarrow> byte list" where
  "fips_sha256 m = fips_hash fips256 sha256_initial_hash_value 8 (be_bytes 8 (word_of_nat (8 * length m) :: 64 word)) m"

definition fips_sha512 :: "byte list \<Rightarrow> byte list" where
  "fips_sha512 m = fips_hash fips512 sha512_initial_hash_value 8 (be_bytes 16 (word_of_nat (8 * length m) :: 128 word)) m"

definition fips_sha384 :: "byte list \<Rightarrow> byte list" where
  "fips_sha384 m = fips_hash fips512 sha384_initial_hash_value 6 (be_bytes 16 (word_of_nat (8 * length m) :: 128 word)) m"

section \<open>Reversal and rotation\<close>

lemma bit_REVERSE32:
  "\<forall>i\<in>set [0..<32]. bit (REVERSE32 w) i = bit w (8 * (3 - i div 8) + i mod 8)"
  by (simp add: REVERSE32_def Let_def bit_simps upt_rec bit_high) (simp add: numeral_eq_Suc)

lemma bit_REVERSE64:
  "\<forall>i\<in>set [0..<64]. bit (REVERSE64 w) i = bit w (8 * (7 - i div 8) + i mod 8)"
  by (simp add: REVERSE64_def Let_def bit_simps upt_rec bit_high) (simp add: numeral_eq_Suc)

lemma S32_rotr: "0 < b \<Longrightarrow> b < 32 \<Longrightarrow> S32 b x = word_rotr b x"
  using shifts_rotate [of b x] by (simp add: S32_def)

lemma S64_rotr: "0 < b \<Longrightarrow> b < 64 \<Longrightarrow> S64 b x = word_rotr b x"
  using shifts_rotate [of b x] by (simp add: S64_def)

lemma REVERSE32_le: "length bs = 4 \<Longrightarrow> REVERSE32 (le_word bs) = be_word bs"
  by (rule reverse_bytes [where n = 3]) (use bit_REVERSE32 in simp_all)

lemma REVERSE64_le: "length bs = 8 \<Longrightarrow> REVERSE64 (le_word bs) = be_word bs"
  by (rule reverse_bytes [where n = 7]) (use bit_REVERSE64 in simp_all)

lemma le_bytes_REVERSE32: "le_bytes 4 (REVERSE32 w) = be_bytes 4 w"
proof -
  have w: "w = le_word (le_bytes 4 w)" by (simp add: le_word_le_bytes)
  show ?thesis by (subst w, subst REVERSE32_le) (simp_all add: be_word_def be_bytes_def le_bytes_le_word)
qed

lemma le_bytes_REVERSE64: "le_bytes 8 (REVERSE64 w) = be_bytes 8 w"
proof -
  have w: "w = le_word (le_bytes 8 w)" by (simp add: le_word_le_bytes)
  show ?thesis by (subst w, subst REVERSE64_le) (simp_all add: be_word_def be_bytes_def le_bytes_le_word)
qed

section \<open>The schedule of the standard\<close>

lemma schedule_nth:
  assumes "16 \<le> length W" "length W \<le> t" "t < length W + n"
  shows "grow n (next_word F) W ! t = f_sigma1 F (grow n (next_word F) W ! (t - 2)) + grow n (next_word F) W ! (t - 7)
    + f_sigma0 F (grow n (next_word F) W ! (t - 15)) + grow n (next_word F) W ! (t - 16)"
  using assms grow_nth [OF assms(2,3)] by (simp add: next_word_def Let_def)

lemma regs_cases: obtains a b c d e f g h where "(r :: 'v regs) = (a, b, c, d, e, f, g, h)"
proof -
  obtain a b c d e f gh where "r = (a, b, c, d, e, f, gh)" by (rule prod_cases7)
  moreover obtain g h where "gh = (g, h)" by (rule prod.exhaust)
  ultimately show thesis using that by simp
qed

section \<open>The transform\<close>

locale sha2_laws =
  fixes A :: "('w::len word, 'n) sha2_width" and F :: "'w word fips"
    and counts :: "'n \<Rightarrow> nat \<Rightarrow> bool" and fits :: "nat \<Rightarrow> bool"
    and len_field :: "nat \<Rightarrow> byte list"
  assumes word_size: "LENGTH('w) = 8 * wbytes A" "f_word F = wbytes A"
    and block_size: "block_length A = 16 * wbytes A"
    and round_count: "f_rounds F = rounds A" "16 \<le> rounds A"
    and constants: "f_K F = Kt A"
    and sigmas: "Sigma0 A = f_Sigma0 F" "Sigma1 A = f_Sigma1 F" "sigma0 A = f_sigma0 F" "sigma1 A = f_sigma1 F"
    and reverse_le: "length bs = wbytes A \<Longrightarrow> reverse A (le_word bs) = be_word bs"
    and fits_less: "fits n \<Longrightarrow> k \<le> n \<Longrightarrow> fits k"
    and counts_add: "counts z k \<Longrightarrow> fits l \<Longrightarrow> counts (add_bytes A z l) (k + l)"
    and counts_used: "counts z k \<Longrightarrow> usedspace A z = k mod block_length A"
    and counts_bytes: "counts z k \<Longrightarrow> count_bytes A z = len_field k"
    and length_field: "short_block_length A + length (len_field k) = block_length A"
      "0 < short_block_length A"
begin

lemma round_agrees: "sha2_round A t w regs = fips_round F (f_K F ! t) w regs"
  by (cases regs rule: regs_cases) (simp add: sigmas constants Ch_def Maj_def)

lemma wbytes_pos: "0 < wbytes A"
  using word_size(1) len_gt_0 [where 'a = 'w] by linarith

lemma block_words: "length buf = block_length A \<Longrightarrow> length buf div wbytes A = 16"
  using wbytes_pos by (simp add: block_size)

definition block_words_of :: "byte list \<Rightarrow> 'w word list" where
  "block_words_of d = map (\<lambda>i. be_word (take (f_word F) (drop (f_word F * i) d))) [0..<16]"

definition schedule :: "byte list \<Rightarrow> 'w word list" where
  "schedule d = grow (f_rounds F - 16) (next_word F) (block_words_of d)"

lemma length_schedule [simp]: "length (schedule d) = rounds A"
  using round_count by (simp add: schedule_def block_words_of_def)

lemma schedule_start:
  assumes "length d = block_length A" "t < 16"
  shows "schedule d ! t = reverse A (get_word (wbytes A) d t)"
proof -
  have "wbytes A * t + wbytes A \<le> length d"
    using room [of t d "wbytes A"] block_words [OF assms(1)] assms(2) by simp
  then show ?thesis using assms(2) reverse_le
    by (simp add: schedule_def grow_prefix block_words_of_def get_word_def word_size(2))
qed

lemma schedule_step:
  "16 \<le> t \<Longrightarrow> t < rounds A \<Longrightarrow> schedule d ! t =
     f_sigma1 F (schedule d ! (t - 2)) + schedule d ! (t - 7) + f_sigma0 F (schedule d ! (t - 15)) + schedule d ! (t - 16)"
  using schedule_nth [of "block_words_of d" t "f_rounds F - 16" F] round_count
  by (simp add: schedule_def block_words_of_def)

abbreviation std_round :: "byte list \<Rightarrow> nat \<Rightarrow> 'w word regs \<Rightarrow> 'w word regs" where
  "std_round d t \<equiv> fips_round F (f_K F ! t) (schedule d ! t)"

text \<open>The first sixteen rounds overwrite the words of the buffer in order, also when they read from it.\<close>

definition loading :: "block_source \<Rightarrow> byte list \<Rightarrow> byte list \<Rightarrow> 'w word regs \<Rightarrow> nat \<Rightarrow> byte list \<times> 'w word regs \<Rightarrow> bool" where
  "loading src d buf0 r0 j br \<longleftrightarrow> length (fst br) = block_length A \<and>
     (\<forall>t<j. get_word (wbytes A) (fst br) t = schedule d ! t) \<and>
     (\<forall>t. j \<le> t \<longrightarrow> t < 16 \<longrightarrow> get_word (wbytes A) (fst br) t = (get_word (wbytes A) buf0 t :: 'w word)) \<and>
     snd br = fold (std_round d) [0..<j] r0"

lemma get_put:
  assumes "length buf = block_length A" "i < 16" "t < 16"
  shows "get_word (wbytes A) (put_word (wbytes A) buf i (w :: 'w word)) t =
    (if t = i then w else get_word (wbytes A) buf t)"
  using get_put_word [OF word_size(1)] block_words [OF assms(1)] assms(2,3) by simp

lemma length_put:
  "length buf = block_length A \<Longrightarrow> i < 16 \<Longrightarrow> length (put_word (wbytes A) buf i (w :: 'w word)) = block_length A"
  using room [of i buf "wbytes A"] block_words [of buf] by simp

lemma load_step:
  assumes "loading src d buf0 r0 j br" "j < 16" "length d = block_length A"
    "d = (case src of In_buffer \<Rightarrow> buf0 | Elsewhere e \<Rightarrow> e)"
  shows "loading src d buf0 r0 (Suc j) (load_round A src j br)"
proof -
  obtain buf regs where br: "br = (buf, regs)" by (rule prod.exhaust)
  have len: "length buf = block_length A" using assms(1) br by (simp add: loading_def)
  have data: "get_word (wbytes A) (case src of In_buffer \<Rightarrow> buf | Elsewhere e \<Rightarrow> e) j = (get_word (wbytes A) d j :: 'w word)"
    using assms(1,2,4) br by (cases src) (simp_all add: loading_def)
  show ?thesis
    using assms(1,2) data schedule_start [OF assms(3,2)] br len
    by (auto simp: loading_def load_round_def Let_def get_put length_put round_agrees less_Suc_eq)
qed

text \<open>From then on the buffer holds the last sixteen words of the schedule, the word \<^term>\<open>t\<close> in slot \<^term>\<open>t mod 16\<close>.\<close>

definition cycling :: "byte list \<Rightarrow> 'w word regs \<Rightarrow> nat \<Rightarrow> byte list \<times> 'w word regs \<Rightarrow> bool" where
  "cycling d r0 j br \<longleftrightarrow> length (fst br) = block_length A \<and>
     (\<forall>t. j - 16 \<le> t \<longrightarrow> t < j \<longrightarrow> get_word (wbytes A) (fst br) (t mod 16) = schedule d ! t) \<and>
     snd br = fold (std_round d) [0..<j] r0"

lemma expand_step:
  assumes "cycling d r0 j br" "16 \<le> j" "j < rounds A"
  shows "cycling d r0 (Suc j) (expand_round A j br)"
proof -
  obtain buf regs where br: "br = (buf, regs)" by (rule prod.exhaust)
  have len: "length buf = block_length A" using assms(1) br by (simp add: cycling_def)
  have slot: "get_word (wbytes A) buf (t mod 16) = schedule d ! t" if "j - 16 \<le> t" "t < j" for t
    using assms(1) br that by (simp add: cycling_def)
  have old: "(j + 1) mod 16 = (j - 15) mod 16" "(j + 14) mod 16 = (j - 2) mod 16"
      "(j + 9) mod 16 = (j - 7) mod 16" "j mod 16 = (j - 16) mod 16"
    using assms(2) le_mod_geq [of 16 "j + 1"] le_mod_geq [of 16 "j + 14"] le_mod_geq [of 16 "j + 9"] le_mod_geq [of 16 j]
    by simp_all
  define w where "w = get_word (wbytes A) buf (j mod 16) +
    (f_sigma1 F (get_word (wbytes A) buf ((j + 14) mod 16)) + get_word (wbytes A) buf ((j + 9) mod 16) +
     f_sigma0 F (get_word (wbytes A) buf ((j + 1) mod 16)))"
  have w: "w = schedule d ! j"
    unfolding w_def old schedule_step [OF assms(2,3)]
    using slot [of "j - 16"] slot [of "j - 2"] slot [of "j - 7"] slot [of "j - 15"] assms(2)
    by (simp add: add_ac)
  have other: "t mod 16 \<noteq> j mod 16" if "j - 15 \<le> t" "t < j" for t
  proof
    assume "t mod 16 = j mod 16"
    then have "16 dvd j - t" using that(2) by (metis mod_eq_dvd_iff_nat less_imp_le)
    then show False using that dvd_imp_le [of 16 "j - t"] by simp
  qed
  have "get_word (wbytes A) (put_word (wbytes A) buf (j mod 16) w) (t mod 16) = schedule d ! t"
    if "j - 15 \<le> t" "t < Suc j" for t
    using that w slot [of t] other [of t] len by (cases "t = j") (simp_all add: get_put)
  moreover have "expand_round A j br = (put_word (wbytes A) buf (j mod 16) w, sha2_round A j w regs)"
    by (simp add: br expand_round_def Let_def and_15 sigmas w_def)
  ultimately show ?thesis
    using assms(1,2) br len w by (auto simp: cycling_def length_put round_agrees)
qed

lemma Transform_is_compress:
  assumes "length (buffer c) = block_length A" "length (state c) = 8" "length d = block_length A"
    "d = (case src of In_buffer \<Rightarrow> buffer c | Elsewhere e \<Rightarrow> e)"
  shows "\<exists>buf. sha2_Transform A c src = c\<lparr>state := fips_compress F (state c) d, buffer := buf\<rparr> \<and>
    length buf = block_length A"
proof -
  define br1 where "br1 = fold (load_round A src) [0..<16] (buffer c, state_regs (state c))"
  have "loading src d (buffer c) (state_regs (state c)) 16 br1"
    unfolding br1_def
  proof (rule fold_upt_invariant)
    show "loading src d (buffer c) (state_regs (state c)) 0 (buffer c, state_regs (state c))"
      using assms(1) by (simp add: loading_def)
  qed (use load_step [OF _ _ assms(3,4)] in simp_all)
  then have "cycling d (state_regs (state c)) 16 br1" by (simp add: loading_def cycling_def)
  then have "cycling d (state_regs (state c)) (rounds A) (fold (expand_round A) [16..<rounds A] br1)"
    by (rule fold_upt_invariant) (use round_count(2) expand_step in simp_all)
  moreover obtain buf regs where br2: "fold (expand_round A) [16..<rounds A] br1 = (buf, regs)" by (rule prod.exhaust)
  moreover obtain a b c' d' e f g h where r: "regs = (a, b, c', d', e, f, g, h)" by (rule regs_cases)
  ultimately have regs: "length buf = block_length A"
      "fold (std_round d) [0..<rounds A] (state_regs (state c)) = (a, b, c', d', e, f, g, h)"
    by (simp_all add: cycling_def)
  have "length (state c) = length [a, b, c', d', e, f, g, h]" using assms(2) by simp
  then have "add_regs (state c) (a, b, c', d', e, f, g, h) = map2 (+) (state c) [a, b, c', d', e, f, g, h]"
    by (intro nth_equalityI) (auto simp: nth_Cons less_Suc_eq numeral_eq_Suc)
  then have "add_regs (state c) (a, b, c', d', e, f, g, h) = fips_compress F (state c) d"
    using regs(2) by (simp add: fips_compress_def schedule_def block_words_of_def round_count(1) Let_def)
  then show ?thesis using br1_def br2 r regs(1) by (auto simp: sha2_Transform_def)
qed

text \<open>A context that has taken in the message \<^term>\<open>m\<close>, starting from the hash value \<^term>\<open>H0\<close>.\<close>

definition holds :: "'w word list \<Rightarrow> ('w word, 'n) sha2_ctx \<Rightarrow> byte list \<Rightarrow> bool" where
  "holds H0 c m \<longleftrightarrow> state c = absorb (block_length A) (fips_compress F) H0 m \<and> counts (bitcount c) (length m) \<and>
     length (buffer c) = block_length A \<and> take (length m mod block_length A) (buffer c) = left_over (block_length A) m"

lemma block_pos: "0 < block_length A"
  using wbytes_pos block_size by simp

lemma length_compress: "length H = 8 \<Longrightarrow> length (fips_compress F H d) = 8"
  by (auto simp: fips_compress_def Let_def split: prod.split)

lemma length_absorb: "length H = 8 \<Longrightarrow> length (absorb B (fips_compress F) H m) = 8"
proof (induction B "fips_compress F" H m rule: absorb.induct)
  case (1 B h m)
  then show ?case by (subst absorb.simps) (simp add: length_compress)
qed

lemma absorb_step:
  assumes "length (left_over (block_length A) m @ d) = block_length A"
  shows "absorb (block_length A) f h (m @ d @ e) =
      absorb (block_length A) f (f (absorb (block_length A) f h m) (left_over (block_length A) m @ d)) e"
    and "left_over (block_length A) (m @ d @ e) = left_over (block_length A) e"
  using absorb_append(1) [OF block_pos, of f h m "d @ e"] absorb_append(2) [OF block_pos, of m "d @ e"]
    absorb_block [OF block_pos assms, of f "absorb (block_length A) f h m" e] left_over_block [OF assms, of e]
  by simp_all

lemma mod_full: "k mod block_length A + l = block_length A \<Longrightarrow> (k + l) mod block_length A = 0"
  by (metis mod_add_left_eq mod_self)

lemma Transform_absorbs:
  assumes "state c = absorb (block_length A) (fips_compress F) H0 m" "length H0 = 8" "length (buffer c) = block_length A"
    "length (left_over (block_length A) m @ d) = block_length A"
    "left_over (block_length A) m @ d = (case src of In_buffer \<Rightarrow> buffer c | Elsewhere e \<Rightarrow> e)"
  shows "\<exists>b. sha2_Transform A c src = c\<lparr>state := absorb (block_length A) (fips_compress F) H0 (m @ d), buffer := b\<rparr> \<and>
    length b = block_length A"
proof -
  have len: "length (state c) = 8" using length_absorb [OF assms(2)] assms(1) by simp
  obtain b where T: "sha2_Transform A c src = c\<lparr>state := fips_compress F (state c) (left_over (block_length A) m @ d), buffer := b\<rparr>"
      "length b = block_length A"
    using Transform_is_compress [OF assms(3) len assms(4,5)] by blast
  moreover have "absorb (block_length A) (fips_compress F) H0 (m @ d) = fips_compress F (state c) (left_over (block_length A) m @ d)"
    using absorb_step(1) [OF assms(4), of "fips_compress F" H0 "[]"] assms(1) block_pos by simp
  ultimately show ?thesis by metis
qed

lemma blocks_absorb:
  assumes "holds H0 c m" "length H0 = 8" "length m mod block_length A = 0" "fits (length data)"
  shows "holds H0 (sha2_blocks A c data) (m @ data)"
  using assms
proof (induction "length data" arbitrary: c m data rule: less_induct)
  case less
  note c = less.prems(1) [unfolded holds_def]
  show ?case
  proof (cases "block_length A \<le> length data")
    case True
    define d e where "d = take (block_length A) data" and "e = drop (block_length A) data"
    have data: "data = d @ e" "length d = block_length A" using True by (simp_all add: d_def e_def)
    have lo: "left_over (block_length A) m = []" using less.prems(3) by (metis length_0_conv length_left_over)
    obtain b where T: "sha2_Transform A c (Elsewhere d) = c\<lparr>state := absorb (block_length A) (fips_compress F) H0 (m @ d), buffer := b\<rparr>"
        "length b = block_length A"
      using Transform_absorbs [OF conjunct1 [OF c] less.prems(2), of d "Elsewhere d"] c lo data(2) by auto
    let ?c = "(sha2_Transform A c (Elsewhere d))\<lparr>bitcount := add_bytes A (bitcount c) (block_length A)\<rparr>"
    have mod: "length (m @ d) mod block_length A = 0" using less.prems(3) data(2) by simp
    have "counts (add_bytes A (bitcount c) (block_length A)) (length (m @ d))"
      using counts_add [of "bitcount c" "length m" "block_length A"] fits_less [OF less.prems(4) True] c data(2) by simp
    moreover have "left_over (block_length A) (m @ d) = []" using mod by (metis length_0_conv length_left_over)
    ultimately have "holds H0 ?c (m @ d)" using T mod by (simp add: holds_def)
    moreover have "length e < length data" "fits (length e)" using data block_pos fits_less [OF less.prems(4)] by simp_all
    ultimately have "holds H0 (sha2_blocks A ?c e) ((m @ d) @ e)"
      using less.hyps [of e ?c "m @ d"] less.prems(2) mod by simp
    moreover have "sha2_blocks A c data = sha2_blocks A ?c e"
      using True block_pos by (subst sha2_blocks.simps) (simp add: Let_def T(1) d_def [symmetric] e_def [symmetric])
    ultimately show ?thesis using data(1) by simp
  next
    case False
    have lo: "left_over (block_length A) m = []" using less.prems(3) by (metis length_0_conv length_left_over)
    have "holds H0 (c\<lparr>buffer := memcpy (buffer c) 0 data, bitcount := add_bytes A (bitcount c) (length data)\<rparr>) (m @ data)"
      using False c lo less.prems(3) counts_add [OF _ less.prems(4)] absorb_append(1) [OF block_pos, of "fips_compress F" H0 m data]
        absorb_append(2) [OF block_pos, of m data] take_memcpy [of 0 "buffer c" data]
      by (simp add: holds_def mod_add_eq [symmetric, of "length m"])
    then show ?thesis using False less.prems(1) by (subst sha2_blocks.simps) auto
  qed
qed

lemma Update_holds:
  assumes "holds H0 c m" "length H0 = 8" "fits (length d)"
  shows "holds H0 (sha2_Update A c d) (m @ d)"
proof -
  note c = assms(1) [unfolded holds_def]
  define u where "u = length m mod block_length A"
  have u: "usedspace A (bitcount c) = u" "u < block_length A" using counts_used c block_pos by (auto simp: u_def)
  consider "d = []" | "d \<noteq> []" "u = 0" | "d \<noteq> []" "0 < u" "length d < block_length A - u"
    | "d \<noteq> []" "0 < u" "block_length A - u \<le> length d" by force
  then show ?thesis
  proof cases
    case 1
    then show ?thesis using assms(1) by (simp add: sha2_Update_def)
  next
    case 2
    then show ?thesis using blocks_absorb [OF assms(1,2) _ assms(3)] u by (simp add: sha2_Update_def u_def [symmetric])
  next
    case 3
    have lo: "length (left_over (block_length A) m @ d) < block_length A" using 3 by (simp add: u_def)
    have "(length m + length d) mod block_length A = u + length d"
      using 3(3) by (metis u_def add.commute less_diff_conv mod_add_left_eq mod_less)
    moreover have "take (u + length d) (memcpy (buffer c) u d) = left_over (block_length A) m @ d"
      using take_memcpy [of u "buffer c" d] c u by (simp add: u_def)
    ultimately have "holds H0 (c\<lparr>buffer := memcpy (buffer c) u d, bitcount := add_bytes A (bitcount c) (length d)\<rparr>) (m @ d)"
      using c counts_add [OF _ assms(3)] lo absorb_append(1) [OF block_pos, of "fips_compress F" H0 m d] absorb_append(2) [OF block_pos, of m d] 3(3)
      by (simp add: holds_def)
    then show ?thesis using 3 u by (simp add: sha2_Update_def)
  next
    case 4
    define f g where "f = take (block_length A - u) d" and "g = drop (block_length A - u) d"
    have d: "d = f @ g" "length f = block_length A - u" using 4 by (simp_all add: f_def g_def)
    let ?c = "c\<lparr>buffer := memcpy (buffer c) u f, bitcount := add_bytes A (bitcount c) (block_length A - u)\<rparr>"
    have full: "length (left_over (block_length A) m @ f) = block_length A" using d u by (simp add: u_def)
    have buf: "memcpy (buffer c) u f = left_over (block_length A) m @ f"
      using c u d(2) by (simp add: memcpy_def u_def)
    obtain b where T: "sha2_Transform A ?c In_buffer = ?c\<lparr>state := absorb (block_length A) (fips_compress F) H0 (m @ f), buffer := b\<rparr>"
        "length b = block_length A"
    proof -
      have "state ?c = absorb (block_length A) (fips_compress F) H0 m" "length (buffer ?c) = block_length A"
        "left_over (block_length A) m @ f = (case In_buffer of In_buffer \<Rightarrow> buffer ?c | Elsewhere e \<Rightarrow> e)"
        using c buf full by simp_all
      then show thesis using Transform_absorbs [OF _ assms(2) _ full] that by metis
    qed
    have mod: "length (m @ f) mod block_length A = 0" using full mod_full by simp
    have "counts (add_bytes A (bitcount c) (block_length A - u)) (length (m @ f))"
      using counts_add [of "bitcount c" "length m" "block_length A - u"] fits_less [OF assms(3) 4(3)] c d(2) by simp
    moreover have "left_over (block_length A) (m @ f) = []" using mod by (metis length_0_conv length_left_over)
    ultimately have "holds H0 (sha2_Transform A ?c In_buffer) (m @ f)" using T mod by (simp add: holds_def)
    then have "holds H0 (sha2_blocks A (sha2_Transform A ?c In_buffer) g) ((m @ f) @ g)"
      using blocks_absorb [OF _ assms(2) mod] fits_less [OF assms(3)] d by simp
    moreover have "sha2_Update A c d = sha2_blocks A (sha2_Transform A ?c In_buffer) g"
      using 4 u by (simp add: sha2_Update_def Let_def f_def g_def)
    ultimately show ?thesis using d(1) by simp
  qed
qed

lemma Last_pads:
  assumes "holds H0 c m" "length H0 = 8" "short_block_length A \<le> zeroed" "zeroed \<le> block_length A"
  shows "state (sha2_Last A zeroed c) =
    absorb (block_length A) (fips_compress F) H0 (md_pad (block_length A) (len_field (length m)) m)"
proof -
  define B s u L where "B = block_length A" and "s = short_block_length A" and "u = length m mod B"
    and "L = len_field (length m)"
  note c = assms(1) [unfolded holds_def, folded B_def u_def]
  have sizes: "s + length L = B" "0 < s" "u < B" using length_field block_pos by (simp_all add: B_def s_def L_def u_def)
  have used: "usedspace A (bitcount c) = u" "count_bytes A (bitcount c) = L"
    using counts_used counts_bytes c by (simp_all add: B_def u_def L_def)
  have tail: "take s b @ L = memcpy b s L" if "length b = B" for b using that sizes by (simp add: memcpy_def)
  have final: "state (sha2_Transform A (c'\<lparr>buffer := memcpy (buffer c') s L\<rparr>) In_buffer) =
      absorb B (fips_compress F) H0 (m' @ t)"
    if "state c' = absorb B (fips_compress F) H0 m'" "length (buffer c') = B"
      "left_over B m' @ t = take s (buffer c') @ L" for c' m' t
    using Transform_absorbs [of "c'\<lparr>buffer := memcpy (buffer c') s L\<rparr>" H0 m' t In_buffer] that tail [OF that(2)] assms(2) sizes
    by (auto simp: B_def)
  have pad: "md_pad B L m = m @ [0x80] @ replicate ((B + s - 1 - u) mod B) 0 @ L"
  proof -
    have "2 * B - 1 - length L - u = B + s - 1 - u" using sizes by linarith
    then show ?thesis by (simp add: md_pad_def u_def)
  qed
  consider "u = 0" | "0 < u" "u + 1 \<le> s" | "0 < u" "s < u + 1" by linarith
  then have "state (sha2_Last A zeroed c) = absorb B (fips_compress F) H0 (md_pad B L m)"
  proof cases
    case 1
    let ?c = "c\<lparr>buffer := (memset0 (buffer c) 0 s)[0 := 0x80]\<rparr>"
    have "sha2_Last A zeroed c = sha2_Transform A (?c\<lparr>buffer := memcpy (buffer ?c) s L\<rparr>) In_buffer"
      using used 1 by (simp add: sha2_Last_def s_def Let_def)
    moreover have "left_over B m = []" using 1 by (metis length_0_conv length_left_over u_def)
    moreover have "take s (buffer ?c) = 0x80 # replicate (s - 1) 0"
      using sizes c by (cases s) (simp_all add: memcpy_def)
    moreover have "(B + s - 1) mod B = s - 1" using sizes by (simp add: mod_if)
    ultimately show ?thesis using final [of ?c m "0x80 # replicate (s - 1) 0 @ L"] c sizes pad 1 by simp
  next
    case 2
    let ?buf = "memset0 ((buffer c)[u := 0x80]) (u + 1) (s - (u + 1))"
    have "sha2_Last A zeroed c = sha2_Transform A (c\<lparr>buffer := memcpy ?buf s L\<rparr>) In_buffer"
      using used 2 by (simp add: sha2_Last_def s_def Let_def)
    moreover have "take s ?buf = left_over B m @ 0x80 # replicate (s - 1 - u) 0"
    proof -
      have "take (u + 1 + (s - (u + 1))) ?buf = take (u + 1) ((buffer c)[u := 0x80]) @ replicate (s - (u + 1)) 0"
        using take_memcpy [of "u + 1" "(buffer c)[u := 0x80]" "replicate (s - (u + 1)) 0"] sizes c by simp
      then show ?thesis using 2 sizes c take_mark [of u "buffer c"] by (simp add: u_def)
    qed
    moreover have "(B + s - 1 - u) mod B = s - 1 - u" using sizes 2 by (simp add: mod_if)
    ultimately show ?thesis using final [of "c\<lparr>buffer := ?buf\<rparr>" m "0x80 # replicate (s - 1 - u) 0 @ L"] c sizes pad 2 by simp
  next
    case 3
    define f where "f = 0x80 # replicate (B - u - 1) (0 :: byte)"
    define buf where "buf = (if u + 1 < B then memset0 ((buffer c)[u := 0x80]) (u + 1) (B - (u + 1)) else (buffer c)[u := 0x80])"
    have buf: "buf = left_over B m @ f"
    proof -
      have mark: "take (u + 1) ((buffer c)[u := 0x80]) = left_over B m @ [0x80]"
        using take_mark [of u "buffer c"] c sizes(3) by (simp add: u_def)
      then have "buf = take (u + 1) ((buffer c)[u := 0x80]) @ replicate (B - u - 1) 0"
        using sizes(3) c by (auto simp: buf_def memcpy_def)
      then show ?thesis using mark by (simp add: f_def)
    qed
    have full: "length (left_over B m @ f) = B" using 3 sizes by (simp add: f_def u_def [symmetric])
    obtain b where T: "sha2_Transform A (c\<lparr>buffer := buf\<rparr>) In_buffer =
        c\<lparr>state := absorb B (fips_compress F) H0 (m @ f), buffer := b\<rparr>" "length b = B"
    proof -
      have "state (c\<lparr>buffer := buf\<rparr>) = absorb B (fips_compress F) H0 m" "length (buffer (c\<lparr>buffer := buf\<rparr>)) = B"
        "left_over B m @ f = (case In_buffer of In_buffer \<Rightarrow> buffer (c\<lparr>buffer := buf\<rparr>) | Elsewhere e \<Rightarrow> e)"
        using c buf full by simp_all
      from Transform_absorbs [OF this(1) [unfolded B_def] assms(2) this(2) [unfolded B_def] full [unfolded B_def] this(3) [unfolded B_def]] show thesis
        using that by (auto simp: B_def)
    qed
    let ?c = "c\<lparr>state := absorb B (fips_compress F) H0 (m @ f), buffer := memset0 b 0 zeroed\<rparr>"
    have "sha2_Last A zeroed c = sha2_Transform A (?c\<lparr>buffer := memcpy (buffer ?c) s L\<rparr>) In_buffer"
    proof (cases "u + 1 < B")
      case True
      then have "buf = memset0 ((buffer c)[u := 0x80]) (u + 1) (B - (u + 1))" by (simp add: buf_def)
      then show ?thesis using True used 3 T(1) by (simp add: sha2_Last_def s_def Let_def B_def)
    next
      case False
      then have "buf = (buffer c)[u := 0x80]" by (simp add: buf_def)
      then show ?thesis using False used 3 T(1) by (simp add: sha2_Last_def s_def Let_def B_def)
    qed
    moreover have "left_over B (m @ f) = []"
      using full mod_full [of "length m" "length f"] by (metis B_def length_0_conv length_append length_left_over u_def)
    moreover have "take s (memset0 b 0 zeroed) = replicate s 0"
      using assms(3,4) T(2) by (simp add: memcpy_def s_def B_def min_def)
    moreover have "(B + s - 1 - u) mod B = (B - u - 1) + s" using 3 sizes by (simp add: mod_if)
    ultimately show ?thesis using final [of ?c "m @ f" "replicate s 0 @ L"] T(2) assms(3,4) pad
      by (simp add: f_def replicate_add B_def s_def)
  qed
  then show ?thesis by (simp add: B_def L_def)
qed

lemma digest_bytes:
  assumes "length H = 8" "n \<le> 8"
  shows "sha2_digest A n H = concat (map (be_bytes (f_word F)) (take n H))"
proof -
  have "le_bytes (wbytes A) (reverse A w) = be_bytes (f_word F) w" for w
  proof -
    have w: "w = le_word (le_bytes (wbytes A) w)" using le_word_le_bytes [OF word_size(1)] by simp
    show ?thesis using word_size
      by (subst w, subst reverse_le) (simp_all add: be_word_def be_bytes_def le_bytes_le_word)
  qed
  moreover have "map (\<lambda>j. be_bytes (f_word F) (H ! j)) [0..<n] = map (be_bytes (f_word F)) (take n H)"
    by (rule nth_equalityI) (use assms in simp_all)
  ultimately show ?thesis by (simp add: sha2_digest_def)
qed

lemma digest_after_Last:
  assumes "holds H0 c m" "length H0 = 8" "short_block_length A \<le> zeroed" "zeroed \<le> block_length A" "n \<le> 8"
  shows "sha2_digest A n (state (sha2_Last A zeroed c)) = fips_hash F H0 n (len_field (length m)) m"
  using digest_bytes [OF _ assms(5)] Last_pads [OF assms(1-4)] length_absorb [OF assms(2)] block_size word_size(2)
  by (simp add: fips_hash_def)

end

section \<open>The two widths\<close>

lemma used_256: "unat (drop_bit 3 (word_of_nat (8 * k) :: 64 word)) mod 64 = k mod 64"
  using mod_mod_cancel [of 64 "2 ^ 61" k] by (subst unat_bits [of 61]) simp_all

lemma used_512: "unat (drop_bit 3 (word_of_nat (8 * k) :: 64 word)) mod 128 = k mod 128"
  using mod_mod_cancel [of 128 "2 ^ 61" k] by (subst unat_bits [of 61]) simp_all

lemma push_3: "push_bit 3 (word_of_nat l :: 64 word) = word_of_nat (8 * l)"
  by (simp add: push_bit_eq_mult)

interpretation w32: sha2_laws sha256_width fips256 "\<lambda>z k. z = word_of_nat (8 * k)" "\<lambda>_. True"
  "\<lambda>k. be_bytes 8 (word_of_nat (8 * k) :: 64 word)"
proof unfold_locales
  show "Sigma0 sha256_width = f_Sigma0 fips256" "Sigma1 sha256_width = f_Sigma1 fips256"
    "sigma0 sha256_width = f_sigma0 fips256" "sigma1 sha256_width = f_sigma1 fips256"
    by (simp_all add: sha256_width_def fips256_def fun_eq_iff Sigma0_256_def Sigma1_256_def sigma0_256_def sigma1_256_def
      sha2_R_def S32_rotr)
qed (simp_all add: sha256_width_def fips256_def REVERSE32_le used_256 [simplified] le_bytes_REVERSE64 push_3 distrib_left)

definition count128 :: "nat \<Rightarrow> 64 word \<times> 64 word" where
  "count128 n = (word_of_nat n, word_of_nat (n div 2 ^ 64))"

lemma ADDINC128_count:
  assumes "n < 2 ^ 64"
  shows "ADDINC128 (count128 m) (word_of_nat n) = count128 (m + n)"
proof -
  have n: "unat (word_of_nat n :: 64 word) = n" using assms by (simp add: unat_of_nat)
  have s: "unat (word_of_nat m + word_of_nat n :: 64 word) = (m + n) mod 2 ^ 64"
    by (simp add: unat_of_nat flip: of_nat_add)
  define r q where "r = m mod 2 ^ 64" and "q = m div 2 ^ 64"
  have m: "m = 2 ^ 64 * q + r" "r < 2 ^ 64" by (simp_all add: r_def q_def)
  have "(m + n) mod 2 ^ 64 = (if r + n < 2 ^ 64 then r + n else r + n - 2 ^ 64)"
    "(m + n) div 2 ^ 64 = (if r + n < 2 ^ 64 then q else q + 1)"
    using m assms by (auto simp: add.assoc mod_if [of "r + n"] div_if [of "r + n"])
  then show ?thesis using n s m assms
    by (auto simp: ADDINC128_def count128_def Let_def word_less_nat_alt q_def [symmetric])
qed

lemma le_bytes_count128:
  "le_bytes 8 (word_of_nat n :: 64 word) @ le_bytes 8 (word_of_nat (n div 2 ^ 64) :: 64 word) =
   le_bytes 16 (word_of_nat n :: 128 word)"
  using le_bytes_halves [of 8 n, where 'v = 64 and 'w = 128] by simp

interpretation w64: sha2_laws sha512_width fips512 "\<lambda>z k. z = count128 (8 * k)" "\<lambda>l. l < 2 ^ 61"
  "\<lambda>k. be_bytes 16 (word_of_nat (8 * k) :: 128 word)"
proof unfold_locales
  show "Sigma0 sha512_width = f_Sigma0 fips512" "Sigma1 sha512_width = f_Sigma1 fips512"
    "sigma0 sha512_width = f_sigma0 fips512" "sigma1 sha512_width = f_sigma1 fips512"
    by (simp_all add: sha512_width_def fips512_def fun_eq_iff Sigma0_512_def Sigma1_512_def sigma0_512_def sigma1_512_def
      sha2_R_def S64_rotr)
next
  fix z k l
  assume "z = count128 (8 * k)" "(l :: nat) < 2 ^ 61"
  then show "add_bytes sha512_width z l = count128 (8 * (k + l))"
    using ADDINC128_count [of "8 * l" "8 * k"] by (simp add: sha512_width_def push_3 distrib_left)
next
  fix z k
  assume "z = count128 (8 * k)"
  then show "count_bytes sha512_width z = be_bytes 16 (word_of_nat (8 * k) :: 128 word)"
    using le_bytes_count128 [of "8 * k", THEN arg_cong, of rev]
    by (simp add: sha512_width_def le_bytes_REVERSE64 be_bytes_def count128_def)
qed (simp_all add: sha512_width_def fips512_def REVERSE64_le used_512 [simplified] count128_def)

section \<open>Streaming\<close>

interpretation sha256: streaming_hash "w32.holds sha256_initial_hash_value" SHA2_SHA256_Init SHA2_SHA256_Update
  SHA2_SHA256_Final fips_sha256 "\<lambda>_. True"
proof unfold_locales
  have len: "length sha256_initial_hash_value = 8" by (simp add: sha256_initial_hash_value_def)
  show "w32.holds sha256_initial_hash_value SHA2_SHA256_Init []"
    unfolding w32.holds_def by (simp add: SHA2_SHA256_Init_def sha256_width_def left_over_def)
  fix c m d
  assume c: "w32.holds sha256_initial_hash_value c m"
  show "w32.holds sha256_initial_hash_value (SHA2_SHA256_Update c d) (m @ d)"
    using w32.Update_holds [OF c len] by (simp add: SHA2_SHA256_Update_def)
  show "SHA2_SHA256_Final c = fips_sha256 m"
    unfolding SHA2_SHA256_Final_def fips_sha256_def
    by (rule w32.digest_after_Last [OF c len]) (simp_all add: sha256_width_def)
qed

lemma sha512_streams:
  assumes "length H0 = 8" "n \<le> 8"
  shows "streaming_hash (w64.holds H0) \<lparr>state = H0, bitcount = (0, 0), buffer = replicate 128 0\<rparr> SHA2_SHA512_Update
    (\<lambda>c. sha2_digest sha512_width n (state (SHA2_SHA512_Last c)))
    (\<lambda>m. fips_hash fips512 H0 n (be_bytes 16 (word_of_nat (8 * length m) :: 128 word)) m) (\<lambda>d. length d < 2 ^ 61)"
proof unfold_locales
  show "w64.holds H0 \<lparr>state = H0, bitcount = (0, 0), buffer = replicate 128 0\<rparr> []"
    unfolding w64.holds_def by (simp add: sha512_width_def left_over_def count128_def)
next
  fix c m and d :: "byte list"
  assume "w64.holds H0 c m" "length d < 2 ^ 61"
  then show "w64.holds H0 (SHA2_SHA512_Update c d) (m @ d)"
    using w64.Update_holds assms by (simp add: SHA2_SHA512_Update_def)
next
  fix c m
  assume "w64.holds H0 c m"
  then show "sha2_digest sha512_width n (state (SHA2_SHA512_Last c)) =
      fips_hash fips512 H0 n (be_bytes 16 (word_of_nat (8 * length m) :: 128 word)) m"
    using w64.digest_after_Last [of H0 c m "128 - 2" n] assms by (simp add: SHA2_SHA512_Last_def sha512_width_def)
qed

interpretation sha512: streaming_hash "w64.holds sha512_initial_hash_value" SHA2_SHA512_Init SHA2_SHA512_Update
  SHA2_SHA512_Final fips_sha512 "\<lambda>d. length d < 2 ^ 61"
  using sha512_streams [of sha512_initial_hash_value 8]
  by (simp add: SHA2_SHA512_Init_def SHA2_SHA512_Final_def [abs_def] fips_sha512_def [abs_def] sha512_initial_hash_value_def)

interpretation sha384: streaming_hash "w64.holds sha384_initial_hash_value" SHA2_SHA384_Init SHA2_SHA384_Update
  SHA2_SHA384_Final fips_sha384 "\<lambda>d. length d < 2 ^ 61"
  using sha512_streams [of sha384_initial_hash_value 6]
  by (simp add: SHA2_SHA384_Init_def SHA2_SHA384_Update_def SHA2_SHA384_Final_def [abs_def] fips_sha384_def [abs_def]
      sha384_initial_hash_value_def)

text \<open>SHA-256: whatever the pieces in which a message is handed to SHA2_SHA256_Update, the digest is the one of
  FIPS 180-4 for the whole message. The schedule that the transform keeps in sixteen slots of the buffer, also
  while it reads its data from there, the buffering and the padding in place agree with the standard's.\<close>

theorem sha256_is_the_standard:
  "SHA2_SHA256_Final (foldl SHA2_SHA256_Update SHA2_SHA256_Init ds) = fips_sha256 (concat ds)"
  by (rule sha256.finish_chunks) simp

text \<open>C27: SHA-512 and SHA-384: the same for pieces below 2 ^ 61 bytes, with the bit count kept in two words and
  carried by ADDINC128; the two bytes too many that SHA2_SHA512_Last clears are overwritten by the count.\<close>

theorem sha512_is_the_standard:
  assumes "\<forall>d\<in>set ds. length d < 2 ^ 61"
  shows "SHA2_SHA512_Final (foldl SHA2_SHA512_Update SHA2_SHA512_Init ds) = fips_sha512 (concat ds) \<and>
    SHA2_SHA384_Final (foldl SHA2_SHA384_Update SHA2_SHA384_Init ds) = fips_sha384 (concat ds)"
  using sha512.finish_chunks [OF assms] sha384.finish_chunks [OF assms] by blast

theorem sha512_is_the_standard_witness:
  "SHA2_SHA512_Final (foldl SHA2_SHA512_Update SHA2_SHA512_Init [replicate 100 0x61, [], replicate 300 0x62]) =
     fips_sha512 (concat [replicate 100 0x61, [], replicate 300 0x62]) \<and>
   SHA2_SHA384_Final (foldl SHA2_SHA384_Update SHA2_SHA384_Init [replicate 100 0x61, [], replicate 300 0x62]) =
     fips_sha384 (concat [replicate 100 0x61, [], replicate 300 0x62])"
  by (rule sha512_is_the_standard) simp

section \<open>The constants\<close>

definition small_primes :: "int list" where
  "small_primes = filter (\<lambda>p. list_all (\<lambda>d. p mod d \<noteq> 0 \<or> p = d) [2, 3, 5, 7, 11, 13, 17, 19]) [2..409]"

text \<open>\<^term>\<open>x\<close> over \<^term>\<open>b\<close> is the fraction of the \<^term>\<open>k\<close>-th root of \<^term>\<open>p\<close>, cut off after the digits that \<^term>\<open>b\<close> allows.\<close>

definition root_floor :: "nat \<Rightarrow> int \<Rightarrow> int" where
  "root_floor k p = (case dropWhile (\<lambda>n. (n + 1) ^ k \<le> p) [1..7] of n # _ \<Rightarrow> n | [] \<Rightarrow> 0)"

definition root_fraction :: "nat \<Rightarrow> int \<Rightarrow> int \<Rightarrow> int \<Rightarrow> bool" where
  "root_fraction k b p x \<longleftrightarrow> 0 \<le> x \<and> x < b \<and>
     (let y = root_floor k p * b + x; z = p * b ^ k in y ^ k \<le> z \<and> z < (y + 1) ^ k)"

definition root_fractions :: "nat \<Rightarrow> int \<Rightarrow> int list \<Rightarrow> 'w::len word list \<Rightarrow> bool" where
  "root_fractions k b ps xs \<longleftrightarrow> list_all2 (root_fraction k b) ps (map uint xs)"

lemma small_primes: "small_primes = [2, 3, 5, 7, 11, 13, 17, 19, 23, 29, 31, 37, 41, 43, 47, 53, 59, 61, 67, 71,
    73, 79, 83, 89, 97, 101, 103, 107, 109, 113, 127, 131, 137, 139, 149, 151, 157, 163, 167, 173,
    179, 181, 191, 193, 197, 199, 211, 223, 227, 229, 233, 239, 241, 251, 257, 263, 269, 271, 277, 281,
    283, 293, 307, 311, 313, 317, 331, 337, 347, 349, 353, 359, 367, 373, 379, 383, 389, 397, 401, 409]"
  by code_simp
lemma K256_constants: "root_fractions 3 (2 ^ 32) (take 64 small_primes) K256"
  unfolding small_primes by code_simp

lemma K512_constants: "root_fractions 3 (2 ^ 64) (take 80 small_primes) K512"
  unfolding small_primes by code_simp

lemma H_constants:
  "root_fractions 2 (2 ^ 32) (take 8 small_primes) sha256_initial_hash_value"
  "root_fractions 2 (2 ^ 64) (take 8 small_primes) sha512_initial_hash_value"
  "root_fractions 2 (2 ^ 64) (take 8 (drop 8 small_primes)) sha384_initial_hash_value"
  unfolding small_primes by code_simp+

text \<open>The tables of sha2.c are the numbers of the standard: the round constants are the first 32 or 64 bits of the
  fractions of the cube roots of the first 64 or 80 primes, the initial hash values those of the square roots of the
  first eight primes, and of the ninth to the sixteenth for SHA-384.\<close>

theorem sha2_constants:
  "root_fractions 3 (2 ^ 32) (take 64 small_primes) K256 \<and>
   root_fractions 3 (2 ^ 64) (take 80 small_primes) K512 \<and>
   root_fractions 2 (2 ^ 32) (take 8 small_primes) sha256_initial_hash_value \<and>
   root_fractions 2 (2 ^ 64) (take 8 small_primes) sha512_initial_hash_value \<and>
   root_fractions 2 (2 ^ 64) (take 8 (drop 8 small_primes)) sha384_initial_hash_value"
  using K256_constants K512_constants H_constants by blast

end
