(* ===== verification/Md5Properties.thy ===== *)
theory Md5Properties
  imports Md5 Complex_Main
begin

text \<open>
  \<^verbatim>\<open>md5c.c\<close> against RFC 1321: the sixty-four steps with the RFC's functions, word order, rotations and
  sine table, and the digest of a message fed in any pieces.
\<close>

section \<open>The algorithm of the RFC\<close>

definition rfc_function :: "nat \<Rightarrow> 32 word \<Rightarrow> 32 word \<Rightarrow> 32 word \<Rightarrow> 32 word" where
  "rfc_function i x y z =
     (if i < 16 then (x AND y) OR (NOT x AND z)
      else if i < 32 then (x AND z) OR (y AND NOT z)
      else if i < 48 then x XOR y XOR z
      else y XOR (x OR NOT z))"

definition rfc_index :: "nat \<Rightarrow> nat" where
  "rfc_index i = (if i < 16 then i else if i < 32 then (5 * i + 1) mod 16
     else if i < 48 then (3 * i + 5) mod 16 else (7 * i) mod 16)"

definition rfc_shift :: "nat \<Rightarrow> nat" where
  "rfc_shift i = [[7, 12, 17, 22], [5, 9, 14, 20], [4, 11, 16, 23], [6, 10, 15, 21]] ! (i div 16) ! (i mod 4)"

definition rfc_T :: "nat \<Rightarrow> 32 word" where
  "rfc_T i = word_of_int \<lfloor>2 ^ 32 * \<bar>sin (real (i + 1))\<bar>\<rfloor>"

fun rfc_step :: "32 word list \<Rightarrow> nat \<Rightarrow> 32 word \<times> 32 word \<times> 32 word \<times> 32 word \<Rightarrow>
    32 word \<times> 32 word \<times> 32 word \<times> 32 word" where
  "rfc_step X i (a, b, c, d) =
     (d, b + word_rotl (rfc_shift i) (a + rfc_function i b c d + X ! rfc_index i + rfc_T i), b, c)"

definition rfc_block :: "32 word list \<Rightarrow> byte list \<Rightarrow> 32 word list" where
  "rfc_block H block =
     (case fold (rfc_step (words_in 4 block)) [0..<64] (H ! 0, H ! 1, H ! 2, H ! 3) of
        (a, b, c, d) \<Rightarrow> map2 (+) H [a, b, c, d])"

definition rfc_md5 :: "byte list \<Rightarrow> byte list" where
  "rfc_md5 m = concat (map (le_bytes 4)
     (absorb 64 rfc_block [0x67452301, 0xefcdab89, 0x98badcfe, 0x10325476]
        (md_pad 64 (le_bytes 8 (word_of_nat (8 * length m) :: 64 word)) m)))"

section \<open>The steps\<close>

lemma md5_F1_is: "md5_F1 x y z = (x AND y) OR (NOT x AND z)"
  by (rule bit_word_eqI) (auto simp: md5_F1_def bit_simps)

lemma md5_F2_is: "md5_F2 x y z = (x AND z) OR (y AND NOT z)"
  by (rule bit_word_eqI) (auto simp: md5_F2_def md5_F1_def bit_simps)

definition md5_constants :: "32 word list" where
  "md5_constants = map (\<lambda>(f, k, t, s). t) MD5_steps"

definition code_function :: "nat \<Rightarrow> 32 word \<Rightarrow> 32 word \<Rightarrow> 32 word \<Rightarrow> 32 word" where
  "code_function i = (if i < 16 then md5_F1 else if i < 32 then md5_F2 else if i < 48 then md5_F3 else md5_F4)"

lemma code_function: "code_function i = rfc_function i"
  by (auto simp: code_function_def rfc_function_def md5_F1_is md5_F2_is md5_F3_def md5_F4_def fun_eq_iff)

lemma MD5_steps_shape:
  "MD5_steps = map (\<lambda>i. (code_function i, rfc_index i, md5_constants ! i, rfc_shift i)) [0..<64]"
  by (simp add: MD5_steps_def md5_constants_def code_function_def rfc_index_def rfc_shift_def upt_rec)

section \<open>The sine table\<close>

text \<open>
  Sine and cosine of the integers as fixed-point numbers over \<^term>\<open>scale\<close>, by the addition theorems from
  those of 1, with a bound on the error that at most doubles.
\<close>

definition scale :: int where "scale = 2 ^ 120"

definition close :: "int \<Rightarrow> int \<Rightarrow> real \<Rightarrow> bool" where
  "close e s x \<longleftrightarrow> \<bar>of_int s - of_int scale * x\<bar> \<le> of_int e"

definition turn :: "int \<Rightarrow> int \<Rightarrow> int \<times> int \<Rightarrow> int \<times> int" where
  "turn s1 c1 sc = (case sc of (s, c) \<Rightarrow> ((s * c1 + c * s1) div scale, (c * c1 - s * s1) div scale))"

lemma close_product:
  assumes "close e s x" "close 1 t y" "\<bar>x\<bar> \<le> 1" "\<bar>y\<bar> \<le> 1" "e \<le> scale"
  shows "\<bar>of_int (s * t) / of_int scale - of_int scale * (x * y)\<bar> \<le> of_int e + 2"
proof -
  define a b where "a = of_int s - of_int scale * x" and "b = of_int t - of_int scale * y"
  have pos: "0 < (of_int scale :: real)" by (simp add: scale_def)
  have ab: "\<bar>a\<bar> \<le> of_int e" "\<bar>b\<bar> \<le> 1" using assms(1,2) by (simp_all add: close_def a_def b_def)
  have st: "of_int s = of_int scale * x + a" "of_int t = of_int scale * y + b" by (simp_all add: a_def b_def)
  have "of_int (s * t) / of_int scale - of_int scale * (x * y) = x * b + a * y + a * b / of_int scale"
    using pos by (simp add: st field_simps)
  moreover have "\<bar>x * b\<bar> \<le> 1" using assms(3) ab(2) by (simp add: abs_mult mult_le_one)
  moreover have "\<bar>a * y\<bar> \<le> of_int e" using mult_mono [OF ab(1) assms(4)] ab(1) by (simp add: abs_mult)
  moreover have "\<bar>a * b / of_int scale\<bar> \<le> 1"
  proof -
    have "\<bar>a * b\<bar> \<le> of_int e * 1" using mult_mono [OF ab] ab(1) by (simp add: abs_mult)
    also have "\<dots> \<le> of_int scale" using assms(5) by simp
    finally show ?thesis using pos by (simp add: abs_divide)
  qed
  ultimately show ?thesis by linarith
qed

lemma div_close:
  assumes "\<bar>of_int z / of_int scale - (r :: real)\<bar> \<le> of_int e"
  shows "\<bar>of_int (z div scale) - r\<bar> \<le> of_int (e + 1)"
proof -
  have "of_int (z div scale) \<le> of_int z / (of_int scale :: real)" "of_int z / (of_int scale :: real) < of_int (z div scale) + 1"
    using floor_correct [of "of_int z / (of_int scale :: real)"] unfolding floor_divide_of_int_eq by simp_all
  then show ?thesis using assms by simp
qed

lemma turn_close:
  assumes "close e s (sin x)" "close e c (cos x)" "close 1 s1 (sin 1)" "close 1 c1 (cos 1)" "e \<le> scale"
  shows "close (2 * e + 5) (fst (turn s1 c1 (s, c))) (sin (x + 1)) \<and> close (2 * e + 5) (snd (turn s1 c1 (s, c))) (cos (x + 1))"
proof -
  have "\<bar>of_int (s * c1) / of_int scale - of_int scale * (sin x * cos 1)\<bar> \<le> of_int e + 2"
    "\<bar>of_int (c * s1) / of_int scale - of_int scale * (cos x * sin 1)\<bar> \<le> of_int e + 2"
    "\<bar>of_int (c * c1) / of_int scale - of_int scale * (cos x * cos 1)\<bar> \<le> of_int e + 2"
    "\<bar>of_int (s * s1) / of_int scale - of_int scale * (sin x * sin 1)\<bar> \<le> of_int e + 2"
    using close_product assms by simp_all
  then have "\<bar>of_int (s * c1 + c * s1) / of_int scale - of_int scale * sin (x + 1)\<bar> \<le> of_int (2 * e + 4)"
    "\<bar>of_int (c * c1 - s * s1) / of_int scale - of_int scale * cos (x + 1)\<bar> \<le> of_int (2 * e + 4)"
    by (simp_all add: sin_add cos_add add_divide_distrib diff_divide_distrib distrib_left right_diff_distrib)
  from this [THEN div_close] show ?thesis by (simp add: turn_def close_def)
qed

definition sin1 :: int where "sin1 = 1118506790647359666268926078808821564"
definition cos1 :: int where "cos1 = 718184951147075946983144219864494525"

primrec taylor :: "(nat \<Rightarrow> int) \<Rightarrow> nat \<Rightarrow> int" where
  "taylor g 0 = 0"
| "taylor g (Suc n) = int (Suc n) * (taylor g n + g n)"

lemma taylor_numeral: "taylor g (numeral k) = numeral k * (taylor g (pred_numeral k) + g (pred_numeral k))"
  by (metis taylor.simps(2) numeral_eq_Suc of_nat_numeral)

lemma taylor: "(\<Sum>m<n. of_int (g m) / fact m) = (of_int (taylor g n) / fact n :: real)"
proof (induction n)
  case (Suc n)
  have "of_int (taylor g (Suc n)) / fact (Suc n) =
      (real (Suc n) * (of_int (taylor g n) + of_int (g n))) / (real (Suc n) * fact n)"
    by (simp only: taylor.simps fact_Suc of_int_mult of_int_add of_int_of_nat_eq)
  also have "\<dots> = (of_int (taylor g n) + of_int (g n)) / fact n" by (rule mult_divide_mult_cancel_left) simp
  finally show ?case unfolding sum.lessThan_Suc Suc.IH by (simp add: add_divide_distrib)
qed simp

definition sin_sign :: "nat \<Rightarrow> int" where
  "sin_sign m = (if m mod 4 = 1 then 1 else if m mod 4 = 3 then - 1 else 0)"

definition cos_sign :: "nat \<Rightarrow> int" where
  "cos_sign m = (if m mod 4 = 0 then 1 else if m mod 4 = 2 then - 1 else 0)"

lemma minus_one_power: "(- 1 :: real) ^ k = (if even k then 1 else - 1)"
  by simp

lemma sin_coeff_sign: "sin_coeff m = of_int (sin_sign m) / fact m"
proof -
  obtain q r where m: "m = 4 * q + r" "r < 4" by (metis mod_less_divisor mult_div_mod_eq zero_less_numeral)
  then consider "m = 4 * q" | "m = 4 * q + 1" | "m = 4 * q + 2" | "m = 4 * q + 3" by linarith
  then show ?thesis by cases (simp_all add: sin_coeff_def sin_sign_def mod_Suc)
qed

lemma cos_coeff_sign: "cos_coeff m = of_int (cos_sign m) / fact m"
proof -
  obtain q r where m: "m = 4 * q + r" "r < 4" by (metis mod_less_divisor mult_div_mod_eq zero_less_numeral)
  then consider "m = 4 * q" | "m = 4 * q + 1" | "m = 4 * q + 2" | "m = 4 * q + 3" by linarith
  then show ?thesis by cases (simp_all add: cos_coeff_def cos_sign_def mod_Suc)
qed

lemma close_taylor:
  assumes "\<bar>y - (\<Sum>m<n. of_int (g m) / fact m)\<bar> \<le> 1 / fact n"
    "\<bar>s * fact n - scale * taylor g n\<bar> + scale \<le> fact n"
  shows "close 1 s y"
proof -
  define q p d where "q = (fact n :: real)" and "p = (of_int (taylor g n) :: real)" and "d = y - p / q"
  have q: "0 < q" by (simp add: q_def)
  have d: "\<bar>d\<bar> * q \<le> 1" using assms(1) q by (simp add: taylor d_def p_def q_def field_simps)
  have "\<bar>of_int s * q - of_int scale * p\<bar> + of_int scale \<le> q"
  proof -
    have "real_of_int (\<bar>s * fact n - scale * taylor g n\<bar> + scale) \<le> real_of_int (fact n)"
      using assms(2) by (simp only: of_int_le_iff)
    then show ?thesis by (simp add: p_def q_def)
  qed
  moreover have y: "of_int scale * y * q = of_int scale * p + of_int scale * (d * q)"
    using q by (simp add: d_def field_simps)
  moreover have "\<bar>of_int scale * (d * q)\<bar> \<le> of_int scale"
    using mult_left_mono [OF d, of "of_int scale"] q by (simp add: abs_mult scale_def)
  ultimately have "\<bar>of_int s * q - of_int scale * y * q\<bar> \<le> q" by linarith
  then have "\<bar>of_int s - of_int scale * y\<bar> * q \<le> 1 * q" using q by (simp add: abs_mult flip: left_diff_distrib)
  then show ?thesis using q by (simp add: close_def)
qed

lemma sin1: "close 1 sin1 (sin 1)"
proof (rule close_taylor)
  show "\<bar>sin (1 :: real) - (\<Sum>m<36. of_int (sin_sign m) / fact m)\<bar> \<le> 1 / fact 36"
    using Maclaurin_sin_bound [of 1 36] by (simp add: sin_coeff_sign inverse_eq_divide)
  show "\<bar>sin1 * fact 36 - scale * taylor sin_sign 36\<bar> + scale \<le> fact 36"
    by (simp add: taylor_numeral sin_sign_def cos_sign_def fact_numeral scale_def sin1_def cos1_def)
qed

lemma cos1: "close 1 cos1 (cos 1)"
proof (rule close_taylor)
  obtain t :: real where "cos 1 = (\<Sum>m<36. cos_coeff m * 1 ^ m) + (cos (t + 1/2 * real 36 * pi) / fact 36) * 1 ^ 36"
    using Maclaurin_cos_expansion [of 1 36] by blast
  then show "\<bar>cos (1 :: real) - (\<Sum>m<36. of_int (cos_sign m) / fact m)\<bar> \<le> 1 / fact 36"
    by (simp add: cos_coeff_sign abs_divide divide_right_mono)
  show "\<bar>cos1 * fact 36 - scale * taylor cos_sign 36\<bar> + scale \<le> fact 36"
    by (simp add: taylor_numeral sin_sign_def cos_sign_def fact_numeral scale_def sin1_def cos1_def)
qed

definition sine_fits :: "32 word \<Rightarrow> int \<Rightarrow> bool" where
  "sine_fits T s \<longleftrightarrow> uint T * scale \<le> 2 ^ 32 * (\<bar>s\<bar> - 2 ^ 66) \<and> 2 ^ 32 * (\<bar>s\<bar> + 2 ^ 66) < (uint T + 1) * scale"

fun sines_fit :: "int \<times> int \<Rightarrow> 32 word list \<Rightarrow> bool" where
  "sines_fit sc [] = True"
| "sines_fit sc (T # Ts) = (sine_fits T (fst sc) \<and> sines_fit (turn sin1 cos1 sc) Ts)"

lemma sine_fits:
  assumes "sine_fits T s" "close e s y" "e \<le> 2 ^ 66"
  shows "T = word_of_int \<lfloor>2 ^ 32 * \<bar>y\<bar>\<rfloor>"
proof -
  define M where "M = (of_int scale :: real)"
  have M: "0 < M" by (simp add: M_def scale_def)
  have "real_of_int e \<le> 2 ^ 66" using assms(3) by (metis of_int_le_iff of_int_numeral of_int_power)
  then have s: "\<bar>of_int s - M * y\<bar> \<le> 2 ^ 66" using assms(2) by (simp add: close_def M_def)
  have y: "\<bar>M * y\<bar> = M * \<bar>y\<bar>" using M by (simp add: abs_mult)
  have "real_of_int (uint T * scale) \<le> real_of_int (2 ^ 32 * (\<bar>s\<bar> - 2 ^ 66))"
    "real_of_int (2 ^ 32 * (\<bar>s\<bar> + 2 ^ 66)) < real_of_int ((uint T + 1) * scale)"
    using assms(1) unfolding sine_fits_def by (simp_all only: of_int_le_iff of_int_less_iff)
  then have "of_int (uint T) * M \<le> 2 ^ 32 * (\<bar>real_of_int s\<bar> - 2 ^ 66)"
    "2 ^ 32 * (\<bar>real_of_int s\<bar> + 2 ^ 66) < (of_int (uint T) + 1) * M"
    by (simp_all add: M_def)
  moreover have "\<bar>real_of_int s\<bar> - 2 ^ 66 \<le> M * \<bar>y\<bar>" "M * \<bar>y\<bar> \<le> \<bar>real_of_int s\<bar> + 2 ^ 66" using s y by linarith+
  then have "2 ^ 32 * (\<bar>real_of_int s\<bar> - 2 ^ 66) \<le> 2 ^ 32 * (M * \<bar>y\<bar>)"
    "2 ^ 32 * (M * \<bar>y\<bar>) \<le> 2 ^ 32 * (\<bar>real_of_int s\<bar> + 2 ^ 66)"
    by (simp_all only: mult_left_mono zero_le_numeral zero_le_power)
  ultimately have "of_int (uint T) * M \<le> (2 ^ 32 * \<bar>y\<bar>) * M" "(2 ^ 32 * \<bar>y\<bar>) * M < (of_int (uint T) + 1) * M"
    unfolding mult.assoc mult.commute [of "\<bar>y\<bar>" M] by - (linarith, linarith)
  then have "of_int (uint T) \<le> 2 ^ 32 * \<bar>y\<bar>" "2 ^ 32 * \<bar>y\<bar> < of_int (uint T) + 1" using M by simp_all
  then have "\<lfloor>2 ^ 32 * \<bar>y\<bar>\<rfloor> = uint T" by (intro floor_unique)
  then show ?thesis by simp
qed

lemma sines_fit:
  assumes "sines_fit (s, c) Ts" "close e s (sin x)" "close e c (cos x)" "(e + 5) * 2 ^ length Ts \<le> 2 ^ 67" "i < length Ts"
  shows "Ts ! i = word_of_int \<lfloor>2 ^ 32 * \<bar>sin (x + real i)\<bar>\<rfloor>"
  using assms
proof (induction Ts arbitrary: s c e x i)
  case (Cons T Ts)
  have "0 \<le> real_of_int e" using Cons.prems(2) by (simp add: close_def)
  then have e: "0 \<le> e" by simp
  have "(e + 5) * 2 \<le> (e + 5) * 2 ^ length (T # Ts)" using e by (intro mult_left_mono) simp_all
  then have "(e + 5) * 2 \<le> 2 ^ 67" using Cons.prems(4) by (rule order_trans)
  then have e66: "e \<le> 2 ^ 66" by simp
  then have "e \<le> scale" by (simp add: scale_def)
  from turn_close [OF Cons.prems(2,3) sin1 cos1 this] obtain s' c' where t: "turn sin1 cos1 (s, c) = (s', c')"
      "close (2 * e + 5) s' (sin (x + 1))" "close (2 * e + 5) c' (cos (x + 1))"
    by (metis prod.collapse)
  show ?case
  proof (cases i)
    case 0
    then show ?thesis using sine_fits [OF _ Cons.prems(2) e66] Cons.prems(1) by simp
  next
    case (Suc j)
    have "(2 * e + 5 + 5) * 2 ^ length Ts \<le> 2 ^ 67" using Cons.prems(4) by (simp add: algebra_simps)
    then have "Ts ! j = word_of_int \<lfloor>2 ^ 32 * \<bar>sin (x + 1 + real j)\<bar>\<rfloor>"
      using Cons.IH [OF _ t(2,3)] Cons.prems(1,5) t(1) Suc by simp
    then show ?thesis using Suc by (simp add: add.assoc)
  qed
qed simp

lemma md5_constants_fit: "sines_fit (sin1, cos1) md5_constants"
  by code_simp

lemma md5_constants: "i < 64 \<Longrightarrow> md5_constants ! i = rfc_T i"
  using sines_fit [OF md5_constants_fit sin1 cos1, of i]
  by (simp add: rfc_T_def md5_constants_def MD5_steps_def add.commute)

section \<open>The transform is the RFC's\<close>

lemma rfc_shift_bounds: "i < 64 \<Longrightarrow> 0 < rfc_shift i \<and> rfc_shift i < 32"
proof -
  have "\<forall>i\<in>set [0..<64]. 0 < rfc_shift i \<and> rfc_shift i < 32" by (simp add: rfc_shift_def upt_rec)
  then show "i < 64 \<Longrightarrow> 0 < rfc_shift i \<and> rfc_shift i < 32" by simp
qed

lemma call_is_step:
  assumes "i < 64"
  shows "md5_call X (code_function i, rfc_index i, md5_constants ! i, rfc_shift i) r = rfc_step X i r"
proof -
  obtain a b c d where r: "r = (a, b, c, d)" by (rule prod_cases4)
  have "push_bit (rfc_shift i) w OR drop_bit (32 - rfc_shift i) w = word_rotl (rfc_shift i) w" for w :: "32 word"
    using shifts_rotate_left [of "rfc_shift i" w] rfc_shift_bounds [OF assms] by simp
  then show ?thesis
    by (simp add: r MD5STEP_def code_function md5_constants [OF assms] Let_def add_ac)
qed

lemma fold_steps: "fold (md5_call X) MD5_steps r = fold (rfc_step X) [0..<64] r"
proof -
  have "fold (\<lambda>i. md5_call X (code_function i, rfc_index i, md5_constants ! i, rfc_shift i)) [0..<64] r =
      fold (rfc_step X) [0..<64] r"
    by (rule fold_cong) (simp_all add: call_is_step fun_eq_iff del: rfc_step.simps md5_call.simps)
  then show ?thesis by (subst MD5_steps_shape) (simp only: fold_map comp_def)
qed

lemma MD5Transform_is_block:
  assumes "length H = 4"
  shows "MD5Transform H (words_in 4 e) = rfc_block H e"
proof -
  obtain a0 b0 c0 d0 where H: "H = [a0, b0, c0, d0]" using assms by (auto simp: length_Suc_conv eval_nat_numeral)
  obtain a b c d where r: "fold (rfc_step (words_in 4 e)) [0..<64] (a0, b0, c0, d0) = (a, b, c, d)" by (rule prod_cases4)
  show ?thesis using H r by (simp add: MD5Transform_def rfc_block_def fold_steps del: upt_Suc)
qed

lemma swapped_word_le:
  assumes "4 \<le> length b"
  shows "le_bytes 4 (swapped_word b) = take 4 b"
proof -
  obtain b0 b1 b2 b3 r where b: "b = b0 # b1 # b2 # b3 # r" using assms
    by (auto simp: Suc_le_length_iff eval_nat_numeral)
  have w: "swapped_word b = le_word [b0, b1, b2, b3]"
    by (simp add: b swapped_word_def push_bit_or or.left_commute or.commute)
  have "le_bytes 4 (swapped_word b) = [b0, b1, b2, b3]" unfolding w by (rule le_bytes_le_word) simp_all
  then show ?thesis by (simp add: b)
qed

lemma byteReverse_id: "4 * n \<le> length buf \<Longrightarrow> byteReverse buf n = buf"
  unfolding byteReverse_def
proof (rule fold_upt_invariant [where P = "\<lambda>_ b. b = buf"])
  fix j y
  assume "4 * n \<le> length buf" "j < n" "y = buf"
  then have j: "4 * j + 4 \<le> length y" and y: "y = buf" by simp_all
  then have "put_word 4 y j (swapped_word (drop (4 * j) y)) = y"
    using append_take_drop_id [of 4 "drop (4 * j) y"] append_take_drop_id [of "4 * j" y]
    by (simp add: put_word_def memcpy_def swapped_word_le add.commute)
  then show "put_word 4 y j (swapped_word (drop (4 * j) y)) = buf" using y by simp
qed simp_all

section \<open>Contexts and messages\<close>

abbreviation md5_iv :: "32 word list" where
  "md5_iv \<equiv> [0x67452301, 0xefcdab89, 0x98badcfe, 0x10325476]"

definition md5_holds :: "md5_ctx \<Rightarrow> byte list \<Rightarrow> bool" where
  "md5_holds c m \<longleftrightarrow> md5_buf c = absorb 64 rfc_block md5_iv m \<and>
     md5_bits c = (word_of_nat (8 * length m), word_of_nat (8 * length m div 2 ^ 32)) \<and>
     length (md5_in c) = 64 \<and> take (length m mod 64) (md5_in c) = left_over 64 m"

lemma length_rfc_block: "length H = 4 \<Longrightarrow> length (rfc_block H b) = 4"
  by (auto simp: rfc_block_def split: prod.split)

lemma length_absorb_rfc: "length H = 4 \<Longrightarrow> length (absorb B rfc_block H m) = 4"
proof (induction B "rfc_block" H m rule: absorb.induct)
  case (1 B h m)
  then show ?case by (subst absorb.simps) (simp add: length_rfc_block)
qed

lemma md5_block_absorbs:
  assumes "md5_buf c = absorb 64 rfc_block md5_iv m" "md5_in c = left_over 64 m @ d" "length (left_over 64 m @ d) = 64"
  shows "md5_block c = c\<lparr>md5_buf := absorb 64 rfc_block md5_iv (m @ d)\<rparr>"
proof -
  have "length (md5_buf c) = 4" using assms(1) length_absorb_rfc by simp
  moreover have "byteReverse (md5_in c) 16 = md5_in c" using assms by (simp add: byteReverse_id)
  moreover have "absorb 64 rfc_block md5_iv (m @ d) = rfc_block (md5_buf c) (left_over 64 m @ d)"
    using absorb_fill(1) [OF _ assms(3), of rfc_block md5_iv] assms(1) by simp
  ultimately show ?thesis using assms(2) by (simp add: md5_block_def Let_def MD5Transform_is_block)
qed

lemma md5_bits_used: "unat (drop_bit 3 (word_of_nat (8 * k) :: 32 word) AND 0x3f) = k mod 64"
proof -
  have "x AND 0x3f = take_bit 6 x" for x :: "32 word" by (simp add: take_bit_eq_mask mask_eq_exp_minus_1)
  moreover have "unat (drop_bit 3 (word_of_nat (8 * k) :: 32 word)) = k mod 2 ^ 29" by (rule unat_bits) simp
  moreover have "unat (take_bit 6 x) = unat x mod 64" for x :: "32 word" by (simp add: take_bit_eq_mod unat_mod)
  ultimately show ?thesis using mod_mod_cancel [of 64 "2 ^ 29" k] by simp
qed

lemma md5_count:
  assumes "l < 2 ^ 32"
  shows "md5_count (word_of_nat (8 * k), word_of_nat (8 * k div 2 ^ 32)) (word_of_nat l) =
    (word_of_nat (8 * (k + l)), word_of_nat (8 * (k + l) div 2 ^ 32))"
proof -
  define t p where "t = 8 * k mod 2 ^ 32" and "p = 8 * l mod 2 ^ 32"
  have tp: "t < 2 ^ 32" "p < 2 ^ 32" by (simp_all add: t_def p_def)
  have lo: "(word_of_nat (8 * k) :: 32 word) + push_bit 3 (word_of_nat l) = word_of_nat (8 * (k + l))"
    by (simp add: push_bit_eq_mult distrib_left)
  have sum: "8 * (k + l) = 2 ^ 32 * (8 * k div 2 ^ 32 + 8 * l div 2 ^ 32) + (t + p)"
    using mult_div_mod_eq [of "2 ^ 32" "8 * k"] mult_div_mod_eq [of "2 ^ 32" "8 * l"]
    unfolding t_def p_def distrib_left by linarith
  have carry: "(8 * (k + l)) div 2 ^ 32 = 8 * k div 2 ^ 32 + 8 * l div 2 ^ 32 + (if t + p < 2 ^ 32 then 0 else 1)"
    "(8 * (k + l)) mod 2 ^ 32 = (if t + p < 2 ^ 32 then t + p else t + p - 2 ^ 32)"
    unfolding sum using div_mod_carry [OF tp] by blast+
  have "(word_of_nat (8 * (k + l)) :: 32 word) < word_of_nat (8 * k) \<longleftrightarrow> \<not> t + p < 2 ^ 32"
    unfolding word_less_nat_alt unat_of_nat using carry(2) tp by (auto simp: t_def)
  moreover have "drop_bit 29 (word_of_nat l) = (word_of_nat (8 * l div 2 ^ 32) :: 32 word)"
  proof -
    have "unat (drop_bit 29 (word_of_nat l) :: 32 word) = l div 2 ^ 29"
      using assms by (subst unat_drop_bit_eq) (simp add: drop_bit_eq_div unat_of_nat)
    moreover have "l div 2 ^ 29 = 8 * l div 2 ^ 32" by simp
    ultimately show ?thesis by (metis of_nat_unat ucast_id)
  qed
  ultimately show ?thesis unfolding md5_count_def Let_def fst_conv snd_conv lo carry(1) by simp
qed

lemma md5_put_block:
  assumes "md5_holds c m" "length (left_over 64 m @ d) = 64"
  shows "md5_block (c\<lparr>md5_bits := n, md5_in := memcpy (md5_in c) (length m mod 64) d\<rparr>) =
      c\<lparr>md5_bits := n, md5_in := left_over 64 m @ d, md5_buf := absorb 64 rfc_block md5_iv (m @ d)\<rparr>"
proof -
  have "memcpy (md5_in c) (length m mod 64) d = left_over 64 m @ d"
    using assms by (simp add: md5_holds_def memcpy_def)
  then show ?thesis
    using md5_block_absorbs [of "c\<lparr>md5_bits := n, md5_in := left_over 64 m @ d\<rparr>" m d] assms by (simp add: md5_holds_def)
qed

text \<open>The loop takes over a context whose count already includes the data of the call.\<close>

definition md5_loading :: "md5_ctx \<Rightarrow> byte list \<Rightarrow> byte list \<Rightarrow> bool" where
  "md5_loading c m whole \<longleftrightarrow> length m mod 64 = 0 \<and> length (md5_in c) = 64 \<and> md5_buf c = absorb 64 rfc_block md5_iv m \<and>
     md5_bits c = (word_of_nat (8 * length whole), word_of_nat (8 * length whole div 2 ^ 32))"

lemma md5_blocks_hold: "md5_loading c m (m @ d) \<Longrightarrow> md5_holds (md5_blocks c d) (m @ d)"
proof (induction "length d" arbitrary: c m d rule: less_induct)
  case less
  note c = less.prems [unfolded md5_loading_def]
  have lo: "left_over 64 m = []" using c by (simp add: left_over_full)
  show ?case
  proof (cases "64 \<le> length d")
    case True
    define b e where "b = take 64 d" and "e = drop 64 d"
    have d: "d = b @ e" "length b = 64" using True by (simp_all add: b_def e_def)
    have "memcpy (md5_in c) 0 b = left_over 64 m @ b" using c d(2) lo by (simp add: memcpy_def)
    then have blk: "md5_block (c\<lparr>md5_in := memcpy (md5_in c) 0 b\<rparr>) = c\<lparr>md5_in := b, md5_buf := absorb 64 rfc_block md5_iv (m @ b)\<rparr>"
      using md5_block_absorbs [of "c\<lparr>md5_in := b\<rparr>" m b] c d(2) lo by simp
    have "md5_loading (c\<lparr>md5_in := b, md5_buf := absorb 64 rfc_block md5_iv (m @ b)\<rparr>) (m @ b) ((m @ b) @ e)"
      using c d by (simp add: md5_loading_def)
    then have "md5_holds (md5_blocks (c\<lparr>md5_in := b, md5_buf := absorb 64 rfc_block md5_iv (m @ b)\<rparr>) e) ((m @ b) @ e)"
      by (rule less.hyps [rotated]) (use d in simp)
    moreover have "md5_blocks c d = md5_blocks (md5_block (c\<lparr>md5_in := memcpy (md5_in c) 0 b\<rparr>)) e"
      using True by (subst md5_blocks.simps) (simp add: b_def e_def)
    ultimately show ?thesis using blk d(1) by simp
  next
    case False
    then have keep: "length (left_over 64 m @ d) < 64" using lo by simp
    have "take (0 + length d) (memcpy (md5_in c) 0 d) = d" using take_memcpy [of 0 "md5_in c" d] by simp
    then have "md5_holds (c\<lparr>md5_in := memcpy (md5_in c) 0 d\<rparr>) (m @ d)"
      using c False lo absorb_keep(1) [OF keep, of rfc_block md5_iv] absorb_keep(2,3) [OF keep] by (simp add: md5_holds_def)
    then show ?thesis using False by (subst md5_blocks.simps) simp
  qed
qed

lemma MD5Update_holds:
  assumes "md5_holds c m" "length d < 2 ^ 32"
  shows "md5_holds (MD5Update c d) (m @ d)"
proof -
  note c = assms(1) [unfolded md5_holds_def]
  define t bits where "t = length m mod 64"
    and "bits = (word_of_nat (8 * length (m @ d)) :: 32 word, word_of_nat (8 * length (m @ d) div 2 ^ 32) :: 32 word)"
  have used: "unat (drop_bit 3 (fst (md5_bits c)) AND 0x3f) = t"
    using c md5_bits_used [of "length m"] by (simp only: t_def fst_conv)
  have bits: "md5_count (md5_bits c) (word_of_nat (length d)) = bits"
    using c md5_count [OF assms(2), of "length m"] by (simp only: bits_def length_append)
  have t: "t < 64" by (simp add: t_def)
  consider "t = 0" | "t \<noteq> 0" "length d < 64 - t" | "t \<noteq> 0" "64 - t \<le> length d" by linarith
  then show ?thesis
  proof cases
    case 1
    then have "md5_loading (c\<lparr>md5_bits := bits\<rparr>) m (m @ d)" using c by (simp only: md5_loading_def bits_def t_def) simp
    then have "md5_holds (md5_blocks (c\<lparr>md5_bits := bits\<rparr>) d) (m @ d)" by (rule md5_blocks_hold)
    then show ?thesis using 1 used bits by (simp add: MD5Update_def Let_def)
  next
    case 2
    have keep: "length (left_over 64 m @ d) < 64" using 2 by (simp add: t_def)
    have "take (t + length d) (memcpy (md5_in c) t d) = left_over 64 m @ d"
      using take_memcpy [of t "md5_in c" d] c t by (simp add: t_def)
    then have "md5_holds (c\<lparr>md5_bits := bits, md5_in := memcpy (md5_in c) t d\<rparr>) (m @ d)"
      using c 2 absorb_keep(1) [OF keep, of rfc_block md5_iv] absorb_keep(2,3) [OF keep]
      by (simp add: md5_holds_def t_def bits_def)
    then show ?thesis using 2 used bits by (simp add: MD5Update_def Let_def)
  next
    case 3
    define f g where "f = take (64 - t) d" and "g = drop (64 - t) d"
    have d: "d = f @ g" "length f = 64 - t" using 3 by (simp_all add: f_def g_def)
    have full: "length (left_over 64 m @ f) = 64" using d(2) t by (simp add: t_def)
    let ?c = "c\<lparr>md5_bits := bits, md5_in := left_over 64 m @ f, md5_buf := absorb 64 rfc_block md5_iv (m @ f)\<rparr>"
    have "md5_loading ?c (m @ f) ((m @ f) @ g)"
      using absorb_fill(3) [OF _ full] full d(1) by (simp add: md5_loading_def bits_def)
    then have "md5_holds (md5_blocks ?c g) ((m @ f) @ g)" by (rule md5_blocks_hold)
    moreover have "MD5Update c d = md5_blocks ?c g"
      using 3 used bits md5_put_block [OF assms(1) full, of bits] by (simp add: MD5Update_def Let_def f_def g_def t_def)
    ultimately show ?thesis using d(1) by simp
  qed
qed

section \<open>The last block\<close>

lemma put_lengths:
  assumes "length b = 64"
  shows "put_word 4 (put_word 4 (byteReverse b 14) 14 (word_of_nat n :: 32 word)) 15 (word_of_nat (n div 2 ^ 32) :: 32 word) =
    take 56 b @ le_bytes 8 (word_of_nat n :: 64 word)"
proof -
  have "le_bytes 4 (word_of_nat n :: 32 word) @ le_bytes 4 (word_of_nat (n div 2 ^ 32) :: 32 word) =
      le_bytes 8 (word_of_nat n :: 64 word)"
    using le_bytes_halves [of 4 n, where 'v = 32 and 'w = 64] by simp
  then show ?thesis using assms by (simp add: byteReverse_id put_word_def memcpy_def)
qed

lemma last_block:
  assumes "md5_buf c = absorb 64 rfc_block md5_iv m" "length (md5_in c) = 64" "take 56 (md5_in c) = left_over 64 m @ d"
    "md5_bits c = (word_of_nat n, word_of_nat (n div 2 ^ 32))"
  shows "MD5Transform (md5_buf c)
      (words_in 4 (put_word 4 (put_word 4 (byteReverse (md5_in c) 14) 14 (fst (md5_bits c))) 15 (snd (md5_bits c)))) =
    absorb 64 rfc_block md5_iv (m @ d @ le_bytes 8 (word_of_nat n :: 64 word))"
proof -
  have "length (left_over 64 m @ d) = length (take 56 (md5_in c))" by (simp only: assms(3))
  also have "\<dots> = 56" using assms(2) by simp
  finally have "length (left_over 64 m @ d) = 56" .
  then have "length (left_over 64 m @ d @ le_bytes 8 (word_of_nat n :: 64 word)) = 64" by simp
  then have "absorb 64 rfc_block md5_iv (m @ d @ le_bytes 8 (word_of_nat n :: 64 word)) =
      rfc_block (md5_buf c) (left_over 64 m @ d @ le_bytes 8 (word_of_nat n :: 64 word))"
    using absorb_fill(1) [of 64 m "d @ le_bytes 8 (word_of_nat n :: 64 word)" rfc_block md5_iv] assms(1) by simp
  moreover have "length (md5_buf c) = 4" using assms(1) length_absorb_rfc by simp
  ultimately show ?thesis using put_lengths [OF assms(2), of n] assms(3,4) by (simp add: MD5Transform_is_block)
qed

lemma MD5Final_pads:
  assumes "md5_holds c m"
  shows "MD5Final c = rfc_md5 m"
proof -
  note c = assms [unfolded md5_holds_def]
  define u n where "u = length m mod 64" and "n = 8 * length m"
  have bits: "md5_bits c = (word_of_nat n, word_of_nat (n div 2 ^ 32))" using c by (simp add: n_def)
  have used: "unat (drop_bit 3 (fst (md5_bits c)) AND 0x3F) = u"
    using bits md5_bits_used [of "length m"] by (simp only: u_def n_def fst_conv)
  have u: "u < 64" by (simp add: u_def)
  define buf where "buf = (md5_in c)[u := 0x80]"
  have mark: "take (u + 1) buf = left_over 64 m @ [0x80]" "length buf = 64"
    using take_mark [of u "md5_in c"] c u by (simp_all add: buf_def u_def)
  have fill: "take (u + 1 + k) (memset0 buf (u + 1) k) = left_over 64 m @ 0x80 # replicate k 0" if "u + 1 + k \<le> 64" for k
    using take_memcpy [of "u + 1" buf "replicate k 0"] mark that by simp
  have out: "byteReverse (concat (map (le_bytes 4) H)) 4 = concat (map (le_bytes 4) H)" if "length H = 4" for H :: "32 word list"
    using that by (intro byteReverse_id) (simp add: length_concat comp_def sum_list_triv)
  define end_state where "end_state = absorb 64 rfc_block md5_iv (md_pad 64 (le_bytes 8 (word_of_nat n :: 64 word)) m)"
  have len: "length end_state = 4" by (simp add: end_state_def length_absorb_rfc)
  have goal: "rfc_md5 m = concat (map (le_bytes 4) end_state)" by (simp add: rfc_md5_def end_state_def n_def)
  show ?thesis
  proof (cases "63 - u < 8")
    case False
    let ?c = "c\<lparr>md5_in := memset0 buf (u + 1) (63 - u - 8)\<rparr>"
    have "take 56 (md5_in ?c) = left_over 64 m @ 0x80 # replicate (55 - u) 0" using fill [of "55 - u"] False by simp
    then have "MD5Transform (md5_buf ?c) (words_in 4 (put_word 4 (put_word 4 (byteReverse (md5_in ?c) 14) 14
        (fst (md5_bits ?c))) 15 (snd (md5_bits ?c)))) = absorb 64 rfc_block md5_iv
          (m @ (0x80 # replicate (55 - u) 0) @ le_bytes 8 (word_of_nat n :: 64 word))"
      by (intro last_block) (use c bits mark(2) False in simp_all)
    moreover have "(119 - u) mod 64 = 55 - u" using False u by (simp add: mod_if)
    ultimately have "MD5Transform (md5_buf ?c) (words_in 4 (put_word 4 (put_word 4 (byteReverse (md5_in ?c) 14) 14
        (fst (md5_bits ?c))) 15 (snd (md5_bits ?c)))) = end_state"
      by (simp add: end_state_def md_pad_def u_def)
    then show ?thesis using False used goal out [OF len] by (simp add: MD5Final_def Let_def buf_def)
  next
    case True
    define f where "f = 0x80 # replicate (63 - u) (0 :: byte)"
    have buf1: "memset0 buf (u + 1) (63 - u) = left_over 64 m @ f"
      using fill [of "63 - u"] u mark(2) by (simp add: f_def)
    have full: "length (left_over 64 m @ f) = 64" using u by (simp add: f_def u_def)
    have blk: "md5_block (c\<lparr>md5_in := left_over 64 m @ f\<rparr>) =
        c\<lparr>md5_in := left_over 64 m @ f, md5_buf := absorb 64 rfc_block md5_iv (m @ f)\<rparr>"
      using md5_block_absorbs [of "c\<lparr>md5_in := left_over 64 m @ f\<rparr>" m f] c full by simp
    let ?c = "c\<lparr>md5_in := memset0 (left_over 64 m @ f) 0 56, md5_buf := absorb 64 rfc_block md5_iv (m @ f)\<rparr>"
    have "MD5Transform (md5_buf ?c) (words_in 4 (put_word 4 (put_word 4 (byteReverse (md5_in ?c) 14) 14
        (fst (md5_bits ?c))) 15 (snd (md5_bits ?c)))) = absorb 64 rfc_block md5_iv
          ((m @ f) @ replicate 56 0 @ le_bytes 8 (word_of_nat n :: 64 word))"
      by (intro last_block) (use bits full absorb_fill(2) [OF _ full] in \<open>simp_all add: memcpy_def\<close>)
    moreover have "replicate ((119 - u) mod 64) (0 :: byte) = replicate (63 - u) 0 @ replicate 56 0"
      using True u by (simp add: mod_if flip: replicate_add)
    ultimately have "MD5Transform (md5_buf ?c) (words_in 4 (put_word 4 (put_word 4 (byteReverse (md5_in ?c) 14) 14
        (fst (md5_bits ?c))) 15 (snd (md5_bits ?c)))) = end_state"
      by (simp add: end_state_def md_pad_def u_def [symmetric] f_def)
    then show ?thesis using True used goal out [OF len] blk buf1 by (simp add: MD5Final_def Let_def buf_def)
  qed
qed

interpretation md5: streaming_hash md5_holds "MD5Init \<lparr>md5_buf = [], md5_bits = (0, 0), md5_in = replicate 64 0\<rparr>"
  MD5Update MD5Final rfc_md5 "\<lambda>d. length d < 2 ^ 32"
  by unfold_locales (simp_all add: MD5Update_holds MD5Final_pads, simp add: md5_holds_def MD5Init_def)

text \<open>MD5: whatever the pieces, each below 2 ^ 32 bytes, in which a message is handed to MD5Update, the digest is the
  one of RFC 1321 for the whole message: the optimised round functions, the carry of the bit count between its two
  words, the padding in place, and the sixty-four constants, which are the integer parts of 2 ^ 32 times the sine.\<close>

theorem md5_is_the_rfc:
  assumes "\<forall>d\<in>set ds. length d < 2 ^ 32"
  shows "MD5Final (foldl MD5Update (MD5Init \<lparr>md5_buf = [], md5_bits = (0, 0), md5_in = replicate 64 0\<rparr>) ds) =
    rfc_md5 (concat ds)"
  by (rule md5.finish_chunks [OF assms])

theorem md5_is_the_rfc_witness:
  "MD5Final (foldl MD5Update (MD5Init \<lparr>md5_buf = [], md5_bits = (0, 0), md5_in = replicate 64 0\<rparr>)
     [replicate 60 1, [], replicate 100 2]) = rfc_md5 (concat [replicate 60 1, [], replicate 100 2])"
  by (rule md5_is_the_rfc) simp

end
