(* ===== verification/Sha1Properties.thy ===== *)
theory Sha1Properties
  imports Sha1 Complex_Main
begin

text \<open>
  \<^verbatim>\<open>sha1.c\<close> against FIPS 180-1: the schedule in sixteen slots and the unrolled rounds against the standard's,
  and the digest of a message fed in any pieces, whichever of them are aligned in memory.
\<close>

section \<open>The standard\<close>

definition fips1_next :: "32 word list \<Rightarrow> 32 word" where
  "fips1_next W = (let t = length W in word_rotl 1 (W ! (t - 3) XOR W ! (t - 8) XOR W ! (t - 14) XOR W ! (t - 16)))"

definition fips1_f :: "nat \<Rightarrow> 32 word \<Rightarrow> 32 word \<Rightarrow> 32 word \<Rightarrow> 32 word" where
  "fips1_f t x y z =
     (if t < 20 then (x AND y) XOR (NOT x AND z)
      else if t < 40 then x XOR y XOR z
      else if t < 60 then (x AND y) XOR (x AND z) XOR (y AND z)
      else x XOR y XOR z)"

text \<open>The constants are the integer parts of 2 ^ 30 times the square roots of 2, 3, 5 and 10.\<close>

definition fips1_K :: "nat \<Rightarrow> 32 word" where
  "fips1_K t = word_of_int \<lfloor>2 ^ 30 * sqrt (if t < 20 then 2 else if t < 40 then 3 else if t < 60 then 5 else 10)\<rfloor>"

fun fips1_round :: "nat \<Rightarrow> 32 word \<Rightarrow> sha1_regs \<Rightarrow> sha1_regs" where
  "fips1_round t w (a, b, c, d, e) = (word_rotl 5 a + fips1_f t b c d + e + fips1_K t + w, a, word_rotl 30 b, c, d)"

definition fips1_compress :: "sha1_regs \<Rightarrow> byte list \<Rightarrow> sha1_regs" where
  "fips1_compress H block =
     (let W = grow 64 fips1_next (map (\<lambda>i. be_word (take 4 (drop (4 * i) block))) [0..<16])
      in case (H, fold (\<lambda>t. fips1_round t (W ! t)) [0..<80] H) of
           ((A, B, C, D, E), (a, b, c, d, e)) \<Rightarrow> (A + a, B + b, C + c, D + d, E + e))"

definition fips1_iv :: sha1_regs where
  "fips1_iv = (0x67452301, 0xefcdab89, 0x98badcfe, 0x10325476, 0xc3d2e1f0)"

definition fips_sha1 :: "byte list \<Rightarrow> byte list" where
  "fips_sha1 m =
     (case absorb 64 fips1_compress fips1_iv (md_pad 64 (be_bytes 8 (word_of_nat (8 * length m) :: 64 word)) m) of
        (A, B, C, D, E) \<Rightarrow> be_bytes 4 A @ be_bytes 4 B @ be_bytes 4 C @ be_bytes 4 D @ be_bytes 4 E)"

section \<open>Words and constants\<close>

lemma bit_SWAP: "\<forall>i\<in>set [0..<32]. bit (SWAP w) i = bit w (8 * (3 - i div 8) + i mod 8)"
  by (simp add: SWAP_def bit_simps upt_rec bit_high) (simp add: numeral_eq_Suc)

lemma SWAP_le: "length bs = 4 \<Longrightarrow> SWAP (le_word bs) = be_word bs"
  by (rule reverse_bytes [where n = 3]) (use bit_SWAP in simp_all)

lemma le_bytes_SWAP: "le_bytes 4 (SWAP w) = be_bytes 4 w"
proof -
  have w: "w = le_word (le_bytes 4 w)" by (simp add: le_word_le_bytes)
  show ?thesis by (subst w, subst SWAP_le) (simp_all add: be_word_def be_bytes_def le_bytes_le_word)
qed

lemma rol_rotl: "0 < n \<Longrightarrow> n < 32 \<Longrightarrow> rol x n = word_rotl n x"
  using shifts_rotate_left [of n x] by (simp add: rol_def)

lemma sha1_F1_is: "sha1_F1 x y z = (x AND y) XOR (NOT x AND z)"
  by (rule bit_word_eqI) (auto simp: sha1_F1_def bit_simps)

lemma sha1_F3_is: "sha1_F3 x y z = (x AND y) XOR (x AND z) XOR (y AND z)"
  by (rule bit_word_eqI) (auto simp: sha1_F3_def bit_simps)

lemma floor_sqrt_times:
  assumes "0 \<le> n" "k * k \<le> n * b * b" "n * b * b < (k + 1) * (k + 1)" "0 \<le> k" "0 < b"
  shows "\<lfloor>real_of_int b * sqrt (real_of_int n)\<rfloor> = k"
proof (rule floor_unique)
  have eq: "real_of_int b * sqrt (real_of_int n) = sqrt (real_of_int (n * b * b))"
    using assms(1,5) by (simp add: real_sqrt_mult mult_ac flip: power2_eq_square)
  have "real_of_int k = sqrt (real_of_int (k * k))" using assms(4) by simp
  also have "\<dots> \<le> sqrt (real_of_int (n * b * b))" using assms(2) by (simp only: real_sqrt_le_iff of_int_le_iff)
  finally show "real_of_int k \<le> real_of_int b * sqrt (real_of_int n)" unfolding eq .
  have "sqrt (real_of_int (n * b * b)) < sqrt (real_of_int ((k + 1) * (k + 1)))"
    using assms(3) by (simp only: real_sqrt_less_iff of_int_less_iff)
  also have "\<dots> = real_of_int k + 1" using assms(4) by simp
  finally show "real_of_int b * sqrt (real_of_int n) < real_of_int k + 1" unfolding eq .
qed

lemma sha1_constants:
  "sha1_K1 = fips1_K 0" "sha1_K2 = fips1_K 20" "sha1_K3 = fips1_K 40" "sha1_K4 = fips1_K 60"
  using floor_sqrt_times [of 2 "0x5a827999" "2 ^ 30"] floor_sqrt_times [of 3 "0x6ed9eba1" "2 ^ 30"]
    floor_sqrt_times [of 5 "0x8f1bbcdc" "2 ^ 30"] floor_sqrt_times [of 10 "0xca62c1d6" "2 ^ 30"]
  by (simp_all add: fips1_K_def sha1_K1_def sha1_K2_def sha1_K3_def sha1_K4_def)

section \<open>The rounds\<close>

definition fips1_schedule :: "byte list \<Rightarrow> 32 word list" where
  "fips1_schedule block = grow 64 fips1_next (map (\<lambda>i. be_word (take 4 (drop (4 * i) block))) [0..<16])"

lemma fips1_schedule_step:
  "16 \<le> t \<Longrightarrow> t < 80 \<Longrightarrow> fips1_schedule d ! t = word_rotl 1 (fips1_schedule d ! (t - 3) XOR
     fips1_schedule d ! (t - 8) XOR fips1_schedule d ! (t - 14) XOR fips1_schedule d ! (t - 16))"
  using grow_nth [of "map (\<lambda>i. be_word (take 4 (drop (4 * i) d))) [0..<16]" t 64 fips1_next]
  by (simp add: fips1_schedule_def fips1_next_def Let_def)

lemma fips1_schedule_start:
  "length d = 64 \<Longrightarrow> t < 16 \<Longrightarrow> fips1_schedule d ! t = SWAP (get_word 4 d t)"
  by (simp add: fips1_schedule_def grow_prefix get_word_def SWAP_le)

lemma sha1_round_agrees:
  assumes "t < 80"
  shows "(if t < 20 then sha1_R sha1_F1 sha1_K1 m r else if t < 40 then sha1_R sha1_F2 sha1_K2 m r
    else if t < 60 then sha1_R sha1_F3 sha1_K3 m r else sha1_R sha1_F4 sha1_K4 m r) = fips1_round t m r"
proof -
  obtain a b c d e where r: "r = (a, b, c, d, e)" by (rule prod_cases5)
  show ?thesis
    by (simp add: r sha1_constants fips1_K_def fips1_f_def rol_rotl sha1_F1_is sha1_F3_is sha1_F2_def sha1_F4_def add_ac)
qed

lemma R_call_std:
  "t < 80 \<Longrightarrow> R_call t (x, r) = (let x = (if t < 16 then x else x[t AND 0x0f := sha1_M x t]); m = x ! (t AND 0x0f)
     in (x, fips1_round t m r))"
  by (simp only: R_call_def prod.case sha1_round_agrees)

abbreviation std1_round :: "byte list \<Rightarrow> nat \<Rightarrow> sha1_regs \<Rightarrow> sha1_regs" where
  "std1_round d t \<equiv> fips1_round t (fips1_schedule d ! t)"

text \<open>The slots hold the last sixteen words of the schedule, the word \<^term>\<open>t\<close> in slot \<^term>\<open>t mod 16\<close>.\<close>

definition slots :: "byte list \<Rightarrow> sha1_regs \<Rightarrow> nat \<Rightarrow> 32 word list \<times> sha1_regs \<Rightarrow> bool" where
  "slots d r0 j xr \<longleftrightarrow> length (fst xr) = 16 \<and>
     (\<forall>t. j - 16 \<le> t \<longrightarrow> t < j \<longrightarrow> fst xr ! (t mod 16) = fips1_schedule d ! t) \<and>
     snd xr = fold (std1_round d) [0..<j] r0"

lemma slots_step:
  assumes "slots d r0 j xr" "16 \<le> j" "j < 80"
  shows "slots d r0 (Suc j) (R_call j xr)"
proof -
  obtain x r where xr: "xr = (x, r)" by (rule prod.exhaust)
  have len: "length x = 16" using assms(1) xr by (simp add: slots_def)
  have slot: "x ! (t mod 16) = fips1_schedule d ! t" if "j - 16 \<le> t" "t < j" for t
    using assms(1) xr that by (simp add: slots_def)
  have "j mod 16 = (j - 16) mod 16" using assms(2) by (simp add: le_mod_geq)
  then have w: "sha1_M x j = fips1_schedule d ! j"
    using slot [of "j - 16"] slot [of "j - 14"] slot [of "j - 8"] slot [of "j - 3"] assms(2)
    by (simp add: sha1_M_def and_15 rol_rotl fips1_schedule_step [OF assms(2,3)] xor.commute xor.left_commute)
  have other: "t mod 16 \<noteq> j mod 16" if "j - 15 \<le> t" "t < j" for t
  proof
    assume "t mod 16 = j mod 16"
    then have "16 dvd j - t" using that(2) by (metis mod_eq_dvd_iff_nat less_imp_le)
    then show False using that dvd_imp_le [of 16 "j - t"] by simp
  qed
  have "x[j mod 16 := sha1_M x j] ! (t mod 16) = fips1_schedule d ! t" if "j - 15 \<le> t" "t < Suc j" for t
    using that w slot [of t] other [of t] len by (cases "t = j") simp_all
  moreover have "R_call j xr = (x[j mod 16 := sha1_M x j], fips1_round j (sha1_M x j) r)"
    using assms(2) len by (simp add: xr R_call_std [OF assms(3)] and_15 Let_def)
  ultimately show ?thesis using assms(1,2) xr len w by (simp add: slots_def)
qed

lemma first_calls:
  assumes "length x = 16" "\<forall>t<16. x ! t = fips1_schedule d ! t"
  shows "fold R_call [0..<16] (x, r) = (x, fold (std1_round d) [0..<16] r)"
proof -
  show ?thesis
  proof (rule fold_upt_invariant [where P = "\<lambda>j xr. xr = (x, fold (std1_round d) [0..<j] r)"])
    fix j :: nat and y
    assume "j < 16" and y: "y = (x, fold (std1_round d) [0..<j] r)"
    then show "R_call j y = (x, fold (std1_round d) [0..<Suc j] r)"
      using assms(2) by (simp add: R_call_std and_15 Let_def)
  qed simp_all
qed

lemma sha1_block_is_compress:
  assumes "length d = 64"
  shows "sha1_block regs d = fips1_compress regs d"
proof -
  define x where "x = map (\<lambda>t. SWAP (get_word 4 d t)) [0..<16]"
  have x: "length x = 16" "\<forall>t<16. x ! t = fips1_schedule d ! t"
    using fips1_schedule_start [OF assms] by (simp_all add: x_def)
  have "slots d regs 16 (fold R_call [0..<16] (x, regs))"
    unfolding first_calls [OF x] using x by (simp add: slots_def)
  then have "slots d regs 80 (fold R_call [16..<80] (fold R_call [0..<16] (x, regs)))"
    by (rule fold_upt_invariant) (use slots_step in simp_all)
  moreover have "[0..<80] = [0..<16] @ [16..<80]" using upt_add_eq_append [of 0 16 64] by simp
  ultimately have "snd (fold R_call [0..<80] (x, regs)) = fold (std1_round d) [0..<80] regs"
    by (simp add: slots_def del: upt_Suc)
  then show ?thesis
    by (simp add: sha1_block_def fips1_compress_def fips1_schedule_def x_def [symmetric] Let_def split: prod.split)
qed

lemma absorb_blocks: "absorb 64 sha1_block h m = absorb 64 fips1_compress h m"
proof (induction "length m" arbitrary: h m rule: less_induct)
  case less
  then show ?case
    by (subst (1 2) absorb.simps) (simp add: sha1_block_is_compress)
qed

section \<open>Contexts and messages\<close>

definition count64 :: "nat \<Rightarrow> 32 word \<times> 32 word" where
  "count64 n = (word_of_nat n, word_of_nat (n div 2 ^ 32))"

lemma add_total_count: "n < 2 ^ 32 \<Longrightarrow> add_total (count64 m) n = count64 (m + n)"
  using carry_count [of n m, where 'w = 32] by (simp add: add_total_def count64_def Let_def)

text \<open>The context has absorbed \<^term>\<open>p\<close>, whole blocks, and holds the bytes \<^term>\<open>b\<close>, at most a block.\<close>

definition sha1_state :: "sha1_ctx \<Rightarrow> byte list \<Rightarrow> byte list \<Rightarrow> bool" where
  "sha1_state c p b \<longleftrightarrow> length p mod 64 = 0 \<and> length b \<le> 64 \<and> buflen c = length b \<and> length (sbuffer c) = 128 \<and>
     take (length b) (sbuffer c) = b \<and> ABCDE c = absorb 64 fips1_compress fips1_iv p \<and> totals c = count64 (length p)"

definition sha1_holds :: "sha1_ctx \<Rightarrow> byte list \<Rightarrow> bool" where
  "sha1_holds c m \<longleftrightarrow> (\<exists>p b. m = p @ b \<and> sha1_state c p b)"

lemma process_block:
  assumes "ABCDE c = absorb 64 fips1_compress fips1_iv p" "totals c = count64 (length p)" "length p mod 64 = 0" "length d < 2 ^ 32"
  shows "sha1_process_block d c =
    c\<lparr>totals := count64 (length (p @ d)), ABCDE := absorb 64 fips1_compress fips1_iv (p @ d)\<rparr>"
  using assms absorb_append(1) [of 64 fips1_compress fips1_iv p d] left_over_full [OF assms(3)]
  by (simp add: sha1_process_block_def absorb_blocks add_total_count)

lemma take_in_state:
  assumes "sha1_state c p b" "take_in c d = (c', d')"
  shows "\<exists>p' b'. sha1_state c' p' b' \<and> p' @ b' @ d' = p @ b @ d \<and> (b' = [] \<or> d' = []) \<and> length d' \<le> length d"
proof -
  note c = assms(1) [unfolded sha1_state_def]
  show ?thesis
  proof (cases "b = []")
    case True
    then show ?thesis using assms c by (auto simp: take_in_def)
  next
    case False
    define add bb where "add = min (length d) (128 - length b)" and "bb = b @ take add d"
    define c1 where "c1 = c\<lparr>sbuffer := memcpy (sbuffer c) (length b) (take add d), buflen := length bb\<rparr>"
    have bb: "length bb \<le> 128" "length bb = length b + add" using c by (auto simp: bb_def add_def)
    have buf: "length (sbuffer c1) = 128" "take (length bb) (sbuffer c1) = bb"
      using c bb take_memcpy [of "length b" "sbuffer c" "take add d"] by (simp_all add: c1_def bb_def add_def)
    have rest: "p @ bb @ drop add d = p @ b @ d" by (simp add: bb_def)
    have full: "drop add d = [] \<or> length bb = 128" using c by (auto simp: bb_def add_def min_def)
    have add: "(if length d < 128 - length b then length d else 128 - length b) = add" by (simp add: add_def min_def)
    have len1: "buflen c1 = length bb" by (simp add: c1_def)
    have run: "take_in c d = (flush_whole c1, drop add d)"
      using False c add by (simp add: take_in_def Let_def c1_def bb(2))
    show ?thesis
    proof (cases "64 < length bb")
      case False': False
      have "take_in c d = (c1, drop add d)" using run False' len1 by (simp add: flush_whole_def)
      moreover have "sha1_state c1 p bb" using c buf False' by (simp add: sha1_state_def c1_def)
      ultimately show ?thesis using assms(2) rest full False' by auto
    next
      case True
      define w where "w = 64 * (length bb div 64)"
      have w: "w \<le> length bb" "w mod 64 = 0" "length bb - w = length bb mod 64" by (simp_all add: w_def minus_mult_div_eq_mod)
      have tw: "take w (sbuffer c1) = take w bb" using buf(2) w(1) by (metis min.absorb1 take_take)
      have dw: "take (length bb mod 64) (drop w (sbuffer c1)) = drop w bb"
        using buf(2) w by (metis drop_take le_add_diff_inverse)
      define c2 where "c2 = sha1_process_block (take w (sbuffer c1)) c1"
      have c2: "c2 = c1\<lparr>totals := count64 (length (p @ take w bb)), ABCDE := absorb 64 fips1_compress fips1_iv (p @ take w bb)\<rparr>"
        unfolding c2_def tw by (rule process_block) (use c w bb in \<open>simp_all add: c1_def\<close>)
      define c3 where "c3 = c2\<lparr>buflen := length bb mod 64, sbuffer := memcpy (sbuffer c2) 0 (drop w bb)\<rparr>"
      have "flush_whole c1 = c3"
        using True dw c2 len1 by (simp add: flush_whole_def Let_def w_def [symmetric] c2_def [symmetric] c3_def)
      then have "take_in c d = (c3, drop add d)" using run by simp
      moreover have "sha1_state c3 (p @ take w bb) (drop w bb)"
        using c c2 buf w take_memcpy [of 0 "sbuffer c1" "drop w bb"] bb(1)
        by (simp add: sha1_state_def c3_def mod_add_eq [symmetric, of "length p"])
      moreover have "(p @ take w bb) @ drop w bb @ drop add d = p @ b @ d"
        using rest by (metis append.assoc append_take_drop_id)
      moreover have "drop w bb = [] \<or> drop add d = []" using full w by auto
      ultimately show ?thesis using assms(2) by (metis Pair_inject length_drop diff_le_self)
    qed
  qed
qed

lemma unaligned_blocks_state:
  assumes "sha1_state c p []" "unaligned_blocks c d = (c', d')" "length d < 2 ^ 32"
  shows "\<exists>p'. sha1_state c' p' [] \<and> p' @ d' = p @ d \<and> length d' \<le> 64"
  using assms
proof (induction "length d" arbitrary: c p d rule: less_induct)
  case less
  note c = less.prems(1) [unfolded sha1_state_def]
  show ?case
  proof (cases "64 < length d")
    case True
    define b e c1 where "b = take 64 d" and "e = drop 64 d" and "c1 = c\<lparr>sbuffer := memcpy (sbuffer c) 0 b\<rparr>"
    have d: "d = b @ e" "length b = 64" using True by (simp_all add: b_def e_def)
    have buf: "take 64 (sbuffer c1) = b" using c d(2) take_memcpy [of 0 "sbuffer c" b] by (simp add: c1_def)
    have blk: "sha1_process_block b c1 = c1\<lparr>totals := count64 (length (p @ b)), ABCDE := absorb 64 fips1_compress fips1_iv (p @ b)\<rparr>"
      by (rule process_block) (use c d(2) in \<open>simp_all add: c1_def\<close>)
    have "sha1_state (sha1_process_block b c1) (p @ b) []"
      using c d(2) unfolding blk by (simp add: sha1_state_def c1_def)
    moreover have "unaligned_blocks (sha1_process_block b c1) e = (c', d')"
      using less.prems(2) True buf by (subst (asm) unaligned_blocks.simps) (simp add: Let_def b_def [symmetric] e_def [symmetric] c1_def [symmetric])
    ultimately have "\<exists>p'. sha1_state c' p' [] \<and> p' @ d' = (p @ b) @ e \<and> length d' \<le> 64"
      by (intro less.hyps) (use d less.prems(3) in simp_all)
    then show ?thesis using d(1) by simp
  next
    case False
    then show ?thesis using less.prems by (subst (asm) unaligned_blocks.simps) auto
  qed
qed

lemma whole_blocks_state:
  assumes "sha1_state c p b" "b = [] \<or> d = []" "whole_blocks al c d = (c', d')" "length d < 2 ^ 32"
  shows "\<exists>p'. sha1_state c' p' b \<and> p' @ b @ d' = p @ b @ d \<and> (b = [] \<or> d' = []) \<and> length d' \<le> 64"
proof (cases "64 \<le> length d")
  case False
  then show ?thesis using assms by (auto simp: whole_blocks_def)
next
  case True
  then have b: "b = []" using assms(2) by auto
  show ?thesis
  proof (cases al)
    case False
    then have "unaligned_blocks c d = (c', d')" using True assms(3) by (simp add: whole_blocks_def)
    then show ?thesis using unaligned_blocks_state [of c p d c' d'] assms(1,4) b by auto
  next
    case al: True
    define w where "w = 64 * (length d div 64)"
    have w: "w \<le> length d" "w mod 64 = 0" "length d - w = length d mod 64" by (simp_all add: w_def minus_mult_div_eq_mod)
    have run: "c' = sha1_process_block (take w d) c" "d' = drop w d"
      using True al assms(3) by (simp_all add: whole_blocks_def Let_def w_def)
    note c = assms(1) [unfolded sha1_state_def]
    have blk: "c' = c\<lparr>totals := count64 (length (p @ take w d)), ABCDE := absorb 64 fips1_compress fips1_iv (p @ take w d)\<rparr>"
      unfolding run(1) by (rule process_block) (use c assms(4) w in simp_all)
    have "length (p @ take w d) mod 64 = 0" using c w by (simp add: mod_add_eq [symmetric, of "length p"])
    then have "sha1_state c' (p @ take w d) b" using c by (simp add: sha1_state_def blk)
    moreover have "length d' \<le> 64" using run(2) w(3) by simp
    ultimately show ?thesis using b run(2) by fastforce
  qed
qed

lemma keep_rest_state:
  assumes "sha1_state c p b" "b = [] \<or> d = []" "length d \<le> 64"
  shows "sha1_holds (keep_rest c d) (p @ b @ d)"
proof (cases "d = []")
  case True
  then show ?thesis using assms(1) by (auto simp: keep_rest_def sha1_holds_def)
next
  case False
  then have b: "b = []" using assms(2) by simp
  note c = assms(1) [unfolded sha1_state_def b]
  have buf: "take (length d) (memcpy (sbuffer c) 0 d) = d" using take_memcpy [of 0 "sbuffer c" d] by simp
  show ?thesis
  proof (cases "length d = 64")
    case full: True
    define c1 where "c1 = c\<lparr>sbuffer := memcpy (sbuffer c) 0 d\<rparr>"
    have blk: "sha1_process_block d c1 = c1\<lparr>totals := count64 (length (p @ d)), ABCDE := absorb 64 fips1_compress fips1_iv (p @ d)\<rparr>"
      by (rule process_block) (use c full in \<open>simp_all add: c1_def\<close>)
    have "keep_rest c d = (sha1_process_block d c1)\<lparr>sbuffer := memcpy (sbuffer c1) 0 [], buflen := 0\<rparr>"
    proof -
      have "take 64 (sbuffer c1) = d" using buf full by (simp add: c1_def)
      then show ?thesis using False c full blk by (simp add: keep_rest_def Let_def c1_def [symmetric])
    qed
    moreover have "sha1_state ((sha1_process_block d c1)\<lparr>sbuffer := memcpy (sbuffer c1) 0 [], buflen := 0\<rparr>) (p @ d) []"
      using c full unfolding blk by (simp add: sha1_state_def c1_def)
    ultimately show ?thesis unfolding sha1_holds_def b by (metis append_Nil append_Nil2)
  next
    case short: False
    then have "keep_rest c d = c\<lparr>sbuffer := memcpy (sbuffer c) 0 d, buflen := length d\<rparr>"
      using False c assms(3) by (simp add: keep_rest_def Let_def)
    moreover have "sha1_state (c\<lparr>sbuffer := memcpy (sbuffer c) 0 d, buflen := length d\<rparr>) p d"
      using c buf assms(3) by (simp add: sha1_state_def)
    ultimately show ?thesis unfolding sha1_holds_def b by auto
  qed
qed

lemma process_bytes_holds:
  assumes "sha1_holds c m" "length d < 2 ^ 32"
  shows "sha1_holds (sha1_process_bytes aligned d c) (m @ d)"
proof -
  obtain p b where m: "m = p @ b" "sha1_state c p b" using assms(1) by (auto simp: sha1_holds_def)
  obtain c1 d1 where t: "take_in c d = (c1, d1)" by (rule prod.exhaust)
  obtain p1 b1 where s1: "sha1_state c1 p1 b1" "p1 @ b1 @ d1 = p @ b @ d" "b1 = [] \<or> d1 = []" "length d1 \<le> length d"
    using take_in_state [OF m(2) t] by blast
  obtain c2 d2 where w: "whole_blocks (aligned d1) c1 d1 = (c2, d2)" by (rule prod.exhaust)
  obtain p2 where s2: "sha1_state c2 p2 b1" "p2 @ b1 @ d2 = p1 @ b1 @ d1" "b1 = [] \<or> d2 = []" "length d2 \<le> 64"
    using whole_blocks_state [OF s1(1,3) w] s1(4) assms(2) by auto
  have "sha1_holds (keep_rest c2 d2) (p2 @ b1 @ d2)" by (rule keep_rest_state [OF s2(1,3,4)])
  then show ?thesis using t w s1(2) s2(2) m(1) by (simp add: sha1_process_bytes_def)
qed

section \<open>The digest\<close>

lemma length_words:
  "push_bit 3 (word_of_nat (n div 2 ^ 32)) OR drop_bit 29 (word_of_nat n) = (word_of_nat (8 * n div 2 ^ 32) :: 32 word)"
    (is "?l = _")
proof (rule bit_word_eqI)
  fix i assume "i < LENGTH(32)"
  then have i: "i < 32" by simp
  have shift: "bit (x div 2 ^ k) j = bit x (k + j)" for x k j :: nat
    unfolding drop_bit_eq_div [symmetric] by (simp add: bit_drop_bit_eq)
  have "bit (n div 2 ^ 29) i = bit n (29 + i)" by (rule shift)
  moreover have "bit (n div 2 ^ 32) (i - 3) = bit n (29 + i)" if "3 \<le> i" using shift [of n 32 "i - 3"] that by simp
  ultimately show "bit ?l i = bit (word_of_nat (8 * n div 2 ^ 32) :: 32 word) i"
    using i by (auto simp: bit_word_of_nat bit_simps)
qed

lemma le_bytes_length:
  "le_bytes 4 (SWAP (push_bit 3 (word_of_nat (n div 2 ^ 32)) OR drop_bit 29 (word_of_nat n))) @
   le_bytes 4 (SWAP (push_bit 3 (word_of_nat n))) = be_bytes 8 (word_of_nat (8 * n) :: 64 word)"
proof -
  have "push_bit 3 (word_of_nat n) = (word_of_nat (8 * n) :: 32 word)" by (simp add: push_bit_eq_mult)
  moreover have "be_bytes 4 (word_of_nat (8 * n div 2 ^ 32) :: 32 word) @ be_bytes 4 (word_of_nat (8 * n) :: 32 word) =
      be_bytes 8 (word_of_nat (8 * n) :: 64 word)"
    using le_bytes_halves [of 4 "8 * n", where 'v = 32 and 'w = 64, THEN arg_cong, of rev] by (simp add: be_bytes_def)
  ultimately show ?thesis unfolding length_words le_bytes_SWAP by simp
qed

lemma final_buffer:
  assumes "length buf = 128" "take (length b) buf = b" "length b + length f = 4 * k" "4 * k + 8 \<le> 128"
  shows "take (4 * k + 8) (memcpy (put_word 4 (put_word 4 buf k h) (k + 1) l) (length b) f) = b @ f @ le_bytes 4 h @ le_bytes 4 l"
proof -
  define X where "X = put_word 4 (put_word 4 buf k h) (k + 1) l"
  have X: "X = take (4 * k) buf @ le_bytes 4 h @ le_bytes 4 l @ drop (4 * k + 8) buf"
    using assms(1,4) by (simp add: X_def put_word_def memcpy_def add.commute)
  have "take (length b) X = b" using assms(1-4) by (simp add: X min_def)
  moreover have "drop (length b + length f) X = le_bytes 4 h @ le_bytes 4 l @ drop (4 * k + 8) buf"
    using assms(1,3,4) by (simp add: X)
  ultimately have "memcpy X (length b) f = b @ f @ le_bytes 4 h @ le_bytes 4 l @ drop (4 * k + 8) buf"
    by (simp add: memcpy_def)
  then show ?thesis unfolding X_def [symmetric] using assms(3) by simp
qed

lemma read_ctx: "sha1_read_ctx c =
  (case ABCDE c of (A, B, C, D, E) \<Rightarrow> be_bytes 4 A @ be_bytes 4 B @ be_bytes 4 C @ be_bytes 4 D @ be_bytes 4 E)"
  by (simp add: sha1_read_ctx_def le_bytes_SWAP)

lemma sha1_finish_holds:
  assumes "sha1_holds c m"
  shows "sha1_finish_ctx c = fips_sha1 m"
proof -
  obtain p b where m: "m = p @ b" and st: "sha1_state c p b" using assms by (auto simp: sha1_holds_def)
  note c = st [unfolded sha1_state_def]
  define k f N where "k = (if length b < 56 then 14 else 30 :: nat)" and "f = take (4 * k - length b) fillbuf"
    and "N = length m"
  have k: "length b < 4 * k" "4 * k + 8 \<le> 128" "4 * k - length b \<le> 64" using c by (auto simp: k_def)
  have f: "f = 0x80 # replicate (4 * k - length b - 1) 0" "length b + length f = 4 * k"
    using k by (auto simp: f_def fillbuf_def take_Cons' min_def)
  have z: "add_total (totals c) (length b) = count64 N"
    using c by (simp add: add_total_count N_def m)
  define h l where "h = SWAP (push_bit 3 (word_of_nat (N div 2 ^ 32)) OR drop_bit 29 (word_of_nat N))"
    and "l = SWAP (push_bit 3 (word_of_nat N))"
  define X where "X = memcpy (put_word 4 (put_word 4 (sbuffer c) k h) (k + 1) l) (length b) f"
  have X: "take (4 * k + 8) X = b @ f @ be_bytes 8 (word_of_nat (8 * N) :: 64 word)"
    unfolding X_def h_def l_def by (subst final_buffer) (use c f(2) k(2) le_bytes_length [of N] in auto)
  have zeros: "(119 - N mod 64) mod 64 = 4 * k - length b - 1"
  proof -
    have "N mod 64 = length b mod 64" using c by (simp add: N_def m mod_add_eq [symmetric, of "length p"])
    then show ?thesis using c by (cases "length b = 64") (auto simp: k_def mod_if)
  qed
  have "absorb 64 fips1_compress fips1_iv (p @ take (4 * k + 8) X) =
      absorb 64 fips1_compress (absorb 64 fips1_compress fips1_iv p) (take (4 * k + 8) X)"
    using absorb_append(1) [of 64 fips1_compress fips1_iv p] left_over_full [of p 64] c by simp
  moreover have "p @ take (4 * k + 8) X = md_pad 64 (be_bytes 8 (word_of_nat (8 * N) :: 64 word)) m"
    unfolding X using zeros by (simp add: md_pad_def f(1) N_def m)
  ultimately have "absorb 64 fips1_compress (ABCDE c) (take (4 * k + 8) X) =
      absorb 64 fips1_compress fips1_iv (md_pad 64 (be_bytes 8 (word_of_nat (8 * N) :: 64 word)) m)"
    using c by simp
  moreover have "sha1_finish_ctx c =
      sha1_read_ctx (sha1_process_block (take (4 * k + 8) X) (c\<lparr>totals := count64 N, sbuffer := X\<rparr>))"
    using c z by (simp add: sha1_finish_ctx_def Let_def k_def X_def h_def l_def f_def count64_def)
  ultimately show ?thesis
    by (simp add: read_ctx fips_sha1_def N_def sha1_process_block_def absorb_blocks)
qed

interpretation sha1: streaming_hash sha1_holds
  "sha1_init_ctx \<lparr>ABCDE = (0, 0, 0, 0, 0), totals = (0, 0), buflen = 0, sbuffer = replicate 128 0\<rparr>"
  "\<lambda>c d. sha1_process_bytes aligned d c" sha1_finish_ctx fips_sha1 "\<lambda>d. length d < 2 ^ 32"
proof unfold_locales
  have "sha1_state (sha1_init_ctx \<lparr>ABCDE = (0, 0, 0, 0, 0), totals = (0, 0), buflen = 0, sbuffer = replicate 128 0\<rparr>) [] []"
    by (simp add: sha1_state_def sha1_init_ctx_def fips1_iv_def count64_def)
  then show "sha1_holds (sha1_init_ctx \<lparr>ABCDE = (0, 0, 0, 0, 0), totals = (0, 0), buflen = 0, sbuffer = replicate 128 0\<rparr>) []"
    by (auto simp: sha1_holds_def)
qed (simp_all add: process_bytes_holds sha1_finish_holds)

text \<open>SHA-1: whatever the pieces, each below 2 ^ 32 bytes, in which a message is handed to sha1_process_bytes, and
  whichever of them are aligned in memory, the digest is the one of FIPS 180-1 for the whole message.\<close>

theorem sha1_is_the_standard:
  assumes "\<forall>d\<in>set ds. length d < 2 ^ 32"
  shows "sha1_finish_ctx (foldl (\<lambda>c d. sha1_process_bytes aligned d c)
      (sha1_init_ctx \<lparr>ABCDE = (0, 0, 0, 0, 0), totals = (0, 0), buflen = 0, sbuffer = replicate 128 0\<rparr>) ds) =
    fips_sha1 (concat ds)"
  by (rule sha1.finish_chunks [OF assms])

theorem sha1_is_the_standard_witness:
  "sha1_finish_ctx (foldl (\<lambda>c d. sha1_process_bytes (\<lambda>d. even (length d)) d c)
     (sha1_init_ctx \<lparr>ABCDE = (0, 0, 0, 0, 0), totals = (0, 0), buflen = 0, sbuffer = replicate 128 0\<rparr>)
     [replicate 64 1, [], replicate 131 2]) = fips_sha1 (concat [replicate 64 1, [], replicate 131 2])"
  by (rule sha1_is_the_standard) simp

end
