(* ===== verification/WhirlpoolProperties.thy ===== *)
theory WhirlpoolProperties
  imports Whirlpool
begin

text \<open>
  \<^verbatim>\<open>whirlpool.c\<close> against the algorithm of ISO/IEC 10118-3: the lookup tables, which the file gives as 2048
  numbers, against the substitution box built from its mini-boxes and the multiplications of the
  diffusion matrix; the cipher by tables against the cipher by its four steps; and the digest of a
  message fed in any pieces of whole bytes.
\<close>

section \<open>The algorithm\<close>

definition wp_E :: "int list" where "wp_E = [1, 0xB, 9, 0xC, 0xD, 6, 0xF, 3, 0xE, 8, 7, 4, 0xA, 2, 5, 0]"
definition wp_E_inv :: "int list" where "wp_E_inv = [0xF, 0, 0xD, 7, 0xB, 0xE, 5, 0xA, 9, 2, 0xC, 1, 3, 4, 8, 6]"
definition wp_Rbox :: "int list" where "wp_Rbox = [7, 0xC, 0xB, 0xD, 0xE, 4, 9, 0xF, 6, 3, 8, 0xA, 2, 5, 1, 0]"

definition wp_box :: "int \<Rightarrow> int \<Rightarrow> int" where
  "wp_box h l = (let u = wp_E ! nat h; v = wp_E_inv ! nat l; r = wp_Rbox ! nat (u XOR v)
     in 16 * (wp_E ! nat (u XOR r)) + wp_E_inv ! nat (v XOR r))"

definition wp_S :: "byte \<Rightarrow> byte" where
  "wp_S b = word_of_int (wp_box (uint b div 16) (uint b mod 16))"

text \<open>Multiplication in the field of 256 elements modulo 0x11D.\<close>

definition xtime :: "byte \<Rightarrow> byte" where
  "xtime b = push_bit 1 b XOR (if bit b 7 then 0x1D else 0)"

definition gf_mul :: "byte \<Rightarrow> byte \<Rightarrow> byte" where
  "gf_mul a c = foldr (XOR) (map (\<lambda>i. if bit c i then (xtime ^^ i) a else 0) [0..<8]) 0"

definition circ :: "byte list" where "circ = [1, 1, 4, 1, 8, 5, 2, 9]"

text \<open>The rows of the state are words, the leftmost byte the highest.\<close>

definition sub_bytes :: "byte list list \<Rightarrow> byte list list" where
  "sub_bytes m = map (map wp_S) m"

definition shift_columns :: "byte list list \<Rightarrow> byte list list" where
  "shift_columns m = map (\<lambda>i. map (\<lambda>j. m ! ((i + 8 - j) mod 8) ! j) [0..<8]) [0..<8]"

definition mix_rows :: "byte list list \<Rightarrow> byte list list" where
  "mix_rows m = map (\<lambda>r. map (\<lambda>j. foldr (XOR) (map (\<lambda>t. gf_mul (r ! t) (circ ! ((j + 8 - t) mod 8))) [0..<8]) 0) [0..<8]) m"

definition add_key :: "byte list list \<Rightarrow> byte list list \<Rightarrow> byte list list" where
  "add_key k m = map2 (map2 (XOR)) m k"

definition round_constant :: "nat \<Rightarrow> byte list list" where
  "round_constant r = map (\<lambda>j. wp_S (word_of_nat (8 * (r - 1) + j))) [0..<8] # replicate 7 (replicate 8 0)"

definition iso_round :: "byte list list \<Rightarrow> byte list list \<Rightarrow> byte list list" where
  "iso_round k m = add_key k (mix_rows (shift_columns (sub_bytes m)))"

definition iso_compress :: "byte list list \<Rightarrow> byte list \<Rightarrow> byte list list" where
  "iso_compress H block =
     (let m = map (\<lambda>i. take 8 (drop (8 * i) block)) [0..<8];
          step = (\<lambda>r (k, st). let k = iso_round (round_constant r) k in (k, iso_round k st))
      in add_key (add_key m (snd (fold step [1..<11] (H, add_key H m)))) H)"

definition iso_whirlpool :: "byte list \<Rightarrow> byte list" where
  "iso_whirlpool m = concat (absorb 64 iso_compress (replicate 8 (replicate 8 0))
     (md_pad 64 (be_bytes 32 (word_of_nat (8 * length m) :: 256 word)) m))"

section \<open>The tables\<close>

text \<open>The first table, its entries as numbers; the others are turned by a byte each.\<close>

definition xt :: "int \<Rightarrow> int" where
  "xt s = (if s < 128 then 2 * s else (2 * s - 256) XOR 0x1D)"

definition row_bytes :: "int \<Rightarrow> int list" where
  "row_bytes s = (let s2 = xt s; s4 = xt s2; s8 = xt s4 in [s, s, s4, s, s8, s4 XOR s, s2, s8 XOR s])"

definition number :: "int list \<Rightarrow> int" where
  "number bs = foldl (\<lambda>a b. a * 256 + b) 0 bs"

definition wp_boxes :: "int list" where
  "wp_boxes = concat (map (\<lambda>h. map (wp_box h) [0..15]) [0..15])"

definition turned :: "int \<Rightarrow> int \<Rightarrow> bool" where
  "turned x y \<longleftrightarrow> (let b = take_bit 8 x in 256 * y = x + b * 18446744073709551616 - b)"


lemma box_list: "map (\<lambda>k. wp_box (k div 16) (k mod 16)) [0..255] = wp_boxes"
  by code_simp

lemma box_range: "list_all (\<lambda>s. 0 \<le> s \<and> s < 256) wp_boxes"
  by code_simp

lemma C0_rows: "map (\<lambda>s. number (row_bytes s)) wp_boxes = map uint C0"
  by code_simp

lemma C1_turned: "list_all2 turned (map uint C0) (map uint C1)"
  by code_simp

lemma C2_turned: "list_all2 turned (map uint C1) (map uint C2)"
  by code_simp

lemma C3_turned: "list_all2 turned (map uint C2) (map uint C3)"
  by code_simp

lemma C4_turned: "list_all2 turned (map uint C3) (map uint C4)"
  by code_simp

lemma C5_turned: "list_all2 turned (map uint C4) (map uint C5)"
  by code_simp

lemma C6_turned: "list_all2 turned (map uint C5) (map uint C6)"
  by code_simp

lemma C7_turned: "list_all2 turned (map uint C6) (map uint C7)"
  by code_simp

lemmas C_turned = C1_turned C2_turned C3_turned C4_turned C5_turned C6_turned C7_turned

lemma rc_rows: "map uint rc = 0 # map (\<lambda>r. number (map (\<lambda>j. wp_boxes ! nat (8 * r + j)) [0..7])) [0..9]"
  by code_simp

definition turn :: "int list \<Rightarrow> int list" where "turn bs = last bs # butlast bs"

lemma number_snoc: "number (bs @ [b]) = number bs * 256 + b"
  by (simp add: number_def)

lemma number_Cons: "number (b # bs) = b * 256 ^ length bs + number bs"
proof (induction bs rule: rev_induct)
  case (snoc c bs)
  have "number (b # bs @ [c]) = number (b # bs) * 256 + c" using number_snoc [of "b # bs" c] by simp
  then show ?case by (simp only: snoc number_snoc length_append list.size) (simp add: algebra_simps)
qed (simp add: number_def)

lemma turned_number:
  assumes "turned (number bs) y" "length bs = 8" "\<forall>b\<in>set bs. 0 \<le> b \<and> b < 256"
  shows "y = number (turn bs)"
proof -
  obtain cs c where bs: "bs = cs @ [c]" using assms(2) by (cases bs rule: rev_cases) auto
  then have c: "length cs = 7" "0 \<le> c" "c < 256" using assms(2,3) by auto
  then have "take_bit 8 (number bs) = c"
    by (simp add: bs number_snoc take_bit_eq_mod)
  moreover have "number (turn bs) = c * 72057594037927936 + number cs"
    using c by (simp add: bs turn_def number_Cons)
  ultimately show ?thesis using assms(1) by (simp add: turned_def bs number_snoc)
qed

lemma turn_byte: "length bs = 8 \<Longrightarrow> j < 8 \<Longrightarrow> turn bs ! j = bs ! ((j + 7) mod 8)"
proof -
  assume l: "length bs = 8" and j: "j < 8"
  then have "last bs = bs ! 7" using last_conv_nth [of bs] by fastforce
  with l j show ?thesis by (cases j) (simp_all add: turn_def nth_butlast)
qed

lemma turn_bytes:
  "length bs = 8 \<Longrightarrow> \<forall>b\<in>set bs. 0 \<le> b \<and> b < 256 \<Longrightarrow>
   length ((turn ^^ t) bs) = 8 \<and> (\<forall>b\<in>set ((turn ^^ t) bs). 0 \<le> b \<and> b < 256)"
proof (induction t)
  case (Suc t)
  define c where "c = (turn ^^ t) bs"
  from Suc have *: "length c = 8" "\<forall>b\<in>set c. 0 \<le> b \<and> b < 256" unfolding c_def by blast+
  then have "c \<noteq> []" by auto
  with * have "length (turn c) = 8 \<and> (\<forall>b\<in>set (turn c). 0 \<le> b \<and> b < 256)"
    by (auto simp: turn_def in_set_butlastD)
  then show ?case by (simp add: c_def)
qed simp

lemma turn_nth: "length bs = 8 \<Longrightarrow> t \<le> 8 \<Longrightarrow> j < 8 \<Longrightarrow> (turn ^^ t) bs ! j = bs ! ((j + 8 - t) mod 8)"
proof (induction t arbitrary: j)
  case (Suc t)
  have "length ((turn ^^ t) bs) = 8" using Suc.prems(1)
    by (induction t) (auto simp: turn_def)
  then have "(turn ^^ Suc t) bs ! j = (turn ^^ t) bs ! ((j + 7) mod 8)"
    using turn_byte [of "(turn ^^ t) bs" j] Suc.prems(3) by simp
  also have "\<dots> = bs ! (((j + 7) mod 8 + 8 - t) mod 8)" using Suc.IH [of "(j + 7) mod 8"] Suc.prems(1,2) by simp
  also have "((j + 7) mod 8 + 8 - t) mod 8 = (j + 8 - Suc t) mod 8"
  proof (cases j)
    case 0
    then show ?thesis using Suc.prems(2) by (simp add: mod_if)
  next
    case (Suc i)
    then have "(j + 7) mod 8 = i" using Suc.prems(3) by simp
    then show ?thesis using Suc by (simp add: add.commute)
  qed
  finally show ?case .
qed simp

definition wp_tables :: "64 word list list" where
  "wp_tables = [C0, C1, C2, C3, C4, C5, C6, C7]"

lemma length_wp_boxes: "length wp_boxes = 256"
  by (simp add: box_list [symmetric])

lemma wp_table_step:
  assumes "list_all2 turned (map uint C) (map uint D)" "map (\<lambda>s. number (f s)) wp_boxes = map uint C"
    "\<forall>s\<in>set wp_boxes. length (f s) = 8 \<and> (\<forall>b\<in>set (f s). 0 \<le> b \<and> b < 256)"
  shows "map (\<lambda>s. number (turn (f s))) wp_boxes = map uint D"
proof (rule nth_equalityI)
  have l: "length wp_boxes = length C" using assms(2) by (metis length_map)
  then show "length (map (\<lambda>s. number (turn (f s))) wp_boxes) = length (map uint D)"
    using assms(1) by (simp add: list_all2_conv_all_nth)
  fix i assume i: "i < length (map (\<lambda>s. number (turn (f s))) wp_boxes)"
  then have "turned (uint (C ! i)) (uint (D ! i))"
    using assms(1) l by (auto simp: list_all2_conv_all_nth)
  moreover have "uint (C ! i) = number (f (wp_boxes ! i))"
    using arg_cong [OF assms(2), of "\<lambda>xs. xs ! i"] i l by simp
  ultimately have "uint (D ! i) = number (turn (f (wp_boxes ! i)))"
    using turned_number [of "f (wp_boxes ! i)"] assms(3) i nth_mem [of i wp_boxes] by fastforce
  then show "map (\<lambda>s. number (turn (f s))) wp_boxes ! i = map uint D ! i"
    using i l assms(1) by (simp add: list_all2_conv_all_nth)
qed

lemma xt_range: "0 \<le> s \<Longrightarrow> s < 256 \<Longrightarrow> 0 \<le> xt s \<and> xt s < 256"
  using OR_upper [of "2 * s - 256" 8 "0x1D"] by (auto simp: xt_def XOR_lower intro: XOR_upper [of _ 8, simplified])

lemma row_bytes_range:
  "0 \<le> s \<Longrightarrow> s < 256 \<Longrightarrow> length (row_bytes s) = 8 \<and> (\<forall>b\<in>set (row_bytes s). 0 \<le> b \<and> b < 256)"
  using xt_range XOR_upper [of _ 8, simplified]
  by (simp add: row_bytes_def Let_def XOR_lower)

lemma wp_boxes_range: "s \<in> set wp_boxes \<Longrightarrow> 0 \<le> s \<and> s < 256"
  using box_range by (simp add: list_all_iff)

lemma table_rows:
  assumes "t < 8"
  shows "map (\<lambda>s. number ((turn ^^ t) (row_bytes s))) wp_boxes = map uint (wp_tables ! t)"
  using assms
proof (induction t)
  case 0
  then show ?case by (simp add: wp_tables_def C0_rows)
next
  case (Suc t)
  have "list_all2 turned (map uint (wp_tables ! t)) (map uint (wp_tables ! Suc t))"
  proof -
    have "t \<in> {0, 1, 2, 3, 4, 5, 6}" using Suc.prems by auto
    then show ?thesis using C_turned by (auto simp: wp_tables_def eval_nat_numeral)
  qed
  moreover have "\<forall>s\<in>set wp_boxes. length ((turn ^^ t) (row_bytes s)) = 8 \<and>
      (\<forall>b\<in>set ((turn ^^ t) (row_bytes s)). 0 \<le> b \<and> b < 256)"
    using row_bytes_range wp_boxes_range turn_bytes by blast
  ultimately show ?case using wp_table_step Suc by simp
qed

section \<open>Bytes of words\<close>

lemma be_word_snoc: "be_word (bs @ [b]) = ucast b OR push_bit 8 (be_word bs)"
  by (simp add: be_word_def)

lemma be_word_number:
  "\<forall>b\<in>set bs. 0 \<le> b \<and> b < 256 \<Longrightarrow> be_word (map word_of_int bs) = (word_of_int (number bs) :: 'w::len word)"
proof (induction bs rule: rev_induct)
  case Nil
  then show ?case by (simp add: be_word_def number_def)
next
  case (snoc b bs)
  have "ucast (word_of_int b :: byte) = (word_of_int b :: 'w word)"
    using snoc.prems by (simp add: ucast_eq uint_word_of_int take_bit_eq_mod)
  moreover have "ucast (word_of_int b :: byte) OR push_bit 8 w = ucast (word_of_int b :: byte) + push_bit 8 w" for w :: "'w word"
    by (rule disjunctive_add [symmetric]) (auto simp: bit_simps dest: bit_imp_le_length)
  ultimately show ?case using snoc by (simp add: be_word_snoc number_snoc push_bit_eq_mult)
qed

lemma be_bytes_be_word:
  "length bs = n \<Longrightarrow> 8 * n \<le> LENGTH('w::len) \<Longrightarrow> be_bytes n (be_word bs :: 'w word) = bs"
  using le_bytes_le_word [of "rev bs" n, where 'w = 'w] by (simp add: be_bytes_def be_word_def)

lemma be_word_be_bytes: "LENGTH('w::len) = 8 * n \<Longrightarrow> be_word (be_bytes n w) = (w :: 'w word)"
  by (simp add: be_bytes_def be_word_def le_word_le_bytes)

lemma be_bytes_number:
  assumes "uint (w :: 64 word) = number bs" "length bs = 8" "\<forall>b\<in>set bs. 0 \<le> b \<and> b < 256"
  shows "be_bytes 8 w = map word_of_int bs"
proof -
  have "w = word_of_int (number bs)" using assms(1) by (metis word_of_int_uint)
  then have "w = be_word (map word_of_int bs)" using be_word_number [OF assms(3)] by metis
  then show ?thesis using be_bytes_be_word [of "map word_of_int bs" 8, where 'w = 64] assms(2) by simp
qed

lemma be_nth: "j < n \<Longrightarrow> be_bytes n w ! j = ucast (drop_bit (8 * (n - Suc j)) w)"
  by (simp add: be_bytes_def le_bytes_def rev_nth)


section \<open>The field\<close>

lemma uint_xtime: "uint (xtime b) = xt (uint b)"
proof -
  have u: "0 \<le> uint b" "uint b < 256" using uint_bounded [of b] by auto
  have b7: "bit b 7 \<longleftrightarrow> 128 \<le> uint b"
  proof -
    have "bit b 7 \<longleftrightarrow> bit (uint b) 7" by (simp add: bit_uint_iff)
    also have "\<dots> \<longleftrightarrow> odd (uint b div 2 ^ 7)" by (rule bit_iff_odd)
    also have "\<dots> \<longleftrightarrow> 128 \<le> uint b" using u 
    proof -
      have "0 \<le> x \<Longrightarrow> x < 256 \<Longrightarrow> odd (x div 128) = (128 \<le> x)" for x :: int by presburger
      from this [OF u] show ?thesis by simp
    qed
    finally show ?thesis .
  qed
  have "uint (push_bit 1 b) = (2 * uint b) mod 256"
    by (simp add: push_bit_eq_mult uint_word_ariths mult.commute)
  moreover have "(2 * x) mod 256 = (if x < 128 then 2 * x else 2 * x - 256)" if "0 \<le> x" "x < 256" for x :: int
    using that minus_mod_self2 [of "2 * x" 256] mod_pos_pos_trivial [of "2 * x - 256" 256] by (auto simp del: minus_mod_self2)
  ultimately have "uint (push_bit 1 b) = (if uint b < 128 then 2 * uint b else 2 * uint b - 256)" using u by simp
  then show ?thesis using b7 by (simp add: xtime_def xt_def uint_xor del: push_bit_numeral)
qed


lemma xtime_of_int: "0 \<le> s \<Longrightarrow> s < 256 \<Longrightarrow> xtime (word_of_int s) = word_of_int (xt s)"
proof -
  assume "0 \<le> s" "s < 256"
  then have "uint (word_of_int s :: byte) = s" by (simp add: uint_word_of_int)
  then show ?thesis using uint_xtime [of "word_of_int s"] by (metis word_of_int_uint)
qed

lemma upt8: "[0..<8] = [0, 1, 2, 3, 4, 5, 6, 7]"
  by (simp add: upt_rec)

lemma below_8: "k < (8 :: nat) \<Longrightarrow> k = 0 \<or> k = 1 \<or> k = 2 \<or> k = 3 \<or> k = 4 \<or> k = 5 \<or> k = 6 \<or> k = 7"
  by auto

lemma xtime_powers: "(xtime ^^ 0) a = a" "(xtime ^^ Suc 0) a = xtime a" "(xtime ^^ 2) a = xtime (xtime a)" "(xtime ^^ 3) a = xtime (xtime (xtime a))"
  by (simp_all add: eval_nat_numeral)

lemma gf_mul_consts:
  "gf_mul a 1 = a" "gf_mul a 2 = xtime a" "gf_mul a 4 = xtime (xtime a)" "gf_mul a 8 = xtime (xtime (xtime a))"
  "gf_mul a 5 = a XOR xtime (xtime a)" "gf_mul a 9 = a XOR xtime (xtime (xtime a))"
  by (simp_all add: gf_mul_def upt8 xtime_powers bit_1_iff del: funpow.simps)

lemma gf_mul_circ:
  assumes "0 \<le> s" "s < 256" "k < 8"
  shows "word_of_int (row_bytes s ! k) = gf_mul (word_of_int s) (circ ! k)"
proof -
  have x: "word_of_int (xt s) = xtime (word_of_int s)" "word_of_int (xt (xt s)) = xtime (xtime (word_of_int s))"
    "word_of_int (xt (xt (xt s))) = xtime (xtime (xtime (word_of_int s)))"
    using assms(1,2) xt_range by (simp_all add: xtime_of_int)
  have xor: "word_of_int (a XOR b) = (word_of_int a XOR word_of_int b :: byte)" for a b
    by (rule bit_word_eqI) (simp add: bit_simps)
  show ?thesis using below_8 [OF assms(3)]
    by (elim disjE) (simp_all add: row_bytes_def circ_def Let_def x xor gf_mul_consts xor.commute)
qed

lemma wp_boxes_nth: "s < 256 \<Longrightarrow> wp_boxes ! s = wp_box (int s div 16) (int s mod 16)"
  by (simp add: box_list [symmetric] nth_upto)

lemma table_bytes:
  assumes "t < 8" "j < 8"
  shows "be_bytes 8 (wp_tables ! t ! unat b) ! j = gf_mul (wp_S b) (circ ! ((j + 8 - t) mod 8))"
proof -
  define s where "s = wp_boxes ! unat b"
  have b: "unat b < 256" using unsigned_less [of b] by simp
  then have s: "0 \<le> s" "s < 256" using wp_boxes_range [of s] length_wp_boxes by (auto simp: s_def)
  have S: "wp_S b = word_of_int s" by (simp add: wp_S_def s_def wp_boxes_nth [OF b])
  have "length (map uint (wp_tables ! t)) = 256" using table_rows [OF assms(1)] length_wp_boxes by (metis length_map)
  then have "uint (wp_tables ! t ! unat b) = number ((turn ^^ t) (row_bytes s))"
    using arg_cong [OF table_rows [OF assms(1)], of "\<lambda>xs. xs ! unat b"] b length_wp_boxes by (simp add: s_def)
  then have "be_bytes 8 (wp_tables ! t ! unat b) = map word_of_int ((turn ^^ t) (row_bytes s))"
    using be_bytes_number turn_bytes row_bytes_range [OF s] by blast
  then have "be_bytes 8 (wp_tables ! t ! unat b) ! j = word_of_int (row_bytes s ! ((j + 8 - t) mod 8))"
    using turn_nth [of "row_bytes s" t j] turn_bytes [of "row_bytes s" t] row_bytes_range [OF s] assms by simp
  then show ?thesis using gf_mul_circ [OF s] S by simp
qed

section \<open>The cipher\<close>

abbreviation rows :: "64 word list \<Rightarrow> byte list list" where
  "rows ws \<equiv> map (be_bytes 8) ws"

lemma be_bytes_xor: "be_bytes n (a XOR b) = map2 (XOR) (be_bytes n a) (be_bytes n b)"
proof (rule nth_equalityI)
  fix j assume "j < length (be_bytes n (a XOR b))"
  then show "be_bytes n (a XOR b) ! j = map2 (XOR) (be_bytes n a) (be_bytes n b) ! j"
    by (simp add: be_nth) (rule bit_word_eqI, auto simp: bit_simps)
qed simp

lemma be_bytes_xor_nth: "j < n \<Longrightarrow> be_bytes n (a XOR b) ! j = be_bytes n a ! j XOR be_bytes n b ! j"
  by (simp add: be_bytes_xor)

lemma wp_byte_nth: "t < 8 \<Longrightarrow> wp_byte w t = unat (be_bytes 8 w ! t)"
proof -
  assume t: "t < 8"
  have "x AND 0xff = take_bit 8 x" for x :: "64 word"
    using take_bit_eq_mask [of 8 x] by (simp add: mask_eq_exp_minus_1)
  moreover have "8 * (8 - Suc t) = 56 - 8 * t" using t by simp
  ultimately show ?thesis using t by (simp add: wp_byte_def be_nth unsigned_ucast_eq unsigned_take_bit_eq)
qed

lemma wp_row_bytes:
  assumes "length K = 8" "i < 8"
  shows "be_bytes 8 (wp_row K i) = mix_rows (shift_columns (sub_bytes (rows K))) ! i"
proof (rule nth_equalityI)
  show "length (be_bytes 8 (wp_row K i)) = length (mix_rows (shift_columns (sub_bytes (rows K))) ! i)"
    using assms(2) by (simp add: mix_rows_def shift_columns_def)
  fix j assume "j < length (be_bytes 8 (wp_row K i))"
  then have j: "j < 8" by simp
  have e: "be_bytes 8 (wp_tables ! t ! wp_byte (K ! ((i + 8 - t) mod 8)) t) ! j =
      gf_mul (wp_S (rows K ! ((i + 8 - t) mod 8) ! t)) (circ ! ((j + 8 - t) mod 8))" if "t < 8" for t
    using table_bytes [OF that j] wp_byte_nth [OF that] assms(1) by simp
  have r: "wp_row K i = foldr (XOR) (map (\<lambda>t. wp_tables ! t ! wp_byte (K ! ((i + 8 - t) mod 8)) t) [0..<8]) 0"
    using assms(2) by (simp add: wp_row_def wp_tables_def upt8 add.commute)
  have x: "be_bytes 8 (foldr (XOR) ws (0 :: 64 word)) ! j = foldr (XOR) (map (\<lambda>w. be_bytes 8 w ! j) ws) 0" for ws
    using j by (induction ws) (simp_all add: be_bytes_xor_nth, simp add: be_nth)
  have "be_bytes 8 (wp_row K i) ! j =
      foldr (XOR) (map (\<lambda>t. gf_mul (wp_S (rows K ! ((i + 8 - t) mod 8) ! t)) (circ ! ((j + 8 - t) mod 8))) [0..<8]) 0"
    unfolding r x map_map comp_def using e by (intro arg_cong [of _ _ "\<lambda>xs. foldr (XOR) xs 0"] map_cong) auto
  also have "\<dots> = mix_rows (shift_columns (sub_bytes (rows K))) ! i ! j"
  proof -
    have "shift_columns (sub_bytes (rows K)) ! i ! t = wp_S (rows K ! ((i + 8 - t) mod 8) ! t)" if "t < 8" for t
      using that assms by (simp add: shift_columns_def sub_bytes_def)
    then have "map (\<lambda>t. gf_mul (wp_S (rows K ! ((i + 8 - t) mod 8) ! t)) (circ ! ((j + 8 - t) mod 8))) [0..<8] =
        map (\<lambda>t. gf_mul (shift_columns (sub_bytes (rows K)) ! i ! t) (circ ! ((j + 8 - t) mod 8))) [0..<8]"
      by (intro map_cong) auto
    then have "foldr (XOR) (map (\<lambda>t. gf_mul (wp_S (rows K ! ((i + 8 - t) mod 8) ! t)) (circ ! ((j + 8 - t) mod 8))) [0..<8]) 0 =
        foldr (XOR) (map (\<lambda>t. gf_mul (shift_columns (sub_bytes (rows K)) ! i ! t) (circ ! ((j + 8 - t) mod 8))) [0..<8]) 0"
      by (simp only:)
    also have "\<dots> = mix_rows (shift_columns (sub_bytes (rows K))) ! i ! j"
      using assms(2) j by (simp add: mix_rows_def shift_columns_def)
    finally show ?thesis .
  qed
  finally show "be_bytes 8 (wp_row K i) ! j = mix_rows (shift_columns (sub_bytes (rows K))) ! i ! j" .
qed


lemma length_matrix [simp]: "length (mix_rows m) = length m" "length (shift_columns m) = 8"
  by (simp_all add: mix_rows_def shift_columns_def)

lemma rows_map: "length K = 8 \<Longrightarrow> map (\<lambda>i. be_bytes 8 (wp_row K i)) [0..<8] = mix_rows (shift_columns (sub_bytes (rows K)))"
  by (rule nth_equalityI) (simp_all add: wp_row_bytes)

lemma round_key_bytes:
  assumes "r \<in> {1..10}"
  shows "be_bytes 8 (rc ! r) = map (\<lambda>j. wp_S (word_of_nat (8 * (r - 1) + j))) [0..<8]"
proof -
  define n where "n = r - 1"
  have n: "n < 10" and r: "r = Suc n" using assms by (auto simp: n_def)
  define bs where "bs = map (\<lambda>j. wp_boxes ! (8 * n + j)) [0..<8]"
  have "length rc = 11" by (simp add: rc_def)
  then have "uint (rc ! r) = number (map (\<lambda>j. wp_boxes ! nat (8 * int n + j)) [0..7])"
    using arg_cong [OF rc_rows, of "\<lambda>xs. xs ! r"] n by (simp add: r nth_upto)
  also have "map (\<lambda>j. wp_boxes ! nat (8 * int n + j)) [0..7] = bs"
    by (simp add: bs_def upt8 upto.simps nat_add_distrib nat_mult_distrib)
  finally have "be_bytes 8 (rc ! r) = map word_of_int bs"
  proof (rule be_bytes_number)
    show "\<forall>b\<in>set bs. 0 \<le> b \<and> b < 256" using n wp_boxes_range length_wp_boxes by (auto simp: bs_def)
  qed (simp add: bs_def)
  also have "\<dots> = map (\<lambda>j. wp_S (word_of_nat (8 * n + j))) [0..<8]"
  proof -
    have "word_of_int (wp_boxes ! k) = wp_S (word_of_nat k)" if "k < 256" for k
    proof -
      have "uint (word_of_nat k :: byte) = int k" using that by (simp add: unsigned_of_nat take_bit_nat_eq_self)
      then show ?thesis using wp_boxes_nth [OF that] by (simp add: wp_S_def)
    qed
    then show ?thesis using n by (simp add: bs_def)
  qed
  finally show ?thesis by (simp add: n_def)
qed

lemma map2_zero: "map2 (XOR) r (replicate (length r) (0 :: byte)) = r"
  by (induction r) simp_all

lemma iso_round_key:
  assumes "length K = 8" "r \<in> {1..10}"
  shows "rows (let L = map (wp_row K) [0..<8] in L[0 := L ! 0 XOR rc ! r]) = iso_round (round_constant r) (rows K)"
proof (rule nth_equalityI)
  let ?M = "mix_rows (shift_columns (sub_bytes (rows K)))"
  show "length (rows (let L = map (wp_row K) [0..<8] in L[0 := L ! 0 XOR rc ! r])) = length (iso_round (round_constant r) (rows K))"
    by (simp add: iso_round_def add_key_def round_constant_def Let_def)
  fix i assume "i < length (rows (let L = map (wp_row K) [0..<8] in L[0 := L ! 0 XOR rc ! r]))"
  then have i: "i < 8" by (simp add: Let_def)
  have M: "be_bytes 8 (wp_row K i) = ?M ! i" using wp_row_bytes [OF assms(1) i] .
  then have l: "length (?M ! i) = 8" by (metis length_be_bytes)
  show "rows (let L = map (wp_row K) [0..<8] in L[0 := L ! 0 XOR rc ! r]) ! i = iso_round (round_constant r) (rows K) ! i"
  proof (cases i)
    case 0
    then show ?thesis using M i round_key_bytes [OF assms(2)]
      by (simp add: Let_def be_bytes_xor iso_round_def add_key_def round_constant_def)
  next
    case (Suc k)
    then have "round_constant r ! i = replicate 8 0" using i by (simp add: round_constant_def)
    then show ?thesis using M i Suc l map2_zero [of "?M ! i"]
      by (simp add: Let_def iso_round_def add_key_def round_constant_def)
  qed
qed

lemma iso_round_state:
  assumes "length K = 8" "length st = 8"
  shows "rows (map (\<lambda>i. wp_row st i XOR K ! i) [0..<8]) = iso_round (rows K) (rows st)"
  using assms by (intro nth_equalityI) (simp_all add: iso_round_def add_key_def be_bytes_xor wp_row_bytes)

lemma length_iso_round [simp]: "length (iso_round k m) = min 8 (length k)"
  by (simp add: iso_round_def add_key_def)

definition iso_step :: "nat \<Rightarrow> byte list list \<times> byte list list \<Rightarrow> byte list list \<times> byte list list" where
  "iso_step r = (\<lambda>(k, st). let k = iso_round (round_constant r) k in (k, iso_round k st))"

lemma wp_round_step:
  assumes "length K = 8" "length st = 8" "r \<in> {1..10}" "wp_round r (K, st) = (K', st')"
  shows "length K' = 8 \<and> length st' = 8 \<and> iso_step r (rows K, rows st) = (rows K', rows st')"
proof -
  let ?L = "map (wp_row K) [0..<8]"
  have e: "K' = ?L[0 := ?L ! 0 XOR rc ! r]" "st' = map (\<lambda>i. wp_row st i XOR K' ! i) [0..<8]"
    using assms(4) by (auto simp: wp_round_def Let_def)
  have "length K' = 8" by (simp add: e(1))
  moreover have "rows K' = iso_round (round_constant r) (rows K)"
    using iso_round_key [OF assms(1,3)] unfolding e(1) Let_def .
  moreover have "rows st' = iso_round (rows K') (rows st)"
    unfolding e(2) using iso_round_state [OF \<open>length K' = 8\<close> assms(2)] .
  ultimately show ?thesis by (simp add: iso_step_def Let_def e(2))
qed

lemma wp_rounds:
  "length K = 8 \<Longrightarrow> length st = 8 \<Longrightarrow> set rs \<subseteq> {1..10} \<Longrightarrow> fold wp_round rs (K, st) = (K', st') \<Longrightarrow>
   length K' = 8 \<and> length st' = 8 \<and> fold iso_step rs (rows K, rows st) = (rows K', rows st')"
proof (induction rs arbitrary: K st)
  case (Cons r rs)
  obtain K1 st1 where r: "wp_round r (K, st) = (K1, st1)" by force
  from Cons.prems(3) have "r \<in> {1..10}" by simp
  note 1 = wp_round_step [OF Cons.prems(1,2) this r]
  have "fold wp_round rs (K1, st1) = (K', st')" using Cons.prems(4) r by simp
  then show ?case using Cons.IH [of K1 st1] 1 Cons.prems(3) by simp
qed simp

lemma iso_compress_alt:
  "iso_compress H block = (let m = map (\<lambda>i. take 8 (drop (8 * i) block)) [0..<8]
     in add_key (add_key m (snd (fold iso_step [1..<11] (H, add_key H m)))) H)"
  by (simp add: iso_compress_def iso_step_def [abs_def])

lemma processBuffer_is_compress:
  assumes "length (wbuffer c) = 64" "length (whash c) = 8"
  shows "\<exists>h. processBuffer c = c\<lparr>whash := h\<rparr> \<and> length h = 8 \<and> rows h = iso_compress (rows (whash c)) (wbuffer c)"
proof -
  define block :: "64 word list" where "block = map (\<lambda>i. be_word (take 8 (drop (8 * i) (wbuffer c)))) [0..<8]"
  define m where "m = map (\<lambda>i. take 8 (drop (8 * i) (wbuffer c))) [0..<8]"
  have m: "rows block = m"
    using assms(1) by (auto simp: block_def m_def intro!: be_bytes_be_word)
  have lb: "length block = 8" by (simp add: block_def)
  obtain K st where f: "fold wp_round [1..<11] (whash c, map2 (XOR) block (whash c)) = (K, st)" by force
  have s0: "rows (map2 (XOR) block (whash c)) = add_key (rows (whash c)) m"
    using lb assms(2) m by (intro nth_equalityI) (auto simp: add_key_def be_bytes_xor)
  have "set [1..<11] \<subseteq> {1..10 :: nat}" by auto
  with f lb assms(2) have st: "length st = 8"
    and i: "fold iso_step [1..<11] (rows (whash c), add_key (rows (whash c)) m) = (rows K, rows st)"
    using wp_rounds [of "whash c" "map2 (XOR) block (whash c)" "[1..<11]" K st] s0 by auto
  define h where "h = map (\<lambda>i. whash c ! i XOR (st ! i XOR block ! i)) [0..<8]"
  have "rows h = add_key (add_key m (rows st)) (rows (whash c))"
    using st lb assms(2) m by (intro nth_equalityI) (auto simp: h_def add_key_def be_bytes_xor)
  then have "rows h = iso_compress (rows (whash c)) (wbuffer c)"
    using i by (simp add: iso_compress_alt m_def [symmetric])
  moreover have "processBuffer c = c\<lparr>whash := h\<rparr>"
    using f by (simp add: processBuffer_def block_def [symmetric] h_def Let_def)
  moreover have "length h = 8" by (simp add: h_def)
  ultimately show ?thesis by blast
qed

section \<open>The bit count\<close>

definition nbytes :: "nat \<Rightarrow> nat \<Rightarrow> byte list" where
  "nbytes i N = map (\<lambda>j. word_of_nat (N div 256 ^ (i - 1 - j))) [0..<i]"

lemma length_nbytes [simp]: "length (nbytes i N) = i"
  by (simp add: nbytes_def)

lemma nbytes_Suc: "nbytes (Suc i) N = nbytes i (N div 256) @ [word_of_nat N]"
proof -
  have "256 ^ (i - j) = 256 * (256 :: nat) ^ (i - 1 - j)" if "j < i" for j
    using that by (metis Suc_diff_Suc diff_Suc_eq_diff_pred power_Suc)
  then have "map (\<lambda>j. word_of_nat (N div 256 ^ (i - j)) :: byte) [0..<i] = nbytes i (N div 256)"
    by (simp add: nbytes_def div_mult2_eq)
  then show ?thesis by (simp add: nbytes_def)
qed

lemma be_bytes_nat:
  assumes "LENGTH('w::len) = 8 * n"
  shows "be_bytes n (word_of_nat N :: 'w word) = nbytes n N"
proof (rule nth_equalityI)
  fix j assume "j < length (be_bytes n (word_of_nat N :: 'w word))"
  then have j: "j < n" by simp
  have "256 ^ (n - 1 - j) = (2 :: nat) ^ (8 * (n - Suc j))" by (simp add: power_mult)
  then have "nbytes n N ! j = word_of_nat (drop_bit (8 * (n - Suc j)) N)"
    using j by (simp add: nbytes_def drop_bit_eq_div)
  moreover have "ucast (drop_bit (8 * (n - Suc j)) (word_of_nat N :: 'w word)) = (word_of_nat (drop_bit (8 * (n - Suc j)) N) :: byte)"
    using j assms by (intro bit_word_eqI) (auto simp: bit_simps bit_word_of_nat)
  ultimately show "be_bytes n (word_of_nat N :: 'w word) ! j = nbytes n N ! j"
    using j by (simp add: be_nth)
qed simp

lemma add_length_adds:
  "i \<le> length bs \<Longrightarrow> take i bs = nbytes i N \<Longrightarrow>
   take i (add_length i carry val bs) = nbytes i (N + carry + val) \<and>
   drop i (add_length i carry val bs) = drop i bs \<and> length (add_length i carry val bs) = length bs"
proof (induction i arbitrary: carry val bs N)
  case (Suc i)
  from Suc.prems have l: "i < length bs" by simp
  from Suc.prems(2) have "take i bs @ [bs ! i] = nbytes i (N div 256) @ [word_of_nat N]"
    using l by (simp only: nbytes_Suc take_Suc_conv_app_nth)
  then have n: "take i bs = nbytes i (N div 256)" "bs ! i = word_of_nat N" by (simp_all add: l)
  show ?case
  proof (cases "carry \<noteq> 0 \<or> val \<noteq> 0")
    case True
    define c where "c = carry + unat (bs ! i) + val mod 256"
    let ?bs = "bs[i := word_of_nat c]" and ?r = "add_length i (c div 256) (val div 256) (bs[i := word_of_nat c])"
    have c: "c = carry + N mod 256 + val mod 256" by (simp add: c_def n(2) unsigned_of_nat take_bit_eq_mod)
    have r: "take i ?r = nbytes i (N div 256 + c div 256 + val div 256)" "drop i ?r = drop i ?bs" "length ?r = length bs"
      using Suc.IH [of ?bs "N div 256" "c div 256" "val div 256"] n(1) l by simp_all
    have "a = 256 * q + r \<Longrightarrow> b = 256 * q' + r' \<Longrightarrow> a + k + b = k + r + r' + 256 * (q + q')" for a b k q q' r r' :: nat
      by simp
    then have s: "N + carry + val = c + 256 * (N div 256 + val div 256)" unfolding c by simp
    have "N div 256 + c div 256 + val div 256 = (N + carry + val) div 256"
      and "c mod 256 = (N + carry + val) mod 256" unfolding s by (simp, simp del: distrib_left_numeral)
    moreover have "(word_of_nat a :: byte) = word_of_nat b" if "a mod 256 = b mod 256" for a b :: nat
      using that by (simp add: word_of_nat_eq_iff take_bit_nat_def)
    ultimately have e: "N div 256 + c div 256 + val div 256 = (N + carry + val) div 256"
      "(word_of_nat c :: byte) = word_of_nat (N + carry + val)" by blast+
    have "?r ! i # drop (Suc i) ?r = ?bs ! i # drop (Suc i) ?bs"
      using Cons_nth_drop_Suc [of i ?bs] Cons_nth_drop_Suc [of i ?r] r(2,3) l by simp
    then have d: "?r ! i = word_of_nat c" "drop (Suc i) ?r = drop (Suc i) bs" using l by simp_all
    have "take (Suc i) ?r = nbytes (Suc i) (N + carry + val)"
      using r l d(1) e by (simp add: take_Suc_conv_app_nth nbytes_Suc)
    then show ?thesis using True d(2) r(3) by (simp add: c_def [symmetric] Let_def)
  next
    case False
    then show ?thesis using Suc.prems by simp
  qed
qed (simp add: nbytes_def)


section \<open>Feeding bytes\<close>

abbreviation zero_state :: "byte list list" where
  "zero_state \<equiv> replicate 8 (replicate 8 0)"

definition wp_fed :: "whirlpool_ctx \<Rightarrow> byte list \<Rightarrow> bool" where
  "wp_fed c m \<longleftrightarrow> length (wbuffer c) = 64 \<and> length (whash c) = 8 \<and>
     rows (whash c) = absorb 64 iso_compress zero_state m \<and>
     bufferPos c = length m mod 64 \<and> bufferBits c = 8 * (length m mod 64) \<and>
     take (length m mod 64) (wbuffer c) = left_over 64 m \<and> wbuffer c ! (length m mod 64) = 0"

definition feed_byte :: "byte \<Rightarrow> whirlpool_ctx \<Rightarrow> whirlpool_ctx" where
  "feed_byte b c =
     (let c = or_byte b c; c = when_full (c\<lparr>bufferPos := bufferPos c + 1, bufferBits := bufferBits c + 8\<rparr>)
      in c\<lparr>wbuffer := (wbuffer c)[bufferPos c := 0]\<rparr>)"

lemma feed_byte_fed:
  assumes "wp_fed c m"
  shows "wp_fed (feed_byte b c) (m @ [b]) \<and> bitLength (feed_byte b c) = bitLength c"
proof -
  define u where "u = length m mod 64"
  note c = assms [unfolded wp_fed_def u_def [symmetric]]
  have u: "u < 64" by (simp add: u_def)
  define c1 where "c1 = c\<lparr>wbuffer := (wbuffer c)[u := b], bufferPos := u + 1, bufferBits := 8 * u + 8\<rparr>"
  have c1: "feed_byte b c = (let c = when_full c1 in c\<lparr>wbuffer := (wbuffer c)[bufferPos c := 0]\<rparr>)"
    using c by (simp add: feed_byte_def or_byte_def c1_def Let_def)
  have mark: "take (u + 1) (wbuffer c1) = left_over 64 m @ [b]"
    using take_mark [of u "wbuffer c" b] c u by (simp add: c1_def)
  show ?thesis
  proof (cases "u = 63")
    case True
    have b1: "wbuffer c1 = left_over 64 m @ [b]" using mark True c by (simp add: c1_def)
    have "length (left_over 64 m @ [b]) = 64" using True by (simp add: u_def)
    note fill = absorb_fill [OF _ this]
    obtain h where h: "processBuffer c1 = c1\<lparr>whash := h\<rparr>" "length h = 8" "rows h = iso_compress (rows (whash c1)) (wbuffer c1)"
      using processBuffer_is_compress [of c1] c by (auto simp: c1_def)
    have "rows h = absorb 64 iso_compress zero_state (m @ [b])" using h(3) b1 c fill(1) [of iso_compress zero_state] by (simp add: c1_def)
    then show ?thesis using c h(1,2) True fill(2,3) u
      by (simp add: c1 when_full_def wp_fed_def Let_def c1_def)
  next
    case False
    then have l: "length (left_over 64 m @ [b]) < 64" using u by (simp add: u_def)
    note keep = absorb_keep [OF l]
    have "when_full c1 = c1" using False u by (simp add: when_full_def c1_def)
    moreover have "length (m @ [b]) mod 64 = u + 1" using keep(3) by (simp add: u_def)
    moreover have "take (u + 1) ((wbuffer c1)[u + 1 := 0]) = left_over 64 m @ [b]" using mark by simp
    ultimately show ?thesis using c keep(1) [of iso_compress zero_state] keep(2) False u
      by (simp add: c1 wp_fed_def Let_def c1_def)
  qed
qed

lemma feed_bytes_fed:
  "wp_fed c m \<Longrightarrow> wp_fed (fold feed_byte d c) (m @ d) \<and> bitLength (fold feed_byte d c) = bitLength c"
proof (induction d arbitrary: c m)
  case (Cons b d)
  then show ?case using feed_byte_fed [of c m b] Cons.IH [of "feed_byte b c" "m @ [b]"] by simp
qed simp

lemma byte_shifts: "push_bit 8 (b :: byte) = 0" "drop_bit 8 (b :: byte) = 0"
  by (rule bit_word_eqI; auto simp: bit_simps dest: bit_imp_le_length)+

lemma wp_bytes_feed:
  "pos + Suc n \<le> length src \<Longrightarrow>
   wp_bytes src 0 0 pos (8 * Suc n) c = (fold feed_byte (take n (drop pos src)) c, pos + n, 8)"
proof (induction n arbitrary: pos c)
  case 0
  then show ?case by (simp add: wp_bytes.simps)
next
  case (Suc n)
  then have p: "take (Suc n) (drop pos src) = src ! pos # take n (drop (Suc pos) src)"
    by (simp add: Cons_nth_drop_Suc [symmetric, of pos src])
  have "wp_bytes src 0 0 pos (8 * Suc (Suc n)) c = wp_bytes src 0 0 (pos + 1) (8 * Suc n) (feed_byte (src ! pos) c)"
    by (subst wp_bytes.simps) (simp add: byte_shifts feed_byte_def Let_def)
  then show ?case using Suc.IH [of "Suc pos" "feed_byte (src ! pos) c"] Suc.prems p by simp
qed

lemma WHIRLPOOLadd_feeds:
  assumes "bufferBits c mod 8 = 0"
  shows "WHIRLPOOLadd d (8 * length d) c = fold feed_byte d (c\<lparr>bitLength := add_length 32 0 (8 * length d) (bitLength c)\<rparr>)"
proof (cases d rule: rev_cases)
  case Nil
  then show ?thesis using assms by (simp add: WHIRLPOOLadd_def wp_bytes.simps Let_def)
next
  case (snoc e b)
  let ?c = "c\<lparr>bitLength := add_length 32 0 (8 * length d) (bitLength c)\<rparr>"
  have "wp_bytes d 0 0 0 (8 * length d) ?c = (fold feed_byte e ?c, length e, 8)"
    using wp_bytes_feed [of 0 "length e" d ?c] snoc by simp
  then show ?thesis using assms snoc
    by (simp add: WHIRLPOOLadd_def Let_def byte_shifts feed_byte_def)
qed


section \<open>The digest\<close>

definition wp_holds :: "whirlpool_ctx \<Rightarrow> byte list \<Rightarrow> bool" where
  "wp_holds c m \<longleftrightarrow> wp_fed c m \<and> bitLength c = nbytes 32 (8 * length m)"

lemma WHIRLPOOLadd_holds:
  assumes "wp_holds c m"
  shows "wp_holds (WHIRLPOOLadd d (8 * length d) c) (m @ d)"
proof -
  note c = assms [unfolded wp_holds_def]
  let ?c = "c\<lparr>bitLength := add_length 32 0 (8 * length d) (bitLength c)\<rparr>"
  have "bufferBits c mod 8 = 0" using c by (simp add: wp_fed_def)
  then have w: "WHIRLPOOLadd d (8 * length d) c = fold feed_byte d ?c" by (rule WHIRLPOOLadd_feeds)
  have "wp_fed ?c m" using c by (simp add: wp_fed_def)
  moreover have "bitLength ?c = nbytes 32 (8 * length (m @ d))"
    using add_length_adds [of 32 "bitLength c" "8 * length m" 0 "8 * length d"] c by (auto simp: distrib_left)
  ultimately show ?thesis using feed_bytes_fed [of ?c m d] w by (simp add: wp_holds_def)
qed

lemma processBuffer_last:
  assumes "length (wbuffer c) = 64" "length (whash c) = 8" "rows (whash c) = absorb 64 iso_compress zero_state m"
    "wbuffer c = left_over 64 m @ d"
  shows "concat (map (be_bytes 8) (whash (processBuffer c))) = concat (absorb 64 iso_compress zero_state (m @ d))"
proof -
  obtain h where h: "processBuffer c = c\<lparr>whash := h\<rparr>" "rows h = iso_compress (rows (whash c)) (wbuffer c)"
    using processBuffer_is_compress [OF assms(1,2)] by blast
  have "length (left_over 64 m @ d) = 64" using assms(1,4) by simp
  then have "rows h = absorb 64 iso_compress zero_state (m @ d)"
    using absorb_fill(1) [of 64 m d iso_compress zero_state] h(2) assms(3,4) by simp
  then show ?thesis by (simp add: h(1))
qed

lemma WHIRLPOOLfinalize_pads:
  assumes "wp_holds c m"
  shows "WHIRLPOOLfinalize c = iso_whirlpool m"
proof -
  note c = assms [unfolded wp_holds_def wp_fed_def]
  define u L where "u = length m mod 64" and "L = nbytes 32 (8 * length m)"
  have u: "u < 64" by (simp add: u_def)
  define buf where "buf = (wbuffer c)[u := 0x80]"
  have or: "or_byte 0x80 c = c\<lparr>wbuffer := buf\<rparr>"
    using c by (simp add: or_byte_def buf_def u_def)
  have mark: "take (u + 1) buf = left_over 64 m @ [0x80]" "length buf = 64"
    using take_mark [of u "wbuffer c"] c u by (simp_all add: buf_def u_def)
  have fill: "take (u + 1 + k) (memset0 buf (u + 1) k) = left_over 64 m @ 0x80 # replicate k 0" if "u + 1 + k \<le> 64" for k
    using take_memcpy [of "u + 1" buf "replicate k 0"] mark that by simp
  have goal: "iso_whirlpool m = concat (absorb 64 iso_compress zero_state (md_pad 64 L m))"
    by (simp add: iso_whirlpool_def be_bytes_nat L_def del: of_nat_mult)
  show ?thesis
  proof (cases "32 < u + 1")
    case False
    define b where "b = memset0 buf (u + 1) (31 - u)"
    have b: "take 32 b = left_over 64 m @ 0x80 # replicate (31 - u) 0" "length b = 64"
      using fill [of "31 - u"] False mark(2) by (simp_all add: b_def)
    let ?c = "c\<lparr>wbuffer := memcpy b 32 L\<rparr>"
    have l: "length m mod 64 + (31 - u) = 31" using False by (simp add: u_def)
    have "wbuffer ?c = left_over 64 m @ (0x80 # replicate (31 - u) 0) @ L"
      using b by (simp add: memcpy_def L_def)
    then have "concat (map (be_bytes 8) (whash (processBuffer ?c))) =
        concat (absorb 64 iso_compress zero_state (m @ (0x80 # replicate (31 - u) 0) @ L))"
      by (intro processBuffer_last) (use c b l in \<open>simp_all add: L_def\<close>)
    moreover have "(95 - u) mod 64 = 31 - u" using False u by (simp add: mod_if)
    ultimately show ?thesis
    proof -
      assume a: "concat (map (be_bytes 8) (whash (processBuffer ?c))) =
        concat (absorb 64 iso_compress zero_state (m @ (0x80 # replicate (31 - u) 0) @ L))" and "(95 - u) mod 64 = 31 - u"
      then have "iso_whirlpool m = concat (map (be_bytes 8) (whash (processBuffer ?c)))"
        unfolding goal by (simp add: md_pad_def u_def [symmetric] L_def)
      moreover have "WHIRLPOOLfinalize c = concat (map (be_bytes 8) (whash (processBuffer ?c)))"
      proof -
        have "memset0 buf (Suc u) (31 - u) = b" "u = 31 \<Longrightarrow> buf = b"
          by (simp_all add: b_def memcpy_def)
        then show ?thesis using False c by (simp add: WHIRLPOOLfinalize_def or Let_def u_def [symmetric] L_def)
      qed
      ultimately show ?thesis by simp
    qed
  next
    case True
    define f where "f = 0x80 # replicate (63 - u) (0 :: byte)"
    have full: "length (left_over 64 m @ f) = 64" using u by (simp add: f_def u_def)
    have "memset0 buf (u + 1) (63 - u) = left_over 64 m @ f"
      using fill [of "63 - u"] u mark(2) by (simp add: f_def)
    then have b: "memset0 buf (Suc u) (63 - u) = left_over 64 m @ f" "u = 63 \<Longrightarrow> buf = left_over 64 m @ f"
      using mark by (simp_all add: f_def)
    let ?c = "c\<lparr>wbuffer := left_over 64 m @ f\<rparr>"
    obtain h where h: "processBuffer ?c = ?c\<lparr>whash := h\<rparr>" "length h = 8" "rows h = iso_compress (rows (whash ?c)) (wbuffer ?c)"
      using processBuffer_is_compress [of ?c] c full by auto
    have rh: "rows h = absorb 64 iso_compress zero_state (m @ f)"
      using h(3) c absorb_fill(1) [OF _ full, of iso_compress zero_state] by simp
    let ?d = "?c\<lparr>whash := h, wbuffer := replicate 32 0 @ L\<rparr>"
    have "concat (map (be_bytes 8) (whash (processBuffer ?d))) =
        concat (absorb 64 iso_compress zero_state ((m @ f) @ replicate 32 0 @ L))"
      by (intro processBuffer_last) (use h(2) rh absorb_fill(2) [OF _ full] in \<open>simp_all add: L_def\<close>)
    also have "(m @ f) @ replicate 32 0 @ L = md_pad 64 L m"
    proof -
      have "(95 - u) mod 64 = 95 - u" using True by simp
      moreover have "replicate (95 - u) (0 :: byte) = replicate (63 - u) 0 @ replicate 32 0"
        using u by (simp flip: replicate_add)
      ultimately show ?thesis by (simp add: md_pad_def u_def [symmetric] f_def L_def)
    qed
    finally have r: "concat (map (be_bytes 8) (whash (processBuffer ?d))) = iso_whirlpool m" by (simp only: goal)
    have "memcpy (memset0 (left_over 64 m @ f) 0 32) 32 L = replicate 32 0 @ L"
      using full by (simp add: memcpy_def L_def)
    moreover have "\<not> u < 63 \<Longrightarrow> buf = left_over 64 m @ f" using u b(2) by simp
    ultimately show ?thesis using r True c h(1) b
      by (simp add: WHIRLPOOLfinalize_def or Let_def u_def [symmetric] L_def)
  qed
qed

definition whirlpool_start :: whirlpool_ctx where
  "whirlpool_start = WHIRLPOOLinit \<lparr>bitLength = replicate 32 0, wbuffer = replicate 64 0, bufferBits = 0, bufferPos = 0,
     whash = replicate 8 0\<rparr>"

lemma whirlpool_start_holds: "wp_holds whirlpool_start []"
proof -
  have "be_bytes 8 (0 :: 64 word) = replicate 8 0" by (rule nth_equalityI) (simp_all add: be_nth)
  moreover have "nbytes 32 0 = replicate 32 0" by (simp add: nbytes_def map_replicate_const)
  ultimately show ?thesis by (simp add: wp_holds_def wp_fed_def whirlpool_start_def WHIRLPOOLinit_def)
qed

interpretation whirlpool: streaming_hash wp_holds whirlpool_start "\<lambda>c d. WHIRLPOOLadd d (8 * length d) c"
  WHIRLPOOLfinalize iso_whirlpool "\<lambda>d. True"
  by unfold_locales (simp_all add: whirlpool_start_holds WHIRLPOOLadd_holds WHIRLPOOLfinalize_pads)

text \<open>C28: Whirlpool: whatever the pieces of whole bytes in which a message is handed to WHIRLPOOLadd, the digest is
  the one of ISO/IEC 10118-3 for the whole message: the eight tables of the file are the substitution and
  diffusion layers of the standard, and the bit count of 256 bits is carried over its bytes.\<close>

theorem whirlpool_is_the_standard:
  "WHIRLPOOLfinalize (foldl (\<lambda>c d. WHIRLPOOLadd d (8 * length d) c) whirlpool_start ds) = iso_whirlpool (concat ds)"
  by (rule whirlpool.finish_chunks) simp

end
