(* ===== verification/HashProperties.thy ===== *)
theory HashProperties
  imports Hashes Sha2Properties Md5Properties Sha1Properties WhirlpoolProperties
begin

text \<open>
  What the objects of \<^verbatim>\<open>Hash.c\<close> compute: the digests of the standards, however the data is fed, and one after
  the other when a name lists several types; and the HMAC of RFC 2104 under a condition on the first piece of
  data.
\<close>

section \<open>Names\<close>

definition hash_standards :: "(string \<times> (byte list \<Rightarrow> byte list)) list" where
  "hash_standards = [(''md5'', rfc_md5), (''sha'', fips_sha1), (''sha1'', fips_sha1), (''sha256'', fips_sha256),
     (''sha-256'', fips_sha256), (''sha512'', fips_sha512), (''sha-512'', fips_sha512),
     (''whirl'', iso_whirlpool), (''whirlpool'', iso_whirlpool)]"

definition hash_standard :: "string \<Rightarrow> (byte list \<Rightarrow> byte list) option" where
  "hash_standard name = map_of hash_standards (map tolower name)"

definition name_char :: "char \<Rightarrow> bool" where
  "name_char c \<longleftrightarrow> \<not> isspace c \<and> c \<noteq> CHR '','' \<and> c \<noteq> BSL \<and> c \<noteq> NUL"

lemma plain_name_chars: "list_all name_char t \<Longrightarrow> plain_name t"
  by (auto simp: plain_name_def list_all_iff name_char_def)

lemma tolower_name_char: "name_char (tolower c) \<Longrightarrow> name_char c"
  by (cases "isupper c") (auto simp: name_char_def tolower_def isupper_def isspace_def)

lemma standard_names: "hash_standard t = Some f \<Longrightarrow> list_all name_char t \<and> t \<noteq> []"
proof -
  assume a: "hash_standard t = Some f"
  have "list_all (\<lambda>(n, f). list_all name_char n \<and> n \<noteq> []) hash_standards"
    by (simp add: hash_standards_def name_char_def isspace_def)
  moreover have "(map tolower t, f) \<in> set hash_standards" using a map_of_SomeD by (simp add: hash_standard_def) fast
  ultimately have "list_all name_char (map tolower t) \<and> map tolower t \<noteq> []" by (auto simp: list_all_iff)
  then show ?thesis using tolower_name_char by (auto simp: list_all_iff)
qed

section \<open>Tokens of a name\<close>

lemma space_skip:
  "plain_name t \<Longrightarrow> find_separator_loop WS_PATTERN (t @ r) None 0 = find_separator_loop WS_PATTERN r None 0"
proof (induction t)
  case (Cons c cs)
  then have c: "\<not> tok_blank c" "c \<noteq> BSL"
    by (auto simp: plain_name_Cons dest: tok_blank_isspace)
  have "GetTokenStepThru (c # cs @ r) 0 = cs @ r"
    using c by (simp add: GetTokenStepThru_def hasflag_def)
  with Cons c show ?case
    by (simp add: find_separator_loop.simps [of _ "c # cs @ r"] ws_match_plain plain_name_Cons)
qed simp

fun listing :: "char \<Rightarrow> string list \<Rightarrow> string" where
  "listing c [] = []"
| "listing c [t] = t"
| "listing c (t # u # r) = t @ c # listing c (u # r)"

lemma listing_first: "t \<noteq> [] \<Longrightarrow> listing c (t # r) \<noteq> [] \<and> hd (listing c (t # r)) = hd t"
  by (cases r) auto

lemma GetToken_listing:
  assumes "\<forall>t\<in>set (t # r). list_all name_char t \<and> t \<noteq> []"
  shows "GetToken (Some (listing (CHR '' '') (t # r))) WS_PATTERN 0 = (Some (listing (CHR '' '') r), t)"
proof (cases r)
  case Nil
  have "find_separator_loop WS_PATTERN t None 0 = (False, [], Some [])"
    using space_skip [of t "[]"] plain_name_chars assms by (simp add: find_separator_loop.simps [of _ "[]"])
  then show ?thesis using assms Nil
    by (simp add: GetToken_def GetTokenFindSeparator_def GetTokenPostProcess_def token_bounds_def hasflag_def)
next
  case (Cons u q)
  define v where "v = listing (CHR '' '') (u # q)"
  have u: "u \<noteq> []" "\<not> isspace (hd u)" using assms Cons by (auto simp: name_char_def list_all_iff)
  then have "dropWhile isspace v = v" using listing_first [of u "CHR '' ''" q] by (cases v) (auto simp: v_def)
  moreover have "find_separator_loop WS_PATTERN (CHR '' '' # v) None 0 = (True, CHR '' '' # v, Some (dropWhile isspace v))"
    by (simp add: find_separator_loop.simps ws_match_blank)
  ultimately have "find_separator_loop WS_PATTERN (t @ CHR '' '' # v) None 0 = (True, CHR '' '' # v, Some v)"
    using space_skip [of t] plain_name_chars assms by simp
  then show ?thesis using Cons
    by (simp add: GetToken_def GetTokenFindSeparator_def GetTokenPostProcess_def token_bounds_def hasflag_def v_def)
qed

lemma cut_at_NUL_chars: "list_all (\<lambda>c. c \<noteq> NUL) s \<Longrightarrow> cut_at_NUL s = s"
  by (simp add: cut_at_NUL_def list_all_iff takeWhile_eq_all_conv)

lemma strrep_append:
  assumes "list_all (\<lambda>c. c \<noteq> NUL) s" "b \<noteq> NUL"
  shows "strrep (s @ r) a b = strrep s a b @ strrep r a b"
proof -
  define g where "g = (\<lambda>s. map (\<lambda>c. if c = a then b else c) s)"
  have "\<forall>c\<in>set (g s). c \<noteq> NUL" using assms by (auto simp: list_all_iff g_def)
  then have "takeWhile (\<lambda>c. c \<noteq> NUL) (g s @ g r) = g s @ takeWhile (\<lambda>c. c \<noteq> NUL) (g r)"
    and "takeWhile (\<lambda>c. c \<noteq> NUL) (g s) = g s"
    by (simp_all add: takeWhile_append2 takeWhile_eq_all_conv)
  moreover have "g (s @ r) = g s @ g r" by (simp add: g_def)
  ultimately have "takeWhile (\<lambda>c. c \<noteq> NUL) (g (s @ r)) = takeWhile (\<lambda>c. c \<noteq> NUL) (g s) @ takeWhile (\<lambda>c. c \<noteq> NUL) (g r)"
    by (simp only:)
  then show ?thesis unfolding strrep_def cut_at_NUL_def g_def .
qed

lemma strrep_name: "list_all name_char t \<Longrightarrow> strrep t (CHR '','') (CHR '' '') = t"
proof -
  assume t: "list_all name_char t"
  then have "map (\<lambda>c. if c = CHR '','' then CHR '' '' else c) t = t"
    by (intro map_idI) (auto simp: list_all_iff name_char_def)
  moreover have "list_all (\<lambda>c. c \<noteq> NUL) t" using t by (auto simp: list_all_iff name_char_def)
  ultimately show ?thesis using cut_at_NUL_chars by (simp add: strrep_def)
qed

lemma strrep_listing:
  "\<forall>t\<in>set ts. list_all name_char t \<Longrightarrow> strrep (listing (CHR '','') ts) (CHR '','') (CHR '' '') = listing (CHR '' '') ts"
proof (induction "CHR '',''" ts rule: listing.induct)
  case (3 t u r)
  have n: "list_all (\<lambda>c. c \<noteq> NUL) t" using 3(2) by (auto simp: list_all_iff name_char_def)
  have "strrep (CHR '','' # s) (CHR '','') (CHR '' '') = CHR '' '' # strrep s (CHR '','') (CHR '' '')" for s
    by (simp add: strrep_def cut_at_NUL_def)
  then show ?case using 3 strrep_name [of t] by (simp add: strrep_append [OF n])
next
  case 1
  show ?case by (simp add: strrep_def cut_at_NUL_def)
next
  case (2 t)
  then show ?case by (simp add: strrep_name)
qed

section \<open>Objects\<close>

text \<open>An object that has taken in a message for a standard.\<close>

definition fed_ctx :: "hash_ctx \<Rightarrow> (byte list \<Rightarrow> byte list) \<Rightarrow> byte list \<Rightarrow> bool" where
  "fed_ctx c f m \<longleftrightarrow> (case c of
     MD5_CTX c \<Rightarrow> md5_holds c m \<and> f = rfc_md5
   | SHA1_CTX c \<Rightarrow> sha1_holds c m \<and> f = fips_sha1
   | SHA256_CTX c \<Rightarrow> w32.holds sha256_initial_hash_value c m \<and> f = fips_sha256
   | SHA512_CTX c \<Rightarrow> w64.holds sha512_initial_hash_value c m \<and> f = fips_sha512
   | WHIRLPOOL_CTX c \<Rightarrow> wp_holds c m \<and> f = iso_whirlpool
   | _ \<Rightarrow> False)"

definition fed :: "HASH \<Rightarrow> string \<Rightarrow> (byte list \<Rightarrow> byte list) \<Rightarrow> byte list \<Rightarrow> bool" where
  "fed h ty f m \<longleftrightarrow> has_functions h \<and> hash_type h = ty \<and> fed_ctx (Ctx h) f m"

lemma HashInit_first:
  assumes "\<forall>t\<in>set (t # r). list_all name_char t \<and> t \<noteq> []"
  shows "snd (GetToken (Some (strrep (listing (CHR '','') (t # r)) (CHR '','') (CHR '' ''))) WS_PATTERN 0) = t"
proof -
  have "strrep (listing (CHR '','') (t # r)) (CHR '','') (CHR '' '') = listing (CHR '' '') (t # r)"
    by (rule strrep_listing) (use assms in simp)
  then show ?thesis using GetToken_listing [OF assms] by simp
qed

lemma initial_contexts:
  "md5_holds (MD5Init \<lparr>md5_buf = [0, 0, 0, 0], md5_bits = (0, 0), md5_in = replicate 64 0\<rparr>) []"
  "sha1_holds (sha1_init_ctx \<lparr>ABCDE = (0, 0, 0, 0, 0), totals = (0, 0), buflen = 0, sbuffer = replicate 128 0\<rparr>) []"
  "w32.holds sha256_initial_hash_value SHA2_SHA256_Init []"
  "w64.holds sha512_initial_hash_value SHA2_SHA512_Init []"
  using md5.holds_initial sha1.holds_initial sha256.holds_initial sha512.holds_initial
  by (simp_all add: md5_holds_def MD5Init_def)

lemma HashInit_standard:
  assumes "\<forall>t\<in>set (t # r). list_all name_char t \<and> t \<noteq> []" "hash_standard t = Some f"
  shows "\<exists>h. HashInit (listing (CHR '','') (t # r)) = Some h \<and> fed h (listing (CHR '' '') (t # r)) f []"
proof -
  let ?ty = "listing (CHR '' '') (t # r)"
  have ty: "strrep (listing (CHR '','') (t # r)) (CHR '','') (CHR '' '') = ?ty"
    by (rule strrep_listing) (use assms(1) in simp)
  have tk: "snd (GetToken (Some ?ty) WS_PATTERN 0) = t" using GetToken_listing [OF assms(1)] by simp
  have f: "(map tolower t, f) \<in> set hash_standards" using assms(2) map_of_SomeD by (simp add: hash_standard_def) fast
  have low: "map tolower ''md5'' = ''md5''" "map tolower ''sha'' = ''sha''" "map tolower ''sha1'' = ''sha1''"
    "map tolower ''sha256'' = ''sha256''" "map tolower ''sha-256'' = ''sha-256''" "map tolower ''sha512'' = ''sha512''"
    "map tolower ''sha-512'' = ''sha-512''" "map tolower ''whirl'' = ''whirl''" "map tolower ''whirlpool'' = ''whirlpool''"
    by (simp_all add: tolower_def isupper_def)
  define l where "l = map tolower t"
  have c: "strcasecmp t n = 0 \<longleftrightarrow> l = map tolower n" for n by (simp add: strcasecmp_0_iff l_def)
  note i = HashInit.simps [of "listing (CHR '','') (t # r)", unfolded Let_def ty tk c low]
  have d: "fed (HashInitMD5 ?ty) ?ty rfc_md5 []" "fed (HashInitSHA ?ty 0) ?ty fips_sha1 []"
    "fed (HashInitSHA ?ty 256) ?ty fips_sha256 []" "fed (HashInitSHA ?ty 512) ?ty fips_sha512 []"
    "fed (HashInitWhirlpool ?ty) ?ty iso_whirlpool []"
    using initial_contexts whirlpool_start_holds
    by (simp_all add: HashInitMD5_def HashInitSHA_def HashInitWhirlpool_def fed_def fed_ctx_def new_hash_def whirlpool_start_def)
  show ?thesis using f unfolding l_def [symmetric] hash_standards_def list.set
    by (elim insertE emptyE) (use d in \<open>simp_all add: i\<close>)
qed


text \<open>The longest piece of data whose length in bits is a C integer.\<close>

abbreviation piece :: "byte list \<Rightarrow> bool" where "piece d \<equiv> length d < 2 ^ 28"

lemma fed_ctx_cases:
  assumes "fed_ctx c f m"
  obtains c' where "c = MD5_CTX c'" "md5_holds c' m" "f = rfc_md5"
  | c' where "c = SHA1_CTX c'" "sha1_holds c' m" "f = fips_sha1"
  | c' where "c = SHA256_CTX c'" "w32.holds sha256_initial_hash_value c' m" "f = fips_sha256"
  | c' where "c = SHA512_CTX c'" "w64.holds sha512_initial_hash_value c' m" "f = fips_sha512"
  | c' where "c = WHIRLPOOL_CTX c'" "wp_holds c' m" "f = iso_whirlpool"
  using assms by (cases c) (auto simp: fed_ctx_def)

lemma hash_update_fed:
  assumes "fed h ty f m" "piece d"
  shows "\<exists>h'. hash_update (Suc n) hb al h d = Inr h' \<and> fed h' ty f (m @ d)"
proof -
  have h: "has_functions h" "hash_type h = ty" "fed_ctx (Ctx h) f m" using assms(1) by (simp_all add: fed_def)
  have l: "length d < 2 ^ 32" "length d < 2 ^ 61" using assms(2) by simp_all
  from h(3) show ?thesis
  proof (cases rule: fed_ctx_cases)
    case (1 c)
    then show ?thesis using h md5.holds_update [of c m d] l by (simp add: fed_def fed_ctx_def set_ctx_def HashUpdateMD5_def)
  next
    case (2 c)
    then show ?thesis using h sha1.holds_update [of c m d] l by (simp add: fed_def fed_ctx_def set_ctx_def HashUpdateSHA1_def)
  next
    case (3 c)
    then show ?thesis using h sha256.holds_update [of c m d] by (simp add: fed_def fed_ctx_def set_ctx_def HashUpdateSHA256_def)
  next
    case (4 c)
    then show ?thesis using h sha512.holds_update [of c m d] l by (simp add: fed_def fed_ctx_def set_ctx_def HashUpdateSHA512_def)
  next
    case (5 c)
    then show ?thesis using h WHIRLPOOLadd_holds [of c m d]
      by (simp add: fed_def fed_ctx_def set_ctx_def HashUpdateWhirlpool_def mult.commute)
  qed
qed

lemma hash_finish_fed: "fed h ty f m \<Longrightarrow> hash_finish (Suc n) hb h = Inr (f m)"
proof -
  assume a: "fed h ty f m"
  then have h: "has_functions h" "fed_ctx (Ctx h) f m" by (simp_all add: fed_def)
  from h(2) show ?thesis
    by (cases rule: fed_ctx_cases)
      (use h(1) md5.holds_finish sha1.holds_finish sha256.holds_finish sha512.holds_finish whirlpool.holds_finish
        in \<open>simp_all add: HashFinishMD5_def HashFinishSHA1_def HashFinishSHA256_def HashFinishSHA512_def HashFinishWhirlpool_def\<close>)
qed

definition encoded :: "int \<Rightarrow> byte list \<Rightarrow> byte list" where
  "encoded enc b = (if 0 < enc then map char_byte (EncodeBytes b enc) else b)"

lemma hash_end_fed:
  assumes "\<forall>t\<in>set (t # r). list_all name_char t \<and> t \<noteq> []" "fed h (listing (CHR '' '') (t # r)) f m"
  shows "hash_end (Suc n) hb h enc =
    bindr (further_types (Suc (length (hash_type h))) hb (Some (listing (CHR '' '') r)) (f m)) (\<lambda>b. Inr (encoded enc b))"
  using GetToken_listing [OF assms(1)] hash_finish_fed [OF assms(2)] assms(2)
  by (simp add: hash_end_def fed_def encoded_def del: hash_finish.simps further_types.simps)

primrec HashUpdates :: "nat \<Rightarrow> (byte list \<Rightarrow> bool) \<Rightarrow> HASH \<Rightarrow> byte list list \<Rightarrow> HASH res" where
  "HashUpdates n al h [] = Inr h"
| "HashUpdates n al h (d # ds) = bindr (HashUpdate n al h d) (\<lambda>h. HashUpdates n al h ds)"

lemma HashUpdates_fed:
  "fed h ty f m \<Longrightarrow> \<forall>d\<in>set ds. piece d \<Longrightarrow> \<exists>h'. HashUpdates n al h ds = Inr h' \<and> fed h' ty f (m @ concat ds)"
proof (induction ds arbitrary: h m)
  case (Cons d ds)
  obtain h1 where h1: "HashUpdate n al h d = Inr h1" "fed h1 ty f (m @ d)"
    using hash_update_fed [OF Cons.prems(1), of d n "\<lambda>t b. HashBytes n al t b 0" al] Cons.prems(2)
    by (auto simp: HashUpdate_def simp del: hash_update.simps)
  then show ?case using Cons.IH [OF h1(2)] Cons.prems(2) by simp
qed simp

text \<open>C25: An object made for md5, sha1, sha256, sha512 or whirlpool (under any of their names, in any case) and fed with
  data in any pieces gives, in the encoding asked for, the digest of the standard for all of the data.\<close>

theorem hashes_are_the_standards:
  assumes "hash_standard name = Some f" "\<forall>d\<in>set ds. length d < 2 ^ 28"
  shows "\<exists>h h'. HashInit name = Some h \<and> HashUpdates n al h ds = Inr h' \<and>
    HashFinish n al h' enc = Inr (encoded enc (f (concat ds)))"
proof -
  have n: "\<forall>t\<in>set [name]. list_all name_char t \<and> t \<noteq> []" using standard_names [OF assms(1)] by simp
  obtain h where h: "HashInit name = Some h" "fed h name f []" using HashInit_standard [OF n assms(1)] by auto
  obtain h' where h': "HashUpdates n al h ds = Inr h'" "fed h' name f (concat ds)"
    using HashUpdates_fed [OF h(2) assms(2)] by auto
  have "HashFinish n al h' enc = Inr (encoded enc (f (concat ds)))"
    using hash_end_fed [OF n, of h' f "concat ds"] h'(2) by (simp add: HashFinish_def del: hash_finish.simps)
  with h h' show ?thesis by blast
qed


theorem hashes_are_the_standards_witness:
  "\<exists>h h'. HashInit ''SHA-256'' = Some h \<and>
     HashUpdates 0 (\<lambda>_. True) h [replicate 100 1, [], replicate 30 2] = Inr h' \<and>
     HashFinish 0 (\<lambda>_. True) h' ENCODE_BASE64 = Inr (encoded ENCODE_BASE64 (fips_sha256 (replicate 100 1 @ replicate 30 2)))"
proof -
  have "map tolower ''SHA-256'' = ''sha-256''" by code_simp
  then have "hash_standard ''SHA-256'' = Some fips_sha256" unfolding hash_standard_def by (simp add: hash_standards_def)
  then show ?thesis
    using hashes_are_the_standards [of "''SHA-256''" fips_sha256 "[replicate 100 1, [], replicate 30 2]" 0 "\<lambda>_. True" ENCODE_BASE64]
    by simp
qed

section \<open>Lists of types\<close>

lemma length_bytes: "length (concat (map (be_bytes n) ws)) = n * length ws" "length (concat (map (le_bytes n) ws)) = n * length ws"
  by (induction ws) simp_all

lemma length_processBuffer: "length (whash (processBuffer c)) = 8"
  by (simp add: processBuffer_def Let_def case_prod_beta del: upt_rec_numeral)

lemma length_standard:
  assumes "hash_standard t = Some f"
  shows "length (f m) \<le> 64"
proof -
  have "length (rfc_md5 m) \<le> 64" by (simp add: rfc_md5_def length_bytes length_absorb_rfc)
  moreover have "length (fips_sha1 m) \<le> 64" by (simp add: fips_sha1_def split: prod.split)
  moreover have "length (fips_sha256 m) \<le> 64" by (simp add: fips_sha256_def fips_hash_def length_bytes fips256_def)
  moreover have "length (fips_sha512 m) \<le> 64" by (simp add: fips_sha512_def fips_hash_def length_bytes fips512_def)
  moreover have "length (WHIRLPOOLfinalize c) = 64" for c
    by (simp add: WHIRLPOOLfinalize_def length_bytes length_processBuffer Let_def case_prod_beta)
  then have "length (iso_whirlpool m) \<le> 64" using whirlpool.finish_once [of m] by (metis order_refl)
  moreover have "(map tolower t, f) \<in> set hash_standards" using assms map_of_SomeD by (simp add: hash_standard_def) fast
  ultimately show ?thesis by (auto simp: hash_standards_def)
qed

lemma HashBytes_single:
  assumes "hash_standard t = Some f" "piece d"
  shows "HashBytes (Suc n) al t d 0 = Inr (Some (f d))"
proof -
  have n: "\<forall>t\<in>set [t]. list_all name_char t \<and> t \<noteq> []" using standard_names [OF assms(1)] by simp
  let ?hb = "\<lambda>t b. HashBytes n al t b 0"
  obtain h where h: "HashInit t = Some h" "fed h t f []" using HashInit_standard [OF n assms(1)] by auto
  obtain h' where h': "hash_update (Suc n) ?hb al h d = Inr h'" "fed h' t f d"
    using hash_update_fed [OF h(2) assms(2), of n ?hb al] by auto
  have "hash_end (Suc n) ?hb h' 0 = Inr (f d)"
    using hash_end_fed [OF n, of h' f d] h'(2) by (simp add: encoded_def)
  with h h' show ?thesis by (simp add: Let_def del: hash_update.simps)
qed

lemma further_types_standard:
  "\<forall>t\<in>set ts. hash_standard t \<noteq> None \<Longrightarrow> length b \<le> 64 \<Longrightarrow> length ts < k \<Longrightarrow>
   further_types k (\<lambda>t b. HashBytes (Suc n) al t b 0) (Some (listing (CHR '' '') ts)) b =
   Inr (fold (\<lambda>t. the (hash_standard t)) ts b)"
proof (induction ts arbitrary: k b)
  case Nil
  then show ?case by (cases k) simp_all
next
  case (Cons t ts)
  obtain f where f: "hash_standard t = Some f" using Cons.prems(1) by auto
  obtain k' where k: "k = Suc k'" using Cons.prems(3) by (cases k) auto
  have n: "\<forall>u\<in>set (t # ts). list_all name_char u \<and> u \<noteq> []"
    using Cons.prems(1) standard_names by fastforce
  have "listing (CHR '' '') (t # ts) \<noteq> []" using n listing_first by simp
  then show ?case
    using k f Cons.prems Cons.IH [of "f b" k'] GetToken_listing [OF n] length_standard [OF f, of b] HashBytes_single [OF f, of b n]
    by (simp del: HashBytes.simps)
qed

lemma length_listing: "\<forall>t\<in>set ts. t \<noteq> [] \<Longrightarrow> length ts \<le> length (listing c ts)"
proof (induction c ts rule: listing.induct)
  case (2 c t)
  then show ?case by (cases t) auto
qed auto

text \<open>C29: A comma list of types hashes the digest of each type with the next one.\<close>

theorem lists_of_types_compose:
  assumes "ts \<noteq> []" "\<forall>t\<in>set ts. hash_standard t \<noteq> None" "length d < 2 ^ 28"
  shows "HashBytes (Suc (Suc n)) al (listing (CHR '','') ts) d enc =
    Inr (Some (encoded enc (fold (\<lambda>t. the (hash_standard t)) ts d)))"
proof -
  obtain t r where ts: "ts = t # r" using assms(1) by (cases ts) auto
  obtain f where f: "hash_standard t = Some f" using assms(2) ts by auto
  have n: "\<forall>u\<in>set (t # r). list_all name_char u \<and> u \<noteq> []" using assms(2) standard_names ts by fastforce
  let ?ty = "listing (CHR '' '') (t # r)" and ?hb = "\<lambda>t b. HashBytes (Suc n) al t b 0"
  obtain h where h: "HashInit (listing (CHR '','') (t # r)) = Some h" "fed h ?ty f []" using HashInit_standard [OF n f] by auto
  obtain h' where h': "hash_update (Suc (Suc n)) ?hb al h d = Inr h'" "fed h' ?ty f d"
    using hash_update_fed [OF h(2) assms(3), of "Suc n" ?hb al] by auto
  have "length r < Suc (length (hash_type h'))"
    using length_listing [of "t # r" "CHR '' ''"] n h'(2) by (simp add: fed_def)
  then have "hash_end (Suc (Suc n)) ?hb h' enc = Inr (encoded enc (fold (\<lambda>t. the (hash_standard t)) ts d))"
    using hash_end_fed [OF n h'(2)] further_types_standard [of r "f d" "Suc (length (hash_type h'))" n al] assms(2) ts
      length_standard [OF f, of d] f
    by (simp del: further_types.simps HashBytes.simps)
  with h h' ts show ?thesis by (simp add: HashBytes.simps(2) [of "Suc n"] Let_def del: hash_update.simps HashBytes.simps)
qed


theorem lists_of_types_compose_witness:
  "HashBytes (Suc (Suc 0)) (\<lambda>_. False) ''md5,sha1,whirlpool'' [1, 2, 3] ENCODE_HEX =
     Inr (Some (encoded ENCODE_HEX (iso_whirlpool (fips_sha1 (rfc_md5 [1, 2, 3])))))"
  using lists_of_types_compose [of "[''md5'', ''sha1'', ''whirlpool'']" "[1, 2, 3]" 0 "\<lambda>_. False" ENCODE_HEX]
  by (simp add: hash_standard_def hash_standards_def tolower_def isupper_def del: HashBytes.simps)

section \<open>HMAC\<close>

definition xor_pad :: "byte \<Rightarrow> byte list \<Rightarrow> byte list" where
  "xor_pad x key = map (\<lambda>b. b XOR x) (take 64 (key @ replicate 64 0))"

definition rfc_hmac :: "(byte list \<Rightarrow> byte list) \<Rightarrow> byte list \<Rightarrow> byte list \<Rightarrow> byte list" where
  "rfc_hmac f key m = f (xor_pad 0x5c key @ f (xor_pad 0x36 key @ m))"

lemma length_xor_pad [simp]: "length (xor_pad x key) = 64"
  by (simp add: xor_pad_def)

definition hmac_fed :: "HASH \<Rightarrow> string \<Rightarrow> (byte list \<Rightarrow> byte list) \<Rightarrow> byte list \<Rightarrow> byte list \<Rightarrow> bool" where
  "hmac_fed h t f key m \<longleftrightarrow> has_functions h \<and> hash_type h = ''hmac-'' @ t \<and> Key2 h = Some (xor_pad 0x5c key) \<and>
     (\<exists>i. Ctx h = HMAC_CTX True (Some i) \<and> fed i t f (xor_pad 0x36 key @ m))"

lemma hmac_name: "list_all name_char t \<Longrightarrow> list_all name_char (''hmac-'' @ t)"
  by (simp add: name_char_def isspace_def)

lemma hmac_token:
  assumes "hash_standard t = Some f"
  shows "GetToken (Some (''hmac-'' @ t)) WS_PATTERN 0 = (Some [], ''hmac-'' @ t)"
proof -
  have n: "\<forall>u\<in>set [''hmac-'' @ t]. list_all name_char u \<and> u \<noteq> []"
    using standard_names [OF assms] hmac_name by auto
  show ?thesis using GetToken_listing [OF n] by simp
qed

lemma HashInit_hmac:
  assumes "hash_standard t = Some f"
  shows "\<exists>i. HashInit (''hmac-'' @ t) = Some (new_hash (''hmac-'' @ t) (HMAC_CTX False (Some i))) \<and> fed i t f []"
proof -
  have t: "list_all name_char t" "t \<noteq> []" using standard_names [OF assms] by simp_all
  have n: "\<forall>u\<in>set [t]. list_all name_char u \<and> u \<noteq> []" using t by simp
  obtain i where i: "HashInit t = Some i" "fed i t f []" using HashInit_standard [OF n assms] by auto
  have s: "strrep (''hmac-'' @ t) (CHR '','') (CHR '' '') = ''hmac-'' @ t" by (rule strrep_name [OF hmac_name [OF t(1)]])
  have k: "snd (GetToken (Some (''hmac-'' @ t)) WS_PATTERN 0) = ''hmac-'' @ t" using hmac_token [OF assms] by simp
  have l: "map tolower (''hmac-'' @ t) = ''hmac-'' @ map tolower t" by (simp add: tolower_def isupper_def)
  have p: "strncasecmp (''hmac-'' @ t) ''hmac-'' 5 = 0" by (simp add: strncasecmp_def strcasecmp_0_iff)
  have d: "drop 5 (''hmac-'' @ t) = t" by simp
  have e: "''hmac-'' @ t \<noteq> []" by simp
  have no: "map tolower (''hmac-'' @ t) = map tolower u \<longleftrightarrow> False" if "u \<noteq> []" "tolower (hd u) \<noteq> CHR ''h''" for u
    unfolding l using that by (cases u) auto
  note low = tolower_def isupper_def
  have "HashInit (''hmac-'' @ t) = Some (new_hash (''hmac-'' @ t) (HMAC_CTX False (HashInit t)))"
    unfolding HashInit.simps [of "''hmac-'' @ t"] Let_def s k p d strcasecmp_0_iff
    by (simp only: no list.sel not_Cons_self2 if_False if_True e simp_thms list.simps low) (simp add: low)
  then show ?thesis using i(2) unfolding i(1) by blast
qed

lemma padded_key_short: "length key \<le> 64 \<Longrightarrow> padded_key key = Inr (take 64 (key @ replicate 64 0))"
  by (simp add: padded_key_def HMAC_BLOCKSIZE_def)

lemma HMACUpdate_fed:
  assumes "Ctx h = HMAC_CTX p (Some i)" "fed i t f m" "piece d"
  shows "\<exists>i'. HMACUpdate (hash_update (Suc n) hb al) h d = Inr (set_ctx h (HMAC_CTX p (Some i'))) \<and> fed i' t f (m @ d)"
  using hash_update_fed [OF assms(2,3), of n hb al] assms(1) by (auto simp: HMACUpdate_def simp del: hash_update.simps)

lemma set_ctx_simps [simp]:
  "Ctx (set_ctx h c) = c" "hash_type (set_ctx h c) = hash_type h" "Key2 (set_ctx h c) = Key2 h"
  "has_functions (set_ctx h c) = has_functions h" "set_ctx (set_ctx h c) c' = set_ctx h c'"
  by (simp_all add: set_ctx_def)

lemma HMACPrepare_fed:
  assumes "Ctx h = HMAC_CTX False (Some i)" "fed i t f []" "piece d" "hash_type h = ''hmac-'' @ t" "has_functions h"
    "(if 64 < length d then bindr (hb (hash_type h) (Key1 h)) (\<lambda>r. padded_key (case r of None \<Rightarrow> [] | Some k \<Rightarrow> k))
      else padded_key (Key1 h)) = Inr (take 64 (key @ replicate 64 0))"
  shows "\<exists>h'. HMACPrepare (hash_update (Suc n) hb al) hb h d = Inr h' \<and> hmac_fed h' t f key d"
proof -
  define g where "g = HASH (hash_type h) (xor_pad 0x36 key) (Some (xor_pad 0x5c key)) (has_functions h) (Ctx h)"
  have g: "Ctx g = HMAC_CTX False (Some i)" "hash_type g = ''hmac-'' @ t" "has_functions g" "Key2 g = Some (xor_pad 0x5c key)"
    using assms by (simp_all add: g_def)
  obtain i1 where i1: "HMACUpdate (hash_update (Suc n) hb al) g (xor_pad 0x36 key) = Inr (set_ctx g (HMAC_CTX False (Some i1)))"
    "fed i1 t f (xor_pad 0x36 key)"
    using HMACUpdate_fed [OF g(1) assms(2), of "xor_pad 0x36 key" n hb al] by auto
  obtain i2 where i2: "HMACUpdate (hash_update (Suc n) hb al) (set_ctx g (HMAC_CTX False (Some i1))) d =
      Inr (set_ctx g (HMAC_CTX False (Some i2)))" "fed i2 t f (xor_pad 0x36 key @ d)"
    using HMACUpdate_fed [of "set_ctx g (HMAC_CTX False (Some i1))" False i1 t f, OF _ i1(2) assms(3), of n hb al] by auto
  have "HMACPrepare (hash_update (Suc n) hb al) hb h d = Inr (set_ctx g (HMAC_CTX True (Some i2)))"
    unfolding HMACPrepare_def HMAC_BLOCKSIZE_def assms(6) bindr_simps Let_def xor_pad_def [symmetric] g_def [symmetric] i1(1) i2(1)
    by simp
  then show ?thesis using g i2(2) by (auto simp: hmac_fed_def)
qed

lemma hash_update_hmac:
  assumes "hmac_fed h t f key m" "piece d"
  shows "\<exists>h'. hash_update (Suc (Suc n)) hb al h d = Inr h' \<and> hmac_fed h' t f key (m @ d)"
proof -
  obtain i where i: "Ctx h = HMAC_CTX True (Some i)" "fed i t f (xor_pad 0x36 key @ m)" "has_functions h"
    using assms(1) by (auto simp: hmac_fed_def)
  show ?thesis using HMACUpdate_fed [OF i(1,2) assms(2), of n hb al] i assms(1)
    by (auto simp: hash_update.simps(2) [of "Suc n"] hmac_fed_def simp del: hash_update.simps)
qed

lemma hash_end_hmac:
  assumes "hmac_fed h t f key m" "hash_standard t = Some f"
  shows "hash_end (Suc (Suc n)) (\<lambda>t b. HashBytes (Suc n') al t b 0) h enc = Inr (encoded enc (rfc_hmac f key m))"
proof -
  obtain i where i: "Ctx h = HMAC_CTX True (Some i)" "fed i t f (xor_pad 0x36 key @ m)" "has_functions h" "hash_type h = ''hmac-'' @ t"
    "Key2 h = Some (xor_pad 0x5c key)"
    using assms(1) by (auto simp: hmac_fed_def)
  have "length (f (xor_pad 0x36 key @ m)) \<le> 64" by (rule length_standard [OF assms(2)])
  then have "HashBytes (Suc n') al t (xor_pad 0x5c key @ f (xor_pad 0x36 key @ m)) 0 = Inr (Some (rfc_hmac f key m))"
    using HashBytes_single [OF assms(2), of "xor_pad 0x5c key @ f (xor_pad 0x36 key @ m)"] by (simp add: rfc_hmac_def)
  moreover have "hash_type i = t" using i(2) by (simp add: fed_def)
  ultimately have "hash_finish (Suc (Suc n)) (\<lambda>t b. HashBytes (Suc n') al t b 0) h = Inr (rfc_hmac f key m)"
    using i hash_finish_fed [OF i(2), of n "\<lambda>t b. HashBytes (Suc n') al t b 0"]
    by (simp add: hash_finish.simps(2) [of "Suc n"] HMACFinish_def del: hash_finish.simps HashBytes.simps)
  moreover note hmac_token [OF assms(2)]
  ultimately show ?thesis using i(4) by (simp add: hash_end_def encoded_def del: hash_finish.simps HashBytes.simps)
qed


lemma new_hash_simps [simp]:
  "Ctx (new_hash ty c) = c" "hash_type (new_hash ty c) = ty" "Key1 (new_hash ty c) = []" "has_functions (new_hash ty c)"
  by (simp_all add: new_hash_def)

lemma HMACSetKey_simps [simp]:
  "Ctx (HMACSetKey h k) = Ctx h" "hash_type (HMACSetKey h k) = hash_type h" "Key1 (HMACSetKey h k) = k"
  "has_functions (HMACSetKey h k) = has_functions h"
  by (simp_all add: HMACSetKey_def)

lemma hash_update_unprepared:
  "has_functions h \<Longrightarrow> Ctx h = HMAC_CTX False i \<Longrightarrow>
   hash_update (Suc n) hb al h d = HMACPrepare (hash_update n hb al) hb h d"
  by simp

text \<open>\<^verbatim>\<open>HashBytes\<close> has no way to set a key.\<close>

lemma HashBytes_hmac:
  assumes "hash_standard t = Some f" "length d \<le> 64"
  shows "HashBytes (Suc (Suc n)) al (''hmac-'' @ t) d 0 = Inr (Some (rfc_hmac f [] d))"
proof -
  let ?hb = "\<lambda>t b. HashBytes (Suc n) al t b 0"
  obtain i where i: "HashInit (''hmac-'' @ t) = Some (new_hash (''hmac-'' @ t) (HMAC_CTX False (Some i)))" "fed i t f []"
    using HashInit_hmac [OF assms(1)] by blast
  let ?h = "new_hash (''hmac-'' @ t) (HMAC_CTX False (Some i))"
  have "(if 64 < length d then bindr (?hb (hash_type ?h) (Key1 ?h)) (\<lambda>r. padded_key (case r of None \<Rightarrow> [] | Some k \<Rightarrow> k))
      else padded_key (Key1 ?h)) = Inr (take 64 ([] @ replicate 64 0))"
    using assms(2) by (simp add: padded_key_short)
  then obtain h' where h': "HMACPrepare (hash_update (Suc n) ?hb al) ?hb ?h d = Inr h'" "hmac_fed h' t f [] d"
    using HMACPrepare_fed [of ?h i t f d ?hb "[]" n al] i(2) assms(2) by auto
  then have "hash_update (Suc (Suc n)) ?hb al ?h d = Inr h'" by (simp add: hash_update_unprepared del: hash_update.simps)
  then show ?thesis using i(1) hash_end_hmac [OF h'(2) assms(1), of n n al 0]
    by (simp add: HashBytes.simps(2) [of "Suc n"] Let_def encoded_def del: hash_update.simps HashBytes.simps)
qed

lemma HashUpdates_hmac:
  "hmac_fed h t f key m \<Longrightarrow> \<forall>d\<in>set ds. piece d \<Longrightarrow>
   \<exists>h'. HashUpdates (Suc n) al h ds = Inr h' \<and> hmac_fed h' t f key (m @ concat ds)"
proof (induction ds arbitrary: h m)
  case (Cons d ds)
  obtain h1 where h1: "HashUpdate (Suc n) al h d = Inr h1" "hmac_fed h1 t f key (m @ d)"
    using hash_update_hmac [OF Cons.prems(1), of d n "\<lambda>t b. HashBytes (Suc n) al t b 0" al] Cons.prems(2)
    by (auto simp: HashUpdate_def simp del: hash_update.simps HashBytes.simps)
  then show ?case using Cons.IH [OF h1(2)] Cons.prems(2) by simp
qed simp

text \<open>C30: An HMAC object with a key of at most 64 bytes gives the HMAC of RFC 2104 for blocks of 64 bytes when the first
  piece of the data has at most 64 bytes; with a longer first piece it uses the HMAC of the key under the empty key
  instead of the key, because \<^verbatim>\<open>HMACPrepare\<close> tests the length of the data instead of the one of the key.  (The blocks
  of sha512 have 128 bytes, so there the first case is not the HMAC of the RFC either.)\<close>

theorem hmac_depends_on_the_first_piece:
  assumes "hash_standard t = Some f" "length key \<le> 64" "\<forall>p\<in>set (d # ds). length p < 2 ^ 28"
  shows "\<exists>h h'. HashInit (''hmac-'' @ t) = Some h \<and>
    HashUpdates (Suc (Suc n)) al (HMACSetKey h key) (d # ds) = Inr h' \<and>
    HashFinish (Suc (Suc n)) al h' enc =
      Inr (encoded enc (rfc_hmac f (if 64 < length d then rfc_hmac f [] key else key) (concat (d # ds))))"
proof -
  let ?hb = "\<lambda>t b. HashBytes (Suc (Suc n)) al t b 0" and ?k = "if 64 < length d then rfc_hmac f [] key else key"
  obtain i where i: "HashInit (''hmac-'' @ t) = Some (new_hash (''hmac-'' @ t) (HMAC_CTX False (Some i)))" "fed i t f []"
    using HashInit_hmac [OF assms(1)] by blast
  define h where "h = HMACSetKey (new_hash (''hmac-'' @ t) (HMAC_CTX False (Some i))) key"
  have "length (rfc_hmac f [] key) \<le> 64" unfolding rfc_hmac_def by (rule length_standard [OF assms(1)])
  then have "(if 64 < length d then bindr (?hb (hash_type h) (Key1 h)) (\<lambda>r. padded_key (case r of None \<Rightarrow> [] | Some k \<Rightarrow> k))
      else padded_key (Key1 h)) = Inr (take 64 (?k @ replicate 64 0))"
    using HashBytes_hmac [OF assms(1,2)] assms(2) by (simp add: h_def padded_key_short del: HashBytes.simps)
  then obtain h1 where h1: "HMACPrepare (hash_update (Suc (Suc n)) ?hb al) ?hb h d = Inr h1" "hmac_fed h1 t f ?k d"
    using HMACPrepare_fed [of h i t f d ?hb ?k "Suc n" al] i(2) assms(3) by (auto simp: h_def)
  then have "HashUpdate (Suc (Suc n)) al h d = Inr h1"
    by (simp add: HashUpdate_def hash_update_unprepared h_def del: hash_update.simps HashBytes.simps)
  moreover obtain h2 where "HashUpdates (Suc (Suc n)) al h1 ds = Inr h2" "hmac_fed h2 t f ?k (d @ concat ds)"
    using HashUpdates_hmac [OF h1(2), of ds "Suc n" al] assms(3) by auto
  ultimately have "HashUpdates (Suc (Suc n)) al h (d # ds) = Inr h2" "hmac_fed h2 t f ?k (concat (d # ds))" by simp_all
  moreover have "HashFinish (Suc (Suc n)) al h2 enc = Inr (encoded enc (rfc_hmac f ?k (concat (d # ds))))"
    unfolding HashFinish_def by (rule hash_end_hmac [OF calculation(2) assms(1)])
  ultimately show ?thesis using i(1) by (auto simp: h_def)
qed


theorem hmac_depends_on_the_first_piece_witness:
  "\<exists>h h'. HashInit ''hmac-md5'' = Some h \<and>
     HashUpdates (Suc (Suc 0)) (\<lambda>_. True) (HMACSetKey h [1, 2, 3]) [replicate 65 7, [8]] = Inr h' \<and>
     HashFinish (Suc (Suc 0)) (\<lambda>_. True) h' 0 =
       Inr (encoded 0 (rfc_hmac rfc_md5 (rfc_hmac rfc_md5 [] [1, 2, 3]) (replicate 65 7 @ [8])))"
  using hmac_depends_on_the_first_piece [of "''md5''" rfc_md5 "[1, 2, 3]" "replicate 65 7" "[[8]]" 0 "\<lambda>_. True" 0]
  by (simp add: hash_standard_def hash_standards_def tolower_def isupper_def del: HashUpdates.simps replicate.simps)

end
