(* ===== verification/HashFiles.thy ===== *)
theory HashFiles
  imports HashProperties StreamProperties
begin

text \<open>
  The digests of streams and files (\<^verbatim>\<open>HashSTREAM\<close>, \<^verbatim>\<open>HashFile\<close>), which the grant database records, and what goes
  wrong with the JH hashes.
\<close>

section \<open>Streams and files\<close>

lemma bytes_loop_plain:
  "plain_stream S \<Longrightarrow> n \<le> length got \<or> waiting S \<noteq> [] \<Longrightarrow> got \<noteq> [] \<or> waiting S \<noteq> [] \<Longrightarrow> 0 < n \<Longrightarrow>
   length (pending S) + 1 < k \<Longrightarrow>
   \<exists>b S1. bytes_loop k S n got = Inr (int (length b), b, S1) \<and> b \<noteq> [] \<and> b @ pending S1 = got @ pending S \<and> plain_stream S1 \<and>
     length b \<le> max n (length got)"
proof (induction k arbitrary: S got)
  case (Suc k)
  note p = Suc.prems(1)
  show ?case
  proof (cases "n \<le> length got")
    case True
    then show ?thesis using Suc.prems by (intro exI [of _ got] exI [of _ S]) auto
  next
    case False
    then have w: "waiting S \<noteq> []" using Suc.prems(2) by simp
    obtain b S1 where tr: "STREAMTransferBytesOut S (n - length got) = (b, S1)" by force
    have b: "b = take (n - length got) (waiting S)" "waiting S1 = drop (n - length got) (waiting S)" "plain_stream S1"
      "io_arrivals S1 = io_arrivals S" "io_start S1 = io_start S + length b"
      using tr p by (auto simp: STREAMTransferBytesOut_def waiting_def plain_stream_def Let_def min_def add.commute)
    have ne: "b \<noteq> []" using b(1) w False by simp
    have lb: "length (got @ b) \<le> n" using b(1) False by simp
    have pd: "b @ pending S1 = pending S" using b by (simp add: pending_def)
    then have less: "length (pending S1) < length (pending S)" using ne by (metis length_append length_greater_0_conv less_add_same_cancel2)
    have mm: "\<not> hasflag (io_flags S1) SF_MMAP" using b(3) by (simp add: plain_stream_def)
    have at_end: "io_start S1 < length (io_in S1) \<longleftrightarrow> waiting S1 \<noteq> []" by (auto simp: waiting_def)
    note step = bytes_loop.simps(2) [of k S n got, unfolded tr prod.case Let_def at_end]
    consider "waiting S1 \<noteq> []" | "waiting S1 = []" "\<not> FDCheckForBytes S1" | "waiting S1 = []" "FDCheckForBytes S1" by blast
    then show ?thesis
    proof cases
      case 1
      then have "n \<le> length (got @ b)" using b False by (auto simp: min_def split: if_splits)
      then show ?thesis using Suc.IH [OF b(3), of "got @ b"] 1 False Suc.prems(4,5) step pd less lb by (auto simp: max_def)
    next
      case 2
      then show ?thesis using step mm ne pd False b(3) lb by (auto intro!: exI [of _ "got @ b"])
    next
      case 3
      have "0 < io_start S1 \<or> length (io_in S1) < io_size S1" using b(5) ne by simp
      from b(3) this show ?thesis
      proof (cases rule: STREAMReadCharsToBuffer_plain)
        case (1 c S2)
        then have "waiting S2 \<noteq> []" by simp
        then show ?thesis using Suc.IH [OF 1(3), of "got @ b"] 1 3 mm False Suc.prems(4,5) step pd less lb by (auto simp: max_def)
      next
        case (2 S2)
        have "pending S2 = pending S1" using 2 3 by (simp add: pending_def)
        then show ?thesis using 2 3 mm False step pd ne lb by (auto simp: stream_codes intro!: exI [of _ "got @ b"])
      qed
    qed
  qed
qed simp

lemma io_fuel_pending: "length (pending S) + 2 < io_fuel S"
proof -
  have "length (bytes_of as) \<le> weight as" for as by (induction as rule: weight.induct) auto
  then have "length (bytes_of (io_arrivals S)) \<le> weight (io_arrivals S)" .
  then show ?thesis by (simp add: io_fuel_def pending_def waiting_def)
qed

lemma STREAMReadBytes_plain:
  assumes "plain_stream S" "0 < n"
  shows "pending S \<noteq> [] \<Longrightarrow> \<exists>b S1. STREAMReadBytes S n = Inr (int (length b), b, S1) \<and> b \<noteq> [] \<and> b @ pending S1 = pending S \<and> plain_stream S1 \<and> length b \<le> n"
    and "pending S = [] \<Longrightarrow> \<exists>S1. STREAMReadBytes S n = Inr (STREAM_CLOSED, [], S1)"
proof -
  have at_end: "io_start S < length (io_in S) \<longleftrightarrow> waiting S \<noteq> []" for S by (auto simp: waiting_def)
  have room: "0 < io_start S \<or> length (io_in S) < io_size S" if "waiting S = []"
    using that assms(1) by (auto simp: waiting_def plain_stream_def)
  have fuel: "length (pending S) + 1 < io_fuel S + n" for S using io_fuel_pending [of S] by simp
  show "\<exists>b S1. STREAMReadBytes S n = Inr (int (length b), b, S1) \<and> b \<noteq> [] \<and> b @ pending S1 = pending S \<and> plain_stream S1 \<and> length b \<le> n"
    if ne: "pending S \<noteq> []"
  proof (cases "waiting S = []")
    case False
    then show ?thesis using bytes_loop_plain [OF assms(1), of n "[]"] assms(2) fuel at_end by (simp add: STREAMReadBytes_def)
  next
    case True
    from assms(1) room [OF True] show ?thesis
    proof (cases rule: STREAMReadCharsToBuffer_plain)
      case (1 c S1)
      then have w: "waiting S1 \<noteq> []" by simp
      then have "STREAMReadBytes S n = bytes_loop (io_fuel S1 + n) S1 n []"
        using 1 True at_end by (simp add: STREAMReadBytes_def stream_codes)
      then show ?thesis using bytes_loop_plain [OF 1(3), of n "[]"] w assms(2) fuel [of S1] 1(5) by simp
    next
      case (2 S1)
      then show ?thesis using True ne by simp
    qed
  qed
  show "\<exists>S1. STREAMReadBytes S n = Inr (STREAM_CLOSED, [], S1)" if e: "pending S = []"
  proof -
    have w: "waiting S = []" using e by (simp add: pending_def)
    from assms(1) room [OF w] show ?thesis
    proof (cases rule: STREAMReadCharsToBuffer_plain)
      case (1 c S1)
      then show ?thesis using e by (simp add: pending_def)
    next
      case (2 S1)
      then show ?thesis using w at_end by (simp add: STREAMReadBytes_def) (simp add: waiting_def)
    qed
  qed
qed


lemma hash_portions_plain:
  "fed h ty f m \<Longrightarrow> plain_stream S \<Longrightarrow> length (pending S) < k \<Longrightarrow>
   \<exists>h' S1. hash_portions k n al h S = Inr (h', S1) \<and> fed h' ty f (m @ map char_byte (pending S))"
proof (induction k arbitrary: h m S)
  case (Suc k)
  show ?case
  proof (cases "pending S = []")
    case True
    then show ?thesis using STREAMReadBytes_plain(2) [OF Suc.prems(2), of 4096] Suc.prems(1) by auto
  next
    case False
    then obtain b S1 where b: "STREAMReadBytes S 4096 = Inr (int (length b), b, S1)" "b \<noteq> []" "b @ pending S1 = pending S"
        "plain_stream S1" "length b \<le> 4096"
      using STREAMReadBytes_plain(1) [OF Suc.prems(2), of 4096] by auto
    obtain h1 where h1: "HashUpdate n al h (map char_byte b) = Inr h1" "fed h1 ty f (m @ map char_byte b)"
      using hash_update_fed [OF Suc.prems(1), of "map char_byte b" n "\<lambda>t b. HashBytes n al t b 0" al] b(5)
      by (auto simp: HashUpdate_def simp del: hash_update.simps)
    have "length (pending S1) < k" using b(2,3) Suc.prems(3) by (metis length_append length_greater_0_conv less_add_same_cancel2
        less_Suc_eq_le order_less_le_trans)
    from Suc.IH [OF h1(2) b(4) this] obtain h' S2 where "hash_portions k n al h1 S1 = Inr (h', S2)"
      "fed h' ty f (m @ map char_byte b @ map char_byte (pending S1))" by auto
    then show ?thesis using b(1,3) h1(1) by (auto simp: stream_codes simp flip: map_append)
  qed
qed simp

text \<open>C26: The hash of a file is the digest of the standard for its contents, in the encoding asked for: for sha256 and
  ENCODE_BASE64 this is what the grant database records for a program.\<close>

theorem file_hashes_are_the_standards:
  assumes "hash_standard name = Some f" "STREAMOpen path = Some S" "plain_stream S"
  shows "HashFile n al STREAMOpen name path enc = Inr (Some (encoded enc (f (map char_byte (pending S)))))"
proof -
  have t: "\<forall>t\<in>set [name]. list_all name_char t \<and> t \<noteq> []" using standard_names [OF assms(1)] by simp
  obtain h where h: "HashInit name = Some h" "fed h name f []" using HashInit_standard [OF t assms(1)] by auto
  have "length (pending S) < io_fuel S" using io_fuel_pending [of S] by simp
  then obtain h' S1 where h': "hash_portions (io_fuel S) n al h S = Inr (h', S1)" "fed h' name f (map char_byte (pending S))"
    using hash_portions_plain [OF h(2) assms(3)] by fastforce
  have "HashFinish n al h' enc = Inr (encoded enc (f (map char_byte (pending S))))"
    using hash_end_fed [OF t, of h' f "map char_byte (pending S)"] h'(2) by (simp add: HashFinish_def del: hash_finish.simps)
  with h h' assms(2) show ?thesis by (simp add: HashFile_def HashSTREAM_def)
qed


theorem file_hashes_are_the_standards_witness:
  "HashFile 0 (\<lambda>_. True) (\<lambda>path. if path = ''/bin/ping'' then Some (sample_stream 4096 0 [Bytes ''contents of the'', Bytes '' file''] []) else None)
     ''sha256'' ''/bin/ping'' ENCODE_BASE64 =
   Inr (Some (encoded ENCODE_BASE64 (fips_sha256 (map char_byte ''contents of the file''))))"
  using file_hashes_are_the_standards [of "''sha256''" fips_sha256
      "\<lambda>path. if path = ''/bin/ping'' then Some (sample_stream 4096 0 [Bytes ''contents of the'', Bytes '' file''] []) else None" "''/bin/ping''"
      "sample_stream 4096 0 [Bytes ''contents of the'', Bytes '' file''] []" 0 "\<lambda>_. True" ENCODE_BASE64]
  by (simp add: hash_standard_def hash_standards_def tolower_def isupper_def sample_defs SS_EMBARGOED_def SS_DATA_ERROR_def)

section \<open>The JH hashes\<close>

lemma take_agree: "take k d = take k e \<Longrightarrow> i + n \<le> k \<Longrightarrow> take n (drop i d) = take n (drop i (e :: 'a list))"
proof -
  assume k: "take k d = take k e" "i + n \<le> k"
  then have "take (i + n) d = take (i + n) e" by (metis min.absorb1 take_take)
  then have "drop i (take (i + n) d) = drop i (take (i + n) e)" by simp
  then show ?thesis by (simp only: drop_take diff_add_inverse)
qed

lemma copy_data_agree:
  "take k d = take k e \<Longrightarrow> length d = length e \<Longrightarrow> i + n \<le> k \<Longrightarrow> copy_data off n d i c = copy_data off n e i c"
  using take_agree [of k d e i n] by (simp add: copy_data_def)

lemma jh_blocks_agree:
  "take k d = take k e \<Longrightarrow> length d = length e \<Longrightarrow> 8 * i + len \<le> n \<Longrightarrow> n div 8 < k \<Longrightarrow> jh_blocks len d i c = jh_blocks len e i c \<and>
    (case jh_blocks len d i c of Some (c', i', len') \<Rightarrow> 8 * i' + len' \<le> n | None \<Rightarrow> True)"
proof (induction len d i c rule: jh_blocks.induct)
  case (1 len d i c)
  show ?case
  proof (cases "512 \<le> len")
    case True
    then have "i + 64 \<le> k" using 1(4,5) by linarith
    then have same: "copy_data 0 64 d i c = copy_data 0 64 e i c" by (rule copy_data_agree [OF 1(2,3)])
    show ?thesis
    proof (cases "copy_data 0 64 d i c")
      case None
      then show ?thesis using same True by (simp add: jh_blocks.simps)
    next
      case (Some c1)
      have "jh_blocks len d i c = jh_blocks (len - 512) d (i + 64) (F8 c1)" "jh_blocks len e i c = jh_blocks (len - 512) e (i + 64) (F8 c1)"
        using True Some Some [unfolded same] by (simp_all add: jh_blocks.simps [of len])
      moreover have "8 * (i + 64) + (len - 512) \<le> n" using 1(4) True by simp
      ultimately show ?thesis using 1(1) [OF True Some 1(2,3) _ 1(5)] by auto
    qed
  next
    case False
    then show ?thesis using 1(4) by (simp add: jh_blocks.simps)
  qed
qed


lemma JHUpdate_agree:
  assumes "length d = length e" "take (length d div 8 + 1) d = take (length d div 8 + 1) e" "datasize_in_buffer c = 0"
  shows "JHUpdate c d (length d) = JHUpdate c e (length e)"
proof -
  let ?c = "c\<lparr>databitlen := databitlen c + word_of_nat (length d)\<rparr>"
  note b = jh_blocks_agree [OF assms(2,1), of 0 "length d" "length d" ?c, simplified]
  have start: "JHUpdate c x (length x) = (case jh_blocks (length x) x 0 (c\<lparr>databitlen := databitlen c + word_of_nat (length x)\<rparr>) of
      None \<Rightarrow> None
    | Some (c, index, len) \<Rightarrow> if 0 < len then
        (case copy_data 0 (if len mod 8 = 0 then len div 8 else len div 8 + 1) x index c of
           None \<Rightarrow> None | Some c \<Rightarrow> Some (c\<lparr>datasize_in_buffer := len\<rparr>)) else Some c)" for x
    using assms(3) by (simp add: JHUpdate_def Let_def)
  show ?thesis
  proof (cases "jh_blocks (length d) d 0 ?c")
    case None
    then show ?thesis using b assms(1) unfolding start by simp
  next
    case (Some r)
    obtain c1 i l where r: "r = (c1, i, l)" by (cases r)
    then have "8 * i + l \<le> length d" using Some b by auto
    then have "i + (if l mod 8 = 0 then l div 8 else l div 8 + 1) \<le> length d div 8 + 1" by auto
    note same = copy_data_agree [OF assms(2,1) this, of 0 c1]
    have "jh_blocks (length d) e 0 ?c = Some (c1, i, l)" using b Some r by simp
    then show ?thesis unfolding start unfolding assms(1) [symmetric] using Some r same by simp
  qed
qed

lemma datasize_E8: "datasize_in_buffer (E8 c) = datasize_in_buffer c"
proof -
  have "datasize_in_buffer (((update_roundconstant \<circ> R8) ^^ k) c) = datasize_in_buffer c" for k c
    by (induction k) (simp_all add: update_roundconstant_def R8_def Let_def)
  then show ?thesis by (simp add: E8_def E8_finaldegroup_def E8_initialgroup_def Let_def del: funpow.simps)
qed

lemma datasize_JHInit: "datasize_in_buffer (JHInit c len) = 0"
  by (simp add: JHInit_def F8_def Let_def datasize_E8)

definition jh_names :: "string list" where
  "jh_names = [''jh224'', ''jh256'', ''jh384'', ''jh512'', ''jh-224'', ''jh-256'', ''jh-384'', ''jh-512'']"

lemma HashInit_jh:
  assumes "map tolower t \<in> set jh_names"
  shows "\<exists>c. HashInit t = Some (new_hash t (JH_CTX c)) \<and> datasize_in_buffer c = 0"
proof -
  have "list_all (list_all name_char) jh_names" "list_all (\<lambda>n. n \<noteq> []) jh_names"
    by (simp_all add: jh_names_def name_char_def isspace_def)
  then have "list_all name_char (map tolower t)" "map tolower t \<noteq> []" using assms by (auto simp: list_all_iff)
  then have t: "\<forall>u\<in>set [t]. list_all name_char u \<and> u \<noteq> []" using tolower_name_char by (auto simp: list_all_iff)
  have ty: "strrep t (CHR '','') (CHR '' '') = t" using strrep_name t by simp
  have tk: "snd (GetToken (Some t) WS_PATTERN 0) = t" using GetToken_listing [OF t] by simp
  define l where "l = map tolower t"
  have low: "map tolower n = n" if "n \<in> set jh_names" for n
    using that by (auto simp: jh_names_def tolower_def isupper_def)
  have c: "strcasecmp t n = 0 \<longleftrightarrow> l = map tolower n" for n by (simp add: strcasecmp_0_iff l_def)
  note low = tolower_def isupper_def
  have i: "HashInit t = (
      if l = map tolower ''md5'' then Some (HashInitMD5 t)
      else if l = map tolower ''sha'' then Some (HashInitSHA t 0)
      else if l = map tolower ''sha1'' then Some (HashInitSHA t 0)
      else if l = map tolower ''sha256'' then Some (HashInitSHA t 256)
      else if l = map tolower ''sha512'' then Some (HashInitSHA t 512)
      else if l = map tolower ''sha-256'' then Some (HashInitSHA t 256)
      else if l = map tolower ''sha-512'' then Some (HashInitSHA t 512)
      else if l = map tolower ''whirl'' then Some (HashInitWhirlpool t)
      else if l = map tolower ''whirlpool'' then Some (HashInitWhirlpool t)
      else if l = map tolower ''jh224'' then HashInitJH t 224
      else if l = map tolower ''jh256'' then HashInitJH t 256
      else if l = map tolower ''jh384'' then HashInitJH t 384
      else if l = map tolower ''jh512'' then HashInitJH t 512
      else if l = map tolower ''jh-224'' then HashInitJH t 224
      else if l = map tolower ''jh-256'' then HashInitJH t 256
      else if l = map tolower ''jh-384'' then HashInitJH t 384
      else if l = map tolower ''jh-512'' then HashInitJH t 512
      else if strncasecmp t ''hmac-'' 5 = 0 \<and> t \<noteq> [] then Some (new_hash t (HMAC_CTX False (HashInit (drop 5 t))))
      else None)"
    unfolding HashInit.simps [of t] Let_def ty tk c ..
  have "\<exists>n\<in>{224, 256, 384, 512}. HashInit t = HashInitJH t n"
    using assms unfolding l_def [symmetric] jh_names_def list.set
    by (elim insertE emptyE) (simp_all add: i low)
  then obtain n where n: "n \<in> {224, 256, 384, 512}" "HashInit t = HashInitJH t n" by blast
  then show ?thesis using datasize_JHInit by (auto simp: HashInitJH_def)
qed

text \<open>C31: A JH digest does not depend on more than the first eighth of the data: \<^verbatim>\<open>HashUpdateJH\<close> passes the length in
  bytes where \<^verbatim>\<open>JHUpdate\<close> takes bits, so texts of the same length that agree there have the same digest.\<close>

theorem jh_digests_cover_an_eighth:
  assumes "map tolower name \<in> set jh_names" "length d = length e"
    "take (length d div 8 + 1) d = take (length d div 8 + 1) e"
  shows "HashBytes n al name d enc = HashBytes n al name e enc"
proof (cases n)
  case (Suc m)
  obtain c where c: "HashInit name = Some (new_hash name (JH_CTX c))" "datasize_in_buffer c = 0"
    using HashInit_jh [OF assms(1)] by blast
  have "HashUpdateJH c d = HashUpdateJH c e"
    unfolding HashUpdateJH_def by (rule JHUpdate_agree [OF assms(2,3) c(2)])
  then show ?thesis using c(1) by (simp add: Suc Let_def)
qed simp

theorem jh_digests_cover_an_eighth_witness:
  "HashBytes 1 (\<lambda>_. True) ''jh-256'' (replicate 10 0 @ replicate 60 1) ENCODE_HEX =
   HashBytes 1 (\<lambda>_. True) ''jh-256'' (replicate 10 0 @ replicate 60 2) ENCODE_HEX"
  by (rule jh_digests_cover_an_eighth) (simp_all add: jh_names_def tolower_def isupper_def)

end
