(* ===== verification/Crc32.thy ===== *)
theory Crc32
  imports BlockHash
begin

text \<open>
  \<^verbatim>\<open>crc32.c\<close>: the CRC-32 checksum by a table of 256 entries, in a variable of 64 bits (\<^verbatim>\<open>unsigned long\<close>),
  against the shift register that divides bit by bit by the polynomial in the comment of the file.
\<close>

definition crc32tab :: "64 word list" where
  "crc32tab = [
    0x00000000, 0x77073096, 0xee0e612c, 0x990951ba, 0x076dc419, 0x706af48f, 0xe963a535, 0x9e6495a3,
    0x0edb8832, 0x79dcb8a4, 0xe0d5e91e, 0x97d2d988, 0x09b64c2b, 0x7eb17cbd, 0xe7b82d07, 0x90bf1d91,
    0x1db71064, 0x6ab020f2, 0xf3b97148, 0x84be41de, 0x1adad47d, 0x6ddde4eb, 0xf4d4b551, 0x83d385c7,
    0x136c9856, 0x646ba8c0, 0xfd62f97a, 0x8a65c9ec, 0x14015c4f, 0x63066cd9, 0xfa0f3d63, 0x8d080df5,
    0x3b6e20c8, 0x4c69105e, 0xd56041e4, 0xa2677172, 0x3c03e4d1, 0x4b04d447, 0xd20d85fd, 0xa50ab56b,
    0x35b5a8fa, 0x42b2986c, 0xdbbbc9d6, 0xacbcf940, 0x32d86ce3, 0x45df5c75, 0xdcd60dcf, 0xabd13d59,
    0x26d930ac, 0x51de003a, 0xc8d75180, 0xbfd06116, 0x21b4f4b5, 0x56b3c423, 0xcfba9599, 0xb8bda50f,
    0x2802b89e, 0x5f058808, 0xc60cd9b2, 0xb10be924, 0x2f6f7c87, 0x58684c11, 0xc1611dab, 0xb6662d3d,
    0x76dc4190, 0x01db7106, 0x98d220bc, 0xefd5102a, 0x71b18589, 0x06b6b51f, 0x9fbfe4a5, 0xe8b8d433,
    0x7807c9a2, 0x0f00f934, 0x9609a88e, 0xe10e9818, 0x7f6a0dbb, 0x086d3d2d, 0x91646c97, 0xe6635c01,
    0x6b6b51f4, 0x1c6c6162, 0x856530d8, 0xf262004e, 0x6c0695ed, 0x1b01a57b, 0x8208f4c1, 0xf50fc457,
    0x65b0d9c6, 0x12b7e950, 0x8bbeb8ea, 0xfcb9887c, 0x62dd1ddf, 0x15da2d49, 0x8cd37cf3, 0xfbd44c65,
    0x4db26158, 0x3ab551ce, 0xa3bc0074, 0xd4bb30e2, 0x4adfa541, 0x3dd895d7, 0xa4d1c46d, 0xd3d6f4fb,
    0x4369e96a, 0x346ed9fc, 0xad678846, 0xda60b8d0, 0x44042d73, 0x33031de5, 0xaa0a4c5f, 0xdd0d7cc9,
    0x5005713c, 0x270241aa, 0xbe0b1010, 0xc90c2086, 0x5768b525, 0x206f85b3, 0xb966d409, 0xce61e49f,
    0x5edef90e, 0x29d9c998, 0xb0d09822, 0xc7d7a8b4, 0x59b33d17, 0x2eb40d81, 0xb7bd5c3b, 0xc0ba6cad,
    0xedb88320, 0x9abfb3b6, 0x03b6e20c, 0x74b1d29a, 0xead54739, 0x9dd277af, 0x04db2615, 0x73dc1683,
    0xe3630b12, 0x94643b84, 0x0d6d6a3e, 0x7a6a5aa8, 0xe40ecf0b, 0x9309ff9d, 0x0a00ae27, 0x7d079eb1,
    0xf00f9344, 0x8708a3d2, 0x1e01f268, 0x6906c2fe, 0xf762575d, 0x806567cb, 0x196c3671, 0x6e6b06e7,
    0xfed41b76, 0x89d32be0, 0x10da7a5a, 0x67dd4acc, 0xf9b9df6f, 0x8ebeeff9, 0x17b7be43, 0x60b08ed5,
    0xd6d6a3e8, 0xa1d1937e, 0x38d8c2c4, 0x4fdff252, 0xd1bb67f1, 0xa6bc5767, 0x3fb506dd, 0x48b2364b,
    0xd80d2bda, 0xaf0a1b4c, 0x36034af6, 0x41047a60, 0xdf60efc3, 0xa867df55, 0x316e8eef, 0x4669be79,
    0xcb61b38c, 0xbc66831a, 0x256fd2a0, 0x5268e236, 0xcc0c7795, 0xbb0b4703, 0x220216b9, 0x5505262f,
    0xc5ba3bbe, 0xb2bd0b28, 0x2bb45a92, 0x5cb36a04, 0xc2d7ffa7, 0xb5d0cf31, 0x2cd99e8b, 0x5bdeae1d,
    0x9b64c2b0, 0xec63f226, 0x756aa39c, 0x026d930a, 0x9c0906a9, 0xeb0e363f, 0x72076785, 0x05005713,
    0x95bf4a82, 0xe2b87a14, 0x7bb12bae, 0x0cb61b38, 0x92d28e9b, 0xe5d5be0d, 0x7cdcefb7, 0x0bdbdf21,
    0x86d3d2d4, 0xf1d4e242, 0x68ddb3f8, 0x1fda836e, 0x81be16cd, 0xf6b9265b, 0x6fb077e1, 0x18b74777,
    0x88085ae6, 0xff0f6a70, 0x66063bca, 0x11010b5c, 0x8f659eff, 0xf862ae69, 0x616bffd3, 0x166ccf45,
    0xa00ae278, 0xd70dd2ee, 0x4e048354, 0x3903b3c2, 0xa7672661, 0xd06016f7, 0x4969474d, 0x3e6e77db,
    0xaed16a4a, 0xd9d65adc, 0x40df0b66, 0x37d83bf0, 0xa9bcae53, 0xdebb9ec5, 0x47b2cf7f, 0x30b5ffe9,
    0xbdbdf21c, 0xcabac28a, 0x53b39330, 0x24b4a3a6, 0xbad03605, 0xcdd70693, 0x54de5729, 0x23d967bf,
    0xb3667a2e, 0xc4614ab8, 0x5d681b02, 0x2a6f2b94, 0xb40bbe37, 0xc30c8ea1, 0x5a05df1b, 0x2d02ef8d]"

definition crc32Init :: "64 word" where
  "crc32Init = 0xFFFFFFFF"

definition crc32Update :: "64 word \<Rightarrow> byte list \<Rightarrow> 64 word" where
  "crc32Update crc data = fold (\<lambda>b crc. drop_bit 8 crc XOR crc32tab ! unat (ucast b XOR (crc AND 0x000000FF))) data crc"

definition crc32Finish :: "64 word \<Rightarrow> 64 word" where
  "crc32Finish crc = NOT crc"

section \<open>The shift register\<close>

text \<open>
  The polynomial with the exponents 32, 26, 23, 22, 16, 12, 11, 10, 8, 7, 5, 4, 2, 1 and 0, its
  coefficients from the lowest exponent at bit 31 to that of 31 at bit 0.
\<close>

definition polynomial :: "64 word" where
  "polynomial = fold (\<lambda>e p. set_bit (31 - e) p) [26, 23, 22, 16, 12, 11, 10, 8, 7, 5, 4, 2, 1, 0] 0"

definition crc_bit :: "64 word \<Rightarrow> 64 word" where
  "crc_bit r = (if bit r 0 then drop_bit 1 r XOR polynomial else drop_bit 1 r)"

definition crc_byte :: "byte \<Rightarrow> 64 word \<Rightarrow> 64 word" where
  "crc_byte b r = (crc_bit ^^ 8) (r XOR ucast b)"

definition crc32_checksum :: "byte list \<Rightarrow> 64 word" where
  "crc32_checksum m = NOT (fold crc_byte m 0xFFFFFFFF)"

lemma polynomial: "polynomial = 0xEDB88320"
  by (simp add: polynomial_def set_bit_eq_or)

lemma crc_bit_code [code]: "crc_bit r = (if r AND 1 = 1 then drop_bit 1 r XOR 0xEDB88320 else drop_bit 1 r)"
  by (simp add: crc_bit_def polynomial bit_iff_odd and_one_eq odd_iff_mod_2_eq_one)

lemma crc_bit_xor: "crc_bit (x XOR y) = crc_bit x XOR crc_bit y"
proof -
  have "drop_bit 1 (x XOR y) = drop_bit 1 x XOR drop_bit 1 y" by (simp add: drop_bit_xor)
  then show ?thesis by (auto simp: crc_bit_def bit_simps xor.assoc xor.commute xor.left_commute)
qed

lemma crc_bits_xor: "(crc_bit ^^ n) (x XOR y) = (crc_bit ^^ n) x XOR (crc_bit ^^ n) y"
  by (induction n) (simp_all add: crc_bit_xor)

lemma crc_bits_shift: "(\<forall>i<n. \<not> bit x i) \<Longrightarrow> (crc_bit ^^ n) x = drop_bit n x"
proof (induction n arbitrary: x)
  case (Suc n)
  then have "crc_bit x = drop_bit 1 x" by (simp add: crc_bit_def)
  moreover have "\<forall>i<n. \<not> bit (drop_bit 1 x) i" using Suc.prems by (simp add: bit_simps)
  ultimately have "(crc_bit ^^ n) (crc_bit x) = drop_bit n (drop_bit 1 x)" using Suc.IH [of "drop_bit 1 x"] by metis
  then show ?case by (simp add: funpow_swap1)
qed simp

lemma crc_bits_8: "(crc_bit ^^ 8) x = crc_bit (crc_bit (crc_bit (crc_bit (crc_bit (crc_bit (crc_bit (crc_bit x)))))))"
  by (simp add: eval_nat_numeral)

lemma power_0: "(crc_bit ^^ 8) (push_bit 0 1) = 0x77073096"
  by (simp add: crc_bits_8 crc_bit_def polynomial)
lemma power_1: "(crc_bit ^^ 8) (push_bit 1 1) = 0xee0e612c"
  by (simp add: crc_bits_8 crc_bit_def polynomial)
lemma power_2: "(crc_bit ^^ 8) (push_bit 2 1) = 0x76dc419"
  by (simp add: crc_bits_8 crc_bit_def polynomial)
lemma power_3: "(crc_bit ^^ 8) (push_bit 3 1) = 0xedb8832"
  by (simp add: crc_bits_8 crc_bit_def polynomial)
lemma power_4: "(crc_bit ^^ 8) (push_bit 4 1) = 0x1db71064"
  by (simp add: crc_bits_8 crc_bit_def polynomial)
lemma power_5: "(crc_bit ^^ 8) (push_bit 5 1) = 0x3b6e20c8"
  by (simp add: crc_bits_8 crc_bit_def polynomial)
lemma power_6: "(crc_bit ^^ 8) (push_bit 6 1) = 0x76dc4190"
  by (simp add: crc_bits_8 crc_bit_def polynomial)
lemma power_7: "(crc_bit ^^ 8) (push_bit 7 1) = 0xedb88320"
  by (simp add: crc_bits_8 crc_bit_def polynomial)

text \<open>The table doubles: the entries with a new bit are the ones without it, with the entry of the bit added.\<close>

definition doubles :: "nat \<Rightarrow> bool" where
  "doubles k \<longleftrightarrow> map (\<lambda>x. (crc_bit ^^ 8) (push_bit k 1) XOR x) (take (2 ^ k) crc32tab) = take (2 ^ k) (drop (2 ^ k) crc32tab)"

lemma doubles_0: "doubles 0"
  unfolding doubles_def power_0 by (simp add: crc32tab_def)

lemma doubles_1: "doubles 1"
  unfolding doubles_def power_1 by (simp add: crc32tab_def)

lemma doubles_2: "doubles 2"
  unfolding doubles_def power_2 by (simp add: crc32tab_def)

lemma doubles_3: "doubles 3"
  unfolding doubles_def power_3 by (simp add: crc32tab_def)

lemma doubles_4: "doubles 4"
  unfolding doubles_def power_4 by (simp add: crc32tab_def)

lemma doubles_5: "doubles 5"
  unfolding doubles_def power_5 by (simp add: crc32tab_def)

lemma doubles_6: "doubles 6"
  unfolding doubles_def power_6 by (simp add: crc32tab_def)

lemma doubles_7: "doubles 7"
  unfolding doubles_def power_7 by (simp add: crc32tab_def)

lemma doubles: "k < 8 \<Longrightarrow> doubles k"
  using doubles_0 doubles_1 doubles_2 doubles_3 doubles_4 doubles_5 doubles_6 doubles_7
  by (auto simp: numeral_eq_Suc less_Suc_eq)

lemma length_crc32tab: "length crc32tab = 256"
  by (simp add: crc32tab_def)

lemma word_of_nat_top:
  assumes "j < 2 ^ k"
  shows "word_of_nat (2 ^ k + j) = push_bit k 1 XOR (word_of_nat j :: 64 word)"
proof (rule bit_word_eqI)
  fix n
  assume n: "n < LENGTH(64)"
  have low: "\<not> bit j n" if "k \<le> n" for n
    using that assms by (metis bit_take_bit_iff not_le take_bit_nat_eq_self)
  then have "bit (2 ^ k + j) n \<longleftrightarrow> n = k \<or> bit j n"
    using disjunctive_add [of "2 ^ k" j] by (auto simp: bit_simps bit_exp_iff)
  then show "bit (word_of_nat (2 ^ k + j) :: 64 word) n = bit (push_bit k 1 XOR (word_of_nat j :: 64 word)) n"
    using n low [of k] by (auto simp: bit_word_of_nat bit_simps simp del: of_nat_add)
qed

lemma crc32tab_nth: "k \<le> 8 \<Longrightarrow> i < 2 ^ k \<Longrightarrow> crc32tab ! i = (crc_bit ^^ 8) (word_of_nat i)"
proof (induction k arbitrary: i)
  case 0
  then show ?case using crc_bits_shift [of 8 0] by (simp add: crc32tab_def)
next
  case (Suc k)
  show ?case
  proof (cases "i < 2 ^ k")
    case False
    then obtain j where i: "i = 2 ^ k + j" "j < 2 ^ k" using Suc.prems(2) by (metis add_less_cancel_left le_Suc_ex mult_2 not_less power_Suc)
    have room: "2 ^ k + 2 ^ k \<le> (2 :: nat) ^ 8"
      using Suc.prems(1) power_increasing [of "Suc k" 8 "2 :: nat"] by simp
    have "crc32tab ! i = take (2 ^ k) (drop (2 ^ k) crc32tab) ! j" using i room length_crc32tab by simp
    also have "\<dots> = map (\<lambda>x. (crc_bit ^^ 8) (push_bit k 1) XOR x) (take (2 ^ k) crc32tab) ! j"
      using doubles [of k] Suc.prems(1) by (simp add: doubles_def)
    also have "\<dots> = (crc_bit ^^ 8) (push_bit k 1) XOR crc32tab ! j" using i room length_crc32tab by simp
    also have "\<dots> = (crc_bit ^^ 8) (word_of_nat i)" unfolding i(1) word_of_nat_top [OF i(2)] crc_bits_xor
      using Suc i(2) by simp
    finally show ?thesis .
  qed (use Suc in simp)
qed

lemma table_step: "drop_bit 8 crc XOR crc32tab ! unat (ucast b XOR (crc AND 0xFF)) = crc_byte b crc"
proof -
  define low high where "low = ucast b XOR (crc AND 0xFF)" and "high = crc AND NOT 0xFF"
  have mask: "(0xFF :: 64 word) = mask 8" by (simp add: mask_eq_exp_minus_1)
  have crc: "crc XOR ucast b = high XOR low" by (rule bit_word_eqI) (auto simp: low_def high_def bit_simps)
  have "\<forall>i<8. \<not> bit high i" by (simp add: high_def mask bit_simps)
  then have "(crc_bit ^^ 8) high = drop_bit 8 high" by (rule crc_bits_shift)
  also have "\<dots> = drop_bit 8 crc"
    by (rule bit_word_eqI) (auto simp: high_def mask bit_simps dest: bit_imp_le_length)
  finally have high: "(crc_bit ^^ 8) high = drop_bit 8 crc" .
  have "low = take_bit 8 low"
    by (rule bit_word_eqI) (auto simp: low_def mask bit_simps dest: bit_imp_le_length)
  then have "unat low = unat low mod 2 ^ 8" by (metis take_bit_eq_mod unsigned_take_bit_eq)
  then have "unat low < 2 ^ 8" using mod_less_divisor [of "2 ^ 8" "unat low"] by simp
  then have "crc32tab ! unat low = (crc_bit ^^ 8) low" using crc32tab_nth [of 8 "unat low"] by simp
  then show ?thesis by (simp add: crc_byte_def crc crc_bits_xor high low_def [symmetric])
qed

theorem crc32_is_the_division:
  "crc32Finish (foldl crc32Update crc32Init ds) = crc32_checksum (concat ds)"
proof -
  have run: "crc32Update crc m = fold crc_byte m crc" for crc m
    by (simp add: crc32Update_def table_step)
  have "foldl crc32Update crc ds = fold crc_byte (concat ds) crc" for crc
    by (induction ds arbitrary: crc) (simp_all add: run)
  then show ?thesis by (simp add: crc32Finish_def crc32_checksum_def crc32Init_def)
qed

end
