(* ===== verification/Spec2Isabelle.thy ===== *)
theory Spec2Isabelle
  imports ServerTermination ServerHoles ConfigRoundTrip Client Samples EncodingLosses ListProperties
    MapSearch StreamProperties StrLenCacheProperties HashFiles Crc32
begin

text \<open>
  Invocation: a server that runs configured commands with more rights than the programs that ask
  for them, its client \<open>invoke\<close>, and the \<open>grant\<close> program (\<open>*.c\<close>), on the library \<open>libUseful-4\<close>.

  How the program works.  The server reads \<open>/etc/invoke.conf\<close> into a tree of named blocks.  A
  client connects to a socket; the kernel tells the server the process, user and group of the
  peer (\<open>peer.c\<close>).  Each line of the client is a request: \<open>AUTH\<close> checks a password with PAM
  (\<open>auth.c\<close>), \<open>EXEC\<close> and \<open>INVOKE\<close> look for the entry of the configuration that decides
  (\<open>server.c\<close>, \<open>FindPermission\<close>), which may ask the client for a password in turn, and consult the
  database of granted programs (\<open>appdb.c\<close>).  A permitted \<open>INVOKE\<close> carries out the items of the
  entry: requirements, switching identity, files to and from the client (\<open>book_inout.c\<close>), and
  commands, whose templates are filled with the variables of the request and which may be talked
  to by an expect script.

  Theories, in the order of the code:

  \<^item> \<open>Inv_Prelude\<close>: characters, C strings, numbers, faults.  A C string is the list of its bytes before
    the NUL, a pointer into it the suffix it points to, a null pointer \<open>None\<close>.  Undefined behaviour
    (reading past the end, null or stale pointers) is a fault value, never an invented result.
  \<^item> \<open>CString\<close>: \<open>String.c\<close>, \<open>GeneralFunctions.c\<close> on the contents of strings.  \<open>StrLenCache\<close>: \<open>String.c\<close> on buffers
    in memory.  \<open>StrLenCacheProperties\<close>: these behave as the contents, and the functions that do not.  \<open>Tokenizer\<close>, \<open>TokenizerModes\<close>, \<open>DocTokens\<close>:
    \<open>Tokenizer.c\<close> and the ways the program calls it.
  \<^item> \<open>ListNodes\<close>, \<open>Vars\<close>, \<open>VarSubst\<close>: lists as sequences, as the rest of the program uses them, and
    \<open>Vars.c\<close>.  \<open>ListHeap\<close>: \<open>List.c\<close> itself, nodes linked by pointers.  \<open>ListRefinement\<close>, \<open>ListProperties\<close>:
    these implement the sequences.  \<open>OrderedLists\<close>: sorted lists, and where exchanges and timeouts fail.
    \<open>MapSearch\<close>: which names find an item of a map.
  \<^item> \<open>Streams\<close>: the buffers of \<open>Stream.c\<close>.  \<open>StreamProperties\<close>: they read the lines and copy the bytes of the
    byte sequences the other theories use, and where they do not.
  \<^item> \<open>DataParser\<close>, \<open>ConfigParser\<close>, \<open>ConfigRoundTrip\<close>: the document tree and the parser of
    configuration files (\<open>DataParser.c\<close>), and that it inverts the documented way to write them.
  \<^item> \<open>AppDB\<close>: \<open>common.c\<close>, \<open>appdb.c\<close>, \<open>grant.c\<close>.  \<open>Auth\<close>: \<open>auth.c\<close>.  \<open>Expect\<close>: \<open>Expect.c\<close> and
    \<open>ProcessExpect\<close>.
  \<^item> \<open>ServerActions\<close>: \<open>peer.c\<close>, \<open>book_inout.c\<close>, and \<open>server.c\<close> from \<open>InvokeCheckArgs\<close> to \<open>RunInvoke\<close>.
    \<open>Server\<close>: the handlers.  \<open>ServerSafety\<close>, \<open>ServerTermination\<close>: the policy they obey and that they
    end.  \<open>ServerHoles\<close>: what requirements guard and what they let pass, and the requests that get around the
    rules of an entry.  \<open>Client\<close>: \<open>client.c\<close>.  \<open>Samples\<close>: a small world for the witnesses.
  \<^item> \<open>Encodings\<close>: \<open>base64.c\<close>, \<open>Encodings.c\<close> and the quoting of \<open>Http.c\<close>, and the encodings that can be undone, for data
    of less than 2^29 bytes, since the code computes four times their length as an \<open>int\<close>.  \<open>EncodingLosses\<close>: what the others
    lose.

  \<^item> \<open>BlockHash\<close>: what block hashes share.  \<open>Sha2\<close>, \<open>Md5\<close>, \<open>Sha1\<close>, \<open>Whirlpool\<close>, \<open>Jh\<close>, \<open>Crc32\<close>: \<open>sha2.c\<close>, \<open>md5c.c\<close>,
    \<open>sha1.c\<close>, \<open>whirlpool.c\<close>, \<open>jh_ref.c\<close>, \<open>crc32.c\<close> on their context records, with the buffers as byte lists.
    \<open>Sha2Properties\<close>, \<open>Md5Properties\<close>, \<open>Sha1Properties\<close>, \<open>WhirlpoolProperties\<close>: the standards, written down
    independently of the code, and that the code computes them whatever the pieces of a message.
    \<open>Hashes\<close>: \<open>Hash.c\<close>.  \<open>HashProperties\<close>, \<open>HashFiles\<close>: hash objects, lists of types, HMAC and hashes of
    files against the standards, and what is wrong with HMAC and the JH hashes.

  Interfaces (locales): \<open>simulation\<close> (steps that answer alike), \<open>streaming_hash\<close> (a hash fed in pieces is
  the hash of the whole), \<open>sha2_laws\<close> (what the widths of SHA-2 have in common),
  \<open>token_source\<close> (a tokenizer makes progress), \<open>pad_alphabet\<close> (a base 64 whose padding is a digit), \<open>var_store\<close> (the last setting of
  a name is read back), \<open>request_handler\<close> (a handler keeps the trace within the policy and consumes
  input); each is interpreted on the model's own functions.

  Integers.  Sizes and counts that come from a request are converted as the code converts them: what is copied for a size
  is the size as a \<open>signed long\<close> (\<open>copy_limit\<close>, \<open>send_loop\<close>), and the length of a word is compared with a bound as a \<open>size_t\<close>
  (\<open>check_args\<close>).

  Environment.  The file system, the password database, PAM, the clock and the commands that are
  run are parameters (\<open>senv\<close>, \<open>pam_lib\<close>, \<open>cenv\<close>) whose answers may depend on everything the server
  has done so far; nothing is assumed about them.

  Fuel.  \<open>SubstituteVarsInString\<close> starts with the length of the template, \<open>ParserConfigItems\<close> with
  the length of the document, \<open>HandleClientRequest\<close> with one more than the bytes of the client:
  every step consumes input, and the theories prove that the fuel is never used up.  The calls of
  \<open>Hash.c\<close> among each other are bounded by the depth they can reach: one for plain types, two for
  lists of types and HMAC; the theorems hold for every greater depth too.

  Not modelled: sockets, TLS and stream processors, forking and terminals,
  logging, memory management of live objects, the network clients and terminal widgets of
  the library, which the program does not use or only calls.
\<close>

section \<open>Properties\<close>

text \<open>C1: whatever a client sends, every privileged action of the server (running a command, sending or
  writing a file, switching identity, taking a lock) belongs to a command that was granted before,
  at a moment when the policy allowed it, and whose handling had not finished.\<close>

theorem only_allowed_actions_happen:
  assumes "ParserParseConfig conf = Inr items" "serve env conf p input = Inr s" "p_flags p = 0"
    and "ev \<in> set (s_trace s)" "privileged ev"
  shows "\<exists>before c between after. s_trace s = before @ Granted c # between @ ev # after \<and>
     policy (env\<lparr>e_config := items\<rparr>) p before c \<and> (\<forall>e \<in> set between. e \<noteq> Finished)"
proof -
  have "HandleClient (env\<lparr>e_config := items\<rparr>) p input = Inr s" using assms(1,2) by (simp add: serve_def)
  then show ?thesis
    using HandleClient_policy assms(3-5) respects_policy_privileged by blast
qed

theorem only_allowed_actions_happen_witness:
  "\<exists>items s before c between after. ParserParseConfig ping_config = Inr items \<and>
     serve sample_env ping_config bob ping_request = Inr s \<and>
     s_trace s = before @ Granted c # between @ Spawned ''/bin/ping example.org'' [] # after \<and>
     policy (sample_env\<lparr>e_config := items\<rparr>) bob before c"
proof -
  obtain items s where s: "ParserParseConfig ping_config = Inr items"
    "serve sample_env ping_config bob ping_request = Inr s" "Spawned ''/bin/ping example.org'' [] \<in> set (s_trace s)"
    using ping_trace by auto
  from only_allowed_actions_happen [OF s(1,2) bob_flags s(3)] s(1,2) show ?thesis by auto
qed

text \<open>C2: when \<open>FindPermission\<close> returns, its verdict is yes exactly when the first entry of the
  configuration that carries the name of the command, the path of the program or its basename
  exists and either the program has been granted the command or the rules of the entry permit it.\<close>

theorem permission_is_what_the_rules_say:
  assumes "FindPermission env (HandleClientRequest n env) command s = Inr (ok, s')"
  shows "ok \<longleftrightarrow> (\<exists>rules. deciding_rules (e_config env) (s_peer s) command = Some rules \<and>
     (db_check env (s_trace s) command (p_exe (s_peer s)) = Inr True \<or>
      rules_permit (s_peer s) (authenticated s') rules))"
  using client_request.find_permission_step assms by (simp add: FindPermission_def)

theorem permission_is_what_the_rules_say_witness:
  "\<exists>ok s'. FindPermission (sample_env\<lparr>e_config := [Node (Some ''ping'') ITEM_ENTITY (Sub (Some ''ping'')
       [Node (Some ''user'') ITEM_STRING (Text ''eve, bob'')])]\<rparr>) (HandleClientRequest 0 sample_env) ''ping''
       (start_state bob []) = Inr (ok, s') \<and>
     (ok \<longleftrightarrow> rules_permit bob (authenticated s') [Node (Some ''user'') ITEM_STRING (Text ''eve, bob'')])"
proof -
  let ?config = "[Node (Some ''ping'') ITEM_ENTITY (Sub (Some ''ping'') [Node (Some ''user'') ITEM_STRING (Text ''eve, bob'')])]"
  let ?env = "sample_env\<lparr>e_config := ?config\<rparr>"
  have "map_sum id fst (FindPermission ?env (HandleClientRequest 0 ?env) ''ping'' (start_state bob [])) = Inr True"
    by code_simp
  then obtain s' where s': "FindPermission ?env (HandleClientRequest 0 ?env) ''ping'' (start_state bob []) = Inr (True, s')"
    by (cases "FindPermission ?env (HandleClientRequest 0 ?env) ''ping'' (start_state bob [])") auto
  have "db_check ?env [] ''ping'' (p_exe bob) = Inr False"
    by (simp add: db_check_def AppDBCheck_def sample_env_def)
  with permission_is_what_the_rules_say [OF s'] s' show ?thesis
    by (auto simp: start_state_def HandleClientRequest.simps(1) FindPermission_def)
qed

text \<open>C3: every session ends: the server handles any bytes of a client under any configuration without
  running out of the fuel it starts with, which is one more than the number of bytes.\<close>

theorem every_session_ends: "serve env conf p input \<noteq> Inl OutOfFuel"
  by (rule serve_fuel)

lemma peer_pairs_set: 
  assumes "peer_pairs p = xs @ (n, d) # ys"
  shows "n \<noteq> [] \<and> (\<forall>(k, _) \<in> set ys. strlwr n \<noteq> strlwr k)"
  using assms unfolding peer_pairs_def
  by (auto simp: Cons_eq_append_conv strlwr_def tolower_def isupper_def)

lemma invoke_vars_value:
  assumes "peer_pairs p = xs @ (n, d) # ys" "invoke_vars p pairs = Inr vs"
  shows "GetVar vs n = Inr d"
  using var_list.last_set_wins [of "[]" "pairs @ xs" n d ys vs n] assms peer_pairs_set [OF assms(1)]
  by (simp add: invoke_vars_def set_vars_run)

text \<open>C4: whatever variables a client sends, the variables \<open>invoke:*\<close> a command template sees are
  those of the peer the kernel reported.\<close>

theorem peer_variables_cannot_be_forged:
  "\<exists>vs. invoke_vars p pairs = Inr vs \<and>
     GetVar vs ''invoke:user'' = Inr (p_user p) \<and>
     GetVar vs ''invoke:group'' = Inr (p_group p) \<and>
     GetVar vs ''invoke:uid'' = Inr (fmt_d (p_uid p)) \<and>
     GetVar vs ''invoke:gid'' = Inr (fmt_d (p_gid p)) \<and>
     GetVar vs ''invoke:peer_pid'' = Inr (fmt_d (p_pid p)) \<and>
     GetVar vs ''invoke:peer_program'' = Inr (p_exe p)"
proof -
  obtain vs where vs: "invoke_vars p pairs = Inr vs"
    using var_list.run_sets_total [of "[]" "pairs @ peer_pairs p"]
    by (auto simp: invoke_vars_def set_vars_run)
  have "GetVar vs n = Inr d" if "(n, d) \<in> set (peer_pairs p)" for n d
    using invoke_vars_value [OF _ vs] split_list [OF that] by blast
  with vs show ?thesis by (simp add: peer_pairs_def)
qed

text \<open>C7: the settings and words on the command line of \<open>invoke\<close> arrive at the handler of the request
  as the command and the variables they were meant as.\<close>

theorem command_line_reaches_the_handler:
  assumes "plain_word cmd" "cmd \<noteq> []" "\<forall>kv \<in> set kvs. setting_ok kv" "as \<noteq> []" "\<forall>a \<in> set as. arg_ok a"
    and "client_main cenv True (cmd # map setting_text kvs @ as) typed [] = Some c"
  shows "\<exists>line details. c_done c = [ToServer line] \<and>
     GetToken (Some (StripTrailingWhitespace line)) REQUEST_PATTERN GETTOKEN_MULTI_SEP = (Some details, ''invoke'') \<and>
     invoke_details (Some details) = Inr (cmd, args_pairs kvs as)"
proof -
  let ?vars = "spaced (map setting_text kvs) @ '' args='' @ quoted (spaced as)"
  let ?details = "'' '' @ cmd @ '' '' @ ?vars"
  have "c_done c = [ToServer (request_line cmd ?vars)]"
    using assms(6) client_command_line [OF assms(3-5)]
    by (auto simp add: client_main_def did_def client_loop.simps read_line_def Let_def)
  moreover have "StripTrailingWhitespace (request_line cmd ?vars) = ''invoke:'' @ ?details"
    using StripTrailingWhitespace_snoc_space [of LF "''invoke:'' @ ?details"]
    by (simp add: request_line_def StripTrailingWhitespace_id quoted_def)
  ultimately show ?thesis
    using request_token [of ?details] request_details [OF assms(1-5)]
    by (intro exI [of _ "request_line cmd ?vars"] exI [of _ ?details]) (simp only:)
qed

theorem command_line_reaches_the_handler_witness:
  "\<exists>line details. GetToken (Some (StripTrailingWhitespace line)) REQUEST_PATTERN GETTOKEN_MULTI_SEP =
       (Some details, ''invoke'') \<and>
     invoke_details (Some details) =
       Inr (''mount'', [(''dev'', ''sda1''), ([], []), (''args'', ''-o ro'')])"
proof -
  let ?env = "\<lparr>ce_can_write = (\<lambda>p. True), ce_read = (\<lambda>p. None), ce_stream_size = (\<lambda>p. 0), ce_size = 0\<rparr>"
  have ok: "plain_word ''mount''" "\<forall>kv \<in> set [(''dev'', ''sda1'')]. setting_ok kv"
    "\<forall>a \<in> set [''-o'', ''ro'']. arg_ok a"
    by (simp_all add: plain_word_def setting_ok_def arg_ok_def name_ok_def bare_ok_def plain_for_def
        tok_quote_def isspace_def)
  have "\<exists>c. client_main ?env True (''mount'' # map setting_text [(''dev'', ''sda1'')] @ [''-o'', ''ro'']) [] [] = Some c"
    using client_command_line [OF ok(2) _ ok(3)] by (simp add: client_main_def)
  then show ?thesis
    using command_line_reaches_the_handler [OF ok(1) _ ok(2) _ ok(3)]
    by (fastforce simp: args_pairs_def)
qed

definition reserved_names :: "string list" where
  "reserved_names = [''args'', ''invoke:user'', ''invoke:group'', ''invoke:uid'', ''invoke:gid'',
     ''invoke:peer_pid'', ''invoke:peer_program'']"

lemma strlwr_peer_names: "(k, d) \<in> set (peer_pairs p) \<Longrightarrow> strlwr k \<in> set reserved_names"
  by (auto simp: peer_pairs_def reserved_names_def strlwr_def tolower_def isupper_def)

text \<open>A setting on the command line of \<open>invoke\<close> whose name is not reserved and not set again is the
  value of the variable of that name, and \<open>args\<close> holds the plain words.\<close>

theorem settings_become_variables:
  assumes "kvs = before @ (k, v) # after" "k \<noteq> []" "strlwr k \<notin> set reserved_names"
    and "\<forall>(k', _) \<in> set after. strlwr k' \<noteq> strlwr k"
    and "invoke_vars p (args_pairs kvs as) = Inr vs"
  shows "GetVar vs k = Inr v \<and> GetVar vs ''args'' = Inr (join_with (CHR '' '') as)"
proof
  have args: "strlwr ''args'' = ''args''" by (simp add: strlwr_def tolower_def isupper_def)
  have args_reserved: "''args'' \<in> set reserved_names" by (simp add: reserved_names_def)
  let ?blank = "if kvs = [] then [] else [([], [])] :: (string \<times> string) list"
  have run: "var_list.run_sets [] (before @ (k, v) # after @ ?blank @ (''args'', join_with (CHR '' '') as) # peer_pairs p) = Inr vs"
    using assms(1,5) by (simp add: invoke_vars_def set_vars_run args_pairs_def)
  show "GetVar vs k = Inr v"
  proof (rule var_list.last_set_wins [OF vars_ok_Nil run assms(2) refl])
    have "strlwr k \<noteq> strlwr (fst x)"
      if mem: "x \<in> set (after @ ?blank @ (''args'', join_with (CHR '' '') as) # peer_pairs p)" for x
    proof -
      obtain k' d where x: "x = (k', d)" by (cases x)
      consider "(k', d) \<in> set after" | "k' = []" | "k' = ''args''" | "(k', d) \<in> set (peer_pairs p)"
        using mem x by (auto split: if_splits)
      then show ?thesis
      proof cases
        case 1
        then show ?thesis using assms(4) x by fastforce
      next
        case 2
        then show ?thesis using assms(2) x by simp
      next
        case 3
        then show ?thesis using assms(3) args args_reserved x by (metis fst_conv)
      next
        case 4
        then show ?thesis using assms(3) strlwr_peer_names x by (metis fst_conv)
      qed
    qed
    then show "\<forall>(k', _) \<in> set (after @ ?blank @ (''args'', join_with (CHR '' '') as) # peer_pairs p). strlwr k \<noteq> strlwr k'"
      by (simp only: case_prod_unfold) blast
  qed
  have run2: "var_list.run_sets [] ((kvs @ ?blank) @ (''args'', join_with (CHR '' '') as) # peer_pairs p) = Inr vs"
    using assms(5) by (simp add: invoke_vars_def set_vars_run args_pairs_def)
  show "GetVar vs ''args'' = Inr (join_with (CHR '' '') as)"
    by (rule var_list.last_set_wins [OF vars_ok_Nil run2])
      (auto simp: peer_pairs_def strlwr_def tolower_def isupper_def)
qed

theorem settings_become_variables_witness:
  "\<exists>vs. invoke_vars bob (args_pairs [(''dev'', ''sda1'')] [''-o'', ''ro'']) = Inr vs \<and>
     GetVar vs ''dev'' = Inr ''sda1'' \<and> GetVar vs ''args'' = Inr ''-o ro''"
proof -
  obtain vs where vs: "invoke_vars bob (args_pairs [(''dev'', ''sda1'')] [''-o'', ''ro'']) = Inr vs"
    using var_list.run_sets_total [of "[]" "args_pairs [(''dev'', ''sda1'')] [''-o'', ''ro''] @ peer_pairs bob"]
    by (auto simp: invoke_vars_def set_vars_run)
  have "strlwr ''dev'' \<notin> set reserved_names"
    by (simp add: reserved_names_def strlwr_def tolower_def isupper_def)
  with settings_become_variables [OF _ _ this _ vs, of "[]" "''sda1''" "[]"] vs show ?thesis by simp
qed

lemma run_options_end: "run_options (Some []) opts = opts"
  by (simp add: run_options.simps)

text \<open>C8: a \<open>run\<close> line with a quoted template starts the template with every reference replaced by the
  filtered value of its variable, and nothing else.\<close>

theorem run_executes_the_expanded_template:
  assumes "vars_ok vs" "\<forall>seg \<in> set segs. seg_ok seg" "DQ \<notin> set (render segs)" "BSL \<notin> set (render segs)"
    and "GetVar vs ''InvokeMaxArgLen'' = Inr []"
  shows "RunCommand env (Some (dquote (render segs))) vs config s =
     run_spawn env
       \<lparr>r_cmd = concat (map (\<lambda>seg. case seg of Lit t \<Rightarrow> t
                                  | Ref name \<Rightarrow> MakeShellSafeString (var_value vs (strlwr name)) 0) segs),
        r_caps = [], r_expect = [], r_timeout = 0\<rparr> vs config s"
proof -
  have flags: "plain_mode SUBS_SHELL_SAFE" "\<not> hasflag SUBS_SHELL_SAFE SUBS_CASE_VARNAMES"
    "\<not> hasflag SUBS_SHELL_SAFE SUBS_STRIP_VARS_WHITESPACE" "\<not> hasflag SUBS_SHELL_SAFE SUBS_QUOTE_VARS"
    "hasflag SUBS_SHELL_SAFE SUBS_SHELL_SAFE"
    by (simp_all add: plain_mode_def hasflag_def subs_flags)
  have "seg_value vs SUBS_SHELL_SAFE = (\<lambda>seg. case seg of Lit t \<Rightarrow> t
      | Ref name \<Rightarrow> MakeShellSafeString (var_value vs (strlwr name)) 0)"
    by (rule ext) (simp add: subst_value_def flags split: seg.split)
  moreover have "atoi [] = 0" by (simp add: atoi_def strtoll10_def int32_of_def)
  ultimately show ?thesis
    using SubstituteVarsInString_template [OF assms(1) flags(1) assms(2)] GetToken_quoted_last [OF assms(3,4)] assms(5)
    by (simp add: RunCommand_def run_options_end)
qed

theorem run_executes_the_expanded_template_witness:
  "\<exists>vs. SetVar [] ''host'' ''a;b'' = Inr vs \<and>
     RunCommand sample_env (Some (dquote ''/bin/ping $(host)'')) vs None (start_state bob []) =
     run_spawn sample_env \<lparr>r_cmd = ''/bin/ping a'' @ BSL # '';b'', r_caps = [], r_expect = [], r_timeout = 0\<rparr>
       vs None (start_state bob [])"
proof -
  obtain vs where vs: "SetVar [] ''host'' ''a;b'' = Inr vs" "vars_ok vs" using SetVar_ok [OF vars_ok_Nil] by blast
  have low: "strlwr ''InvokeMaxArgLen'' \<noteq> strlwr ''host''" "strlwr ''host'' = ''host''"
    by (simp_all add: strlwr_def tolower_def isupper_def)
  have g: "GetVar vs ''InvokeMaxArgLen'' = Inr []" "GetVar vs ''host'' = Inr ''a;b''"
    using GetVar_SetVar [OF vars_ok_Nil vs(1)] low(1) by (simp_all add: GetVar_find)
  have "MakeShellSafeString ''a;b'' 0 = ''a'' @ BSL # '';b''"
    by (simp add: MakeShellSafeString_Cons shell_bad_chars_def)
  then show ?thesis
    using run_executes_the_expanded_template [OF vs(2) _ _ _ g(1), of "[Lit ''/bin/ping '', Ref ''host'']"
        sample_env None "start_state bob []"] vs(1) low(2) g(2)
    by (simp add: render_def var_value_def)
qed

text \<open>C13: with PAM, answering an authentication request either ends the process by closing a handle
  twice, namely when PAM knows one of the services, or refuses the peer.\<close>

theorem authentication_outcome:
  assumes "e_have_pam env" "s_pam s = NoHandle"
  shows "HandleClientAuth env details types s =
     (if \<exists>t \<in> set (services (if types = [] then ''login'' else types)). pam_start_ok (e_pam env (s_trace s)) t (p_user (s_peer s))
      then Inl BadPointer else Inr (emit [ToClient (''FAIL: Authentication failed'' @ [LF])] s))"
  using assms AuthPAM_verdict AuthPAMClose_verdict
  by (auto simp: HandleClientAuth_def Let_def auth_outcome_def emit_def)

theorem authentication_outcome_witness:
  "HandleClientAuth sample_env None ''login'' (start_state bob []) = Inl BadPointer"
proof -
  have "services ''login'' = [''login'']" by code_simp
  then show ?thesis
  using authentication_outcome [of sample_env "start_state bob []" None "''login''"] by (simp add: sample_env_def start_state_def)
qed

text \<open>\<open>chuser\<close> with a user that does not exist leaves the identity as it is and goes on.\<close>

theorem unknown_user_is_skipped:
  assumes "e_lookup_uid env name = -1"
  shows "run_items env config vs (Node (Some ''chuser'') ITEM_STRING (Text name) # ns) s = run_items env config vs ns s"
  using assms by (simp add: SwitchUser_def invoke_value_def item_text_def ParserItemIsValue_def item_types emit_def)

theorem unknown_user_is_skipped_witness:
  "run_items sample_env [] [] [Node (Some ''chuser'') ITEM_STRING (Text ''nobody'')] (start_state bob []) =
     Inr (start_state bob [])"
  using unknown_user_is_skipped [of sample_env "''nobody''"] by (simp add: sample_env_def)

end
